(* ===== verification/Prelude.thy ===== *)
theory Prelude
  imports Main "HOL-Library.Word" "HOL-Library.List_Lexorder" "HOL-Library.Monad_Syntax"
begin

unbundle bit_operations_syntax

text \<open>
  Shared vocabulary of the development: the machine types of the Go source, nil-able byte
  slices, block reads and writes in a byte array, little-endian integers, and the generic
  list lemmas the component theories use.

  Conventions used throughout.
  \<^item> A Go run-time panic (index or slice bounds out of range) is the value \<^term>\<open>None\<close> of
    an \<^typ>\<open>'a option\<close> result, written with the \<open>do\<close> notation of the option monad; a loop
    that may not return is also \<^term>\<open>None\<close>.
  \<^item> A returned \<open>error\<close> is the left value of a sum, \<^term>\<open>Inl e\<close>; a successful result is
    \<^term>\<open>Inr x\<close>.
  \<^item> A \<open>[]byte\<close> that may be \<open>nil\<close> is a \<open>slice\<close>; one that is never compared with
    \<open>nil\<close> is a plain byte list.
\<close>

section \<open>Machine types\<close>

type_synonym byte = "8 word"
type_synonym bytes = "byte list"
type_synonym u8 = "8 word"
type_synonym u16 = "16 word"
type_synonym u32 = "32 word"
type_synonym u64 = "64 word"

text \<open>The result of a call that returns an error value beside its result.\<close>

type_synonym ('e, 'a) result = "'e + 'a"

text \<open>The error values of the source, from every package.\<close>

datatype error =
    ErrPageFull | ErrInvalidTuple | ErrInvalidMeta
  | ErrBufferTooSmall | ErrEOF | ErrClosed
  | ErrBufferPoolFull | ErrChecksumMismatch u32
  | ErrInternalTooShort | ErrInternalTruncated
  | ErrKeyNotFound | ErrWriteConflict | ErrSerializationFailure | ErrDeadlockVictim
  | ErrInvalidLogRecord | ErrCRCMismatch | ErrLSNNotFound | ErrNotExist
  | ErrUnexpectedEOF | ErrInvalidSeek | ErrCatalogCorrupt string
  | ErrSavepointExists string | ErrSavepointNotFound string

datatype slice = NilSlice | Slice bytes

fun bytes_of :: "slice \<Rightarrow> bytes" where
  "bytes_of NilSlice = []"
| "bytes_of (Slice bs) = bs"

text \<open>\<open>len(s)\<close> of a slice; \<open>len(nil)\<close> is 0.\<close>

abbreviation slice_len :: "slice \<Rightarrow> nat" where
  "slice_len s \<equiv> length (bytes_of s)"

text \<open>
  The collections of facts that the component proofs pass to the simplifier:
  reads after writes in byte arrays, and the fields an operation leaves alone.
\<close>

named_theorems array_simps "reads of a byte array after a write"
named_theorems frame_simps "what an operation leaves unchanged"

section \<open>Byte arrays\<close>

text \<open>
  \<open>get_at b off n\<close> is \<open>b[off : off+n]\<close>, and \<open>put_at b off xs\<close> is \<open>b\<close> after
  \<open>copy(b[off:], xs)\<close> for an \<open>xs\<close> that fits. Callers check the bounds first.
\<close>

definition get_at :: "'a list \<Rightarrow> nat \<Rightarrow> nat \<Rightarrow> 'a list" where
  "get_at b off n = take n (drop off b)"

definition put_at :: "'a list \<Rightarrow> nat \<Rightarrow> 'a list \<Rightarrow> 'a list" where
  "put_at b off xs = take off b @ xs @ drop (off + length xs) b"

text \<open>
  \<open>copy_to b off src\<close> is \<open>copy(b[off:], src)\<close>: it copies what fits and panics when \<open>off\<close> is
  out of range. \<open>copy_within b a a' c c'\<close> is \<open>copy(b[a:a'], b[c:c'])\<close> in one array, a block move.
\<close>

definition copy_to :: "'a list \<Rightarrow> nat \<Rightarrow> 'a list \<Rightarrow> 'a list option" where
  "copy_to b off src =
     (if off \<le> length b then Some (put_at b off (take (length b - off) src)) else None)"

definition copy_within :: "'a list \<Rightarrow> nat \<Rightarrow> nat \<Rightarrow> nat \<Rightarrow> nat \<Rightarrow> 'a list option" where
  "copy_within b a a' c c' =
     (if a \<le> a' \<and> a' \<le> length b \<and> c \<le> c' \<and> c' \<le> length b
      then Some (put_at b a (take (a' - a) (get_at b c (c' - c)))) else None)"

text \<open>Little-endian integers: \<open>encoding/binary.LittleEndian\<close>.\<close>

primrec le_bytes :: "nat \<Rightarrow> nat \<Rightarrow> bytes" where
  "le_bytes 0 v = []"
| "le_bytes (Suc n) v = word_of_nat (v mod 256) # le_bytes n (v div 256)"

primrec le_val :: "bytes \<Rightarrow> nat" where
  "le_val [] = 0"
| "le_val (b # bs) = unat b + 256 * le_val bs"

definition Uint16 :: "bytes \<Rightarrow> nat \<Rightarrow> u16" where
  "Uint16 b off = word_of_nat (le_val (get_at b off 2))"

definition Uint32 :: "bytes \<Rightarrow> nat \<Rightarrow> u32" where
  "Uint32 b off = word_of_nat (le_val (get_at b off 4))"

definition Uint64 :: "bytes \<Rightarrow> nat \<Rightarrow> u64" where
  "Uint64 b off = word_of_nat (le_val (get_at b off 8))"

definition PutUint16 :: "bytes \<Rightarrow> nat \<Rightarrow> u16 \<Rightarrow> bytes" where
  "PutUint16 b off v = put_at b off (le_bytes 2 (unat v))"

definition PutUint32 :: "bytes \<Rightarrow> nat \<Rightarrow> u32 \<Rightarrow> bytes" where
  "PutUint32 b off v = put_at b off (le_bytes 4 (unat v))"

definition PutUint64 :: "bytes \<Rightarrow> nat \<Rightarrow> u64 \<Rightarrow> bytes" where
  "PutUint64 b off v = put_at b off (le_bytes 8 (unat v))"

text \<open>\<open>bytes.Compare\<close>: -1, 0 or 1, lexicographically; a nil slice compares as an empty one.\<close>

definition bytes_Compare :: "bytes \<Rightarrow> bytes \<Rightarrow> int" where
  "bytes_Compare a b = (if a = b then 0 else if a < b then -1 else 1)"

text \<open>
  \<open>hash/crc32.ChecksumIEEE\<close>: the reflected CRC-32 with polynomial \<open>0xEDB88320\<close>, bit by bit.
\<close>

definition crc32_bit :: "u32 \<Rightarrow> u32" where
  "crc32_bit c = (if bit c 0 then drop_bit 1 c XOR 0xEDB88320 else drop_bit 1 c)"

definition crc32_byte :: "byte \<Rightarrow> u32 \<Rightarrow> u32" where
  "crc32_byte b c = (crc32_bit ^^ 8) (c XOR ucast b)"

definition ChecksumIEEE :: "bytes \<Rightarrow> u32" where
  "ChecksumIEEE bs = NOT (fold crc32_byte bs (NOT 0))"

text \<open>Insertion of an element before position \<open>i\<close> of a list.\<close>

definition insert_at :: "nat \<Rightarrow> 'a \<Rightarrow> 'a list \<Rightarrow> 'a list" where
  "insert_at i x xs = take i xs @ x # drop i xs"

section \<open>Generic lemmas\<close>

lemma u8_bound: "unat (b :: u8) < 256"
  using unsigned_less [of b] by simp

lemma u16_bound: "unat (v :: u16) < 65536"
  using unsigned_less [of v] by simp

lemma u32_bound: "unat (v :: u32) < 4294967296"
  using unsigned_less [of v] by simp

lemma u64_bound: "unat (v :: u64) < 18446744073709551616"
  using unsigned_less [of v] by simp

lemma u32_Suc:
  assumes "(n :: u32) \<noteq> - 1"
  shows "unat (n + 1) = Suc (unat n)"
proof -
  have "unat n \<noteq> unat (- 1 :: u32)" using assms by (simp only: word_unat_eq_iff not_False_eq_True)
  then have "unat n + 1 < 4294967296" using u32_bound [of n]
    by (simp add: unsigned_minus_1_eq_mask mask_eq_exp_minus_1)
  then show ?thesis by (simp add: unat_word_ariths)
qed

lemma u64_Suc:
  assumes "(n :: u64) \<noteq> - 1"
  shows "unat (n + 1) = Suc (unat n)"
proof -
  have "unat n \<noteq> unat (- 1 :: u64)" using assms by (simp only: word_unat_eq_iff not_False_eq_True)
  then have "unat n + 1 < 18446744073709551616" using u64_bound [of n]
    by (simp add: unsigned_minus_1_eq_mask mask_eq_exp_minus_1)
  then show ?thesis by (simp add: unat_word_ariths)
qed

lemma u64_less_Suc: "(n :: u64) \<noteq> - 1 \<Longrightarrow> (x < n + 1) = (x \<le> n)"
  by (simp add: word_less_nat_alt word_le_nat_alt u64_Suc less_Suc_eq_le)

lemma length_get_at [simp]: "length (get_at b off n) = min n (length b - off)"
  by (simp add: get_at_def)

lemma length_put_at [simp]: "off + length xs \<le> length b \<Longrightarrow> length (put_at b off xs) = length b"
  by (simp add: put_at_def)

lemma get_at_put_at_same [array_simps]:
  "off \<le> length b \<Longrightarrow> n = length xs \<Longrightarrow> get_at (put_at b off xs) off n = xs"
  by (simp add: get_at_def put_at_def)

lemma get_at_put_at_before [array_simps]:
  "off' + n \<le> off \<Longrightarrow> off \<le> length b \<Longrightarrow> get_at (put_at b off xs) off' n = get_at b off' n"
  by (simp add: get_at_def put_at_def drop_take)

lemma get_at_put_at_after [array_simps]:
  "off + length xs \<le> off' \<Longrightarrow> off + length xs \<le> length b \<Longrightarrow>
     get_at (put_at b off xs) off' n = get_at b off' n"
  by (simp add: get_at_def put_at_def)

lemma nth_put_at:
  "off + length xs \<le> length b \<Longrightarrow> i < length b \<Longrightarrow>
     put_at b off xs ! i = (if off \<le> i \<and> i < off + length xs then xs ! (i - off) else b ! i)"
  by (auto simp: put_at_def nth_append)

lemma get_at_get_at:
  "off + n \<le> m \<Longrightarrow> get_at (get_at b base m) off n = get_at b (base + off) n"
  by (simp add: get_at_def drop_take min_def add.commute)

lemma length_le_bytes [simp]: "length (le_bytes n v) = n"
  by (induction n arbitrary: v) auto

lemma le_val_le_bytes: "le_val (le_bytes n v) = v mod 256 ^ n"
proof (induction n arbitrary: v)
  case 0
  then show ?case by simp
next
  case (Suc n)
  have "unat (word_of_nat (v mod 256) :: byte) = v mod 256"
    by (simp add: unat_of_nat)
  then show ?case
    using Suc by (simp add: mod_mult2_eq)
qed

lemma le_val_bound: "le_val bs < 256 ^ length bs"
proof (induction bs)
  case Nil
  then show ?case by simp
next
  case (Cons b bs)
  have "unat b < 256"
    by (rule u8_bound)
  with Cons show ?case by simp
qed

lemma le_bytes_le_val: "le_bytes (length bs) (le_val bs) = bs"
proof (induction bs)
  case Nil
  then show ?case by simp
next
  case (Cons b bs)
  have b: "unat b < 256"
    by (rule u8_bound)
  then have "(unat b + 256 * le_val bs) mod 256 = unat b"
    and "(unat b + 256 * le_val bs) div 256 = le_val bs"
    by simp_all
  with Cons show ?case by simp
qed

lemma Uint16_PutUint16 [array_simps]: "off + 2 \<le> length b \<Longrightarrow> Uint16 (PutUint16 b off v) off = v"
  using u16_bound [of v]
  by (simp add: Uint16_def PutUint16_def array_simps le_val_le_bytes)

lemma Uint32_PutUint32 [array_simps]: "off + 4 \<le> length b \<Longrightarrow> Uint32 (PutUint32 b off v) off = v"
  using u32_bound [of v]
  by (simp add: Uint32_def PutUint32_def array_simps le_val_le_bytes)

lemma Uint64_PutUint64 [array_simps]: "off + 8 \<le> length b \<Longrightarrow> Uint64 (PutUint64 b off v) off = v"
  using u64_bound [of v]
  by (simp add: Uint64_def PutUint64_def array_simps le_val_le_bytes)

lemma le_roundtrip [array_simps]:
  "word_of_nat (le_val (le_bytes 2 (unat v16))) = (v16 :: u16)"
  "word_of_nat (le_val (le_bytes 4 (unat v32))) = (v32 :: u32)"
  "word_of_nat (le_val (le_bytes 8 (unat v64))) = (v64 :: u64)"
  using u16_bound [of v16] u32_bound [of v32] u64_bound [of v64]
  by (simp_all add: le_val_le_bytes)

lemmas le_defs =
  Uint16_def Uint32_def Uint64_def PutUint16_def PutUint32_def PutUint64_def

lemma length_PutUint [simp]:
  "off + 2 \<le> length b \<Longrightarrow> length (PutUint16 b off v16) = length b"
  "off + 4 \<le> length b \<Longrightarrow> length (PutUint32 b off v32) = length b"
  "off + 8 \<le> length b \<Longrightarrow> length (PutUint64 b off v64) = length b"
  by (simp_all add: le_defs)

text \<open>Writes of one byte.\<close>

lemma get_at_list_update [array_simps]:
  "i < off \<or> off + n \<le> i \<Longrightarrow> get_at (b[i := x]) off n = get_at b off n"
  by (auto simp: get_at_def drop_update_swap drop_update_cancel take_update_cancel)

lemma nth_put_at_other [array_simps]:
  "i < off \<or> off + length xs \<le> i \<Longrightarrow> off + length xs \<le> length b \<Longrightarrow> i < length b \<Longrightarrow>
     put_at b off xs ! i = b ! i"
  by (auto simp: nth_put_at)

lemma put_at_put_at_same [array_simps]:
  "length xs = length ys \<Longrightarrow> off + length ys \<le> length b \<Longrightarrow>
     put_at (put_at b off xs) off ys = put_at b off ys"
  by (simp add: put_at_def)

lemma put_at_get_at [simp]:
  "off + n \<le> length b \<Longrightarrow> put_at b off (get_at b off n) = b"
  by (simp add: put_at_def get_at_def min_def)
     (metis append_take_drop_id add.commute drop_drop)

lemma put_at_swap:
  "off + length xs \<le> off' \<Longrightarrow> off' + length ys \<le> length b \<Longrightarrow>
     put_at (put_at b off' ys) off xs = put_at (put_at b off xs) off' ys"
  by (rule nth_equalityI) (auto simp: nth_put_at)

text \<open>Insertion in lists.\<close>

lemma length_insert_at [simp]: "length (insert_at i x xs) = Suc (length xs)"
  by (simp add: insert_at_def)

lemma set_insert_at [simp]: "set (insert_at i x xs) = insert x (set xs)"
  by (simp add: insert_at_def) (metis append_take_drop_id set_append)

lemma nth_insert_at:
  "i \<le> length xs \<Longrightarrow> j \<le> length xs \<Longrightarrow>
     insert_at i x xs ! j = (if j < i then xs ! j else if j = i then x else xs ! (j - 1))"
  by (auto simp: insert_at_def nth_append nth_Cons' min_def)

text \<open>The checksum: every step is injective in the state and in the byte.\<close>

lemma xor_cancel_right: "(a :: u32) XOR x = b XOR x \<longleftrightarrow> a = b"
  by (metis xor.assoc xor.right_neutral xor_self_eq)

lemma xor_cancel_left: "(x :: u32) XOR a = x XOR b \<longleftrightarrow> a = b"
  by (metis xor.commute xor_cancel_right)

lemma crc32_bit_inj: "inj crc32_bit"
proof (rule injI)
  fix c d :: u32
  assume e: "crc32_bit c = crc32_bit d"
  have top: "bit (crc32_bit x) 31 = bit x 0" for x
  proof -
    have "bit (0xEDB88320 :: u32) 31" by (simp add: bit_iff_odd)
    moreover have "\<not> bit (drop_bit 1 x) 31" by (simp add: bit_drop_bit_eq impossible_bit)
    ultimately show ?thesis by (simp add: crc32_bit_def bit_xor_iff)
  qed
  have b0: "bit c 0 = bit d 0" using top [of c] top [of d] e by simp
  have "drop_bit 1 c = drop_bit 1 d"
  proof (cases "bit c 0")
    case True
    with e b0 show ?thesis by (simp add: crc32_bit_def xor_cancel_right)
  next
    case False
    with e b0 show ?thesis by (simp add: crc32_bit_def)
  qed
  then have "bit c (Suc n) = bit d (Suc n)" for n
    by (metis bit_drop_bit_eq comp_apply plus_1_eq_Suc)
  with b0 have "bit c n = bit d n" for n by (cases n) auto
  then show "c = d" by (simp add: bit_eq_iff)
qed

lemma crc32_byte_inj: "crc32_byte b c = crc32_byte b' c' \<longleftrightarrow> c XOR ucast b = c' XOR ucast b'"
proof -
  have "inj (crc32_bit ^^ 8)" by (rule inj_fn [OF crc32_bit_inj])
  then show ?thesis unfolding crc32_byte_def by (rule inj_eq)
qed

lemma crc_fold_inj: "fold crc32_byte bs c = fold crc32_byte bs d \<longleftrightarrow> c = d"
  by (induction bs arbitrary: c d) (simp_all add: crc32_byte_inj xor_cancel_right)

lemma ucast_u8_u32_inj: "(ucast (a :: u8) :: u32) = ucast b \<longleftrightarrow> a = b"
proof -
  have "unat (ucast x :: u32) = unat x" for x :: u8
    using u8_bound [of x] by (simp add: unsigned_ucast_eq take_bit_nat_eq_self)
  then show ?thesis by (metis word_unat_eq_iff)
qed

text \<open>A change of one byte changes the checksum.\<close>

lemma ChecksumIEEE_one_byte:
  assumes "i < length bs" and "b \<noteq> bs ! i"
  shows "ChecksumIEEE (bs[i := b]) \<noteq> ChecksumIEEE bs"
proof
  assume "ChecksumIEEE (bs[i := b]) = ChecksumIEEE bs"
  then have "fold crc32_byte (bs[i := b]) (NOT 0) = fold crc32_byte bs (NOT 0)"
    by (simp add: ChecksumIEEE_def)
  moreover have "bs[i := b] = take i bs @ b # drop (Suc i) bs" "bs = take i bs @ bs ! i # drop (Suc i) bs"
    using assms(1) by (simp_all add: upd_conv_take_nth_drop id_take_nth_drop)
  ultimately have "fold crc32_byte (take i bs @ b # drop (Suc i) bs) (NOT 0) =
      fold crc32_byte (take i bs @ bs ! i # drop (Suc i) bs) (NOT 0)" by metis
  with assms(2) show False
    by (simp add: crc_fold_inj crc32_byte_inj xor_cancel_left ucast_u8_u32_inj)
qed

lemma put_at_fill:
  "off = length xs \<Longrightarrow> n = length ys + m \<Longrightarrow>
     put_at (xs @ replicate n x) off ys = (xs @ ys) @ replicate m x"
  by (simp add: put_at_def)

lemma find_append: "find P (xs @ ys) = (case find P xs of Some x \<Rightarrow> Some x | None \<Rightarrow> find P ys)"
  by (induction xs) auto

lemma find_filter: "find P (filter Q xs) = find (\<lambda>x. Q x \<and> P x) xs"
  by (induction xs) auto

end
