(* ===== verification/Page.thy ===== *)
theory Page
  imports Prelude
begin

text \<open>
  The 4096-byte page and its 32-byte header (\<^verbatim>\<open>internal/page/page.go\<close>): the header as a
  record, its little-endian encoding at fixed offsets of the page array, the full-page CRC,
  and the accessors. All offsets are constants below \<open>HeaderSize\<close> and the Go array has the
  fixed size \<open>PageSize\<close>, so none of these functions can panic; \<open>page_ok\<close> is that type
  invariant.
\<close>

section \<open>Definitions\<close>

definition PageSize :: nat where "PageSize = 4096"
definition HeaderSize :: nat where "HeaderSize = 32"
definition MagicNumber :: u32 where "MagicNumber = 0xB17EE501"
definition SlotSize :: nat where "SlotSize = 4"

lemmas page_consts = PageSize_def HeaderSize_def SlotSize_def

definition PageTypeInternal :: u8 where "PageTypeInternal = 1"
definition PageTypeLeaf :: u8 where "PageTypeLeaf = 2"
definition PageTypeMeta :: u8 where "PageTypeMeta = 3"
definition PageTypeFree :: u8 where "PageTypeFree = 4"

definition FlagIsRoot :: u8 where "FlagIsRoot = 0x01"
definition FlagIsDirty :: u8 where "FlagIsDirty = 0x02"
definition FlagHasOverflow :: u8 where "FlagHasOverflow = 0x04"
definition FlagRightmostChild :: u8 where "FlagRightmostChild = 0x08"

record PageHeader =
  hMagic :: u32
  hType :: u8
  hNumSlots :: u16
  hFreeStart :: u16
  hFreeEnd :: u16
  hPageLSN :: u64
  hFlags :: u8
  hPrevSib :: u32
  hNextSib :: u32
  hChecksum :: u32

record Page =
  ID :: u32
  Data :: bytes

definition page_ok :: "Page \<Rightarrow> bool" where
  "page_ok p \<longleftrightarrow> length (Data p) = PageSize"

definition DecodeHeader :: "Page \<Rightarrow> PageHeader" where
  "DecodeHeader p = (let b = Data p in
     \<lparr> hMagic = Uint32 b 0,
       hType = b ! 4,
       hNumSlots = Uint16 b 5,
       hFreeStart = Uint16 b 7,
       hFreeEnd = Uint16 b 9,
       hPageLSN = Uint64 b 11,
       hFlags = b ! 19,
       hPrevSib = Uint32 b 20,
       hNextSib = Uint32 b 24,
       hChecksum = Uint32 b 28 \<rparr>)"

definition EncodeHeader :: "Page \<Rightarrow> PageHeader \<Rightarrow> Page" where
  "EncodeHeader p h =
     (let b = Data p;
          b = PutUint32 b 0 MagicNumber;
          b = b[4 := hType h];
          b = PutUint16 b 5 (hNumSlots h);
          b = PutUint16 b 7 (hFreeStart h);
          b = PutUint16 b 9 (hFreeEnd h);
          b = PutUint64 b 11 (hPageLSN h);
          b = b[19 := hFlags h];
          b = PutUint32 b 20 (hPrevSib h);
          b = PutUint32 b 24 (hNextSib h);
          b = PutUint32 b 28 0;
          crc = ChecksumIEEE (get_at b 0 PageSize);
          b = PutUint32 b 28 crc
      in p\<lparr>Data := b\<rparr>)"

definition emptyHeader :: PageHeader where
  "emptyHeader = \<lparr> hMagic = 0, hType = 0, hNumSlots = 0, hFreeStart = 0, hFreeEnd = 0,
     hPageLSN = 0, hFlags = 0, hPrevSib = 0, hNextSib = 0, hChecksum = 0 \<rparr>"

definition Init :: "Page \<Rightarrow> u8 \<Rightarrow> Page" where
  "Init p ptype = EncodeHeader p
     (emptyHeader\<lparr>hType := ptype, hFreeStart := word_of_nat HeaderSize,
                  hFreeEnd := word_of_nat PageSize\<rparr>)"

definition VerifyChecksum :: "Page \<Rightarrow> bool" where
  "VerifyChecksum p =
     (let stored = Uint32 (Data p) 28;
          tmp = PutUint32 (Data p) 28 0;
          computed = ChecksumIEEE tmp
      in stored = computed)"

definition UpdateChecksum :: "Page \<Rightarrow> Page" where
  "UpdateChecksum p =
     (let b = PutUint32 (Data p) 28 0;
          crc = ChecksumIEEE (get_at b 0 PageSize)
      in p\<lparr>Data := PutUint32 b 28 crc\<rparr>)"

definition FreeSpace :: "Page \<Rightarrow> int" where
  "FreeSpace p = (let h = DecodeHeader p in uint (hFreeEnd h) - uint (hFreeStart h))"

definition SetPageLSN :: "Page \<Rightarrow> u64 \<Rightarrow> Page" where
  "SetPageLSN p lsn = EncodeHeader p ((DecodeHeader p)\<lparr>hPageLSN := lsn\<rparr>)"

definition Type :: "Page \<Rightarrow> u8" where
  "Type p = Data p ! 4"

definition NumSlots :: "Page \<Rightarrow> nat" where
  "NumSlots p = unat (Uint16 (Data p) 5)"

definition PrevSib :: "Page \<Rightarrow> u32" where
  "PrevSib p = Uint32 (Data p) 20"

definition NextSib :: "Page \<Rightarrow> u32" where
  "NextSib p = Uint32 (Data p) 24"

definition SetPrevSib :: "Page \<Rightarrow> u32 \<Rightarrow> Page" where
  "SetPrevSib p i = UpdateChecksum (p\<lparr>Data := PutUint32 (Data p) 20 i\<rparr>)"

definition SetNextSib :: "Page \<Rightarrow> u32 \<Rightarrow> Page" where
  "SetNextSib p i = UpdateChecksum (p\<lparr>Data := PutUint32 (Data p) 24 i\<rparr>)"

definition Flags :: "Page \<Rightarrow> u8" where
  "Flags p = Data p ! 19"

definition SetFlag :: "Page \<Rightarrow> u8 \<Rightarrow> Page" where
  "SetFlag p flag = UpdateChecksum (p\<lparr>Data := (Data p)[19 := Data p ! 19 OR flag]\<rparr>)"

definition ClearFlag :: "Page \<Rightarrow> u8 \<Rightarrow> Page" where
  "ClearFlag p flag = UpdateChecksum (p\<lparr>Data := (Data p)[19 := Data p ! 19 AND NOT flag]\<rparr>)"

section \<open>Header round trip, checksum and frame lemmas\<close>

text \<open>The accessors read the header fields.\<close>

lemma DecodeHeader_sel [simp]:
  "hMagic (DecodeHeader p) = Uint32 (Data p) 0"
  "hType (DecodeHeader p) = Type p"
  "hFlags (DecodeHeader p) = Flags p"
  "hPrevSib (DecodeHeader p) = PrevSib p"
  "hNextSib (DecodeHeader p) = NextSib p"
  "hChecksum (DecodeHeader p) = Uint32 (Data p) 28"
  by (simp_all add: DecodeHeader_def Let_def Type_def Flags_def PrevSib_def NextSib_def)

lemma unat_hNumSlots [simp]: "unat (hNumSlots (DecodeHeader p)) = NumSlots p"
  by (simp add: DecodeHeader_def Let_def NumSlots_def)

lemma page_ok_EncodeHeader [simp]: "page_ok p \<Longrightarrow> page_ok (EncodeHeader p h)"
  by (simp add: page_ok_def EncodeHeader_def Let_def page_consts)

lemma page_ok_UpdateChecksum [simp]: "page_ok p \<Longrightarrow> page_ok (UpdateChecksum p)"
  by (simp add: page_ok_def UpdateChecksum_def Let_def page_consts)

lemma DecodeHeader_EncodeHeader:
  assumes "page_ok p"
  shows "DecodeHeader (EncodeHeader p h) =
    h\<lparr>hMagic := MagicNumber, hChecksum := Uint32 (Data (EncodeHeader p h)) 28\<rparr>"
  using assms
  by (simp add: DecodeHeader_def EncodeHeader_def Let_def page_ok_def page_consts le_defs array_simps)

lemma EncodeHeader_sel [frame_simps]:
  assumes "page_ok p"
  shows "Type (EncodeHeader p h) = hType h"
    and "NumSlots (EncodeHeader p h) = unat (hNumSlots h)"
    and "Flags (EncodeHeader p h) = hFlags h"
    and "PrevSib (EncodeHeader p h) = hPrevSib h"
    and "NextSib (EncodeHeader p h) = hNextSib h"
    and "hNumSlots (DecodeHeader (EncodeHeader p h)) = hNumSlots h"
    and "hFreeStart (DecodeHeader (EncodeHeader p h)) = hFreeStart h"
    and "hFreeEnd (DecodeHeader (EncodeHeader p h)) = hFreeEnd h"
    and "hPageLSN (DecodeHeader (EncodeHeader p h)) = hPageLSN h"
    and "ID (EncodeHeader p h) = ID p"
proof -
  note d = DecodeHeader_EncodeHeader [OF assms, of h]
  show "Type (EncodeHeader p h) = hType h"
    using DecodeHeader_sel(2) [of "EncodeHeader p h"] d by simp
  show "NumSlots (EncodeHeader p h) = unat (hNumSlots h)"
    using unat_hNumSlots [of "EncodeHeader p h"] d by simp
  show "Flags (EncodeHeader p h) = hFlags h"
    using DecodeHeader_sel(3) [of "EncodeHeader p h"] d by simp
  show "PrevSib (EncodeHeader p h) = hPrevSib h"
    using DecodeHeader_sel(4) [of "EncodeHeader p h"] d by simp
  show "NextSib (EncodeHeader p h) = hNextSib h"
    using DecodeHeader_sel(5) [of "EncodeHeader p h"] d by simp
qed (simp_all add: DecodeHeader_EncodeHeader [OF assms], simp add: EncodeHeader_def Let_def)

lemma get_at_EncodeHeader [frame_simps]:
  "page_ok p \<Longrightarrow> HeaderSize \<le> off \<Longrightarrow>
     get_at (Data (EncodeHeader p h)) off n = get_at (Data p) off n"
  by (simp add: EncodeHeader_def Let_def page_ok_def page_consts le_defs array_simps)

lemma UpdateChecksum_sel [frame_simps]:
  assumes "page_ok p"
  shows "Type (UpdateChecksum p) = Type p"
    and "NumSlots (UpdateChecksum p) = NumSlots p"
    and "Flags (UpdateChecksum p) = Flags p"
    and "PrevSib (UpdateChecksum p) = PrevSib p"
    and "NextSib (UpdateChecksum p) = NextSib p"
    and "hNumSlots (DecodeHeader (UpdateChecksum p)) = hNumSlots (DecodeHeader p)"
    and "hFreeStart (DecodeHeader (UpdateChecksum p)) = hFreeStart (DecodeHeader p)"
    and "hFreeEnd (DecodeHeader (UpdateChecksum p)) = hFreeEnd (DecodeHeader p)"
    and "hPageLSN (DecodeHeader (UpdateChecksum p)) = hPageLSN (DecodeHeader p)"
    and "ID (UpdateChecksum p) = ID p"
  using assms
  by (simp_all add: UpdateChecksum_def Type_def NumSlots_def Flags_def PrevSib_def NextSib_def
      DecodeHeader_def Let_def page_ok_def page_consts le_defs array_simps)

lemma get_at_UpdateChecksum [frame_simps]:
  "page_ok p \<Longrightarrow> HeaderSize \<le> off \<Longrightarrow>
     get_at (Data (UpdateChecksum p)) off n = get_at (Data p) off n"
  by (simp add: UpdateChecksum_def Let_def page_ok_def page_consts le_defs array_simps)

text \<open>The checksum a page stores is the one \<open>VerifyChecksum\<close> recomputes.\<close>

lemma VerifyChecksum_UpdateChecksum: "page_ok p \<Longrightarrow> VerifyChecksum (UpdateChecksum p)"
  by (simp add: VerifyChecksum_def UpdateChecksum_def Let_def page_ok_def page_consts le_defs
      array_simps) (simp add: get_at_def)

lemma EncodeHeader_UpdateChecksum:
  "page_ok p \<Longrightarrow> UpdateChecksum (EncodeHeader p h) = EncodeHeader p h"
  by (simp add: EncodeHeader_def UpdateChecksum_def Let_def page_ok_def page_consts le_defs
      array_simps)

lemma VerifyChecksum_EncodeHeader: "page_ok p \<Longrightarrow> VerifyChecksum (EncodeHeader p h)"
  using VerifyChecksum_UpdateChecksum [of "EncodeHeader p h"]
  by (simp add: EncodeHeader_UpdateChecksum)

text \<open>The setters change their own field, keep every other field and the page body.\<close>

lemma SetPageLSN_sel [frame_simps]:
  assumes "page_ok p"
  shows "page_ok (SetPageLSN p lsn)"
    and "Type (SetPageLSN p lsn) = Type p"
    and "NumSlots (SetPageLSN p lsn) = NumSlots p"
    and "Flags (SetPageLSN p lsn) = Flags p"
    and "PrevSib (SetPageLSN p lsn) = PrevSib p"
    and "NextSib (SetPageLSN p lsn) = NextSib p"
    and "hNumSlots (DecodeHeader (SetPageLSN p lsn)) = hNumSlots (DecodeHeader p)"
    and "hFreeStart (DecodeHeader (SetPageLSN p lsn)) = hFreeStart (DecodeHeader p)"
    and "hFreeEnd (DecodeHeader (SetPageLSN p lsn)) = hFreeEnd (DecodeHeader p)"
    and "hPageLSN (DecodeHeader (SetPageLSN p lsn)) = lsn"
    and "ID (SetPageLSN p lsn) = ID p"
  using assms
  by (simp_all add: SetPageLSN_def UpdateChecksum_def EncodeHeader_def Type_def NumSlots_def Flags_def
      PrevSib_def NextSib_def DecodeHeader_def Let_def page_ok_def page_consts le_defs array_simps)

lemma get_at_SetPageLSN [frame_simps]:
  "page_ok p \<Longrightarrow> HeaderSize \<le> off \<Longrightarrow> get_at (Data (SetPageLSN p lsn)) off n = get_at (Data p) off n"
  by (simp add: SetPageLSN_def UpdateChecksum_def EncodeHeader_def Let_def page_ok_def page_consts
      le_defs array_simps)

lemma SetPrevSib_sel [frame_simps]:
  assumes "page_ok p"
  shows "page_ok (SetPrevSib p i)"
    and "Type (SetPrevSib p i) = Type p"
    and "NumSlots (SetPrevSib p i) = NumSlots p"
    and "Flags (SetPrevSib p i) = Flags p"
    and "PrevSib (SetPrevSib p i) = i"
    and "NextSib (SetPrevSib p i) = NextSib p"
    and "hNumSlots (DecodeHeader (SetPrevSib p i)) = hNumSlots (DecodeHeader p)"
    and "hFreeStart (DecodeHeader (SetPrevSib p i)) = hFreeStart (DecodeHeader p)"
    and "hFreeEnd (DecodeHeader (SetPrevSib p i)) = hFreeEnd (DecodeHeader p)"
    and "hPageLSN (DecodeHeader (SetPrevSib p i)) = hPageLSN (DecodeHeader p)"
    and "ID (SetPrevSib p i) = ID p"
  using assms
  by (simp_all add: SetPrevSib_def UpdateChecksum_def EncodeHeader_def Type_def NumSlots_def Flags_def
      PrevSib_def NextSib_def DecodeHeader_def Let_def page_ok_def page_consts le_defs array_simps)

lemma get_at_SetPrevSib [frame_simps]:
  "page_ok p \<Longrightarrow> HeaderSize \<le> off \<Longrightarrow> get_at (Data (SetPrevSib p i)) off n = get_at (Data p) off n"
  by (simp add: SetPrevSib_def UpdateChecksum_def EncodeHeader_def Let_def page_ok_def page_consts
      le_defs array_simps)

lemma SetNextSib_sel [frame_simps]:
  assumes "page_ok p"
  shows "page_ok (SetNextSib p i)"
    and "Type (SetNextSib p i) = Type p"
    and "NumSlots (SetNextSib p i) = NumSlots p"
    and "Flags (SetNextSib p i) = Flags p"
    and "PrevSib (SetNextSib p i) = PrevSib p"
    and "NextSib (SetNextSib p i) = i"
    and "hNumSlots (DecodeHeader (SetNextSib p i)) = hNumSlots (DecodeHeader p)"
    and "hFreeStart (DecodeHeader (SetNextSib p i)) = hFreeStart (DecodeHeader p)"
    and "hFreeEnd (DecodeHeader (SetNextSib p i)) = hFreeEnd (DecodeHeader p)"
    and "hPageLSN (DecodeHeader (SetNextSib p i)) = hPageLSN (DecodeHeader p)"
    and "ID (SetNextSib p i) = ID p"
  using assms
  by (simp_all add: SetNextSib_def UpdateChecksum_def EncodeHeader_def Type_def NumSlots_def Flags_def
      PrevSib_def NextSib_def DecodeHeader_def Let_def page_ok_def page_consts le_defs array_simps)

lemma get_at_SetNextSib [frame_simps]:
  "page_ok p \<Longrightarrow> HeaderSize \<le> off \<Longrightarrow> get_at (Data (SetNextSib p i)) off n = get_at (Data p) off n"
  by (simp add: SetNextSib_def UpdateChecksum_def EncodeHeader_def Let_def page_ok_def page_consts
      le_defs array_simps)

lemma SetFlag_sel [frame_simps]:
  assumes "page_ok p"
  shows "page_ok (SetFlag p fl)"
    and "Type (SetFlag p fl) = Type p"
    and "NumSlots (SetFlag p fl) = NumSlots p"
    and "Flags (SetFlag p fl) = Flags p OR fl"
    and "PrevSib (SetFlag p fl) = PrevSib p"
    and "NextSib (SetFlag p fl) = NextSib p"
    and "hNumSlots (DecodeHeader (SetFlag p fl)) = hNumSlots (DecodeHeader p)"
    and "hFreeStart (DecodeHeader (SetFlag p fl)) = hFreeStart (DecodeHeader p)"
    and "hFreeEnd (DecodeHeader (SetFlag p fl)) = hFreeEnd (DecodeHeader p)"
    and "hPageLSN (DecodeHeader (SetFlag p fl)) = hPageLSN (DecodeHeader p)"
    and "ID (SetFlag p fl) = ID p"
  using assms
  by (simp_all add: SetFlag_def UpdateChecksum_def EncodeHeader_def Type_def NumSlots_def Flags_def
      PrevSib_def NextSib_def DecodeHeader_def Let_def page_ok_def page_consts le_defs array_simps)

lemma get_at_SetFlag [frame_simps]:
  "page_ok p \<Longrightarrow> HeaderSize \<le> off \<Longrightarrow> get_at (Data (SetFlag p fl)) off n = get_at (Data p) off n"
  by (simp add: SetFlag_def UpdateChecksum_def EncodeHeader_def Let_def page_ok_def page_consts
      le_defs array_simps)

lemma ClearFlag_sel [frame_simps]:
  assumes "page_ok p"
  shows "page_ok (ClearFlag p fl)"
    and "Type (ClearFlag p fl) = Type p"
    and "NumSlots (ClearFlag p fl) = NumSlots p"
    and "Flags (ClearFlag p fl) = Flags p AND NOT fl"
    and "PrevSib (ClearFlag p fl) = PrevSib p"
    and "NextSib (ClearFlag p fl) = NextSib p"
    and "hNumSlots (DecodeHeader (ClearFlag p fl)) = hNumSlots (DecodeHeader p)"
    and "hFreeStart (DecodeHeader (ClearFlag p fl)) = hFreeStart (DecodeHeader p)"
    and "hFreeEnd (DecodeHeader (ClearFlag p fl)) = hFreeEnd (DecodeHeader p)"
    and "hPageLSN (DecodeHeader (ClearFlag p fl)) = hPageLSN (DecodeHeader p)"
    and "ID (ClearFlag p fl) = ID p"
  using assms
  by (simp_all add: ClearFlag_def UpdateChecksum_def EncodeHeader_def Type_def NumSlots_def Flags_def
      PrevSib_def NextSib_def DecodeHeader_def Let_def page_ok_def page_consts le_defs array_simps)

lemma get_at_ClearFlag [frame_simps]:
  "page_ok p \<Longrightarrow> HeaderSize \<le> off \<Longrightarrow> get_at (Data (ClearFlag p fl)) off n = get_at (Data p) off n"
  by (simp add: ClearFlag_def UpdateChecksum_def EncodeHeader_def Let_def page_ok_def page_consts
      le_defs array_simps)

lemma VerifyChecksum_setters:
  assumes "page_ok p"
  shows "VerifyChecksum (SetPageLSN p lsn)"
    and "VerifyChecksum (SetPrevSib p i)"
    and "VerifyChecksum (SetNextSib p i)"
    and "VerifyChecksum (SetFlag p fl)"
    and "VerifyChecksum (ClearFlag p fl)"
  unfolding SetPageLSN_def SetPrevSib_def SetNextSib_def SetFlag_def ClearFlag_def
  using assms
  by (auto intro!: VerifyChecksum_EncodeHeader VerifyChecksum_UpdateChecksum
      simp: page_ok_def page_consts)

lemma Init_sel [frame_simps]:
  assumes "page_ok p"
  shows "page_ok (Init p t)" and "Type (Init p t) = t" and "NumSlots (Init p t) = 0"
    and "Flags (Init p t) = 0" and "PrevSib (Init p t) = 0" and "NextSib (Init p t) = 0"
    and "hNumSlots (DecodeHeader (Init p t)) = 0"
    and "hFreeStart (DecodeHeader (Init p t)) = 32"
    and "hFreeEnd (DecodeHeader (Init p t)) = 4096"
    and "hPageLSN (DecodeHeader (Init p t)) = 0" and "ID (Init p t) = ID p"
  using assms by (simp_all add: Init_def frame_simps emptyHeader_def page_consts)

text \<open>
  C30. Writing a header and reading it back gives every field that was written, with the magic
  number in place; the page body is untouched, and the stored full-page CRC verifies.
\<close>

theorem header_roundtrip:
  assumes "page_ok p"
  shows "(DecodeHeader (EncodeHeader p h))\<lparr>hChecksum := c\<rparr> = h\<lparr>hMagic := MagicNumber, hChecksum := c\<rparr>
    \<and> get_at (Data (EncodeHeader p h)) HeaderSize (PageSize - HeaderSize)
        = get_at (Data p) HeaderSize (PageSize - HeaderSize)
    \<and> VerifyChecksum (EncodeHeader p h)"
  using assms
  by (simp add: DecodeHeader_EncodeHeader get_at_EncodeHeader VerifyChecksum_EncodeHeader)

theorem header_roundtrip_witness:
  "hPageLSN (DecodeHeader (EncodeHeader \<lparr>ID = 7, Data = replicate 4096 0\<rparr>
      (emptyHeader\<lparr>hType := PageTypeLeaf, hPageLSN := 99\<rparr>))) = 99
   \<and> VerifyChecksum (EncodeHeader \<lparr>ID = 7, Data = replicate 4096 0\<rparr>
      (emptyHeader\<lparr>hType := PageTypeLeaf, hPageLSN := 99\<rparr>))"
proof -
  have ok: "page_ok \<lparr>ID = 7, Data = replicate 4096 0\<rparr>"
    by (simp add: page_ok_def page_consts)
  note r = header_roundtrip [OF ok, where c = 0 and h = "emptyHeader\<lparr>hType := PageTypeLeaf, hPageLSN := 99\<rparr>"]
  from arg_cong [OF r [THEN conjunct1], of hPageLSN]
  have "hPageLSN (DecodeHeader (EncodeHeader \<lparr>ID = 7, Data = replicate 4096 0\<rparr>
      (emptyHeader\<lparr>hType := PageTypeLeaf, hPageLSN := 99\<rparr>))) = 99"
    by simp
  with r show ?thesis by blast
qed

end
