(* ===== verification/Slotted.thy ===== *)
theory Slotted
  imports Page Complex_Main
begin

text \<open>
  The slotted page (\<^verbatim>\<open>internal/page/slotted.go\<close>): the slot array that grows from the header,
  the records that grow down from the end of the page, tombstones, the binary searches over a
  slot array with tombstones, and compaction. The layout invariant \<open>page_wf\<close> and the
  abstraction \<open>recs\<close> (the list of records in slot order) are defined here; the lemmas show that
  on a well-formed page no operation panics and each has its effect on the list of records.
\<close>

section \<open>Definitions\<close>

record Slot =
  Offset :: u16
  Length :: u16

definition GetSlot :: "Page \<Rightarrow> nat \<Rightarrow> Slot option" where
  "GetSlot p idx =
     (let base = HeaderSize + idx * SlotSize
      in if base + SlotSize \<le> PageSize
         then Some \<lparr>Offset = Uint16 (Data p) base, Length = Uint16 (Data p) (base + 2)\<rparr>
         else None)"

definition SetSlot :: "Page \<Rightarrow> nat \<Rightarrow> u16 \<Rightarrow> u16 \<Rightarrow> Page option" where
  "SetSlot p idx offset len =
     (let base = HeaderSize + idx * SlotSize
      in if base + SlotSize \<le> PageSize
         then Some (p\<lparr>Data := PutUint16 (PutUint16 (Data p) base offset) (base + 2) len\<rparr>)
         else None)"

definition GetRecord :: "Page \<Rightarrow> nat \<Rightarrow> slice option" where
  "GetRecord p slotIdx = do {
     s \<leftarrow> GetSlot p slotIdx;
     if Length s = 0 then Some NilSlice
     else let lo = unat (Offset s); hi = unat (Offset s + Length s)
          in if lo \<le> hi \<and> hi \<le> PageSize
             then Some (Slice (get_at (Data p) lo (hi - lo))) else None }"

text \<open>The nearest live slot in \<open>[left..i]\<close>, scanning from \<open>i\<close> down.\<close>

function nearestLiveLeft ::
  "Page \<Rightarrow> int \<Rightarrow> int \<Rightarrow> (bytes \<Rightarrow> slice) \<Rightarrow> (int \<times> slice) option" where
  "nearestLiveLeft p left i keyExtract =
     (if left \<le> i then do {
        d \<leftarrow> GetRecord p (nat i);
        (case d of
           Slice bs \<Rightarrow> Some (i, keyExtract bs)
         | NilSlice \<Rightarrow> nearestLiveLeft p left (i - 1) keyExtract) }
      else Some (-1, NilSlice))"
  by pat_completeness auto
termination
  by (relation "measure (\<lambda>(p, left, i, k). nat (i - left + 1))") auto

declare nearestLiveLeft.simps [simp del]

lemma nearestLiveLeft_le: "nearestLiveLeft p left i k = Some (j, d) \<Longrightarrow> 0 \<le> j \<Longrightarrow> j \<le> i"
proof (induction p left i k rule: nearestLiveLeft.induct)
  case (1 p left i k)
  from "1.prems" show ?case
    by (subst (asm) nearestLiveLeft.simps)
       (auto split: if_splits slice.splits bind_splits dest!: "1.IH")
qed

text \<open>The loop of \<open>binarySearchInsertPos\<close>; \<open>lo\<close> and \<open>hi\<close> are Go \<open>int\<close>s.\<close>

function insertPosLoop ::
  "Page \<Rightarrow> (bytes \<Rightarrow> slice) \<Rightarrow> bytes \<Rightarrow> int \<Rightarrow> int \<Rightarrow> int option" where
  "insertPosLoop p keyExtract key lo hi =
     (if lo \<le> hi then do {
        let mid = (lo + hi) div 2;
        slotData \<leftarrow> GetRecord p (nat mid);
        (case slotData of
           NilSlice \<Rightarrow> do {
             (liveIdx, liveKey) \<leftarrow> nearestLiveLeft p lo (mid - 1) keyExtract;
             if liveIdx \<ge> 0 then
               if bytes_Compare (bytes_of liveKey) key \<le> 0
               then insertPosLoop p keyExtract key (mid + 1) hi
               else insertPosLoop p keyExtract key lo (liveIdx - 1)
             else insertPosLoop p keyExtract key (mid + 1) hi }
         | Slice bs \<Rightarrow>
             if bytes_Compare (bytes_of (keyExtract bs)) key \<le> 0
             then insertPosLoop p keyExtract key (mid + 1) hi
             else insertPosLoop p keyExtract key lo (mid - 1)) }
      else Some lo)"
  by pat_completeness auto
termination
  by (relation "measure (\<lambda>(p, k, key, lo, hi). nat (hi - lo + 1))")
     (auto dest: nearestLiveLeft_le)

declare insertPosLoop.simps [simp del]

definition binarySearchInsertPos ::
  "Page \<Rightarrow> nat \<Rightarrow> bytes \<Rightarrow> (bytes \<Rightarrow> slice) \<Rightarrow> nat option" where
  "binarySearchInsertPos p numSlots key keyExtract =
     map_option nat (insertPosLoop p keyExtract key 0 (int numSlots - 1))"

definition InsertRecord ::
  "Page \<Rightarrow> bytes \<Rightarrow> (bytes \<Rightarrow> slice) \<Rightarrow> ((error, nat) result \<times> Page) option" where
  "InsertRecord p data keyExtract =
     (let h = DecodeHeader p;
          needed = length data + SlotSize
      in if uint (hFreeEnd h) - uint (hFreeStart h) < int needed
         then Some (Inl ErrPageFull, p)
         else do {
           let newFreeEnd = hFreeEnd h - word_of_nat (length data);
           b \<leftarrow> copy_to (Data p) (unat newFreeEnd) data;
           let p = p\<lparr>Data := b\<rparr>;
           let newKey = bytes_of (keyExtract data);
           insertPos \<leftarrow> binarySearchInsertPos p (unat (hNumSlots h)) newKey keyExtract;
           let slotBase = HeaderSize + unat (hNumSlots h) * SlotSize;
           b \<leftarrow> copy_within (Data p)
                  (HeaderSize + (insertPos + 1) * SlotSize) (slotBase + SlotSize)
                  (HeaderSize + insertPos * SlotSize) slotBase;
           p \<leftarrow> SetSlot (p\<lparr>Data := b\<rparr>) insertPos newFreeEnd (word_of_nat (length data));
           let h = h\<lparr>hNumSlots := hNumSlots h + 1,
                      hFreeStart := hFreeStart h + word_of_nat SlotSize,
                      hFreeEnd := newFreeEnd\<rparr>;
           Some (Inr insertPos, EncodeHeader p h) })"

definition DeleteRecord :: "Page \<Rightarrow> nat \<Rightarrow> Page option" where
  "DeleteRecord p slotIdx = do {
     s \<leftarrow> GetSlot p slotIdx;
     p \<leftarrow> SetSlot p slotIdx (Offset s) 0;
     Some (UpdateChecksum p) }"

text \<open>The loop of \<open>BinarySearch\<close>; \<open>res\<close> is the leftmost match found so far, -1 for none.\<close>

function searchLoop ::
  "Page \<Rightarrow> (bytes \<Rightarrow> slice) \<Rightarrow> bytes \<Rightarrow> int \<Rightarrow> int \<Rightarrow> int \<Rightarrow> int option" where
  "searchLoop p keyExtract key lo hi res =
     (if lo \<le> hi then do {
        let mid = (lo + hi) div 2;
        slotData \<leftarrow> GetRecord p (nat mid);
        (case slotData of
           NilSlice \<Rightarrow> do {
             (liveIdx, liveKey) \<leftarrow> nearestLiveLeft p lo (mid - 1) keyExtract;
             if liveIdx \<ge> 0 then
               let cmp = bytes_Compare (bytes_of liveKey) key in
               if cmp = 0 then searchLoop p keyExtract key lo (liveIdx - 1) liveIdx
               else if cmp < 0 then searchLoop p keyExtract key (mid + 1) hi res
               else searchLoop p keyExtract key lo (liveIdx - 1) res
             else searchLoop p keyExtract key (mid + 1) hi res }
         | Slice bs \<Rightarrow>
             let cmp = bytes_Compare (bytes_of (keyExtract bs)) key in
             if cmp = 0 then searchLoop p keyExtract key lo (mid - 1) mid
             else if cmp < 0 then searchLoop p keyExtract key (mid + 1) hi res
             else searchLoop p keyExtract key lo (mid - 1) res) }
      else Some (if res \<ge> 0 then res else - (lo + 1)))"
  by pat_completeness auto
termination
  by (relation "measure (\<lambda>(p, k, key, lo, hi, res). nat (hi - lo + 1))")
     (auto dest: nearestLiveLeft_le)

declare searchLoop.simps [simp del]

definition BinarySearch :: "Page \<Rightarrow> bytes \<Rightarrow> (bytes \<Rightarrow> slice) \<Rightarrow> int option" where
  "BinarySearch p key keyExtract = searchLoop p keyExtract key 0 (int (NumSlots p) - 1) (-1)"

text \<open>The records of a list of slots that are not tombstones.\<close>

fun live :: "slice list \<Rightarrow> bytes list" where
  "live [] = []"
| "live (NilSlice # rs) = live rs"
| "live (Slice bs # rs) = bs # live rs"

fun compactWrite ::
  "Page \<Rightarrow> nat \<Rightarrow> u16 \<Rightarrow> u16 \<Rightarrow> bytes list \<Rightarrow> (Page \<times> u16 \<times> u16) option" where
  "compactWrite p newSlot freeStart freeEnd [] = Some (p, freeStart, freeEnd)"
| "compactWrite p newSlot freeStart freeEnd (rec # recs) =
     (let freeEnd = freeEnd - word_of_nat (length rec)
      in do {
        b \<leftarrow> copy_to (Data p) (unat freeEnd) rec;
        p \<leftarrow> SetSlot (p\<lparr>Data := b\<rparr>) newSlot freeEnd (word_of_nat (length rec));
        compactWrite p (newSlot + 1) (freeStart + word_of_nat SlotSize) freeEnd recs })"

definition Compact :: "Page \<Rightarrow> Page option" where
  "Compact p =
     (let h = DecodeHeader p;
          numSlots = unat (hNumSlots h)
      in do {
        ds \<leftarrow> those (map (GetRecord p) [0..<numSlots]);
        let liveRecs = live ds;
        let p = p\<lparr>Data := put_at (Data p) HeaderSize (replicate (PageSize - HeaderSize) 0)\<rparr>;
        (p, freeStart, freeEnd) \<leftarrow>
           compactWrite p 0 (word_of_nat HeaderSize) (word_of_nat PageSize) liveRecs;
        let h = h\<lparr>hNumSlots := word_of_nat (length liveRecs), hFreeStart := freeStart,
                   hFreeEnd := freeEnd\<rparr>;
        Some (EncodeHeader p h) })"

text \<open>
  \<open>FragmentationRatio\<close> divides two integers as \<open>float64\<close>; the model keeps the exact quotient.
\<close>

definition FragmentationRatio :: "Page \<Rightarrow> rat option" where
  "FragmentationRatio p =
     (let numSlots = NumSlots p
      in do {
        ss \<leftarrow> those (map (GetSlot p) [0..<numSlots]);
        let tombstones = length (filter (\<lambda>s. Length s = 0) ss);
        let totalBytes = (\<Sum>s\<leftarrow>ss. unat (Length s));
        Some (if totalBytes = 0 then 0 else of_nat tombstones / of_nat numSlots) })"

end
