(* ===== verification/Slotted_Search.thy ===== *)
theory Slotted_Search
  imports Slotted
begin

text \<open>
  Correctness of the two binary searches over a slot array with tombstones. They are stated
  for any page whose records read as a list \<open>rs\<close> of slices (\<open>reads\<close>); a list is sorted when
  the keys of its live records are.
\<close>

section \<open>Definitions\<close>

definition reads :: "Page \<Rightarrow> slice list \<Rightarrow> bool" where
  "reads p rs \<longleftrightarrow> (\<forall>i < length rs. GetRecord p i = Some (rs ! i))"

abbreviation key_of :: "(bytes \<Rightarrow> slice) \<Rightarrow> bytes \<Rightarrow> bytes" where
  "key_of ke bs \<equiv> bytes_of (ke bs)"

fun key_le :: "(bytes \<Rightarrow> slice) \<Rightarrow> slice \<Rightarrow> slice \<Rightarrow> bool" where
  "key_le ke (Slice a) (Slice b) \<longleftrightarrow> key_of ke a \<le> key_of ke b"
| "key_le ke _ _ \<longleftrightarrow> True"

definition keys_sorted :: "(bytes \<Rightarrow> slice) \<Rightarrow> slice list \<Rightarrow> bool" where
  "keys_sorted ke rs \<longleftrightarrow> sorted_wrt (key_le ke) rs"

text \<open>Every live record with an index below \<open>r\<close>, or from \<open>r\<close> on, satisfies \<open>P\<close>.\<close>

definition all_below :: "(bytes \<Rightarrow> bool) \<Rightarrow> slice list \<Rightarrow> int \<Rightarrow> bool" where
  "all_below P rs r \<longleftrightarrow> (\<forall>i < length rs. \<forall>bs. int i < r \<longrightarrow> rs ! i = Slice bs \<longrightarrow> P bs)"

definition all_from :: "(bytes \<Rightarrow> bool) \<Rightarrow> slice list \<Rightarrow> int \<Rightarrow> bool" where
  "all_from P rs r \<longleftrightarrow> (\<forall>i < length rs. \<forall>bs. r \<le> int i \<longrightarrow> rs ! i = Slice bs \<longrightarrow> P bs)"

section \<open>Lemmas\<close>

lemma bytes_Compare_simps [simp]:
  "bytes_Compare a b \<le> 0 \<longleftrightarrow> a \<le> b"
  "bytes_Compare a b = 0 \<longleftrightarrow> a = b"
  "bytes_Compare a b < 0 \<longleftrightarrow> a < b"
  "0 \<le> bytes_Compare a b \<longleftrightarrow> b \<le> a"
  by (auto simp: bytes_Compare_def)

lemma keys_sortedD:
  "keys_sorted ke rs \<Longrightarrow> i \<le> j \<Longrightarrow> j < length rs \<Longrightarrow> rs ! i = Slice a \<Longrightarrow> rs ! j = Slice b \<Longrightarrow>
     key_of ke a \<le> key_of ke b"
  unfolding keys_sorted_def
  by (cases "i = j") (auto dest!: sorted_wrt_nth_less [where i = i and j = j])

lemma nearestLiveLeft_spec:
  assumes "reads p rs" and "0 \<le> left" and "i < int (length rs)"
  shows "\<exists>j d. nearestLiveLeft p left i ke = Some (j, d) \<and>
    ((j = -1 \<and> (\<forall>k < length rs. left \<le> int k \<and> int k \<le> i \<longrightarrow> rs ! k = NilSlice)) \<or>
     (left \<le> j \<and> j \<le> i \<and> (\<exists>bs. rs ! nat j = Slice bs \<and> d = ke bs) \<and>
      (\<forall>k < length rs. j < int k \<and> int k \<le> i \<longrightarrow> rs ! k = NilSlice)))"
  using assms(3)
proof (induction "nat (i - left + 1)" arbitrary: i rule: less_induct)
  case less
  show ?case
  proof (cases "left \<le> i")
    case False
    then show ?thesis by (subst nearestLiveLeft.simps) auto
  next
    case True
    with less.prems assms have rd: "GetRecord p (nat i) = Some (rs ! nat i)"
      by (simp add: reads_def nat_less_iff)
    show ?thesis
    proof (cases "rs ! nat i")
      case (Slice bs)
      with True rd show ?thesis by (subst nearestLiveLeft.simps) auto
    next
      case NilSlice
      have d1: "i - 1 < int (length rs)" and d2: "nat (i - 1 - left + 1) < nat (i - left + 1)"
        using True less.prems by auto
      obtain j d where IH: "nearestLiveLeft p left (i - 1) ke = Some (j, d)"
        and alt: "(j = -1 \<and> (\<forall>k < length rs. left \<le> int k \<and> int k \<le> i - 1 \<longrightarrow> rs ! k = NilSlice)) \<or>
          (left \<le> j \<and> j \<le> i - 1 \<and> (\<exists>bs. rs ! nat j = Slice bs \<and> d = ke bs) \<and>
           (\<forall>k < length rs. j < int k \<and> int k \<le> i - 1 \<longrightarrow> rs ! k = NilSlice))"
        using less.hyps [OF d2 d1] by (elim exE conjE) (rule that)
      have nil: "rs ! k = NilSlice" if "int k = i" for k
        using NilSlice that by auto
      have "nearestLiveLeft p left i ke = Some (j, d)"
        using True rd NilSlice IH by (subst nearestLiveLeft.simps) simp
      moreover have "int k \<le> i \<Longrightarrow> int k \<noteq> i \<Longrightarrow> int k \<le> i - 1" for k
        by auto
      moreover have "j \<le> i - 1 \<Longrightarrow> j \<le> i"
        by auto
      ultimately show ?thesis using alt nil by metis
    qed
  qed
qed

text \<open>
  Both searches look at the live slot \<open>j\<close> nearest to \<open>mid\<close> from the left, the anchor, and move
  one of the bounds past it; when there is none in \<open>[lo..mid]\<close> they go right.
\<close>

definition anchor :: "slice list \<Rightarrow> int \<Rightarrow> int \<Rightarrow> int \<Rightarrow> bytes \<Rightarrow> bool" where
  "anchor rs lo mid j bs \<longleftrightarrow> lo \<le> j \<and> j \<le> mid \<and> rs ! nat j = Slice bs \<and>
     (\<forall>k < length rs. j < int k \<and> int k \<le> mid \<longrightarrow> rs ! k = NilSlice)"

definition no_anchor :: "slice list \<Rightarrow> int \<Rightarrow> int \<Rightarrow> bool" where
  "no_anchor rs lo mid \<longleftrightarrow> (\<forall>k < length rs. lo \<le> int k \<and> int k \<le> mid \<longrightarrow> rs ! k = NilSlice)"

lemma probe:
  assumes rd: "reads p rs" and "0 \<le> lo" and "lo \<le> mid" and "mid < int (length rs)"
  obtains (live) bs where "GetRecord p (nat mid) = Some (Slice bs)" "anchor rs lo mid mid bs"
  | (anchored) j bs where "GetRecord p (nat mid) = Some NilSlice"
      "nearestLiveLeft p lo (mid - 1) ke = Some (j, ke bs)" "anchor rs lo mid j bs"
  | (none) d where "GetRecord p (nat mid) = Some NilSlice"
      "nearestLiveLeft p lo (mid - 1) ke = Some (-1, d)" "no_anchor rs lo mid"
proof -
  have get: "GetRecord p (nat mid) = Some (rs ! nat mid)"
    using assms by (simp add: reads_def nat_less_iff)
  show thesis
  proof (cases "rs ! nat mid")
    case (Slice bs)
    with get assms show ?thesis by (intro live) (auto simp: anchor_def)
  next
    case NilSlice
    then have at: "rs ! k = NilSlice" if "int k = mid" for k
      using that by auto
    have "mid - 1 < int (length rs)" using assms by simp
    from nearestLiveLeft_spec [OF rd \<open>0 \<le> lo\<close> this, of ke] show ?thesis
    proof (elim exE conjE disjE)
      fix j d assume "nearestLiveLeft p lo (mid - 1) ke = Some (j, d)" and "j = -1"
        and "\<forall>k < length rs. lo \<le> int k \<and> int k \<le> mid - 1 \<longrightarrow> rs ! k = NilSlice"
      then show thesis
        using get NilSlice at by (intro none [of d]) (force simp: no_anchor_def)+
    next
      fix j d bs assume "nearestLiveLeft p lo (mid - 1) ke = Some (j, d)" and "lo \<le> j"
        and "j \<le> mid - 1" and "rs ! nat j = Slice bs" and "d = ke bs"
        and "\<forall>k < length rs. j < int k \<and> int k \<le> mid - 1 \<longrightarrow> rs ! k = NilSlice"
      then show thesis
        using get NilSlice at by (intro anchored [of j bs]) (force simp: anchor_def)+
    qed
  qed
qed

text \<open>What an anchor says about the slots on either side of it, in a sorted list.\<close>

lemma anchor_below:
  assumes "keys_sorted ke rs" and "anchor rs lo mid j bs" and "0 \<le> lo" and "mid < int (length rs)"
    and "\<And>a. key_of ke a \<le> key_of ke bs \<Longrightarrow> P a"
  shows "all_below P rs (mid + 1)"
  unfolding all_below_def
proof (intro allI impI)
  fix i a assume i: "i < length rs" "int i < mid + 1" "rs ! i = Slice a"
  then have "int i \<le> j" using assms(2) by (force simp: anchor_def)
  then have "i \<le> nat j" "nat j < length rs" using assms(2-4) by (auto simp: anchor_def)
  then show "P a"
    using keys_sortedD [OF assms(1)] assms(2,5) i(3) unfolding anchor_def by blast
qed

lemma anchor_from:
  assumes "keys_sorted ke rs" and "anchor rs lo mid j bs" and "0 \<le> lo"
    and "\<And>a. key_of ke bs \<le> key_of ke a \<Longrightarrow> P a"
  shows "all_from P rs j"
  unfolding all_from_def
proof (intro allI impI)
  fix i a assume i: "i < length rs" "j \<le> int i" "rs ! i = Slice a"
  then have "nat j \<le> i" using assms(2,3) by (auto simp: anchor_def)
  then show "P a"
    using keys_sortedD [OF assms(1)] assms(2,4) i unfolding anchor_def by blast
qed

lemma no_anchor_below:
  "no_anchor rs lo mid \<Longrightarrow> all_below P rs lo \<Longrightarrow> all_below P rs (mid + 1)"
  unfolding no_anchor_def all_below_def by force

section \<open>The insertion position\<close>

text \<open>
  The invariant of \<open>binarySearchInsertPos\<close>: keys left of \<open>lo\<close> are at most the searched key, keys
  right of \<open>hi\<close> are greater.
\<close>

definition ins_inv :: "(bytes \<Rightarrow> slice) \<Rightarrow> slice list \<Rightarrow> bytes \<Rightarrow> int \<Rightarrow> int \<Rightarrow> bool" where
  "ins_inv ke rs key lo hi \<longleftrightarrow> 0 \<le> lo \<and> lo \<le> hi + 1 \<and> hi < int (length rs) \<and>
     all_below (\<lambda>bs. key_of ke bs \<le> key) rs lo \<and> all_from (\<lambda>bs. key < key_of ke bs) rs (hi + 1)"

lemma insertPosLoop_step:
  assumes "reads p rs" and "0 \<le> lo" and "lo \<le> hi" and "hi < int (length rs)"
  obtains (anchored) j bs mid where "lo \<le> mid" "mid \<le> hi" "anchor rs lo mid j bs"
      "insertPosLoop p ke key lo hi = (if key_of ke bs \<le> key
         then insertPosLoop p ke key (mid + 1) hi else insertPosLoop p ke key lo (j - 1))"
  | (none) mid where "lo \<le> mid" "mid \<le> hi" "no_anchor rs lo mid"
      "insertPosLoop p ke key lo hi = insertPosLoop p ke key (mid + 1) hi"
proof -
  define mid where "mid = (lo + hi) div 2"
  have m: "lo \<le> mid" "mid \<le> hi" using assms by (auto simp: mid_def)
  note unf = insertPosLoop.simps [of p ke key lo hi, folded mid_def]
  have "mid < int (length rs)" using m assms by simp
  with assms(1,2) m(1) show thesis
  proof (cases rule: probe [where ke = ke])
    case (live bs)
    with m assms show ?thesis by (intro anchored [of mid mid bs]) (simp_all add: unf)
  next
    case (anchored j bs)
    moreover from this have "0 \<le> j" using assms by (simp add: anchor_def)
    ultimately show ?thesis using m assms by (intro that(1) [of mid j bs]) (simp_all add: unf)
  next
    case (none d)
    with m assms show ?thesis by (intro that(2) [of mid]) (simp_all add: unf)
  qed
qed

lemma insertPosLoop_spec:
  assumes rd: "reads p rs" and sorted: "keys_sorted ke rs"
  shows "ins_inv ke rs key lo hi \<Longrightarrow> \<exists>r. insertPosLoop p ke key lo hi = Some r \<and> 0 \<le> r \<and>
    r \<le> int (length rs) \<and> all_below (\<lambda>bs. key_of ke bs \<le> key) rs r \<and>
    all_from (\<lambda>bs. key < key_of ke bs) rs r"
proof (induction "nat (hi - lo + 1)" arbitrary: lo hi rule: less_induct)
  case less
  then have b: "0 \<le> lo" "hi < int (length rs)" by (simp_all add: ins_inv_def)
  show ?case
  proof (cases "lo \<le> hi")
    case False
    with less.prems have "lo = hi + 1" by (simp add: ins_inv_def)
    with less.prems show ?thesis
      by (subst insertPosLoop.simps) (simp add: ins_inv_def)
  next
    case True
    with rd b(1) show ?thesis using b(2)
    proof (cases rule: insertPosLoop_step [where ke = ke and key = key])
      case (anchored j bs mid)
      show ?thesis
      proof (cases "key_of ke bs \<le> key")
        case le: True
        with anchored sorted b have "ins_inv ke rs key (mid + 1) hi"
          using less.prems anchor_below [OF sorted, of lo mid j bs "\<lambda>a. key_of ke a \<le> key"]
          by (auto simp: ins_inv_def)
        with le anchored show ?thesis using less.hyps [of hi "mid + 1"] by simp
      next
        case gt: False
        with anchored sorted b have "ins_inv ke rs key lo (j - 1)"
          using less.prems anchor_from [OF sorted, of lo mid j bs "\<lambda>a. key < key_of ke a"]
          by (auto simp: ins_inv_def anchor_def)
        with gt anchored show ?thesis using less.hyps [of "j - 1" lo] by (simp add: anchor_def)
      qed
    next
      case (none mid)
      with less.prems have "ins_inv ke rs key (mid + 1) hi"
        by (auto simp: ins_inv_def no_anchor_below)
      with none show ?thesis using less.hyps [of hi "mid + 1"] by simp
    qed
  qed
qed

lemma binarySearchInsertPos_spec:
  assumes "reads p rs" and "keys_sorted ke rs"
  obtains r where "binarySearchInsertPos p (length rs) key ke = Some r" and "r \<le> length rs"
    and "all_below (\<lambda>bs. key_of ke bs \<le> key) rs (int r)"
    and "all_from (\<lambda>bs. key < key_of ke bs) rs (int r)"
proof -
  have "ins_inv ke rs key 0 (int (length rs) - 1)"
    by (simp add: ins_inv_def all_below_def all_from_def)
  from insertPosLoop_spec [OF assms this] that show ?thesis
    by (auto simp: binarySearchInsertPos_def)
qed

section \<open>The search\<close>

text \<open>
  The invariant of \<open>BinarySearch\<close>: keys left of \<open>lo\<close> are smaller; keys right of \<open>hi\<close> are greater
  as long as no match is known, and a known match is the slot just right of \<open>hi\<close>.
\<close>

definition search_inv :: "(bytes \<Rightarrow> slice) \<Rightarrow> slice list \<Rightarrow> bytes \<Rightarrow> int \<Rightarrow> int \<Rightarrow> int \<Rightarrow> bool" where
  "search_inv ke rs key lo hi res \<longleftrightarrow> 0 \<le> lo \<and> lo \<le> hi + 1 \<and> hi < int (length rs) \<and>
     all_below (\<lambda>bs. key_of ke bs < key) rs lo \<and>
     (if res < 0 then res = -1 \<and> all_from (\<lambda>bs. key < key_of ke bs) rs (hi + 1)
      else res = hi + 1 \<and> res < int (length rs) \<and>
        (\<exists>bs. rs ! nat res = Slice bs \<and> key_of ke bs = key))"

lemma searchLoop_step:
  assumes "reads p rs" and "0 \<le> lo" and "lo \<le> hi" and "hi < int (length rs)"
  obtains (anchored) j bs mid where "lo \<le> mid" "mid \<le> hi" "anchor rs lo mid j bs"
      "searchLoop p ke key lo hi res = (if key_of ke bs = key then searchLoop p ke key lo (j - 1) j
         else if key_of ke bs < key then searchLoop p ke key (mid + 1) hi res
         else searchLoop p ke key lo (j - 1) res)"
  | (none) mid where "lo \<le> mid" "mid \<le> hi" "no_anchor rs lo mid"
      "searchLoop p ke key lo hi res = searchLoop p ke key (mid + 1) hi res"
proof -
  define mid where "mid = (lo + hi) div 2"
  have m: "lo \<le> mid" "mid \<le> hi" using assms by (auto simp: mid_def)
  note unf = searchLoop.simps [of p ke key lo hi res, folded mid_def]
  have "mid < int (length rs)" using m assms by simp
  with assms(1,2) m(1) show thesis
  proof (cases rule: probe [where ke = ke])
    case (live bs)
    with m assms show ?thesis by (intro anchored [of mid mid bs]) (simp_all add: unf)
  next
    case (anchored j bs)
    moreover from this have "0 \<le> j" using assms by (simp add: anchor_def)
    ultimately show ?thesis using m assms by (intro that(1) [of mid j bs]) (simp_all add: unf)
  next
    case (none d)
    with m assms show ?thesis by (intro that(2) [of mid]) (simp_all add: unf)
  qed
qed

lemma search_inv_match:
  assumes "search_inv ke rs key lo hi res" and "anchor rs lo mid j bs" and "mid \<le> hi"
    and "key_of ke bs = key"
  shows "search_inv ke rs key lo (j - 1) j"
  using assms by (auto simp: search_inv_def anchor_def)

lemma search_inv_right:
  assumes "search_inv ke rs key lo hi res" and "anchor rs lo mid j bs" and "mid \<le> hi"
    and "keys_sorted ke rs" and "key_of ke bs < key"
  shows "search_inv ke rs key (mid + 1) hi res"
proof -
  have "all_below (\<lambda>a. key_of ke a < key) rs (mid + 1)"
    using assms by (intro anchor_below [OF assms(4,2)]) (auto simp: search_inv_def)
  with assms show ?thesis by (auto simp: search_inv_def anchor_def)
qed

text \<open>Once a match is known no anchor has a greater key, so \<open>hi\<close> moves without a match only before.\<close>

lemma search_inv_left:
  assumes "search_inv ke rs key lo hi res" and "anchor rs lo mid j bs" and "mid \<le> hi"
    and "keys_sorted ke rs" and "key < key_of ke bs"
  shows "search_inv ke rs key lo (j - 1) res"
proof -
  have "all_from (\<lambda>a. key < key_of ke a) rs j"
    using assms by (intro anchor_from [OF assms(4,2)]) (auto simp: search_inv_def)
  moreover have "res < 0"
  proof (rule ccontr)
    assume "\<not> res < 0"
    with assms(1) obtain c where "rs ! nat res = Slice c" "key_of ke c = key"
      "res = hi + 1" "res < int (length rs)" "0 \<le> lo"
      by (auto simp: search_inv_def)
    moreover from this assms(2,3) have "nat j \<le> nat res" "nat res < length rs"
      by (auto simp: anchor_def)
    ultimately show False
      using keys_sortedD [OF assms(4), of "nat j" "nat res" bs c] assms(2,5)
      by (auto simp: anchor_def)
  qed
  ultimately show ?thesis using assms(1-3) by (auto simp: search_inv_def anchor_def)
qed

text \<open>
  \<open>search_result ke rs key r\<close>: \<open>r\<close> is the index of the leftmost live record with the key, or the
  code \<open>-(i + 1)\<close> of the position \<open>i\<close> that separates smaller from greater keys.
\<close>

definition search_result :: "(bytes \<Rightarrow> slice) \<Rightarrow> slice list \<Rightarrow> bytes \<Rightarrow> int \<Rightarrow> bool" where
  "search_result ke rs key r \<longleftrightarrow>
     (if 0 \<le> r then r < int (length rs) \<and> (\<exists>bs. rs ! nat r = Slice bs \<and> key_of ke bs = key) \<and>
        all_below (\<lambda>bs. key_of ke bs < key) rs r
      else - (r + 1) \<le> int (length rs) \<and> all_below (\<lambda>bs. key_of ke bs < key) rs (- (r + 1)) \<and>
        all_from (\<lambda>bs. key < key_of ke bs) rs (- (r + 1)))"

lemma searchLoop_spec:
  assumes rd: "reads p rs" and sorted: "keys_sorted ke rs"
  shows "search_inv ke rs key lo hi res \<Longrightarrow>
    \<exists>r. searchLoop p ke key lo hi res = Some r \<and> search_result ke rs key r"
proof (induction "nat (hi - lo + 1)" arbitrary: lo hi res rule: less_induct)
  case less
  then have b: "0 \<le> lo" "hi < int (length rs)" by (simp_all add: search_inv_def)
  show ?case
  proof (cases "lo \<le> hi")
    case False
    with less.prems have "lo = hi + 1" by (simp add: search_inv_def)
    with less.prems b show ?thesis
      by (subst searchLoop.simps) (auto simp: search_inv_def search_result_def add.commute split: if_splits)
  next
    case True
    with rd b(1) show ?thesis using b(2)
    proof (cases rule: searchLoop_step [where ke = ke and key = key and res = res])
      case (anchored j bs mid)
      then have small: "nat (j - 1 - lo + 1) < nat (hi - lo + 1)"
        "nat (hi - (mid + 1) + 1) < nat (hi - lo + 1)"
        by (auto simp: anchor_def)
      consider "key_of ke bs = key" | "key_of ke bs < key" | "key < key_of ke bs"
        by (meson linorder_neqE)
      then show ?thesis
      proof cases
        case 1
        with anchored less.hyps [OF small(1) search_inv_match] less.prems show ?thesis by auto
      next
        case 2
        with anchored less.hyps [OF small(2) search_inv_right] less.prems sorted show ?thesis by auto
      next
        case 3
        with anchored less.hyps [OF small(1) search_inv_left] less.prems sorted show ?thesis by auto
      qed
    next
      case (none mid)
      with less.prems have "search_inv ke rs key (mid + 1) hi res"
        by (auto simp: search_inv_def no_anchor_below)
      with none show ?thesis using less.hyps [of hi "mid + 1" res] by simp
    qed
  qed
qed

lemma BinarySearch_reads:
  assumes "reads p rs" and "keys_sorted ke rs" and "NumSlots p = length rs"
  shows "\<exists>r. BinarySearch p key ke = Some r \<and> search_result ke rs key r"
  unfolding BinarySearch_def
  using assms by (intro searchLoop_spec [of p rs]) (simp_all add: search_inv_def all_below_def all_from_def)

end
