(* ===== verification/Slotted_Layout.thy ===== *)
theory Slotted_Layout
  imports Slotted_Search
begin

text \<open>
  The layout invariant of a slotted page and the effect of every operation on the list of its
  records. A slot is read as a pair of naturals, the page as the list of these pairs;
  \<open>page_wf\<close> says that the slot array and the data area do not meet, that live records lie in
  the data area, do not overlap and fit in it together.
\<close>

section \<open>Definitions\<close>

type_synonym nslot = "nat \<times> nat"

definition slot_at :: "bytes \<Rightarrow> nat \<Rightarrow> nslot" where
  "slot_at b i = (le_val (get_at b (HeaderSize + i * SlotSize) 2),
                  le_val (get_at b (HeaderSize + i * SlotSize + 2) 2))"

definition slots_of :: "bytes \<Rightarrow> nat \<Rightarrow> nslot list" where
  "slots_of b n = map (slot_at b) [0..<n]"

abbreviation slots :: "Page \<Rightarrow> nslot list" where
  "slots p \<equiv> slots_of (Data p) (NumSlots p)"

definition rec_of :: "bytes \<Rightarrow> nslot \<Rightarrow> slice" where
  "rec_of b s = (if snd s = 0 then NilSlice else Slice (get_at b (fst s) (snd s)))"

text \<open>The abstraction of a page: its records in slot order, \<open>NilSlice\<close> for a tombstone.\<close>

definition recs :: "Page \<Rightarrow> slice list" where
  "recs p = map (rec_of (Data p)) (slots p)"

definition in_area :: "nat \<Rightarrow> nslot \<Rightarrow> bool" where
  "in_area fe s \<longleftrightarrow> snd s = 0 \<or> (fe \<le> fst s \<and> fst s + snd s \<le> PageSize)"

definition apart :: "nslot \<Rightarrow> nslot \<Rightarrow> bool" where
  "apart s t \<longleftrightarrow> snd s = 0 \<or> snd t = 0 \<or> fst s + snd s \<le> fst t \<or> fst t + snd t \<le> fst s"

definition free_end :: "Page \<Rightarrow> nat" where
  "free_end p = unat (hFreeEnd (DecodeHeader p))"

definition free_start :: "Page \<Rightarrow> nat" where
  "free_start p = unat (hFreeStart (DecodeHeader p))"

definition area_ok :: "nat \<Rightarrow> nslot list \<Rightarrow> bool" where
  "area_ok fe ss \<longleftrightarrow> (\<forall>s \<in> set ss. in_area fe s) \<and> sorted_wrt apart ss \<and>
     sum_list (map snd ss) + fe \<le> PageSize"

definition page_wf :: "Page \<Rightarrow> bool" where
  "page_wf p \<longleftrightarrow> page_ok p \<and> free_start p = HeaderSize + NumSlots p * SlotSize \<and>
     free_start p \<le> free_end p \<and> area_ok (free_end p) (slots p)"

text \<open>The header fields that insertion, deletion and compaction leave alone.\<close>

definition same_meta :: "Page \<Rightarrow> Page \<Rightarrow> bool" where
  "same_meta p p' \<longleftrightarrow> ID p' = ID p \<and> Type p' = Type p \<and> Flags p' = Flags p \<and>
     PrevSib p' = PrevSib p \<and> NextSib p' = NextSib p \<and>
     hPageLSN (DecodeHeader p') = hPageLSN (DecodeHeader p)"

section \<open>Reading slots and records\<close>

lemma get_at_put_at_inside:
  "off \<le> off' \<Longrightarrow> off' + n \<le> off + length xs \<Longrightarrow> off \<le> length b \<Longrightarrow>
     get_at (put_at b off xs) off' n = get_at xs (off' - off) n"
  by (simp add: get_at_def put_at_def)

lemma length_slots_of [simp]: "length (slots_of b n) = n"
  by (simp add: slots_of_def)

lemma nth_slots_of [simp]: "i < n \<Longrightarrow> slots_of b n ! i = slot_at b i"
  by (simp add: slots_of_def)

lemma length_recs [simp]: "length (recs p) = NumSlots p"
  by (simp add: recs_def)

lemma unat_Uint16: "unat (Uint16 b off) = le_val (get_at b off 2)"
proof -
  have "le_val (get_at b off 2) < 256 ^ length (get_at b off 2)"
    by (rule le_val_bound)
  also have "\<dots> \<le> 256 ^ 2"
    by (rule power_increasing) auto
  finally show ?thesis
    by (simp add: Uint16_def unat_of_nat)
qed

lemma page_wf_bounds:
  assumes "page_wf p"
  shows "length (Data p) = 4096" and "free_start p = 32 + 4 * NumSlots p"
    and "32 + 4 * NumSlots p \<le> free_end p" and "free_end p \<le> 4096"
  using assms by (auto simp: page_wf_def page_ok_def page_consts area_ok_def)

lemma GetSlot_slot_at:
  assumes "HeaderSize + i * SlotSize + SlotSize \<le> PageSize"
  shows "\<exists>s. GetSlot p i = Some s \<and> slot_at (Data p) i = (unat (Offset s), unat (Length s))"
  using assms by (auto simp: GetSlot_def slot_at_def unat_Uint16 Let_def)

lemma GetRecord_rec_of:
  assumes "HeaderSize + i * SlotSize + SlotSize \<le> PageSize"
    and "in_area fe (slot_at (Data p) i)"
  shows "GetRecord p i = Some (rec_of (Data p) (slot_at (Data p) i))"
proof -
  obtain s where s: "GetSlot p i = Some s"
    and sl: "slot_at (Data p) i = (unat (Offset s), unat (Length s))"
    using GetSlot_slot_at [OF assms(1)] by blast
  show ?thesis
  proof (cases "Length s = 0")
    case True
    then show ?thesis using s sl by (simp add: GetRecord_def rec_of_def)
  next
    case False
    then have "unat (Length s) \<noteq> 0" by (simp add: unat_eq_0)
    with assms(2) sl have le: "unat (Offset s) + unat (Length s) \<le> 4096"
      by (simp add: in_area_def page_consts)
    then have "unat (Offset s + Length s) = unat (Offset s) + unat (Length s)"
      by (simp add: unat_word_ariths)
    with False s sl le show ?thesis
      by (simp add: GetRecord_def rec_of_def Let_def page_consts unat_eq_0)
  qed
qed

lemma GetRecord_recs:
  assumes "page_wf p" and "i < NumSlots p"
  shows "GetRecord p i = Some (recs p ! i)"
proof -
  have "in_area (free_end p) (slot_at (Data p) i)"
    using assms by (auto simp: page_wf_def area_ok_def slots_of_def)
  moreover have "HeaderSize + i * SlotSize + SlotSize \<le> PageSize"
    using page_wf_bounds [OF assms(1)] assms(2) by (simp add: page_consts)
  ultimately show ?thesis
    using assms by (simp add: GetRecord_rec_of recs_def)
qed

section \<open>Writing slots\<close>

definition slot_bytes :: "nslot \<Rightarrow> bytes" where
  "slot_bytes s = le_bytes 2 (fst s) @ le_bytes 2 (snd s)"

lemma length_slot_bytes [simp]: "length (slot_bytes s) = 4"
  by (simp add: slot_bytes_def)

lemma SetSlot_Some:
  assumes "HeaderSize + i * SlotSize + SlotSize \<le> PageSize" and "page_ok p"
  shows "SetSlot p i off len =
    Some (p\<lparr>Data := put_at (Data p) (HeaderSize + i * SlotSize) (slot_bytes (unat off, unat len))\<rparr>)"
  using assms
  by (simp add: SetSlot_def Let_def le_defs put_at_def page_consts page_ok_def slot_bytes_def)

lemma slot_at_cong:
  "get_at b (HeaderSize + i * SlotSize) 4 = get_at b' (HeaderSize + j * SlotSize) 4 \<Longrightarrow>
     slot_at b i = slot_at b' j"
  using get_at_get_at [of 0 2 4 b "HeaderSize + i * SlotSize"]
    get_at_get_at [of 2 2 4 b "HeaderSize + i * SlotSize"]
    get_at_get_at [of 0 2 4 b' "HeaderSize + j * SlotSize"]
    get_at_get_at [of 2 2 4 b' "HeaderSize + j * SlotSize"]
  by (simp add: slot_at_def)

lemma slot_at_slot_bytes:
  assumes "get_at b (HeaderSize + i * SlotSize) 4 = slot_bytes s" and "fst s < 65536" and "snd s < 65536"
  shows "slot_at b i = s"
proof -
  let ?base = "HeaderSize + i * SlotSize"
  have "get_at b ?base 2 = get_at (slot_bytes s) 0 2"
    using get_at_get_at [of 0 2 4 b ?base] assms(1) by simp
  moreover have "get_at b (?base + 2) 2 = get_at (slot_bytes s) 2 2"
    using get_at_get_at [of 2 2 4 b ?base] assms(1) by simp
  ultimately show ?thesis
    using assms(2,3) by (simp add: slot_at_def slot_bytes_def get_at_def le_val_le_bytes)
qed

lemma slots_of_put_slot:
  assumes "i < n" and "HeaderSize + n * SlotSize \<le> length b" and "fst s < 65536" and "snd s < 65536"
  shows "slots_of (put_at b (HeaderSize + i * SlotSize) (slot_bytes s)) n = (slots_of b n)[i := s]"
proof (rule nth_equalityI)
  fix j assume j: "j < length (slots_of (put_at b (HeaderSize + i * SlotSize) (slot_bytes s)) n)"
  show "slots_of (put_at b (HeaderSize + i * SlotSize) (slot_bytes s)) n ! j = (slots_of b n)[i := s] ! j"
  proof (cases "j = i")
    case True
    then show ?thesis
      using assms by (simp add: slot_at_slot_bytes array_simps page_consts)
  next
    case False
    then have "j < i \<or> i < j" by auto
    then have "slot_at (put_at b (HeaderSize + i * SlotSize) (slot_bytes s)) j = slot_at b j"
      using assms j by (intro slot_at_cong) (auto simp: array_simps page_consts)
    with False j show ?thesis by simp
  qed
qed simp

text \<open>Bytes outside the slot array and the header do not matter to the slots.\<close>

lemma slots_of_cong:
  assumes "\<And>off n. HeaderSize \<le> off \<Longrightarrow> off + n \<le> HeaderSize + m * SlotSize \<Longrightarrow>
    get_at b off n = get_at b' off n"
  shows "slots_of b m = slots_of b' m"
  unfolding slots_of_def
proof (rule map_cong)
  fix i assume "i \<in> set [0..<m]"
  then show "slot_at b i = slot_at b' i"
    by (intro slot_at_cong assms) (auto simp: page_consts)
qed simp

text \<open>The block move of \<open>InsertRecord\<close> opens a gap in the slot array.\<close>

lemma slots_of_shift:
  assumes "pos \<le> n" and "HeaderSize + (n + 1) * SlotSize \<le> length b"
    and "copy_within b (HeaderSize + (pos + 1) * SlotSize) (HeaderSize + n * SlotSize + SlotSize)
           (HeaderSize + pos * SlotSize) (HeaderSize + n * SlotSize) = Some b'"
  shows "length b' = length b"
    and "i < pos \<Longrightarrow> slot_at b' i = slot_at b i"
    and "pos < i \<Longrightarrow> i \<le> n \<Longrightarrow> slot_at b' i = slot_at b (i - 1)"
    and "HeaderSize + (n + 1) * SlotSize \<le> off \<Longrightarrow> get_at b' off m = get_at b off m"
proof -
  have b': "b' = put_at b (HeaderSize + (pos + 1) * SlotSize)
      (get_at b (HeaderSize + pos * SlotSize) ((n - pos) * 4))"
    using assms by (simp add: copy_within_def page_consts algebra_simps split: if_splits)
  have len: "length (get_at b (HeaderSize + pos * SlotSize) ((n - pos) * 4)) = (n - pos) * 4"
    using assms by (simp add: page_consts algebra_simps)
  have fit: "HeaderSize + (pos + 1) * SlotSize + (n - pos) * 4 \<le> length b"
    using assms by (simp add: page_consts algebra_simps)
  show "length b' = length b"
    using fit len by (simp add: b')
  show "slot_at b' i = slot_at b i" if "i < pos"
    unfolding b'
    by (rule slot_at_cong) (rule get_at_put_at_before, use that fit in \<open>simp_all add: page_consts\<close>)
  show "slot_at b' i = slot_at b (i - 1)" if "pos < i" "i \<le> n"
  proof -
    have "get_at b' (HeaderSize + i * SlotSize) 4
        = get_at (get_at b (HeaderSize + pos * SlotSize) ((n - pos) * 4)) ((i - pos - 1) * 4) 4"
      unfolding b' using that len fit
      by (subst get_at_put_at_inside) (auto simp: page_consts algebra_simps)
    also have "\<dots> = get_at b (HeaderSize + (i - 1) * SlotSize) 4"
      using that by (subst get_at_get_at) (auto simp: page_consts algebra_simps)
    finally show ?thesis by (rule slot_at_cong)
  qed
  show "get_at b' off m = get_at b off m" if "HeaderSize + (n + 1) * SlotSize \<le> off"
    unfolding b'
    by (rule get_at_put_at_after, use that fit len assms(1) in \<open>simp_all add: page_consts algebra_simps\<close>)
qed

section \<open>Insertion\<close>

lemma reads_recs: "page_wf p \<Longrightarrow> reads p (recs p)"
  by (simp add: reads_def GetRecord_recs)

lemma map_insert_at: "map f (insert_at i x xs) = insert_at i (f x) (map f xs)"
  by (simp add: insert_at_def take_map drop_map)

lemma sorted_wrt_insert_at:
  "sorted_wrt R (insert_at i x xs) \<longleftrightarrow> sorted_wrt R xs \<and> (\<forall>y \<in> set (take i xs). R y x) \<and> (\<forall>y \<in> set (drop i xs). R x y)"
proof -
  have e: "sorted_wrt R xs \<longleftrightarrow> sorted_wrt R (take i xs) \<and> sorted_wrt R (drop i xs) \<and>
      (\<forall>a \<in> set (take i xs). \<forall>b \<in> set (drop i xs). R a b)"
    using sorted_wrt_append [of R "take i xs" "drop i xs"] unfolding append_take_drop_id .
  show ?thesis by (subst e) (auto simp: insert_at_def sorted_wrt_append)
qed

lemma sum_list_insert_at: "sum_list (insert_at i x xs) = x + sum_list (xs :: nat list)"
proof -
  have "sum_list xs = sum_list (take i xs) + sum_list (drop i xs)"
    by (metis append_take_drop_id sum_list_append)
  then show ?thesis by (simp add: insert_at_def)
qed

lemma rec_of_cong:
  "in_area fe s \<Longrightarrow> (\<And>off n. fe \<le> off \<Longrightarrow> get_at b off n = get_at b' off n) \<Longrightarrow>
     rec_of b s = rec_of b' s"
  by (auto simp: rec_of_def in_area_def)

lemma area_ok_insert:
  assumes "area_ok fe ss" and "l \<le> fe"
  shows "area_ok (fe - l) (insert_at i (fe - l, l) ss)"
proof -
  have fe: "fe \<le> PageSize" using assms by (simp add: area_ok_def)
  have "in_area (fe - l) s" "apart s (fe - l, l)" "apart (fe - l, l) s" if "s \<in> set ss" for s
    using assms that by (auto simp: area_ok_def in_area_def apart_def)
  moreover have "in_area (fe - l) (fe - l, l)"
    using assms fe by (simp add: in_area_def)
  moreover have "sum_list (map snd (insert_at i (fe - l, l) ss)) = l + sum_list (map snd ss)"
    by (simp add: map_insert_at sum_list_insert_at)
  ultimately show ?thesis
    using assms unfolding area_ok_def
    by (auto simp: sorted_wrt_insert_at dest: in_set_takeD in_set_dropD)
qed

text \<open>The three array writes of \<open>InsertRecord\<close>: the record, the gap in the slot array, the slot.\<close>

lemma insert_bytes:
  assumes wf: "page_wf p" and fit: "free_start p + length data + 4 \<le> free_end p"
    and pos: "pos \<le> NumSlots p"
  defines "n \<equiv> NumSlots p" and "nfe \<equiv> free_end p - length data"
  obtains b1 b2 b3 where
    "copy_to (Data p) nfe data = Some b1"
    "slots_of b1 n = slots p" "\<And>off m. free_end p \<le> off \<Longrightarrow> get_at b1 off m = get_at (Data p) off m"
    "copy_within b1 (HeaderSize + (pos + 1) * SlotSize) (HeaderSize + n * SlotSize + SlotSize)
       (HeaderSize + pos * SlotSize) (HeaderSize + n * SlotSize) = Some b2"
    "b3 = put_at b2 (HeaderSize + pos * SlotSize) (slot_bytes (nfe, length data))"
    "length b1 = 4096" "length b2 = 4096" "length b3 = 4096"
    "slots_of b3 (n + 1) = insert_at pos (nfe, length data) (slots p)"
    "\<And>off m. free_end p \<le> off \<Longrightarrow> get_at b3 off m = get_at (Data p) off m"
    "get_at b3 nfe (length data) = data"
proof -
  note bd = page_wf_bounds [OF wf]
  define b1 where "b1 = put_at (Data p) nfe data"
  have nfe: "nfe + length data = free_end p" "36 + 4 * n \<le> nfe"
    using fit bd by (auto simp: nfe_def n_def)
  have c1: "copy_to (Data p) nfe data = Some b1"
    using bd nfe by (simp add: copy_to_def b1_def)
  have l1: "length b1 = 4096" using bd nfe by (simp add: b1_def)
  have s1: "slots_of b1 n = slots p"
    unfolding n_def [symmetric]
    by (rule slots_of_cong) (use bd nfe in \<open>simp add: b1_def array_simps page_consts\<close>)
  have g1: "get_at b1 off m = get_at (Data p) off m" if "free_end p \<le> off" for off m
    using that bd nfe by (simp add: b1_def array_simps)
  have bnd: "HeaderSize + (n + 1) * SlotSize \<le> length b1" using l1 nfe bd by (simp add: page_consts)
  obtain b2 where c2: "copy_within b1 (HeaderSize + (pos + 1) * SlotSize)
      (HeaderSize + n * SlotSize + SlotSize) (HeaderSize + pos * SlotSize) (HeaderSize + n * SlotSize) = Some b2"
    using bnd pos by (auto simp: copy_within_def page_consts n_def)
  note sh = slots_of_shift [OF _ bnd c2]
  have pn: "pos \<le> n" using pos by (simp add: n_def)
  have l2: "length b2 = 4096" using sh(1) [OF pn] l1 by simp
  define b3 where "b3 = put_at b2 (HeaderSize + pos * SlotSize) (slot_bytes (nfe, length data))"
  have s3: "slots_of b3 (n + 1) = insert_at pos (nfe, length data) (slots p)"
  proof -
    have "slots_of b3 (n + 1) = (slots_of b2 (n + 1))[pos := (nfe, length data)]"
      unfolding b3_def using l2 bnd l1 pn nfe bd by (intro slots_of_put_slot) auto
    also have "\<dots> = insert_at pos (nfe, length data) (slots_of b1 n)"
      using sh(2,3) [OF pn] pn by (intro nth_equalityI) (auto simp: nth_insert_at nth_list_update)
    finally show ?thesis using s1 by simp
  qed
  have g3: "get_at b3 off m = get_at b1 off m" if "36 + 4 * n \<le> off" for off m
    using that l2 l1 bnd pn sh(4) [OF pn, of off m] by (simp add: b3_def array_simps page_consts)
  show thesis
    by (rule that [OF c1 s1 g1 c2 b3_def l1 l2 _ s3])
       (use g3 g1 nfe l2 pn bnd l1 bd in \<open>auto simp: b3_def page_consts b1_def array_simps\<close>)
qed

end
