(* ===== verification/Slotted_Ops.thy ===== *)
theory Slotted_Ops
  imports Slotted_Layout
begin

text \<open>
  The effect of \<open>InsertRecord\<close>, \<open>DeleteRecord\<close>, \<open>Compact\<close> and of an in-place write on the list
  of records of a well-formed page, and the properties of the slotted page.
\<close>

section \<open>Insertion\<close>

lemma unat_diff_u16:
  "k \<le> unat (a :: u16) \<Longrightarrow> unat (a - word_of_nat k) = unat a - k"
  using u16_bound [of a] by (subst unat_sub) (simp_all add: word_le_nat_alt unat_of_nat)

lemma unat_plus_u16:
  "unat (a :: u16) + k < 65536 \<Longrightarrow> unat (a + word_of_nat k) = unat a + k"
  by (simp add: unat_word_ariths unat_of_nat)

lemma uint_gap_less:
  "uint (a :: u16) - uint (b :: u16) < int k + 4 \<longleftrightarrow> unat a < unat b + k + 4"
  unfolding uint_nat by arith

lemma slots_EncodeHeader:
  "page_ok p \<Longrightarrow> slots (EncodeHeader p h) = slots_of (Data p) (unat (hNumSlots h))"
  by (subst EncodeHeader_sel(2), assumption, rule slots_of_cong) (simp add: get_at_EncodeHeader)

lemma page_wf_EncodeHeader:
  assumes ok: "page_ok p" and ss: "slots_of (Data p) (unat (hNumSlots h)) = ss"
    and fs: "unat (hFreeStart h) = HeaderSize + unat (hNumSlots h) * SlotSize"
    and le: "unat (hFreeStart h) \<le> unat (hFreeEnd h)" and area: "area_ok (unat (hFreeEnd h)) ss"
  shows "page_wf (EncodeHeader p h)" and "slots (EncodeHeader p h) = ss"
    and "recs (EncodeHeader p h) = map (rec_of (Data p)) ss"
    and "free_end (EncodeHeader p h) = unat (hFreeEnd h)"
    and "free_start (EncodeHeader p h) = unat (hFreeStart h)"
proof -
  show s: "slots (EncodeHeader p h) = ss"
    using slots_EncodeHeader [OF ok] ss by simp
  show e: "free_end (EncodeHeader p h) = unat (hFreeEnd h)"
    and f: "free_start (EncodeHeader p h) = unat (hFreeStart h)"
    using ok by (simp_all add: free_start_def free_end_def EncodeHeader_sel)
  show "page_wf (EncodeHeader p h)"
    unfolding page_wf_def s e f using ok le area fs by (simp add: EncodeHeader_sel)
  have "HeaderSize \<le> unat (hFreeEnd h)" using fs le by simp
  then have "rec_of (Data (EncodeHeader p h)) t = rec_of (Data p) t" if "t \<in> set ss" for t
    using ok area that
    by (intro rec_of_cong [of "unat (hFreeEnd h)"])
       (auto simp: area_ok_def intro!: get_at_EncodeHeader)
  then show "recs (EncodeHeader p h) = map (rec_of (Data p)) ss"
    unfolding recs_def s by (intro map_cong refl)
qed

lemma InsertRecord_full:
  "free_end p < free_start p + length data + 4 \<Longrightarrow> InsertRecord p data ke = Some (Inl ErrPageFull, p)"
  by (simp add: InsertRecord_def Let_def free_end_def free_start_def page_consts uint_gap_less)

text \<open>The page reads the same while \<open>InsertRecord\<close> looks for the position.\<close>

lemma reads_cong:
  assumes wf: "page_wf p" and sl: "slots_of b (NumSlots p) = slots p"
    and same: "\<And>off m. free_end p \<le> off \<Longrightarrow> get_at b off m = get_at (Data p) off m"
  shows "reads (p\<lparr>Data := b\<rparr>) (recs p)"
  unfolding reads_def
proof (intro allI impI)
  fix i assume i: "i < length (recs p)"
  note bd = page_wf_bounds [OF wf]
  have sl_i: "slot_at b i = slot_at (Data p) i"
    using arg_cong [OF sl, of "\<lambda>l. l ! i"] i by simp
  have area: "in_area (free_end p) (slot_at (Data p) i)"
    using wf i by (auto simp: page_wf_def area_ok_def slots_of_def)
  have "GetRecord (p\<lparr>Data := b\<rparr>) i = Some (rec_of b (slot_at b i))"
    using GetRecord_rec_of [of i "free_end p" "p\<lparr>Data := b\<rparr>"] area sl_i i bd
    by (simp add: page_consts)
  moreover have "rec_of b (slot_at b i) = rec_of (Data p) (slot_at (Data p) i)"
    unfolding sl_i using area same by (rule rec_of_cong)
  ultimately show "GetRecord (p\<lparr>Data := b\<rparr>) i = Some (recs p ! i)"
    using i by (simp add: recs_def)
qed

lemma InsertRecord_ok:
  assumes wf: "page_wf p" and sorted: "keys_sorted ke (recs p)" and ne: "data \<noteq> []"
    and fit: "free_start p + length data + 4 \<le> free_end p"
  obtains pos p' where "InsertRecord p data ke = Some (Inr pos, p')" and "pos \<le> NumSlots p"
    and "recs p' = insert_at pos (Slice data) (recs p)" and "page_wf p'" and "same_meta p p'"
    and "free_end p' = free_end p - length data" and "free_start p' = free_start p + 4"
    and "all_below (\<lambda>bs. key_of ke bs \<le> key_of ke data) (recs p) (int pos)"
    and "all_from (\<lambda>bs. key_of ke data < key_of ke bs) (recs p) (int pos)"
    and "VerifyChecksum p'"
proof -
  note bd = page_wf_bounds [OF wf]
  define n nfe h where "n = NumSlots p" and "nfe = free_end p - length data" and "h = DecodeHeader p"
  define w where "w = hFreeEnd h - word_of_nat (length data)"
  have w: "unat w = nfe"
    using fit unfolding w_def nfe_def free_end_def h_def by (intro unat_diff_u16) simp
  have len: "unat (word_of_nat (length data) :: u16) = length data"
    using fit bd by (simp add: unat_of_nat)
  have area: "area_ok (free_end p) (slots p)" using wf by (simp add: page_wf_def)
  obtain b1 where b1: "copy_to (Data p) nfe data = Some b1" "slots_of b1 n = slots p" "length b1 = 4096"
    "\<And>off m. free_end p \<le> off \<Longrightarrow> get_at b1 off m = get_at (Data p) off m"
    by (rule insert_bytes [OF wf fit le0]) (simp add: n_def nfe_def)
  have "reads (p\<lparr>Data := b1\<rparr>) (recs p)"
    using wf b1(2,4) by (intro reads_cong) (simp_all add: n_def)
  then obtain pos where pos: "binarySearchInsertPos (p\<lparr>Data := b1\<rparr>) n (key_of ke data) ke = Some pos"
    "pos \<le> n" "all_below (\<lambda>bs. key_of ke bs \<le> key_of ke data) (recs p) (int pos)"
    "all_from (\<lambda>bs. key_of ke data < key_of ke bs) (recs p) (int pos)"
    by (rule binarySearchInsertPos_spec [OF _ sorted, where key = "key_of ke data"]) (simp add: n_def)
  obtain b2 b3 where b3:
    "copy_within b1 (HeaderSize + (pos + 1) * SlotSize) (HeaderSize + n * SlotSize + SlotSize)
       (HeaderSize + pos * SlotSize) (HeaderSize + n * SlotSize) = Some b2"
    "b3 = put_at b2 (HeaderSize + pos * SlotSize) (slot_bytes (nfe, length data))"
    "length b2 = 4096" "length b3 = 4096"
    "slots_of b3 (n + 1) = insert_at pos (nfe, length data) (slots p)"
    "\<And>off m. free_end p \<le> off \<Longrightarrow> get_at b3 off m = get_at (Data p) off m"
    "get_at b3 nfe (length data) = data"
  proof (rule insert_bytes [OF wf fit, folded n_def nfe_def, OF pos(2)])
    fix b b2 b3 assume b: "copy_to (Data p) nfe data = Some b" and
      "copy_within b (HeaderSize + (pos + 1) * SlotSize) (HeaderSize + n * SlotSize + SlotSize)
         (HeaderSize + pos * SlotSize) (HeaderSize + n * SlotSize) = Some b2"
      "b3 = put_at b2 (HeaderSize + pos * SlotSize) (slot_bytes (nfe, length data))"
      "length b2 = 4096" "length b3 = 4096"
      "slots_of b3 (n + 1) = insert_at pos (nfe, length data) (slots_of (Data p) n)"
      "\<And>off m. free_end p \<le> off \<Longrightarrow> get_at b3 off m = get_at (Data p) off m"
      "get_at b3 nfe (length data) = data"
    moreover from b b1(1) have "b = b1" by simp
    ultimately show thesis by (intro that [of b2 b3]) (simp_all add: n_def)
  qed
  define h' where "h' = h\<lparr>hNumSlots := hNumSlots h + 1, hFreeStart := hFreeStart h + word_of_nat SlotSize,
                      hFreeEnd := w\<rparr>"
  define p' where "p' = EncodeHeader (p\<lparr>Data := b3\<rparr>) h'"
  have slotfit: "HeaderSize + pos * SlotSize + SlotSize \<le> PageSize"
    using pos(2) bd fit by (simp add: page_consts n_def)
  have hn: "unat (hNumSlots h) = n" by (simp add: h_def n_def)
  have "InsertRecord p data ke = Some (Inr pos, p')"
    using fit hn b1(1,3) b3(1-4) pos(1) SetSlot_Some [OF slotfit, of "p\<lparr>Data := b2\<rparr>" w "word_of_nat (length data)"] w len
    by (simp add: InsertRecord_def h_def [symmetric] w_def [symmetric] n_def [symmetric] p'_def h'_def
        page_ok_def page_consts free_end_def free_start_def Let_def uint_gap_less)
  moreover
  have nh: "unat (hNumSlots h') = n + 1" "unat (hFreeStart h') = free_start p + 4" "unat (hFreeEnd h') = nfe"
    using bd fit w unat_plus_u16 [of "hNumSlots h" 1] unat_plus_u16 [of "hFreeStart h" 4]
    by (simp_all add: h'_def n_def h_def free_start_def free_end_def page_consts)
  have wf': "page_wf p'" "recs p' = map (rec_of b3) (insert_at pos (nfe, length data) (slots p))"
    "free_end p' = nfe" "free_start p' = free_start p + 4"
    using page_wf_EncodeHeader [of "p\<lparr>Data := b3\<rparr>" h' "insert_at pos (nfe, length data) (slots p)"]
      area_ok_insert [OF area, of "length data" pos] nh b3(4,5) bd fit
    by (simp_all add: p'_def page_ok_def page_consts n_def nfe_def)
  moreover have "map (rec_of b3) (slots p) = recs p"
    unfolding recs_def using area b3(6) by (auto intro!: rec_of_cong simp: area_ok_def)
  moreover have "rec_of b3 (nfe, length data) = Slice data"
    using ne b3(7) by (simp add: rec_of_def)
  moreover have "same_meta p p'" "VerifyChecksum p'"
    using b3(4) by (simp_all add: same_meta_def p'_def EncodeHeader_sel page_ok_def page_consts h'_def h_def
      VerifyChecksum_EncodeHeader)
  ultimately show thesis
    using pos by (intro that [of pos p']) (simp_all add: map_insert_at n_def nfe_def)
qed

lemma keys_sorted_insert_at:
  assumes "keys_sorted ke rs"
    and "all_below (\<lambda>bs. key_of ke bs \<le> key_of ke d) rs (int pos)"
    and "all_from (\<lambda>bs. key_of ke d < key_of ke bs) rs (int pos)"
  shows "keys_sorted ke (insert_at pos (Slice d) rs)"
proof -
  have "key_le ke y (Slice d)" if y: "y \<in> set (take pos rs)" for y
  proof -
    from y obtain i where "i < pos" "i < length rs" "rs ! i = y"
      by (auto simp: in_set_conv_nth)
    then show ?thesis using assms(2) by (cases y) (auto simp: all_below_def)
  qed
  moreover have "key_le ke (Slice d) y" if y: "y \<in> set (drop pos rs)" for y
  proof -
    from y obtain k where "k < length rs - pos" "rs ! (pos + k) = y"
      by (auto simp: in_set_conv_nth)
    then obtain i where "pos \<le> i" "i < length rs" "rs ! i = y"
      by (intro that [of "pos + k"]) auto
    then show ?thesis using assms(3) by (cases y) (auto simp: all_from_def intro: less_imp_le)
  qed
  ultimately show ?thesis
    using assms(1) by (simp add: keys_sorted_def sorted_wrt_insert_at)
qed

section \<open>Initialisation\<close>

lemma page_wf_Init:
  assumes "page_ok p"
  shows "page_wf (Init p t)" and "recs (Init p t) = []" and "free_end (Init p t) = 4096"
    and "free_start (Init p t) = 32"
  using assms
  by (simp_all add: page_wf_def recs_def Init_sel free_start_def free_end_def page_consts
      area_ok_def slots_of_def)

section \<open>Deletion\<close>

lemma area_ok_delete:
  assumes "area_ok fe ss"
  shows "area_ok fe (ss[i := (off, 0)])"
proof (cases "i < length ss")
  case True
  define l r where "l = take i ss" and "r = drop (Suc i) ss"
  have "ss = l @ ss ! i # r" and "ss[i := (off, 0)] = l @ (off, 0) # r"
    using True by (simp_all add: l_def r_def id_take_nth_drop upd_conv_take_nth_drop)
  then obtain x where "ss = l @ x # r" "ss[i := (off, 0)] = l @ (off, 0) # r" by blast
  moreover have "apart s (off, 0)" "apart (off, 0) s" "in_area fe (off, 0)" for s
    by (simp_all add: apart_def in_area_def)
  ultimately show ?thesis
    using assms by (auto simp: area_ok_def sorted_wrt_append)
next
  case False
  then have "ss[i := (off, 0)] = ss" by (simp add: list_update_beyond)
  with assms show ?thesis by simp
qed

text \<open>A write below the header that keeps the page's fields.\<close>

lemma header_put_at:
  assumes "page_ok p" and "HeaderSize \<le> off" and "off + length xs \<le> PageSize"
  shows "NumSlots (p\<lparr>Data := put_at (Data p) off xs\<rparr>) = NumSlots p"
    and "free_end (p\<lparr>Data := put_at (Data p) off xs\<rparr>) = free_end p"
    and "free_start (p\<lparr>Data := put_at (Data p) off xs\<rparr>) = free_start p"
    and "same_meta p (p\<lparr>Data := put_at (Data p) off xs\<rparr>)"
    and "page_ok (p\<lparr>Data := put_at (Data p) off xs\<rparr>)"
  using assms
  by (simp_all add: page_ok_def page_consts NumSlots_def free_end_def free_start_def same_meta_def
      DecodeHeader_def Type_def Flags_def PrevSib_def NextSib_def Let_def le_defs array_simps)

lemma UpdateChecksum_layout:
  assumes "page_ok p"
  shows "slots (UpdateChecksum p) = slots p"
    and "free_end (UpdateChecksum p) = free_end p" and "free_start (UpdateChecksum p) = free_start p"
    and "same_meta q (UpdateChecksum p) = same_meta q p"
    and "area_ok (free_end p) (slots p) \<Longrightarrow> HeaderSize \<le> free_end p \<Longrightarrow> recs (UpdateChecksum p) = recs p"
proof -
  show s: "slots (UpdateChecksum p) = slots p"
    by (subst UpdateChecksum_sel(2) [OF assms], rule slots_of_cong) (simp add: get_at_UpdateChecksum assms)
  show "free_end (UpdateChecksum p) = free_end p" "free_start (UpdateChecksum p) = free_start p"
    "same_meta q (UpdateChecksum p) = same_meta q p"
    using assms by (simp_all add: free_end_def free_start_def same_meta_def UpdateChecksum_sel)
  show "recs (UpdateChecksum p) = recs p"
    if a: "area_ok (free_end p) (slots p)" and h: "HeaderSize \<le> free_end p"
  proof -
    have "rec_of (Data (UpdateChecksum p)) t = rec_of (Data p) t" if "t \<in> set (slots p)" for t
      using that a h assms by (intro rec_of_cong [of "free_end p"])
        (auto simp: area_ok_def intro!: get_at_UpdateChecksum)
    then show ?thesis unfolding recs_def s by (intro map_cong refl)
  qed
qed

lemma page_wf_UpdateChecksum:
  assumes "page_wf p"
  shows "page_wf (UpdateChecksum p)" and "recs (UpdateChecksum p) = recs p"
    and "same_meta p (UpdateChecksum p)" and "VerifyChecksum (UpdateChecksum p)"
proof -
  have ok: "page_ok p" "area_ok (free_end p) (slots p)" "HeaderSize \<le> free_end p"
    using assms by (auto simp: page_wf_def)
  note l = UpdateChecksum_layout [OF ok(1)]
  show "recs (UpdateChecksum p) = recs p" "same_meta p (UpdateChecksum p)"
    using l(4,5) ok by (simp_all add: same_meta_def)
  show "page_wf (UpdateChecksum p)"
    using assms unfolding page_wf_def l(1,2,3) by (simp add: UpdateChecksum_sel)
  show "VerifyChecksum (UpdateChecksum p)" using ok(1) by (rule VerifyChecksum_UpdateChecksum)
qed

lemma DeleteRecord_ok:
  assumes wf: "page_wf p" and i: "i < NumSlots p"
  obtains p' where "DeleteRecord p i = Some p'" and "recs p' = (recs p)[i := NilSlice]" and "page_wf p'"
    and "same_meta p p'" and "free_end p' = free_end p" and "VerifyChecksum p'"
proof -
  note bd = page_wf_bounds [OF wf]
  have ok: "page_ok p" and area: "area_ok (free_end p) (slots p)" using wf by (simp_all add: page_wf_def)
  have fit: "HeaderSize + i * SlotSize + SlotSize \<le> PageSize" using bd i by (simp add: page_consts)
  obtain s where s: "GetSlot p i = Some s" "slot_at (Data p) i = (unat (Offset s), unat (Length s))"
    using GetSlot_slot_at [OF fit] by blast
  define b where "b = put_at (Data p) (HeaderSize + i * SlotSize) (slot_bytes (unat (Offset s), 0))"
  define q where "q = p\<lparr>Data := b\<rparr>"
  have set: "SetSlot p i (Offset s) 0 = Some q"
    using SetSlot_Some [OF fit ok, of "Offset s" 0] by (simp add: q_def b_def)
  have hd: "NumSlots q = NumSlots p" "free_end q = free_end p" "free_start q = free_start p"
    "same_meta p q" "page_ok q"
    unfolding q_def b_def using header_put_at [OF ok, of "HeaderSize + i * SlotSize"] fit
    by (simp_all add: page_consts)
  have sl: "slots q = (slots p)[i := (unat (Offset s), 0)]"
    unfolding hd unfolding q_def b_def using slots_of_put_slot [OF i] bd u16_bound
    by (simp add: page_consts)
  have wfq: "page_wf q"
    using wf area_ok_delete [OF area] unfolding page_wf_def hd(1-3) using sl hd by simp
  have g: "get_at b off m = get_at (Data p) off m" if "free_end p \<le> off" for off m
    unfolding b_def using that bd i by (intro get_at_put_at_after) (auto simp: page_consts)
  have "recs q = map (rec_of b) ((slots p)[i := (unat (Offset s), 0)])"
    unfolding recs_def sl by (simp add: q_def)
  also have "\<dots> = (map (rec_of b) (slots p))[i := NilSlice]"
    by (simp add: map_update rec_of_def)
  also have "map (rec_of b) (slots p) = recs p"
    unfolding recs_def using area g by (intro map_cong refl rec_of_cong) (auto simp: area_ok_def)
  finally have rq: "recs q = (recs p)[i := NilSlice]" .
  show thesis
    using that [of "UpdateChecksum q"] s(1) set wfq rq hd page_wf_UpdateChecksum [OF wfq]
      UpdateChecksum_layout(2,4) [OF hd(5)]
    by (simp add: DeleteRecord_def)
qed

section \<open>Compaction\<close>

text \<open>
  The state of the rebuild loop of \<open>Compact\<close> after it has written the records \<open>ds\<close>:
  their slots \<open>ss\<close> fill the data area down to \<open>fe\<close>.
\<close>

definition rebuilt :: "bytes \<Rightarrow> nat \<Rightarrow> bytes list \<Rightarrow> bool" where
  "rebuilt b fe ds \<longleftrightarrow> length b = PageSize \<and> area_ok fe (slots_of b (length ds)) \<and>
     map (rec_of b) (slots_of b (length ds)) = map Slice ds"

lemma slots_of_Suc: "slots_of b (Suc n) = slots_of b n @ [slot_at b n]"
  by (simp add: slots_of_def)

lemma rebuilt_step:
  assumes rb: "rebuilt b fe ds" and ne: "r \<noteq> []" and fit: "36 + 4 * length ds + length r \<le> fe"
  defines "fe' \<equiv> fe - length r"
  shows "rebuilt (put_at (put_at b fe' r) (HeaderSize + length ds * SlotSize) (slot_bytes (fe', length r)))
    fe' (ds @ [r])"
proof -
  define b1 b2 where "b1 = put_at b fe' r"
    and "b2 = put_at b1 (HeaderSize + length ds * SlotSize) (slot_bytes (fe', length r))"
  have area: "area_ok fe (slots_of b (length ds))" and len: "length b = 4096"
    using rb by (simp_all add: rebuilt_def page_consts)
  then have fe: "fe \<le> 4096" by (simp add: area_ok_def page_consts)
  have l: "length b1 = 4096" "length b2 = 4096"
    using fit fe len by (simp_all add: b1_def b2_def fe'_def page_consts)
  have g: "get_at b2 off m = get_at b off m" if "fe \<le> off" for off m
    using that fit fe len l by (simp add: b2_def b1_def fe'_def array_simps page_consts)
  have "slots_of b2 (length ds) = slots_of b (length ds)"
    by (rule slots_of_cong) (use fit fe len l in \<open>simp add: b2_def b1_def fe'_def array_simps page_consts\<close>)
  moreover have "slot_at b2 (length ds) = (fe', length r)"
    using fit fe l unfolding b2_def
    by (intro slot_at_slot_bytes get_at_put_at_same) (auto simp: fe'_def page_consts)
  ultimately have sl: "slots_of b2 (Suc (length ds)) = slots_of b (length ds) @ [(fe', length r)]"
    by (simp add: slots_of_Suc)
  have "area_ok fe' (slots_of b (length ds) @ [(fe', length r)])"
    using area_ok_insert [OF area, of "length r" "length ds"] fit by (simp add: fe'_def insert_at_def)
  moreover have "map (rec_of b2) (slots_of b (length ds)) = map (rec_of b) (slots_of b (length ds))"
    using area g by (intro map_cong refl rec_of_cong) (auto simp: area_ok_def)
  moreover have "get_at b2 fe' (length r) = get_at b1 fe' (length r)"
    using l fit fe unfolding b2_def by (intro get_at_put_at_after) (auto simp: fe'_def page_consts)
  moreover have "get_at b1 fe' (length r) = r"
    unfolding b1_def using len fe by (intro get_at_put_at_same) (auto simp: fe'_def)
  moreover have "map (rec_of b) (slots_of b (length ds)) = map Slice ds"
    using rb by (simp add: rebuilt_def)
  ultimately show ?thesis
    unfolding b2_def [symmetric] b1_def [symmetric]
    using sl l ne by (simp add: rebuilt_def rec_of_def page_consts)
qed

lemma compactWrite_ok:
  assumes "rebuilt (Data p) (unat fe) ds" and "unat fs = 32 + 4 * length ds" and "[] \<notin> set rs"
    and "32 + 4 * (length ds + length rs) + sum_list (map length rs) \<le> unat fe"
  shows "\<exists>p' fs' fe'. compactWrite p (length ds) fs fe rs = Some (p', fs', fe') \<and> ID p' = ID p \<and>
    rebuilt (Data p') (unat fe') (ds @ rs) \<and> unat fs' = 32 + 4 * (length ds + length rs) \<and>
    unat fe' = unat fe - sum_list (map length rs)"
  using assms
proof (induction rs arbitrary: p fe fs ds)
  case Nil
  then show ?case by simp
next
  case (Cons r rs)
  define fe1 where "fe1 = fe - word_of_nat (length r)"
  have fe: "unat fe \<le> 4096" "length (Data p) = 4096"
    using Cons.prems(1) by (simp_all add: rebuilt_def area_ok_def page_consts)
  have fe1: "unat fe1 = unat fe - length r"
    unfolding fe1_def using Cons.prems(4) by (intro unat_diff_u16) simp
  have len: "unat (word_of_nat (length r) :: u16) = length r"
    using Cons.prems(4) fe by (simp add: unat_of_nat)
  define q where "q = p\<lparr>Data := put_at (put_at (Data p) (unat fe1) r)
    (HeaderSize + length ds * SlotSize) (slot_bytes (unat fe1, length r))\<rparr>"
  have rb: "rebuilt (Data q) (unat fe1) (ds @ [r])"
    using rebuilt_step [OF Cons.prems(1), of r] Cons.prems(3,4) by (auto simp add: q_def fe1)
  have fs: "unat (fs + 4) = 32 + 4 * length (ds @ [r])"
    using unat_plus_u16 [of fs 4] Cons.prems(2,4) fe by simp
  have "compactWrite p (length ds) fs fe (r # rs) = compactWrite q (length (ds @ [r])) (fs + 4) fe1 rs"
    using Cons.prems(4) fe fe1 len
    by (auto simp add: fe1_def [symmetric] copy_to_def SetSlot_Some page_ok_def page_consts q_def)
  with Cons.IH [OF rb fs] Cons.prems(3,4) show ?case
    by (auto simp: fe1 q_def)
qed

lemma live_length: "length (live ds) \<le> length ds"
  by (induction ds rule: live.induct) auto

lemma live_sum: "sum_list (map length (live (map (rec_of b) ss))) \<le> sum_list (map snd ss)"
proof (induction ss)
  case (Cons s ss)
  then show ?case by (cases "snd s = 0") (auto simp: rec_of_def)
qed simp

lemma set_live: "set (live ds) = {bs. Slice bs \<in> set ds}"
  by (induction ds rule: live.induct) auto

lemma those_GetRecord:
  assumes "page_wf p"
  shows "those (map (GetRecord p) [0..<NumSlots p]) = Some (recs p)"
proof -
  have "those (map (GetRecord p) xs) = Some (map (\<lambda>i. recs p ! i) xs)" if "\<forall>i \<in> set xs. i < NumSlots p" for xs
    using that by (induction xs) (auto simp: GetRecord_recs [OF assms])
  from this [of "[0..<NumSlots p]"] show ?thesis
    using map_nth [of "recs p"] by simp
qed

lemma recs_nonempty:
  assumes "page_wf p" and "Slice bs \<in> set (recs p)"
  shows "bs \<noteq> []"
proof -
  from assms(2) obtain s where s: "s \<in> set (slots p)" "rec_of (Data p) s = Slice bs"
    by (auto simp: recs_def)
  with assms(1) have "in_area (free_end p) s" by (auto simp: page_wf_def area_ok_def)
  with s(2) page_wf_bounds(1) [OF assms(1)] have "length bs = snd s" "snd s \<noteq> 0"
    by (auto simp: rec_of_def in_area_def page_consts split: if_splits)
  then show ?thesis by auto
qed

lemma Compact_ok:
  assumes wf: "page_wf p"
  obtains p' where "Compact p = Some p'" and "recs p' = map Slice (live (recs p))" and "page_wf p'"
    and "same_meta p p'" and "VerifyChecksum p'"
    and "free_end p' = 4096 - sum_list (map length (live (recs p)))"
    and "free_start p' = 32 + 4 * length (live (recs p))"
proof -
  note bd = page_wf_bounds [OF wf]
  define rs where "rs = live (recs p)"
  define q where "q = p\<lparr>Data := put_at (Data p) HeaderSize (replicate (PageSize - HeaderSize) 0)\<rparr>"
  have "sum_list (map length rs) + free_end p \<le> 4096" "length rs \<le> NumSlots p"
    using live_sum [of "Data p" "slots p"] live_length [of "recs p"] wf
    by (simp_all add: rs_def recs_def page_wf_def area_ok_def page_consts)
  then have fit: "32 + 4 * length rs + sum_list (map length rs) \<le> 4096" using bd by linarith
  have ne: "[] \<notin> set rs" using recs_nonempty [OF wf] by (auto simp: rs_def set_live)
  have q: "ID q = ID p" "length (Data q) = 4096" using bd by (simp_all add: q_def page_consts)
  then have "rebuilt (Data q) (unat (4096 :: u16)) []"
    by (simp add: rebuilt_def area_ok_def slots_of_def page_consts)
  from compactWrite_ok [OF this, of 32 rs] fit ne q obtain p1 fs fe where
    w: "compactWrite q 0 32 4096 rs = Some (p1, fs, fe)" "ID p1 = ID p"
      "rebuilt (Data p1) (unat fe) rs" "unat fs = 32 + 4 * length rs"
      "unat fe = 4096 - sum_list (map length rs)"
    by auto
  define h where "h = (DecodeHeader p)\<lparr>hNumSlots := word_of_nat (length rs), hFreeStart := fs, hFreeEnd := fe\<rparr>"
  have C: "Compact p = Some (EncodeHeader p1 h)"
    using w(1) unfolding Compact_def Let_def unat_hNumSlots those_GetRecord [OF wf]
    by (simp add: rs_def [symmetric] q_def [symmetric] h_def) (simp add: page_consts)
  have ok: "page_ok p1" and sl: "area_ok (unat fe) (slots_of (Data p1) (length rs))"
    and rc: "map (rec_of (Data p1)) (slots_of (Data p1) (length rs)) = map Slice rs"
    using w(3) by (simp_all add: rebuilt_def page_ok_def)
  have nh: "unat (hNumSlots h) = length rs" using fit by (simp add: h_def unat_of_nat)
  have E: "page_wf (EncodeHeader p1 h)" "recs (EncodeHeader p1 h) = map Slice rs"
    "free_end (EncodeHeader p1 h) = unat fe" "free_start (EncodeHeader p1 h) = unat fs"
    using page_wf_EncodeHeader [OF ok, of h, OF refl] sl rc nh w(4,5) fit
    by (simp_all add: h_def page_consts)
  have "same_meta p (EncodeHeader p1 h)"
    using ok w(2) by (simp add: same_meta_def EncodeHeader_sel h_def)
  with C E w(4,5) show thesis
    by (intro that) (simp_all add: rs_def VerifyChecksum_EncodeHeader ok)
qed

section \<open>Writing inside a record\<close>

text \<open>
  A caller that changes bytes of the slice \<open>GetRecord\<close> returned changes the page, because the
  slice shares the page array.
\<close>

definition poke :: "Page \<Rightarrow> nat \<Rightarrow> nat \<Rightarrow> bytes \<Rightarrow> Page" where
  "poke p i off xs = p\<lparr>Data := put_at (Data p) (fst (slot_at (Data p) i) + off) xs\<rparr>"

lemma slots_apart:
  assumes "page_wf p" and "i < NumSlots p" and "j < NumSlots p" and "i \<noteq> j"
  shows "apart (slots p ! i) (slots p ! j)"
proof -
  have "sorted_wrt apart (slots p)" using assms(1) by (simp add: page_wf_def area_ok_def)
  then have "i < j \<Longrightarrow> apart (slots p ! i) (slots p ! j)" "j < i \<Longrightarrow> apart (slots p ! j) (slots p ! i)"
    using sorted_wrt_nth_less assms(2,3) by fastforce+
  with assms(4) show ?thesis by (auto simp: apart_def neq_iff)
qed

lemma get_at_put_at_within:
  assumes "off + length xs \<le> n" and "base + n \<le> length b"
  shows "get_at (put_at b (base + off) xs) base n = put_at (get_at b base n) off xs"
proof (rule nth_equalityI)
  have l: "length (get_at b base n) = n" using assms by simp
  fix i assume "i < length (get_at (put_at b (base + off) xs) base n)"
  then have i: "i < n" "base + i < length b" using assms by simp_all
  then show "get_at (put_at b (base + off) xs) base n ! i = put_at (get_at b base n) off xs ! i"
    using assms l by (simp add: nth_put_at) (simp add: get_at_def nth_put_at)
qed (use assms in simp)

lemma poke_ok:
  assumes wf: "page_wf p" and i: "i < NumSlots p" and r: "recs p ! i = Slice r"
    and fit: "off + length xs \<le> length r"
  shows "recs (poke p i off xs) = (recs p)[i := Slice (put_at r off xs)]"
    and "page_wf (poke p i off xs)" and "same_meta p (poke p i off xs)"
    and "free_end (poke p i off xs) = free_end p"
proof -
  note bd = page_wf_bounds [OF wf]
  obtain o' l where sl: "slot_at (Data p) i = (o', l)" by fastforce
  have at: "slots p ! i = (o', l)" using i sl by simp
  have inA: "in_area (free_end p) s" if "s \<in> set (slots p)" for s
    using wf that by (simp add: page_wf_def area_ok_def)
  have l: "l \<noteq> 0" and rd: "r = get_at (Data p) o' l"
    using r i sl by (auto simp: recs_def rec_of_def split: if_splits)
  have pos: "free_end p \<le> o'" "o' + l \<le> 4096"
    using inA [of "(o', l)"] l at i nth_mem [of i "slots p"] by (auto simp: in_area_def page_consts)
  then have fit': "off + length xs \<le> l" using fit bd by (simp add: rd)
  define q where "q = poke p i off xs"
  have q: "q = p\<lparr>Data := put_at (Data p) (o' + off) xs\<rparr>" by (simp add: q_def poke_def sl)
  have hd: "NumSlots q = NumSlots p" "free_end q = free_end p" "free_start q = free_start p"
    "same_meta p q" "page_ok q"
    unfolding q using header_put_at [of p "o' + off" xs] wf bd pos fit'
    by (simp_all add: page_consts page_wf_def)
  have sq: "slots q = slots p"
    unfolding hd by (rule slots_of_cong) (use bd pos fit' in \<open>simp add: q array_simps page_consts\<close>)
  show "page_wf (poke p i off xs)" "same_meta p (poke p i off xs)" "free_end (poke p i off xs) = free_end p"
    unfolding q_def [symmetric] using wf hd unfolding page_wf_def hd(1-3) using sq hd by simp_all
  have "rec_of (Data q) (slots p ! j) = (recs p)[i := Slice (put_at r off xs)] ! j" if j: "j < NumSlots p" for j
  proof (cases "j = i")
    case True
    with l pos fit' bd j sl show ?thesis
      by (simp add: q rec_of_def rd get_at_put_at_within)
  next
    case False
    with slots_apart [OF wf i j] at have "apart (o', l) (slots p ! j)" by simp
    moreover have "in_area (free_end p) (slots p ! j)" using j by (intro inA nth_mem) simp
    ultimately show ?thesis
      using False j l pos fit' bd
      by (auto simp: q rec_of_def recs_def apart_def in_area_def page_consts array_simps)
  qed
  moreover have "recs q = map (rec_of (Data q)) (slots p)" unfolding recs_def sq ..
  ultimately show "recs (poke p i off xs) = (recs p)[i := Slice (put_at r off xs)]"
    unfolding q_def [symmetric] by (intro nth_equalityI) simp_all
qed

section \<open>The interface of a page of records\<close>

text \<open>
  What the leaf and internal nodes rely on: a page is a list of slices with so many free
  bytes, and every operation is total on a well-formed page.
\<close>

lemma key_le_NilSlice: "key_le ke NilSlice s" "key_le ke s NilSlice"
  by (cases s; simp)+

locale record_page =
  fixes rep :: "'p \<Rightarrow> slice list"
    and wf :: "'p \<Rightarrow> bool"
    and room :: "'p \<Rightarrow> nat"
    and meta :: "'p \<Rightarrow> 'p \<Rightarrow> bool"
    and fetch :: "'p \<Rightarrow> nat \<Rightarrow> slice option"
    and ins :: "'p \<Rightarrow> bytes \<Rightarrow> (bytes \<Rightarrow> slice) \<Rightarrow> ((error, nat) result \<times> 'p) option"
    and del :: "'p \<Rightarrow> nat \<Rightarrow> 'p option"
    and compact :: "'p \<Rightarrow> 'p option"
    and search :: "'p \<Rightarrow> bytes \<Rightarrow> (bytes \<Rightarrow> slice) \<Rightarrow> int option"
  assumes fetch_law: "wf p \<Longrightarrow> i < length (rep p) \<Longrightarrow> fetch p i = Some (rep p ! i)"
    and full_law: "room p < length d + 4 \<Longrightarrow> ins p d ke = Some (Inl ErrPageFull, p)"
    and ins_law: "wf p \<Longrightarrow> keys_sorted ke (rep p) \<Longrightarrow> d \<noteq> [] \<Longrightarrow> length d + 4 \<le> room p \<Longrightarrow>
      \<exists>pos p'. ins p d ke = Some (Inr pos, p') \<and> pos \<le> length (rep p) \<and>
        rep p' = insert_at pos (Slice d) (rep p) \<and> wf p' \<and> meta p p' \<and>
        room p' = room p - (length d + 4) \<and>
        all_below (\<lambda>bs. key_of ke bs \<le> key_of ke d) (rep p) (int pos) \<and>
        all_from (\<lambda>bs. key_of ke d < key_of ke bs) (rep p) (int pos)"
    and del_law: "wf p \<Longrightarrow> i < length (rep p) \<Longrightarrow>
      \<exists>p'. del p i = Some p' \<and> rep p' = (rep p)[i := NilSlice] \<and> wf p' \<and> meta p p' \<and> room p' = room p"
    and compact_law: "wf p \<Longrightarrow>
      \<exists>p'. compact p = Some p' \<and> rep p' = map Slice (live (rep p)) \<and> wf p' \<and> meta p p' \<and>
        room p' + sum_list (map (\<lambda>d. length d + 4) (live (rep p))) = 4064"
    and search_law: "wf p \<Longrightarrow> keys_sorted ke (rep p) \<Longrightarrow>
      \<exists>r. search p key ke = Some r \<and> search_result ke (rep p) key r"
begin

lemma ins_sorted:
  assumes "wf p" and "keys_sorted ke (rep p)" and "d \<noteq> []" and "ins p d ke = Some (Inr pos, p')"
  shows "wf p'" and "meta p p'" and "keys_sorted ke (rep p')" and "pos \<le> length (rep p)"
    and "rep p' = insert_at pos (Slice d) (rep p)" and "rep p' ! pos = Slice d"
proof -
  have "length d + 4 \<le> room p"
    using full_law [of p d ke] assms(4) by fastforce
  with ins_law [OF assms(1-3)] assms(4)
  show *: "wf p'" "meta p p'" "pos \<le> length (rep p)" "rep p' = insert_at pos (Slice d) (rep p)"
    "keys_sorted ke (rep p')"
    by (auto intro: keys_sorted_insert_at assms(2))
  then show "rep p' ! pos = Slice d" by (simp add: nth_insert_at)
qed

lemma del_sorted:
  assumes "wf p" and "keys_sorted ke (rep p)" and "i < length (rep p)" and "del p i = Some p'"
  shows "wf p'" and "rep p' = (rep p)[i := NilSlice]" and "keys_sorted ke (rep p')"
proof -
  show *: "wf p'" "rep p' = (rep p)[i := NilSlice]" using del_law [OF assms(1,3)] assms(4) by auto
  have "key_le ke (rep p' ! a) (rep p' ! b)" if "a < b" "b < length (rep p)" for a b
    using assms(2,3) that * unfolding keys_sorted_def
    by (simp add: nth_list_update key_le_NilSlice sorted_wrt_nth_less)
  with * show "keys_sorted ke (rep p')" by (simp add: keys_sorted_def sorted_wrt_iff_nth_less)
qed

text \<open>Compaction keeps the order, drops the tombstones, and makes every reclaimable byte usable.\<close>

lemma keys_sorted_live: "keys_sorted ke rs \<Longrightarrow> keys_sorted ke (map Slice (live rs))"
  by (induction rs rule: live.induct) (auto simp: keys_sorted_def set_live)

lemma compact_then_ins:
  assumes "wf p" and "keys_sorted ke (rep p)" and "d \<noteq> []"
    and "sum_list (map (\<lambda>d. length d + 4) (d # live (rep p))) \<le> 4064"
  shows "\<exists>p1 pos p2. compact p = Some p1 \<and> ins p1 d ke = Some (Inr pos, p2) \<and> wf p2 \<and>
    keys_sorted ke (rep p2) \<and> rep p2 = insert_at pos (Slice d) (map Slice (live (rep p)))"
proof -
  obtain p1 where p1: "compact p = Some p1" "rep p1 = map Slice (live (rep p))" "wf p1"
    "room p1 + sum_list (map (\<lambda>d. length d + 4) (live (rep p))) = 4064"
    using compact_law [OF assms(1)] by blast
  moreover have "keys_sorted ke (rep p1)" using p1(2) keys_sorted_live assms(2) by simp
  moreover have "length d + 4 \<le> room p1" using p1(4) assms(4) by simp
  ultimately obtain pos p2 where "ins p1 d ke = Some (Inr pos, p2)" using ins_law assms(3) by blast
  with p1 ins_sorted [OF p1(3) \<open>keys_sorted ke (rep p1)\<close> assms(3) this] show ?thesis by auto
qed

end

definition room_of :: "Page \<Rightarrow> nat" where
  "room_of p = free_end p - free_start p"

interpretation sp: record_page recs page_wf room_of same_meta GetRecord InsertRecord DeleteRecord
  Compact BinarySearch
proof unfold_locales
  fix p ke key d i
  show "page_wf p \<Longrightarrow> i < length (recs p) \<Longrightarrow> GetRecord p i = Some (recs p ! i)"
    by (simp add: GetRecord_recs)
  show "room_of p < length d + 4 \<Longrightarrow> InsertRecord p d ke = Some (Inl ErrPageFull, p)"
    by (rule InsertRecord_full) (simp add: room_of_def)
  show "page_wf p \<Longrightarrow> keys_sorted ke (recs p) \<Longrightarrow>
      \<exists>r. BinarySearch p key ke = Some r \<and> search_result ke (recs p) key r"
    by (rule BinarySearch_reads) (simp_all add: reads_recs)
  show "\<exists>pos p'. InsertRecord p d ke = Some (Inr pos, p') \<and> pos \<le> length (recs p) \<and>
      recs p' = insert_at pos (Slice d) (recs p) \<and> page_wf p' \<and> same_meta p p' \<and>
      room_of p' = room_of p - (length d + 4) \<and>
      all_below (\<lambda>bs. key_of ke bs \<le> key_of ke d) (recs p) (int pos) \<and>
      all_from (\<lambda>bs. key_of ke d < key_of ke bs) (recs p) (int pos)"
    if a: "page_wf p" "keys_sorted ke (recs p)" "d \<noteq> []" "length d + 4 \<le> room_of p"
  proof -
    have "free_start p + length d + 4 \<le> free_end p"
      using a(4) page_wf_bounds [OF a(1)] by (simp add: room_of_def)
    then show ?thesis
      by (rule InsertRecord_ok [OF a(1-3)]) (simp add: room_of_def)
  qed
  show "\<exists>p'. DeleteRecord p i = Some p' \<and> recs p' = (recs p)[i := NilSlice] \<and> page_wf p' \<and>
      same_meta p p' \<and> room_of p' = room_of p"
    if a: "page_wf p" "i < length (recs p)"
  proof -
    obtain p' where *: "DeleteRecord p i = Some p'" "recs p' = (recs p)[i := NilSlice]" "page_wf p'"
      "same_meta p p'" "free_end p' = free_end p"
      using DeleteRecord_ok [OF a(1), of i] a(2) by auto
    moreover from arg_cong [OF *(2), of length] have "NumSlots p' = NumSlots p" by simp
    ultimately show ?thesis
      using page_wf_bounds(2) [OF a(1)] page_wf_bounds(2) [OF *(3)] by (auto simp: room_of_def)
  qed
  show "\<exists>p'. Compact p = Some p' \<and> recs p' = map Slice (live (recs p)) \<and> page_wf p' \<and> same_meta p p' \<and>
      room_of p' + sum_list (map (\<lambda>d. length d + 4) (live (recs p))) = 4064"
    if a: "page_wf p"
  proof -
    obtain p' where *: "Compact p = Some p'" "recs p' = map Slice (live (recs p))" "page_wf p'"
      "same_meta p p'" "free_end p' = 4096 - sum_list (map length (live (recs p)))"
      "free_start p' = 32 + 4 * length (live (recs p))"
      using Compact_ok [OF a] by metis
    moreover have "sum_list (map (\<lambda>d. length d + 4) ds) = sum_list (map length ds) + 4 * length ds"
      for ds :: "bytes list" by (induction ds) auto
    ultimately show ?thesis
      using page_wf_bounds [OF *(3)] by (auto simp: room_of_def)
  qed
qed

section \<open>Properties of the slotted page\<close>

lemma FreeSpace_gap: "FreeSpace p = int (free_end p) - int (free_start p)"
  by (simp add: FreeSpace_def Let_def free_end_def free_start_def)

lemma FreeSpace_layout: "FreeSpace p < int (length d) + 4 \<longleftrightarrow> free_end p < free_start p + length d + 4"
  by (simp add: FreeSpace_def Let_def uint_gap_less free_end_def free_start_def)

text \<open>
  C6. \<open>InsertRecord\<close> on a well-formed page whose live records are in key order never panics. It
  reports \<open>ErrPageFull\<close> and leaves the page alone exactly when the free gap is smaller than the
  record and its slot. Otherwise the list of records is the old one with the record inserted at
  the returned position, after every live key that is smaller or equal and before every greater
  one; the page is well-formed and in key order again, its checksum verifies, and its type,
  flags, sibling links and LSN are unchanged.
\<close>

theorem InsertRecord_refines:
  assumes "page_wf p" and "keys_sorted ke (recs p)" and "data \<noteq> []"
  shows "if FreeSpace p < int (length data) + 4
    then InsertRecord p data ke = Some (Inl ErrPageFull, p)
    else \<exists>pos p'. InsertRecord p data ke = Some (Inr pos, p') \<and> pos \<le> NumSlots p \<and>
      recs p' = insert_at pos (Slice data) (recs p) \<and> page_wf p' \<and> keys_sorted ke (recs p') \<and>
      all_below (\<lambda>bs. key_of ke bs \<le> key_of ke data) (recs p) (int pos) \<and>
      all_from (\<lambda>bs. key_of ke data < key_of ke bs) (recs p) (int pos) \<and>
      FreeSpace p' = FreeSpace p - int (length data) - 4 \<and> same_meta p p' \<and> VerifyChecksum p'"
proof (cases "FreeSpace p < int (length data) + 4")
  case True
  then show ?thesis by (simp add: FreeSpace_layout InsertRecord_full)
next
  case False
  then have "free_start p + length data + 4 \<le> free_end p" by (simp add: FreeSpace_layout)
  then obtain pos p' where *: "InsertRecord p data ke = Some (Inr pos, p')" "pos \<le> NumSlots p"
    "recs p' = insert_at pos (Slice data) (recs p)" "page_wf p'" "same_meta p p'" "VerifyChecksum p'"
    "free_end p' = free_end p - length data" "free_start p' = free_start p + 4"
    "all_below (\<lambda>bs. key_of ke bs \<le> key_of ke data) (recs p) (int pos)"
    "all_from (\<lambda>bs. key_of ke data < key_of ke bs) (recs p) (int pos)"
    by (rule InsertRecord_ok [OF assms])
  from False have "int (length data) + 4 \<le> FreeSpace p" by simp
  with *(7,8) have "FreeSpace p' = FreeSpace p - int (length data) - 4"
    by (auto simp: FreeSpace_gap)
  with False * show ?thesis
    using sp.ins_sorted(3) [OF assms *(1)] by auto
qed

lemma page_ok_zero: "page_ok \<lparr>ID = i, Data = replicate 4096 0\<rparr>"
  by (simp add: page_ok_def page_consts)

theorem InsertRecord_refines_witness:
  "\<exists>pos p'. InsertRecord (Init \<lparr>ID = 3, Data = replicate 4096 0\<rparr> PageTypeLeaf) [7, 8] Slice = Some (Inr pos, p')
     \<and> recs p' = [Slice [7, 8]] \<and> FreeSpace p' = 4058"
proof -
  let ?p = "Init \<lparr>ID = 3, Data = replicate 4096 0\<rparr> PageTypeLeaf"
  have e: "page_wf ?p" "recs ?p = []" "NumSlots ?p = 0" "FreeSpace ?p = 4064"
    using page_wf_Init [OF page_ok_zero] Init_sel [OF page_ok_zero] by (simp_all add: FreeSpace_def Let_def)
  from InsertRecord_refines [of ?p Slice "[7, 8]"] e show ?thesis
    by (auto simp: keys_sorted_def insert_at_def)
qed

text \<open>
  C14. \<open>BinarySearch\<close> on a well-formed page in key order, tombstones included, terminates
  without a panic and returns the leftmost live slot with the key; when no live record has it,
  it returns the code of a position with only smaller live keys before it and only greater ones
  from it on.
\<close>

theorem BinarySearch_correct:
  assumes "page_wf p" and "keys_sorted ke (recs p)"
  shows "\<exists>r. BinarySearch p key ke = Some r \<and> search_result ke (recs p) key r \<and>
    (0 \<le> r \<longleftrightarrow> (\<exists>bs. Slice bs \<in> set (recs p) \<and> key_of ke bs = key))"
proof -
  obtain r where r: "BinarySearch p key ke = Some r" "search_result ke (recs p) key r"
    using sp.search_law [OF assms] by blast
  moreover have "(\<exists>bs. Slice bs \<in> set (recs p) \<and> key_of ke bs = key) \<longleftrightarrow> 0 \<le> r"
  proof
    assume "\<exists>bs. Slice bs \<in> set (recs p) \<and> key_of ke bs = key"
    then obtain i bs where "i < length (recs p)" "recs p ! i = Slice bs" "key_of ke bs = key"
      by (metis in_set_conv_nth)
    moreover have False if "r < 0"
    proof (cases "int i < - (r + 1)")
      case True
      have "all_below (\<lambda>bs. key_of ke bs < key) (recs p) (- (r + 1))"
        using r(2) that by (simp add: search_result_def)
      with True calculation show False unfolding all_below_def by blast
    next
      case False
      then have "- (r + 1) \<le> int i" by simp
      moreover have "all_from (\<lambda>bs. key < key_of ke bs) (recs p) (- (r + 1))"
        using r(2) that by (simp add: search_result_def)
      ultimately show False using \<open>i < length (recs p)\<close> \<open>recs p ! i = Slice bs\<close> \<open>key_of ke bs = key\<close>
        unfolding all_from_def by blast
    qed
    ultimately show "0 \<le> r" by force
  next
    assume "0 \<le> r"
    with r(2) obtain bs where "nat r < length (recs p)" "recs p ! nat r = Slice bs" "key_of ke bs = key"
      by (auto simp: search_result_def nat_less_iff)
    then show "\<exists>bs. Slice bs \<in> set (recs p) \<and> key_of ke bs = key" by (metis nth_mem)
  qed
  ultimately show ?thesis by blast
qed

theorem BinarySearch_correct_witness:
  "\<exists>p' r. BinarySearch p' [7] Slice = Some r \<and> 0 \<le> r \<and> recs p' = [Slice [7]]"
proof -
  let ?p = "Init \<lparr>ID = 3, Data = replicate 4096 0\<rparr> PageTypeLeaf"
  have e: "page_wf ?p" "recs ?p = []" "NumSlots ?p = 0" "room_of ?p = 4064"
    using page_wf_Init [OF page_ok_zero] Init_sel [OF page_ok_zero] by (simp_all add: room_of_def)
  then obtain pos p' where *: "InsertRecord ?p [7] Slice = Some (Inr pos, p')"
    using sp.ins_law [of ?p Slice "[7]"] by (auto simp: keys_sorted_def)
  from sp.ins_sorted [OF e(1) _ _ *] e have "page_wf p'" "keys_sorted Slice (recs p')" "recs p' = [Slice [7]]"
    by (simp_all add: keys_sorted_def insert_at_def)
  with BinarySearch_correct [of p' Slice "[7]"] show ?thesis by auto
qed

text \<open>
  C31. \<open>Compact\<close> on a well-formed page never panics, keeps exactly the live records in their
  order, drops every tombstone, and leaves as free space every byte that no live record and no
  slot of a live record uses; the page is well-formed, its checksum verifies and its type,
  flags, sibling links and LSN are unchanged.
\<close>

theorem Compact_refines:
  assumes "page_wf p"
  shows "\<exists>p'. Compact p = Some p' \<and> recs p' = map Slice (live (recs p)) \<and> page_wf p' \<and>
    FreeSpace p' = 4064 - int (\<Sum>d\<leftarrow>live (recs p). length d + 4) \<and> same_meta p p' \<and> VerifyChecksum p'"
proof -
  obtain p' where *: "Compact p = Some p'" "recs p' = map Slice (live (recs p))" "page_wf p'"
    "same_meta p p'" "VerifyChecksum p'"
    by (rule Compact_ok [OF assms])
  moreover have "room_of p' + (\<Sum>d\<leftarrow>live (recs p). length d + 4) = 4064"
    using sp.compact_law [OF assms] *(1) by auto
  moreover have "FreeSpace p' = int (room_of p')"
    using page_wf_bounds [OF *(3)] by (simp add: FreeSpace_gap room_of_def of_nat_diff)
  ultimately show ?thesis by auto
qed

theorem Compact_refines_witness:
  "\<exists>p'. Compact (Init \<lparr>ID = 3, Data = replicate 4096 0\<rparr> PageTypeLeaf) = Some p' \<and> FreeSpace p' = 4064"
  using Compact_refines [OF page_wf_Init(1) [OF page_ok_zero, of 3 PageTypeLeaf]]
    page_wf_Init(2) [OF page_ok_zero, of 3 PageTypeLeaf] by auto

end
