(* ===== verification/Disk.thy ===== *)
theory Disk
  imports Page
begin

text \<open>
  The disk manager (\<^verbatim>\<open>internal/disk\<close>): the meta page, page reads and writes in the database
  file, and the list of free pages threaded through the pages themselves.

  The operating-system file is a byte list and a flag that says whether it is open. A read past
  the end returns what there is and \<open>io.EOF\<close>; a write past the end fills the gap with zeros;
  every call on a closed file fails with \<open>os.ErrClosed\<close>. Other I/O failures of the operating
  system do not occur in the model. \<open>freeListMu\<close> makes the two free-list operations atomic.
\<close>

section \<open>Definitions\<close>

record MetaPage =
  mMagic :: u32
  mRootPageID :: u32
  mFreeListHead :: u32
  mNextPageID :: u32
  mTxnIDCounter :: u64

definition MetaPageID :: u32 where "MetaPageID = 0"
definition metaMagic :: u32 where "metaMagic = 0xB17EE501"

text \<open>\<open>MetaPage.Encode\<close> and \<open>MetaPage.Decode\<close>; the callers pass page-sized buffers.\<close>

definition EncodeMeta :: "MetaPage \<Rightarrow> bytes \<Rightarrow> bytes" where
  "EncodeMeta m buf =
     (let buf = PutUint32 buf 0 metaMagic;
          buf = PutUint32 buf 4 (mRootPageID m);
          buf = PutUint32 buf 8 (mFreeListHead m);
          buf = PutUint32 buf 12 (mNextPageID m);
          buf = PutUint64 buf 16 (mTxnIDCounter m)
      in buf)"

definition DecodeMeta :: "bytes \<Rightarrow> (error, MetaPage) result" where
  "DecodeMeta buf =
     (let magic = Uint32 buf 0
      in if magic \<noteq> metaMagic then Inl ErrInvalidMeta
         else Inr \<lparr> mMagic = magic,
                    mRootPageID = Uint32 buf 4,
                    mFreeListHead = Uint32 buf 8,
                    mNextPageID = Uint32 buf 12,
                    mTxnIDCounter = Uint64 buf 16 \<rparr>)"

record DiskManager =
  dmFile :: bytes
  dmOpen :: bool
  dmPageSize :: nat

text \<open>\<open>os.File.ReadAt\<close> and \<open>os.File.WriteAt\<close>.\<close>

definition ReadAt :: "DiskManager \<Rightarrow> bytes \<Rightarrow> nat \<Rightarrow> (error, unit) result \<times> bytes" where
  "ReadAt dm buf off =
     (if \<not> dmOpen dm then (Inl ErrClosed, buf)
      else let avail = get_at (dmFile dm) off (length buf)
           in (if length avail < length buf then Inl ErrEOF else Inr (),
               avail @ drop (length avail) buf))"

definition WriteAt :: "DiskManager \<Rightarrow> bytes \<Rightarrow> nat \<Rightarrow> (error, unit) result \<times> DiskManager" where
  "WriteAt dm data off =
     (if \<not> dmOpen dm then (Inl ErrClosed, dm)
      else (Inr (), dm\<lparr>dmFile :=
              put_at (dmFile dm @ replicate (off - length (dmFile dm)) 0) off data\<rparr>))"

definition CloseDisk :: "DiskManager \<Rightarrow> (error, unit) result \<times> DiskManager" where
  "CloseDisk dm = (if dmOpen dm then (Inr (), dm\<lparr>dmOpen := False\<rparr>) else (Inl ErrClosed, dm))"

definition Sync :: "DiskManager \<Rightarrow> (error, unit) result" where
  "Sync dm = (if dmOpen dm then Inr () else Inl ErrClosed)"

definition ReadPage :: "DiskManager \<Rightarrow> u32 \<Rightarrow> bytes \<Rightarrow> (error, unit) result \<times> bytes" where
  "ReadPage dm pageID buf =
     (if length buf < PageSize then (Inl ErrBufferTooSmall, buf)
      else let off = unat pageID * PageSize;
               (err, b) = ReadAt dm (get_at buf 0 PageSize) off
           in (err, b @ drop PageSize buf))"

text \<open>\<open>data[:page.PageSize]\<close> panics on a shorter slice.\<close>

definition WritePageRaw :: "DiskManager \<Rightarrow> u32 \<Rightarrow> bytes \<Rightarrow> ((error, unit) result \<times> DiskManager) option" where
  "WritePageRaw dm pageID data =
     (let off = unat pageID * PageSize
      in if PageSize \<le> length data then Some (WriteAt dm (get_at data 0 PageSize) off) else None)"

definition WritePage :: "DiskManager \<Rightarrow> u32 \<Rightarrow> bytes \<Rightarrow> ((error, unit) result \<times> DiskManager) option" where
  "WritePage dm pageID data = WritePageRaw dm pageID data"

definition zero_page :: bytes where
  "zero_page = replicate PageSize 0"

definition ReadMeta :: "DiskManager \<Rightarrow> (error, MetaPage) result" where
  "ReadMeta dm =
     (case ReadPage dm MetaPageID zero_page of
        (Inl e, buf) \<Rightarrow> Inl e
      | (Inr _, buf) \<Rightarrow> DecodeMeta buf)"

definition WriteMeta :: "DiskManager \<Rightarrow> MetaPage \<Rightarrow> ((error, unit) result \<times> DiskManager) option" where
  "WriteMeta dm m = WritePageRaw dm MetaPageID (EncodeMeta m zero_page)"

text \<open>
  \<open>Open\<close>, on the bytes the file has after it was opened or created; the directories and the
  path are the operating system's.
\<close>

definition Open :: "bytes \<Rightarrow> ((error, unit) result \<times> DiskManager) option" where
  "Open contents =
     (let dm = \<lparr>dmFile = contents, dmOpen = True, dmPageSize = PageSize\<rparr>
      in if length contents = 0 then do {
           let meta = \<lparr>mMagic = 0, mRootPageID = 1, mFreeListHead = 0, mNextPageID = 2, mTxnIDCounter = 1\<rparr>;
           (err, dm) \<leftarrow> WriteMeta dm meta;
           (case err of
              Inl e \<Rightarrow> Some (Inl e, dm)
            | Inr _ \<Rightarrow>
                let root = SetFlag (Init \<lparr>ID = 0, Data = zero_page\<rparr> PageTypeLeaf) FlagIsRoot
                in WritePageRaw dm 1 (Data root)) }
         else Some (Inr (), dm))"

definition AllocPage :: "DiskManager \<Rightarrow> ((error, u32) result \<times> DiskManager) option" where
  "AllocPage dm =
     (case ReadMeta dm of
        Inl e \<Rightarrow> Some (Inl e, dm)
      | Inr meta \<Rightarrow>
          if mFreeListHead meta \<noteq> 0 then
            let pageID = mFreeListHead meta
            in (case ReadPage dm pageID zero_page of
                  (Inl e, buf) \<Rightarrow> Some (Inl e, dm)
                | (Inr _, buf) \<Rightarrow> do {
                    (err, dm) \<leftarrow> WriteMeta dm (meta\<lparr>mFreeListHead := Uint32 buf 0\<rparr>);
                    Some (case err of Inl e \<Rightarrow> Inl e | Inr _ \<Rightarrow> Inr pageID, dm) })
          else do {
            let pageID = mNextPageID meta;
            (err, dm) \<leftarrow> WriteMeta dm (meta\<lparr>mNextPageID := mNextPageID meta + 1\<rparr>);
            (case err of
               Inl e \<Rightarrow> Some (Inl e, dm)
             | Inr _ \<Rightarrow> do {
                 (err, dm) \<leftarrow> WritePageRaw dm pageID zero_page;
                 Some (case err of Inl e \<Rightarrow> Inl e | Inr _ \<Rightarrow> Inr pageID, dm) }) })"

definition FreePage :: "DiskManager \<Rightarrow> u32 \<Rightarrow> ((error, unit) result \<times> DiskManager) option" where
  "FreePage dm pageID =
     (case ReadMeta dm of
        Inl e \<Rightarrow> Some (Inl e, dm)
      | Inr meta \<Rightarrow> do {
          let buf = PutUint32 zero_page 0 (mFreeListHead meta);
          (err, dm) \<leftarrow> WritePageRaw dm pageID buf;
          (case err of
             Inl e \<Rightarrow> Some (Inl e, dm)
           | Inr _ \<Rightarrow> WriteMeta dm (meta\<lparr>mFreeListHead := pageID\<rparr>)) })"

text \<open>\<open>dirOf\<close>: the loop goes from the last character to the first.\<close>

primrec dirOf_from :: "string \<Rightarrow> nat \<Rightarrow> string" where
  "dirOf_from path 0 = ''.''"
| "dirOf_from path (Suc i) =
     (if path ! i = CHR ''/'' \<or> path ! i = CHR 0x5C then take i path else dirOf_from path i)"

definition dirOf :: "string \<Rightarrow> string" where
  "dirOf path = dirOf_from path (length path)"

section \<open>The meta page\<close>

lemma length_zero_page [simp]: "length zero_page = PageSize"
  by (simp add: zero_page_def)

lemma length_EncodeMeta [simp]: "length buf = PageSize \<Longrightarrow> length (EncodeMeta m buf) = PageSize"
  by (simp add: EncodeMeta_def Let_def page_consts)

lemma DecodeMeta_EncodeMeta:
  "length buf = PageSize \<Longrightarrow> DecodeMeta (EncodeMeta m buf) = Inr (m\<lparr>mMagic := metaMagic\<rparr>)"
  by (simp add: DecodeMeta_def EncodeMeta_def Let_def page_consts le_defs array_simps)

section \<open>The interface of a page store\<close>

text \<open>
  A chain of pages, each holding the id of the next; \<open>rd i\<close> is the content of page \<open>i\<close>.
\<close>

primrec chain :: "(u32 \<Rightarrow> bytes option) \<Rightarrow> u32 \<Rightarrow> u32 list \<Rightarrow> bool" where
  "chain rd h [] \<longleftrightarrow> h = 0"
| "chain rd h (i # is) \<longleftrightarrow> h = i \<and> i \<noteq> 0 \<and> (\<exists>e. rd i = Some e \<and> chain rd (Uint32 e 0) is)"

lemma chain_not_zero: "chain rd h is \<Longrightarrow> 0 \<notin> set is"
  by (induction "is" arbitrary: h) auto

text \<open>
  A store of fixed-size pages: \<open>rd s i\<close> is the content of page \<open>i\<close>, if the store has the page.
  A chain survives writes outside it.
\<close>

locale page_store =
  fixes rd :: "'s \<Rightarrow> u32 \<Rightarrow> bytes option"
    and wr :: "'s \<Rightarrow> u32 \<Rightarrow> bytes \<Rightarrow> 's"
    and live_store :: "'s \<Rightarrow> bool"
  assumes rd_wr_same: "live_store s \<Longrightarrow> length d = PageSize \<Longrightarrow> rd (wr s i d) i = Some d"
    and rd_wr_other: "live_store s \<Longrightarrow> length d = PageSize \<Longrightarrow> rd s j = Some e \<Longrightarrow> i \<noteq> j \<Longrightarrow>
      rd (wr s i d) j = Some e"
    and live_wr: "live_store s \<Longrightarrow> live_store (wr s i d)"
    and rd_len: "rd s i = Some e \<Longrightarrow> length e = PageSize"
begin

lemma chain_wr_other:
  assumes "live_store s" and "length d = PageSize" and "j \<notin> set is" and "chain (rd s) h is"
  shows "chain (rd (wr s j d)) h is"
  using assms(3,4)
proof (induction "is" arbitrary: h)
  case (Cons i "is")
  then obtain e where "rd s i = Some e" "chain (rd s) (Uint32 e 0) is" "h = i" "i \<noteq> 0" by auto
  with Cons rd_wr_other [OF assms(1,2), of i e j] show ?case by auto
qed simp

lemma chain_push:
  assumes "live_store s" and "length d = PageSize" and "chain (rd s) h is" and "j \<notin> set is" and "j \<noteq> 0"
    and "Uint32 d 0 = h"
  shows "chain (rd (wr s j d)) j (j # is)"
  using assms chain_wr_other [OF assms(1,2,4,3)] rd_wr_same [OF assms(1,2)] by auto

end

definition page_of :: "DiskManager \<Rightarrow> u32 \<Rightarrow> bytes option" where
  "page_of dm i = (if unat i * PageSize + PageSize \<le> length (dmFile dm)
     then Some (get_at (dmFile dm) (unat i * PageSize) PageSize) else None)"

definition put_page :: "DiskManager \<Rightarrow> u32 \<Rightarrow> bytes \<Rightarrow> DiskManager" where
  "put_page dm i d = snd (WriteAt dm (get_at d 0 PageSize) (unat i * PageSize))"

lemma get_at_all [simp]: "length d = n \<Longrightarrow> get_at d 0 n = d"
  by (simp add: get_at_def)

lemma dmFile_put_page:
  assumes "dmOpen dm" and "length d = PageSize"
  shows "dmFile (put_page dm i d) =
    put_at (dmFile dm @ replicate (unat i * PageSize - length (dmFile dm)) 0) (unat i * PageSize) d"
  using assms by (simp add: put_page_def WriteAt_def)

lemma length_put_page:
  assumes "dmOpen dm" and "length d = PageSize"
  shows "length (dmFile (put_page dm i d)) = max (length (dmFile dm)) (unat i * PageSize + PageSize)"
  unfolding dmFile_put_page [OF assms] using assms(2) by (simp add: put_at_def max_def min_def)

lemma page_of_put_page_same:
  assumes "dmOpen dm" and "length d = PageSize"
  shows "page_of (put_page dm i d) i = Some d"
  using assms length_put_page [OF assms, of i]
  by (simp add: page_of_def dmFile_put_page array_simps)

lemma page_of_put_page_other:
  assumes "dmOpen dm" and "length d = PageSize" and "page_of dm j = Some e" and "i \<noteq> j"
  shows "page_of (put_page dm i d) j = Some e"
proof -
  let ?o = "unat i * PageSize" and ?p = "unat j * PageSize" and ?f = "dmFile dm"
  have e: "?p + PageSize \<le> length ?f" "e = get_at ?f ?p PageSize"
    using assms(3) by (auto simp: page_of_def split: if_splits)
  have "unat i \<noteq> unat j" using assms(4) by (simp add: word_unat_eq_iff)
  then consider "Suc (unat j) \<le> unat i" | "Suc (unat i) \<le> unat j" by linarith
  then have "?p + PageSize \<le> ?o \<or> ?o + PageSize \<le> ?p"
    by cases (auto dest: mult_le_mono1 [where k = PageSize])
  moreover have "get_at (?f @ replicate n 0) ?p PageSize = e" for n
    using e by (simp add: get_at_def)
  moreover have "get_at ?f ?p PageSize = e" using e by simp
  ultimately have "get_at (dmFile (put_page dm i d)) ?p PageSize = e"
    unfolding dmFile_put_page [OF assms(1,2)] using assms(2) e(1)
    by (auto simp: get_at_put_at_before get_at_put_at_after)
  with e(1) length_put_page [OF assms(1,2), of i] show ?thesis by (simp add: page_of_def)
qed

interpretation ds: page_store page_of put_page dmOpen
proof unfold_locales
  show "dmOpen s \<Longrightarrow> dmOpen (put_page s i d)" for s i d
    by (simp add: put_page_def WriteAt_def)
  show "page_of s i = Some e \<Longrightarrow> length e = PageSize" for s i e
    by (auto simp: page_of_def split: if_splits)
qed (simp_all add: page_of_put_page_same page_of_put_page_other)

lemma ReadPage_page_of:
  assumes "dmOpen dm" and "page_of dm i = Some e" and "length buf = PageSize"
  shows "ReadPage dm i buf = (Inr (), e)"
  using assms by (auto simp: ReadPage_def ReadAt_def page_of_def Let_def split: if_splits)

lemma WritePageRaw_put_page:
  assumes "dmOpen dm" and "length d = PageSize"
  shows "WritePageRaw dm i d = Some (Inr (), put_page dm i d)"
  using assms by (simp add: WritePageRaw_def put_page_def Let_def WriteAt_def)

section \<open>The free list\<close>

text \<open>
  \<open>disk_inv dm m ids\<close>: the meta page decodes to \<open>m\<close>, and the free list is the chain \<open>ids\<close> of
  distinct pages of the file, none of them the meta page.
\<close>

definition disk_inv :: "DiskManager \<Rightarrow> MetaPage \<Rightarrow> u32 list \<Rightarrow> bool" where
  "disk_inv dm m ids \<longleftrightarrow> dmOpen dm \<and> ReadMeta dm = Inr m \<and>
     chain (page_of dm) (mFreeListHead m) ids \<and> distinct ids \<and>
     (\<forall>i \<in> set ids. unat i < unat (mNextPageID m)) \<and>
     0 < mNextPageID m \<and> unat (mNextPageID m) * PageSize \<le> length (dmFile dm)"

lemma page_of_in_file:
  assumes "unat n * PageSize \<le> length (dmFile dm)" and "unat i < unat n"
  shows "\<exists>e. page_of dm i = Some e"
proof -
  have "Suc (unat i) * PageSize \<le> unat n * PageSize" using assms(2) by (intro mult_le_mono1) simp
  with assms(1) show ?thesis by (simp add: page_of_def)
qed

lemma ReadMeta_put_page:
  assumes "dmOpen dm"
  shows "length b = PageSize \<Longrightarrow> ReadMeta (put_page dm 0 b) = DecodeMeta b"
    and "ReadMeta dm = Inr m \<Longrightarrow> length b = PageSize \<Longrightarrow> i \<noteq> 0 \<Longrightarrow> ReadMeta (put_page dm i b) = Inr m"
proof -
  show "ReadMeta (put_page dm 0 b) = DecodeMeta b" if "length b = PageSize"
    using that ReadPage_page_of [OF ds.live_wr [OF assms] page_of_put_page_same [OF assms]]
    by (simp add: ReadMeta_def MetaPageID_def)
  show "ReadMeta (put_page dm i b) = Inr m" if a: "ReadMeta dm = Inr m" "length b = PageSize" "i \<noteq> 0"
  proof -
    obtain e where e: "page_of dm 0 = Some e" "DecodeMeta e = Inr m"
    proof (cases "page_of dm 0")
      case None
      then have "length (dmFile dm) < PageSize" by (auto simp: page_of_def split: if_splits)
      with a(1) assms show thesis
        by (simp add: ReadMeta_def ReadPage_def ReadAt_def MetaPageID_def Let_def)
    next
      case (Some e)
      with ReadPage_page_of [OF assms Some] a(1) show thesis
        by (intro that [of e]) (simp_all add: ReadMeta_def MetaPageID_def)
    qed
    with page_of_put_page_other [OF assms a(2) e(1) a(3)] show ?thesis
      using ReadPage_page_of [OF ds.live_wr [OF assms]] by (simp add: ReadMeta_def MetaPageID_def)
  qed
qed

lemma WriteMeta_put_page:
  "dmOpen dm \<Longrightarrow> WriteMeta dm m = Some (Inr (), put_page dm 0 (EncodeMeta m zero_page))"
  by (simp add: WriteMeta_def MetaPageID_def WritePageRaw_put_page)

text \<open>Writing the meta page with a new list head or page count.\<close>

lemma disk_inv_WriteMeta:
  assumes "dmOpen dm" and "chain (page_of dm) (mFreeListHead m) ids" and "distinct ids"
    and "\<forall>i \<in> set ids. unat i < unat (mNextPageID m)" and "0 < mNextPageID m"
    and "unat (mNextPageID m) * PageSize \<le> length (dmFile dm)"
  shows "disk_inv (put_page dm 0 (EncodeMeta m zero_page)) (m\<lparr>mMagic := metaMagic\<rparr>) ids"
  using assms ds.chain_wr_other [OF assms(1) _ chain_not_zero [OF assms(2)] assms(2)]
  by (simp add: disk_inv_def ReadMeta_put_page DecodeMeta_EncodeMeta ds.live_wr length_put_page)

lemma AllocPage_reuse:
  assumes inv: "disk_inv dm m (i # ids)"
  obtains dm' h where "AllocPage dm = Some (Inr i, dm')"
    and "disk_inv dm' (m\<lparr>mFreeListHead := h, mMagic := metaMagic\<rparr>) ids"
    and "\<And>j e. j \<noteq> 0 \<Longrightarrow> page_of dm j = Some e \<Longrightarrow> page_of dm' j = Some e"
proof -
  from inv obtain e where e: "page_of dm i = Some e" "chain (page_of dm) (Uint32 e 0) ids"
    and op: "dmOpen dm" and rm: "ReadMeta dm = Inr m" "mFreeListHead m = i" "i \<noteq> 0"
    by (auto simp: disk_inv_def)
  let ?m = "m\<lparr>mFreeListHead := Uint32 e 0\<rparr>"
  let ?dm = "put_page dm 0 (EncodeMeta ?m zero_page)"
  have "disk_inv ?dm (?m\<lparr>mMagic := metaMagic\<rparr>) ids"
    using inv e(2) by (intro disk_inv_WriteMeta) (auto simp: disk_inv_def)
  moreover have "AllocPage dm = Some (Inr i, ?dm)"
    using rm ReadPage_page_of [OF op e(1)] WriteMeta_put_page [OF op] by (simp add: AllocPage_def Let_def)
  moreover have "page_of ?dm j = Some d" if "j \<noteq> 0" "page_of dm j = Some d" for j d
    using that page_of_put_page_other [OF op] by simp
  ultimately show thesis by (intro that [of ?dm "Uint32 e 0"]) simp_all
qed

lemma AllocPage_grow:
  assumes inv: "disk_inv dm m []" and nowrap: "mNextPageID m \<noteq> - 1"
  obtains dm' where "AllocPage dm = Some (Inr (mNextPageID m), dm')"
    and "disk_inv dm' (m\<lparr>mNextPageID := mNextPageID m + 1, mMagic := metaMagic\<rparr>) []"
    and "page_of dm' (mNextPageID m) = Some zero_page"
    and "\<And>j e. j \<noteq> 0 \<Longrightarrow> j \<noteq> mNextPageID m \<Longrightarrow> page_of dm j = Some e \<Longrightarrow> page_of dm' j = Some e"
proof -
  let ?n = "mNextPageID m"
  let ?m = "m\<lparr>mNextPageID := ?n + 1\<rparr>"
  let ?d1 = "put_page dm 0 (EncodeMeta ?m zero_page)"
  let ?d2 = "put_page ?d1 ?n zero_page"
  have op: "dmOpen dm" and rm: "ReadMeta dm = Inr m" "mFreeListHead m = 0" and n0: "?n \<noteq> 0"
    and len: "unat ?n * PageSize \<le> length (dmFile dm)"
    using inv by (auto simp: disk_inv_def)
  have op1: "dmOpen ?d1" using op by (rule ds.live_wr)
  have A: "AllocPage dm = Some (Inr ?n, ?d2)"
    using rm WriteMeta_put_page [OF op] WritePageRaw_put_page [OF op1] by (simp add: AllocPage_def Let_def)
  have "ReadMeta ?d2 = Inr (?m\<lparr>mMagic := metaMagic\<rparr>)"
    using ReadMeta_put_page(2) [OF op1 _ _ n0] ReadMeta_put_page(1) [OF op]
    by (simp add: DecodeMeta_EncodeMeta)
  moreover have "dmOpen ?d2" using op1 by (rule ds.live_wr)
  moreover have "Suc (unat ?n) * PageSize \<le> length (dmFile ?d2)"
    using length_put_page [OF op1, of zero_page ?n] by simp
  moreover have "0 < ?n + 1" using u32_Suc [OF nowrap] by (simp add: word_less_nat_alt)
  ultimately have D: "disk_inv ?d2 (m\<lparr>mNextPageID := ?n + 1, mMagic := metaMagic\<rparr>) []"
    using rm u32_Suc [OF nowrap] by (simp add: disk_inv_def)
  have P: "page_of ?d2 j = Some e" if "j \<noteq> 0" "j \<noteq> ?n" "page_of dm j = Some e" for j e
    using that page_of_put_page_other [OF op1] page_of_put_page_other [OF op] by simp
  show thesis
    by (rule that [OF A D]) (simp_all add: page_of_put_page_same [OF op1] P)
qed

lemma FreePage_push:
  assumes inv: "disk_inv dm m ids" and j: "j \<notin> set ids" "j \<noteq> 0" "unat j < unat (mNextPageID m)"
  obtains dm' where "FreePage dm j = Some (Inr (), dm')"
    and "disk_inv dm' (m\<lparr>mFreeListHead := j, mMagic := metaMagic\<rparr>) (j # ids)"
    and "\<And>k e. k \<noteq> 0 \<Longrightarrow> k \<noteq> j \<Longrightarrow> page_of dm k = Some e \<Longrightarrow> page_of dm' k = Some e"
proof -
  let ?b = "PutUint32 zero_page 0 (mFreeListHead m)"
  let ?d1 = "put_page dm j ?b"
  let ?m = "m\<lparr>mFreeListHead := j\<rparr>"
  let ?d2 = "put_page ?d1 0 (EncodeMeta ?m zero_page)"
  have op: "dmOpen dm" and rm: "ReadMeta dm = Inr m" and ch: "chain (page_of dm) (mFreeListHead m) ids"
    using inv by (auto simp: disk_inv_def)
  have b: "length ?b = PageSize" "Uint32 ?b 0 = mFreeListHead m"
    by (simp_all add: array_simps page_consts)
  have op1: "dmOpen ?d1" using op by (rule ds.live_wr)
  have "chain (page_of ?d1) j (j # ids)" using ds.chain_push [OF op b(1) ch j(1,2) b(2)] .
  then have D: "disk_inv ?d2 (?m\<lparr>mMagic := metaMagic\<rparr>) (j # ids)"
    using inv op1 j length_put_page [OF op b(1), of j]
    by (intro disk_inv_WriteMeta) (auto simp: disk_inv_def)
  have F: "FreePage dm j = Some (Inr (), ?d2)"
    using rm WritePageRaw_put_page [OF op b(1)] WriteMeta_put_page [OF op1] by (simp add: FreePage_def Let_def)
  have P: "page_of ?d2 k = Some e" if "k \<noteq> 0" "k \<noteq> j" "page_of dm k = Some e" for k e
    using that page_of_put_page_other [OF op1] page_of_put_page_other [OF op b(1)] by simp
  show thesis using D by (intro that [OF F _ P]) simp_all
qed

section \<open>Histories of allocations\<close>

text \<open>
  The disk manager as its clients drive it: a state is the disk and the set of pages the clients
  hold. They free only pages they hold and write only pages they hold (page 1 is the root that
  \<open>Open\<close> creates).
\<close>

inductive disk_step :: "DiskManager \<times> u32 set \<Rightarrow> DiskManager \<times> u32 set \<Rightarrow> bool" where
  do_alloc: "AllocPage dm = Some (Inr i, dm') \<Longrightarrow> ReadMeta dm = Inr m \<Longrightarrow> mNextPageID m \<noteq> - 1 \<Longrightarrow>
    disk_step (dm, A) (dm', insert i A)"
| do_free: "i \<in> A \<Longrightarrow> FreePage dm i = Some (Inr (), dm') \<Longrightarrow> disk_step (dm, A) (dm', A - {i})"
| do_write: "i \<in> A \<Longrightarrow> WritePage dm i d = Some (Inr (), dm') \<Longrightarrow> disk_step (dm, A) (dm', A)"

inductive_cases disk_stepE: "disk_step (dm, A) s'"

inductive disk_reachable :: "DiskManager \<times> u32 set \<Rightarrow> bool" where
  init: "Open [] = Some (Inr (), dm) \<Longrightarrow> disk_reachable (dm, {1})"
| step: "disk_reachable s \<Longrightarrow> disk_step s s' \<Longrightarrow> disk_reachable s'"

definition hist_inv :: "DiskManager \<times> u32 set \<Rightarrow> bool" where
  "hist_inv s \<longleftrightarrow> (\<exists>m ids. disk_inv (fst s) m ids \<and> snd s \<inter> set ids = {} \<and>
     snd s \<union> set ids = {i. 0 < i \<and> i < mNextPageID m})"

lemma hist_invI:
  "disk_inv dm m ids \<Longrightarrow> A \<inter> set ids = {} \<Longrightarrow> A \<union> set ids = {i. 0 < i \<and> i < mNextPageID m} \<Longrightarrow>
     hist_inv (dm, A)"
  by (auto simp: hist_inv_def)

lemma Open_facts:
  assumes "Open [] = Some (Inr (), dm)"
  shows "dmOpen dm" and "unat (2 :: u32) * PageSize \<le> length (dmFile dm)"
    and ReadMeta_Open: "ReadMeta dm = Inr \<lparr>mMagic = metaMagic, mRootPageID = 1, mFreeListHead = 0,
      mNextPageID = 2, mTxnIDCounter = 1\<rparr>"
proof -
  let ?d0 = "\<lparr>dmFile = [], dmOpen = True, dmPageSize = PageSize\<rparr>"
  let ?m = "\<lparr>mMagic = 0, mRootPageID = 1, mFreeListHead = 0, mNextPageID = 2, mTxnIDCounter = 1\<rparr>"
  let ?r = "Data (SetFlag (Init \<lparr>ID = 0, Data = zero_page\<rparr> PageTypeLeaf) FlagIsRoot)"
  let ?d1 = "put_page ?d0 0 (EncodeMeta ?m zero_page)"
  have lr: "length ?r = PageSize"
    using SetFlag_sel(1) [OF Init_sel(1), of "\<lparr>ID = 0, Data = zero_page\<rparr>" PageTypeLeaf FlagIsRoot]
    by (simp add: page_ok_def)
  have op: "dmOpen ?d0" by simp
  have op1: "dmOpen ?d1" using op by (rule ds.live_wr)
  have dm: "dm = put_page ?d1 1 ?r"
    using assms WriteMeta_put_page [OF op] WritePageRaw_put_page [OF op1 lr]
    by (simp add: Open_def Let_def)
  show "ReadMeta dm = Inr \<lparr>mMagic = metaMagic, mRootPageID = 1, mFreeListHead = 0,
      mNextPageID = 2, mTxnIDCounter = 1\<rparr>"
    unfolding dm using ReadMeta_put_page(2) [OF op1 _ lr] ReadMeta_put_page(1) [OF op]
    by (simp add: DecodeMeta_EncodeMeta)
  show "dmOpen dm" unfolding dm using op1 by (rule ds.live_wr)
  show "unat (2 :: u32) * PageSize \<le> length (dmFile dm)"
    unfolding dm length_put_page [OF op1 lr] by simp
qed

lemma hist_inv_Open:
  assumes "Open [] = Some (Inr (), dm)"
  shows "hist_inv (dm, {1})"
proof (rule hist_invI)
  show "disk_inv dm \<lparr>mMagic = metaMagic, mRootPageID = 1, mFreeListHead = 0, mNextPageID = 2,
      mTxnIDCounter = 1\<rparr> []"
    using Open_facts [OF assms] by (simp add: disk_inv_def)
qed (auto simp: word_less_nat_alt word_unat_eq_iff)

lemma hist_inv_alloc:
  assumes inv: "hist_inv (dm, A)" and al: "AllocPage dm = Some (Inr i, dm')"
    and m: "ReadMeta dm = Inr m" "mNextPageID m \<noteq> - 1"
  shows "hist_inv (dm', insert i A)" and "i \<notin> A" and "i \<noteq> 0"
proof -
  from inv m obtain ids where d: "disk_inv dm m ids" "A \<inter> set ids = {}"
    "A \<union> set ids = {i. 0 < i \<and> i < mNextPageID m}"
    by (auto simp: hist_inv_def disk_inv_def)
  have "hist_inv (dm', insert i A) \<and> i \<notin> A \<and> i \<noteq> 0"
  proof (cases ids)
    case Nil
    then have d': "disk_inv dm m []" using d by simp
    then obtain "i = mNextPageID m"
      and D: "disk_inv dm' (m\<lparr>mNextPageID := mNextPageID m + 1, mMagic := metaMagic\<rparr>) []"
      using AllocPage_grow [OF d' m(2)] al by (metis Pair_inject option.inject sum.inject(2))
    moreover have "insert (mNextPageID m) {i. 0 < i \<and> i < mNextPageID m} = {i. 0 < i \<and> i < mNextPageID m + 1}"
      using u32_Suc [OF m(2)] d' by (auto simp: disk_inv_def word_less_nat_alt word_unat_eq_iff)
    moreover have "A = {i. 0 < i \<and> i < mNextPageID m}" using d(3) Nil by simp
    moreover have "mNextPageID m \<noteq> 0" using d' by (auto simp: disk_inv_def)
    ultimately show ?thesis
      using hist_invI [OF D, of "insert i A"] by simp
  next
    case (Cons j js)
    then have d': "disk_inv dm m (j # js)" using d by simp
    obtain h where "i = j" and D: "disk_inv dm' (m\<lparr>mFreeListHead := h, mMagic := metaMagic\<rparr>) js"
      by (rule AllocPage_reuse [OF d']) (use al in auto)
    moreover have "j \<notin> set js" "j \<noteq> 0" "j \<notin> A" using d' d(2) Cons by (auto simp: disk_inv_def)
    moreover have "insert j A \<inter> set js = {}" "insert j A \<union> set js = {i. 0 < i \<and> i < mNextPageID m}"
      using d(2,3) Cons \<open>j \<notin> set js\<close> by auto
    ultimately show ?thesis using hist_invI [OF D, of "insert i A"] by simp
  qed
  then show "hist_inv (dm', insert i A)" "i \<notin> A" "i \<noteq> 0" by auto
qed

lemma hist_inv_free:
  assumes inv: "hist_inv (dm, A)" and i: "i \<in> A" and fr: "FreePage dm i = Some (Inr (), dm')"
  shows "hist_inv (dm', A - {i})"
proof -
  from inv obtain m ids where d: "disk_inv dm m ids" "A \<inter> set ids = {}"
    "A \<union> set ids = {i. 0 < i \<and> i < mNextPageID m}"
    by (auto simp: hist_inv_def)
  with i have "i \<notin> set ids" "0 < i" "i < mNextPageID m" by auto
  then have n: "i \<notin> set ids" "i \<noteq> 0" "unat i < unat (mNextPageID m)"
    by (auto simp: word_less_nat_alt)
  have D: "disk_inv dm' (m\<lparr>mFreeListHead := i, mMagic := metaMagic\<rparr>) (i # ids)"
    by (rule FreePage_push [OF d(1) n]) (use fr in auto)
  moreover have "(A - {i}) \<inter> set (i # ids) = {}" "(A - {i}) \<union> set (i # ids) = {i. 0 < i \<and> i < mNextPageID m}"
    using d i by auto
  ultimately show ?thesis using hist_invI [OF D, of "A - {i}"] by simp
qed

lemma hist_inv_write:
  assumes inv: "hist_inv (dm, A)" and i: "i \<in> A" and wr: "WritePage dm i d = Some (Inr (), dm')"
  shows "hist_inv (dm', A)"
proof -
  from inv obtain m ids where d: "disk_inv dm m ids" "A \<inter> set ids = {}"
    "A \<union> set ids = {i. 0 < i \<and> i < mNextPageID m}"
    by (auto simp: hist_inv_def)
  with i have n: "i \<notin> set ids" "i \<noteq> 0" by auto
  have op: "dmOpen dm" using d by (simp add: disk_inv_def)
  define b where "b = get_at d 0 PageSize"
  have b: "length b = PageSize" "dm' = put_page dm i b"
    using wr op by (auto simp: b_def WritePage_def WritePageRaw_def put_page_def WriteAt_def Let_def
        split: if_splits)
  have "disk_inv dm' m ids"
    using d(1) n b ReadMeta_put_page(2) [OF op _ b(1) n(2)] ds.chain_wr_other [OF op b(1) n(1)]
      length_put_page [OF op b(1), of i] ds.live_wr [OF op]
    by (simp add: disk_inv_def max.coboundedI1)
  with d show ?thesis by (auto simp: hist_inv_def)
qed

lemma reachable_hist_inv: "disk_reachable s \<Longrightarrow> hist_inv s"
proof (induction rule: disk_reachable.induct)
  case (init dm)
  then show ?case by (rule hist_inv_Open)
next
  case (step s s')
  from step.hyps(2) step.IH show ?case
    by (cases rule: disk_step.cases) (auto intro: hist_inv_alloc hist_inv_free hist_inv_write)
qed

section \<open>Properties of the disk manager\<close>

text \<open>
  Writing a page and reading it back: a page-sized write to an open file succeeds, the next
  read of that page returns the bytes written, and a read of any other page of the file returns
  what it returned before.
\<close>

theorem ReadPage_WritePage:
  assumes "dmOpen dm" and "length d = PageSize" and "length buf = PageSize"
  shows "\<exists>dm'. WritePage dm i d = Some (Inr (), dm') \<and> ReadPage dm' i buf = (Inr (), d) \<and>
    (\<forall>j. j \<noteq> i \<and> fst (ReadPage dm j buf) = Inr () \<longrightarrow> ReadPage dm' j buf = ReadPage dm j buf)"
proof -
  have "ReadPage (put_page dm i d) j buf = ReadPage dm j buf"
    if "j \<noteq> i" "fst (ReadPage dm j buf) = Inr ()" for j
  proof -
    from that(2) assms have "unat j * PageSize + PageSize \<le> length (dmFile dm)"
      by (auto simp: ReadPage_def ReadAt_def Let_def min_def page_consts split: if_splits)
    then obtain e where "page_of dm j = Some e" by (simp add: page_of_def)
    with that(1) page_of_put_page_other [OF assms(1,2) this] show ?thesis
      using ReadPage_page_of [OF ds.live_wr [OF assms(1)] _ assms(3)] ReadPage_page_of [OF assms(1) _ assms(3)]
      by simp
  qed
  moreover have "ReadPage (put_page dm i d) i buf = (Inr (), d)"
    by (rule ReadPage_page_of [OF ds.live_wr [OF assms(1)] page_of_put_page_same [OF assms(1,2)] assms(3)])
  moreover have "WritePage dm i d = Some (Inr (), put_page dm i d)"
    using WritePageRaw_put_page [OF assms(1,2)] by (simp add: WritePage_def)
  ultimately show ?thesis by blast
qed

theorem ReadPage_WritePage_witness:
  "\<exists>dm'. WritePage \<lparr>dmFile = [], dmOpen = True, dmPageSize = 4096\<rparr> 5 (replicate 4096 9) = Some (Inr (), dm')
    \<and> ReadPage dm' 5 (replicate 4096 0) = (Inr (), replicate 4096 9)"
  using ReadPage_WritePage [of "\<lparr>dmFile = [], dmOpen = True, dmPageSize = 4096\<rparr>" "replicate 4096 9"
      "replicate 4096 0" 5]
  by (auto simp: page_consts)

text \<open>
  C11. The free list is a stack of distinct pages. \<open>AllocPage\<close> pops the page freed last, or
  grows the file by one zeroed page when the list is empty; \<open>FreePage\<close> pushes. Neither panics
  nor fails, and both keep the content of every page that they do not hand out or take back
  (the meta page apart).
\<close>

theorem free_list_stack:
  assumes "disk_inv dm m ids" and "mNextPageID m \<noteq> - 1"
  shows "(\<exists>dm' m'. AllocPage dm = Some (Inr (case ids of [] \<Rightarrow> mNextPageID m | i # is \<Rightarrow> i), dm') \<and>
      disk_inv dm' m' (tl ids) \<and> mRootPageID m' = mRootPageID m \<and>
      mNextPageID m' = (if ids = [] then mNextPageID m + 1 else mNextPageID m) \<and>
      (ids = [] \<longrightarrow> page_of dm' (mNextPageID m) = Some zero_page) \<and>
      (\<forall>j e. j \<noteq> 0 \<and> (ids = [] \<longrightarrow> j \<noteq> mNextPageID m) \<and> page_of dm j = Some e \<longrightarrow> page_of dm' j = Some e)) \<and>
    (j \<notin> set ids \<and> 0 < j \<and> j < mNextPageID m \<longrightarrow>
      (\<exists>dm' m'. FreePage dm j = Some (Inr (), dm') \<and> disk_inv dm' m' (j # ids) \<and>
        mNextPageID m' = mNextPageID m \<and> mRootPageID m' = mRootPageID m \<and>
        (\<forall>k e. k \<noteq> 0 \<and> k \<noteq> j \<and> page_of dm k = Some e \<longrightarrow> page_of dm' k = Some e)))"
    (is "?alloc \<and> (?pre \<longrightarrow> ?free)")
proof (intro conjI impI)
  show ?alloc
  proof (cases ids)
    case Nil
    obtain dm' where "AllocPage dm = Some (Inr (mNextPageID m), dm')"
      "disk_inv dm' (m\<lparr>mNextPageID := mNextPageID m + 1, mMagic := metaMagic\<rparr>) []"
      "page_of dm' (mNextPageID m) = Some zero_page"
      "\<And>j e. j \<noteq> 0 \<Longrightarrow> j \<noteq> mNextPageID m \<Longrightarrow> page_of dm j = Some e \<Longrightarrow> page_of dm' j = Some e"
      by (rule AllocPage_grow [OF assms(1) [unfolded Nil] assms(2)]) blast
    with Nil show ?thesis
      by (intro exI [of _ dm'] exI [of _ "m\<lparr>mNextPageID := mNextPageID m + 1, mMagic := metaMagic\<rparr>"]) simp
  next
    case (Cons i js)
    obtain dm' h where "AllocPage dm = Some (Inr i, dm')"
      "disk_inv dm' (m\<lparr>mFreeListHead := h, mMagic := metaMagic\<rparr>) js"
      "\<And>j e. j \<noteq> 0 \<Longrightarrow> page_of dm j = Some e \<Longrightarrow> page_of dm' j = Some e"
      by (rule AllocPage_reuse [OF assms(1) [unfolded Cons]]) blast
    with Cons show ?thesis
      by (intro exI [of _ dm'] exI [of _ "m\<lparr>mFreeListHead := h, mMagic := metaMagic\<rparr>"]) simp
  qed
  assume ?pre
  then have n: "j \<notin> set ids" "j \<noteq> 0" "unat j < unat (mNextPageID m)" by (auto simp: word_less_nat_alt)
  obtain dm' where "FreePage dm j = Some (Inr (), dm')"
    "disk_inv dm' (m\<lparr>mFreeListHead := j, mMagic := metaMagic\<rparr>) (j # ids)"
    "\<And>k e. k \<noteq> 0 \<Longrightarrow> k \<noteq> j \<Longrightarrow> page_of dm k = Some e \<Longrightarrow> page_of dm' k = Some e"
    by (rule FreePage_push [OF assms(1) n]) blast
  then show ?free
    by (intro exI [of _ dm'] exI [of _ "m\<lparr>mFreeListHead := j, mMagic := metaMagic\<rparr>"]) simp
qed

lemma Open_new: "\<exists>dm. Open [] = Some (Inr (), dm)"
proof -
  have "length (Data (SetFlag (Init \<lparr>ID = 0, Data = zero_page\<rparr> PageTypeLeaf) FlagIsRoot)) = PageSize"
    using SetFlag_sel(1) [OF Init_sel(1), of "\<lparr>ID = 0, Data = zero_page\<rparr>" PageTypeLeaf FlagIsRoot]
    by (simp add: page_ok_def)
  then show ?thesis
    by (simp add: Open_def Let_def WriteMeta_put_page WritePageRaw_put_page ds.live_wr)
qed

lemma Open_disk_inv:
  assumes "Open [] = Some (Inr (), dm)"
  shows "\<exists>m. disk_inv dm m [] \<and> mNextPageID m = 2"
proof -
  have "disk_inv dm \<lparr>mMagic = metaMagic, mRootPageID = 1, mFreeListHead = 0, mNextPageID = 2,
      mTxnIDCounter = 1\<rparr> []"
    using Open_facts [OF assms] by (simp add: disk_inv_def)
  then show ?thesis by (intro exI conjI, assumption) (rule MetaPage.select_convs)
qed

theorem free_list_stack_witness:
  "\<exists>dm dm'. Open [] = Some (Inr (), dm) \<and> AllocPage dm = Some (Inr 2, dm')"
proof -
  from Open_new obtain dm where o: "Open [] = Some (Inr (), dm)" by blast
  from Open_disk_inv [OF o] obtain m where m: "disk_inv dm m []" "mNextPageID m = 2" by blast
  then have "mNextPageID m \<noteq> - 1" by simp
  from free_list_stack [OF m(1) this, of 0] m(2) o show ?thesis by auto
qed

text \<open>
  C32. Whatever clients do with the disk after \<open>Open\<close> of a new file (allocate, free a page they
  hold, write a page they hold, in any order), \<open>AllocPage\<close> succeeds and never hands out the meta
  page or a page that is in use, until the 32-bit page counter is exhausted.
\<close>

theorem AllocPage_fresh:
  assumes "disk_reachable (dm, A)" and "\<forall>m. ReadMeta dm = Inr m \<longrightarrow> mNextPageID m \<noteq> - 1"
  shows "\<exists>i dm'. AllocPage dm = Some (Inr i, dm') \<and> i \<noteq> 0 \<and> i \<notin> A \<and> disk_reachable (dm', insert i A)"
proof -
  from reachable_hist_inv [OF assms(1)] have inv: "hist_inv (dm, A)" .
  then obtain m ids where d: "disk_inv dm m ids" by (auto simp: hist_inv_def)
  then have m: "ReadMeta dm = Inr m" "mNextPageID m \<noteq> - 1" using assms(2) by (auto simp: disk_inv_def)
  obtain i dm' where al: "AllocPage dm = Some (Inr i, dm')"
  proof (cases ids)
    case Nil
    from d [unfolded Nil] m(2) show thesis by (rule AllocPage_grow) (rule that)
  next
    case (Cons j js)
    from d [unfolded Cons] show thesis by (rule AllocPage_reuse) (rule that)
  qed
  from disk_reachable.step [OF assms(1) disk_step.do_alloc [OF al m]] hist_inv_alloc(2,3) [OF inv al m] al
  show ?thesis by blast
qed

theorem AllocPage_fresh_witness:
  "\<exists>dm i dm'. Open [] = Some (Inr (), dm) \<and> AllocPage dm = Some (Inr i, dm') \<and> i \<noteq> 0 \<and> i \<noteq> 1"
proof -
  from Open_new obtain dm where o: "Open [] = Some (Inr (), dm)" by blast
  from Open_disk_inv [OF o] obtain m where "disk_inv dm m []" "mNextPageID m = 2" by blast
  then have "\<forall>m. ReadMeta dm = Inr m \<longrightarrow> mNextPageID m \<noteq> - 1" by (simp add: disk_inv_def)
  from AllocPage_fresh [OF disk_reachable.init [OF o] this] o show ?thesis by auto
qed

end
