(* ===== verification/Tuple.thy ===== *)
theory Tuple
  imports Prelude
begin

text \<open>
  MVCC tuples and their wire format (\<^verbatim>\<open>internal/mvcc/tuple.go\<close>):
  \<open>[Xmin:8][Xmax:8][KeyLen:2][ValLen:2][Flags:1][Key][Value]\<close>. The two lengths are stored in 16
  bits, so the round trip holds for keys and values shorter than 65536 bytes.
\<close>

section \<open>Definitions\<close>

definition TupleHeaderSize :: nat where
  "TupleHeaderSize = 8 + 8 + 2 + 2 + 1"

definition TupleDeleted :: u8 where "TupleDeleted = 0x01"
definition TupleUpdated :: u8 where "TupleUpdated = 0x02"
definition TupleLocked :: u8 where "TupleLocked = 0x04"

record MVCCTuple =
  Xmin :: u64
  Xmax :: u64
  TFlags :: u8
  Key :: bytes
  Value :: bytes

definition EncodeTuple :: "MVCCTuple \<Rightarrow> bytes" where
  "EncodeTuple t =
     (let buf = replicate (TupleHeaderSize + length (Key t) + length (Value t)) 0;
          buf = PutUint64 buf 0 (Xmin t);
          buf = PutUint64 buf 8 (Xmax t);
          buf = PutUint16 buf 16 (word_of_nat (length (Key t)));
          buf = PutUint16 buf 18 (word_of_nat (length (Value t)));
          buf = buf[20 := TFlags t];
          buf = put_at buf 21 (Key t);
          buf = put_at buf (21 + length (Key t)) (Value t)
      in buf)"

definition DecodeTuple :: "bytes \<Rightarrow> (error, MVCCTuple) result" where
  "DecodeTuple data =
     (if length data < TupleHeaderSize then Inl ErrInvalidTuple
      else let xmin = Uint64 data 0;
               xmax = Uint64 data 8;
               keyLen = unat (Uint16 data 16);
               valLen = unat (Uint16 data 18);
               flags = data ! 20
           in if length data < TupleHeaderSize + keyLen + valLen then Inl ErrInvalidTuple
              else Inr \<lparr> Xmin = xmin, Xmax = xmax, TFlags = flags,
                         Key = get_at data 21 keyLen,
                         Value = get_at data (21 + keyLen) valLen \<rparr>)"

definition TupleKeyExtract :: "bytes \<Rightarrow> slice" where
  "TupleKeyExtract data =
     (if length data < TupleHeaderSize then NilSlice
      else let keyLen = unat (Uint16 data 16)
           in if length data < TupleHeaderSize + keyLen then NilSlice
              else Slice (get_at data 21 keyLen))"

section \<open>The wire format\<close>

text \<open>A tuple whose key and value lengths fit in 16 bits.\<close>

definition tuple_ok :: "MVCCTuple \<Rightarrow> bool" where
  "tuple_ok t \<longleftrightarrow> length (Key t) < 65536 \<and> length (Value t) < 65536"

lemma length_EncodeTuple [simp]:
  "length (EncodeTuple t) = 21 + length (Key t) + length (Value t)"
  by (simp add: EncodeTuple_def Let_def TupleHeaderSize_def)

lemma EncodeTuple_nonempty [simp]: "EncodeTuple t \<noteq> []"
  using length_EncodeTuple [of t] by fastforce

lemma EncodeTuple_append:
  "EncodeTuple t = le_bytes 8 (unat (Xmin t)) @ le_bytes 8 (unat (Xmax t)) @
     le_bytes 2 (unat (word_of_nat (length (Key t)) :: u16)) @
     le_bytes 2 (unat (word_of_nat (length (Value t)) :: u16)) @ [TFlags t] @ Key t @ Value t"
proof -
  define k v where "k = Key t" and "v = Value t"
  define a b c d where "a = le_bytes 8 (unat (Xmin t))" and "b = le_bytes 8 (unat (Xmax t))"
    and "c = le_bytes 2 (unat (word_of_nat (length k) :: u16))"
    and "d = le_bytes 2 (unat (word_of_nat (length v) :: u16))"
  have l: "length a = 8" "length b = 8" "length c = 2" "length d = 2"
    by (simp_all add: a_def b_def c_def d_def)
  have p1: "put_at (replicate (21 + length k + length v) 0) 0 a = a @ replicate (13 + length k + length v) 0"
    using l by (simp add: put_at_def)
  have p2: "put_at (a @ replicate (13 + length k + length v) 0) 8 b
      = (a @ b) @ replicate (5 + length k + length v) 0"
    using l by (simp add: put_at_def)
  have p3: "put_at ((a @ b) @ replicate (5 + length k + length v) 0) 16 c
      = (a @ b @ c) @ replicate (3 + length k + length v) 0"
    using l by (simp add: put_at_def)
  have p4: "put_at ((a @ b @ c) @ replicate (3 + length k + length v) 0) 18 d
      = (a @ b @ c @ d) @ 0 # replicate (length k + length v) 0"
    using l by (simp add: put_at_def numeral_eq_Suc)
  have p5: "((a @ b @ c @ d) @ 0 # replicate (length k + length v) 0)[20 := TFlags t]
      = (a @ b @ c @ d @ [TFlags t]) @ replicate (length k + length v) 0"
    using l by (simp add: list_update_append)
  have p6: "put_at ((a @ b @ c @ d @ [TFlags t]) @ replicate (length k + length v) 0) 21 k
      = (a @ b @ c @ d @ [TFlags t] @ k) @ replicate (length v) 0"
    using l by (simp add: put_at_def)
  have p7: "put_at ((a @ b @ c @ d @ [TFlags t] @ k) @ replicate (length v) 0) (21 + length k) v
      = a @ b @ c @ d @ [TFlags t] @ k @ v"
    using l by (simp add: put_at_def)
  show ?thesis
    unfolding EncodeTuple_def Let_def le_defs TupleHeaderSize_def k_def [symmetric] v_def [symmetric]
      a_def [symmetric] b_def [symmetric] c_def [symmetric] d_def [symmetric]
    using p1 p2 p3 p4 p5 p6 p7 by simp
qed

lemma get_at_append2: "off = length xs \<Longrightarrow> get_at (xs @ ys) (off + o2) n = get_at ys o2 n"
  by (simp add: get_at_def)

lemma EncodeTuple_fields:
  assumes "tuple_ok t"
  shows "Uint64 (EncodeTuple t) 0 = Xmin t" and "Uint64 (EncodeTuple t) 8 = Xmax t"
    and "unat (Uint16 (EncodeTuple t) 16) = length (Key t)"
    and "unat (Uint16 (EncodeTuple t) 18) = length (Value t)"
    and "EncodeTuple t ! 20 = TFlags t" and "get_at (EncodeTuple t) 21 (length (Key t)) = Key t"
    and "get_at (EncodeTuple t) (21 + length (Key t)) (length (Value t)) = Value t"
  using assms u64_bound [of "Xmin t"] u64_bound [of "Xmax t"]
  by (simp_all add: EncodeTuple_append le_defs get_at_def nth_append tuple_ok_def unat_of_nat
      le_val_le_bytes)

lemma DecodeTuple_EncodeTuple: "tuple_ok t \<Longrightarrow> DecodeTuple (EncodeTuple t) = Inr t"
  by (simp add: DecodeTuple_def EncodeTuple_fields TupleHeaderSize_def Let_def)

lemma TupleKeyExtract_EncodeTuple: "tuple_ok t \<Longrightarrow> TupleKeyExtract (EncodeTuple t) = Slice (Key t)"
  by (simp add: TupleKeyExtract_def EncodeTuple_fields TupleHeaderSize_def Let_def)

lemma DecodeTuple_key:
  "DecodeTuple data = Inr t \<Longrightarrow> TupleKeyExtract data = Slice (Key t) \<and> tuple_ok t"
  using u16_bound [of "Uint16 data 16"] u16_bound [of "Uint16 data 18"]
  by (auto simp: DecodeTuple_def TupleKeyExtract_def Let_def tuple_ok_def min_def split: if_splits)

text \<open>
  The bytes that a decoded record may have beyond the value are not part of the tuple; without
  them decoding is the inverse of encoding.
\<close>

lemma EncodeTuple_DecodeTuple:
  assumes "DecodeTuple data = Inr t"
  shows "data = EncodeTuple t @ drop (length (EncodeTuple t)) data"
proof -
  define n m where "n = unat (Uint16 data 16)" and "m = unat (Uint16 data 18)"
  have t: "t = \<lparr>Xmin = Uint64 data 0, Xmax = Uint64 data 8, TFlags = data ! 20,
      Key = get_at data 21 n, Value = get_at data (21 + n) m\<rparr>"
    and len: "21 + n + m \<le> length data"
    using assms by (auto simp: DecodeTuple_def Let_def n_def m_def TupleHeaderSize_def split: if_splits)
  have le: "le_bytes k (le_val (get_at data off k)) = get_at data off k" if "off + k \<le> length data" for off k
    using le_bytes_le_val [of "get_at data off k"] that by simp
  have bnd: "le_val (get_at data off k) < 256 ^ k" if "off + k \<le> length data" for off k
    using le_val_bound [of "get_at data off k"] that by simp
  have lk: "length (Key t) = n" "length (Value t) = m" using len by (simp_all add: t)
  have b8: "unat (Uint64 data off) = le_val (get_at data off 8)" if "off + 8 \<le> length data" for off
    using bnd [OF that] by (simp add: Uint64_def unat_of_nat)
  have b2: "unat (Uint16 data off) = le_val (get_at data off 2)" if "off + 2 \<le> length data" for off
    using bnd [OF that] by (simp add: Uint16_def unat_of_nat)
  have w: "(word_of_nat n :: u16) = Uint16 data 16" "(word_of_nat m :: u16) = Uint16 data 18"
    by (simp_all add: n_def m_def)
  have split: "get_at data off a @ get_at data (off + a) b = get_at data off (a + b)" for off a b
    by (simp add: get_at_def take_add add.commute)
  have "EncodeTuple t = get_at data 0 8 @ get_at data 8 8 @ get_at data 16 2 @ get_at data 18 2 @
      get_at data 20 1 @ get_at data 21 n @ get_at data (21 + n) m"
  proof -
    have "[data ! 20] = get_at data 20 1" using len by (simp add: get_at_def take_Suc_conv_app_nth)
    then show ?thesis
      using len unfolding EncodeTuple_append lk w by (simp add: t b8 b2 le)
  qed
  also have "\<dots> = take (21 + n + m) data"
    using split [of 0 8 8] split [of 0 16 2] split [of 0 18 2] split [of 0 20 1] split [of 0 21 n]
      split [of 0 "21 + n" m]
    by (simp add: append_assoc [symmetric] del: append_assoc) (simp add: get_at_def)
  finally have "EncodeTuple t = take (21 + n + m) data" .
  moreover have "length (EncodeTuple t) = 21 + n + m" using lk by simp
  ultimately show ?thesis by (metis append_take_drop_id)
qed

text \<open>The in-place write of \<open>Xmax\<close>.\<close>

lemma EncodeTuple_poke_Xmax:
  "put_at (EncodeTuple t) 8 (le_bytes 8 (unat x)) = EncodeTuple (t\<lparr>Xmax := x\<rparr>)"
  by (simp add: EncodeTuple_append put_at_def)

section \<open>Properties\<close>

text \<open>
  Tuple round trip: decoding an encoded tuple whose key and value fit in 16-bit lengths gives
  the tuple back, and the key that the page searches extract from the encoding is its key;
  conversely a record that decodes starts with the encoding of the decoded tuple.
\<close>

theorem tuple_roundtrip:
  "(tuple_ok t \<longrightarrow> DecodeTuple (EncodeTuple t) = Inr t \<and> TupleKeyExtract (EncodeTuple t) = Slice (Key t)) \<and>
   (DecodeTuple data = Inr u \<longrightarrow> tuple_ok u \<and> TupleKeyExtract data = Slice (Key u) \<and>
      take (length (EncodeTuple u)) data = EncodeTuple u)"
  using DecodeTuple_EncodeTuple [of t] TupleKeyExtract_EncodeTuple [of t] DecodeTuple_key [of data u]
    EncodeTuple_DecodeTuple [of data u]
  by (metis append_eq_conv_conj)

theorem tuple_roundtrip_witness:
  "DecodeTuple (EncodeTuple \<lparr>Xmin = 7, Xmax = 0, TFlags = 0, Key = [1, 2], Value = [3]\<rparr>)
     = Inr \<lparr>Xmin = 7, Xmax = 0, TFlags = 0, Key = [1, 2], Value = [3]\<rparr>"
  using tuple_roundtrip [of "\<lparr>Xmin = 7, Xmax = 0, TFlags = 0, Key = [1, 2], Value = [3]\<rparr>"]
  by (simp add: tuple_ok_def)

end
