(* ===== verification/Deadlock.thy ===== *)
theory Deadlock
  imports Prelude "HOL-Library.AList"
begin

text \<open>
  The waits-for graph and its cycle detection (\<^verbatim>\<open>internal/mvcc/deadlock.go\<close>). The Go map
  from waiter to holder is an association list, whose order is the iteration order of the map;
  every method holds the mutex, so a method is one step.
\<close>

section \<open>Definitions\<close>

type_synonym TxnID = u64

record DeadlockDetector =
  edges :: "(TxnID \<times> TxnID) list"

definition NewDeadlockDetector :: DeadlockDetector where
  "NewDeadlockDetector = \<lparr>edges = []\<rparr>"

text \<open>
  The closure \<open>dfs\<close> of \<open>findCycle\<close>: it returns the cycle, \<^term>\<open>None\<close> for \<open>nil\<close>, and the set
  \<open>visited\<close>; \<open>inPath\<close> always holds the nodes of \<open>path\<close>.
\<close>

function dfs :: "(TxnID \<times> TxnID) list \<Rightarrow> TxnID list \<Rightarrow> TxnID list \<Rightarrow> TxnID \<Rightarrow> TxnID list option \<times> TxnID list" where
  "dfs es visited path node =
     (if node \<in> set visited then (None, visited)
      else if node \<in> set path then (Some (dropWhile (\<lambda>n. n \<noteq> node) path), visited)
      else case map_of es node of
             Some next \<Rightarrow>
               (case dfs es visited (path @ [node]) next of
                  (Some cycle, visited) \<Rightarrow> (Some cycle, visited)
                | (None, visited) \<Rightarrow> (None, node # visited))
           | None \<Rightarrow> (None, node # visited))"
  by pat_completeness auto
termination
proof (relation "measure (\<lambda>(es, v, p, n). card (fst ` set es - set p))")
  fix es :: "(TxnID \<times> TxnID) list" and visited path node x2
  assume "node \<notin> set path" and "map_of es node = Some x2"
  then have "node \<in> fst ` set es - set path" by (force dest: map_of_SomeD)
  then have "fst ` set es - set (path @ [node]) \<subset> fst ` set es - set path" by auto
  then show "((es, visited, path @ [node], x2), es, visited, path, node)
      \<in> measure (\<lambda>(es, v, p, n). card (fst ` set es - set p))"
    by (simp only: in_measure prod.case) (rule psubset_card_mono, simp)
qed simp

declare dfs.simps [simp del]

definition findCycle :: "DeadlockDetector \<Rightarrow> TxnID \<Rightarrow> TxnID list option" where
  "findCycle d start = fst (dfs (edges d) [] [] start)"

definition AddWait :: "DeadlockDetector \<Rightarrow> TxnID \<Rightarrow> TxnID \<Rightarrow> (TxnID \<times> error option) \<times> DeadlockDetector" where
  "AddWait d waiterID holderID =
     (let d = d\<lparr>edges := AList.update waiterID holderID (edges d)\<rparr>
      in case findCycle d waiterID of
           None \<Rightarrow> ((0, None), d)
         | Some [] \<Rightarrow> ((0, None), d)
         | Some (c # cs) \<Rightarrow>
             let victim = foldl (\<lambda>victim i. if i > victim then i else victim) c cs
             in ((victim, Some ErrDeadlockVictim), d\<lparr>edges := AList.delete victim (edges d)\<rparr>))"

definition RemoveWait :: "DeadlockDetector \<Rightarrow> TxnID \<Rightarrow> DeadlockDetector" where
  "RemoveWait d waiterID = d\<lparr>edges := AList.delete waiterID (edges d)\<rparr>"

definition CycleExists :: "DeadlockDetector \<Rightarrow> bool" where
  "CycleExists d = list_ex (\<lambda>start. findCycle d start \<noteq> None) (map fst (edges d))"

section \<open>The graph\<close>

definition waits :: "(TxnID \<times> TxnID) list \<Rightarrow> (TxnID \<times> TxnID) set" where
  "waits es = {(a, b). map_of es a = Some b}"

lemma waits_iff [simp]: "(a, b) \<in> waits es \<longleftrightarrow> map_of es a = Some b"
  by (simp add: waits_def)

lemma single_valued_waits: "single_valued (waits es)"
  by (simp add: single_valued_def)

text \<open>In a graph with one edge per node, whoever a node of a cycle reaches is on the cycle.\<close>

lemma cycle_stays:
  assumes sv: "single_valued R" and "Q \<subseteq> R" and c: "(x, x) \<in> Q\<^sup>+" and r: "(x, y) \<in> R\<^sup>*"
  shows "(y, y) \<in> Q\<^sup>+ \<and> (y, x) \<in> Q\<^sup>*"
  using r
proof (induction rule: rtrancl_induct)
  case base
  then show ?case using c by simp
next
  case (step y z)
  from step.IH obtain z' where z': "(y, z') \<in> Q" "(z', y) \<in> Q\<^sup>*" by (meson tranclD)
  with step.hyps(2) sv \<open>Q \<subseteq> R\<close> have "z' = z" by (auto dest: single_valuedD)
  with z' step.IH show ?case by (meson rtrancl_into_trancl1 rtrancl_trans)
qed

lemma dead_end_no_cycle:
  assumes "single_valued R" and "(a, d) \<in> R\<^sup>*" and "d \<notin> Domain R" and "(a, x) \<in> R\<^sup>*"
  shows "(x, x) \<notin> R\<^sup>+"
proof
  assume x: "(x, x) \<in> R\<^sup>+"
  from single_valued_confluent [OF assms(1,2,4)] show False
  proof
    assume "(d, x) \<in> R\<^sup>*"
    with assms(3) have "x = d" by (metis Domain.DomainI converse_rtranclE)
    with x assms(3) show False by (meson Domain.DomainI tranclD)
  next
    assume "(x, d) \<in> R\<^sup>*"
    from cycle_stays [OF assms(1) subset_refl x this] assms(3) show False by (meson Domain.DomainI tranclD)
  qed
qed

text \<open>A walk in the graph.\<close>

definition walk :: "(TxnID \<times> TxnID) set \<Rightarrow> TxnID list \<Rightarrow> bool" where
  "walk R p \<longleftrightarrow> successively (\<lambda>a b. (a, b) \<in> R) p"

lemma walk_reach: "walk R (a # p) \<Longrightarrow> b \<in> set (a # p) \<Longrightarrow> (a, b) \<in> R\<^sup>*"
  unfolding walk_def
proof (induction p arbitrary: a)
  case (Cons c p)
  then show ?case by (auto simp: successively_Cons intro: converse_rtrancl_into_rtrancl)
qed simp

lemma walk_append: "walk R (xs @ ys) \<Longrightarrow> walk R ys"
  by (simp add: walk_def successively_append_iff)

text \<open>\<open>is_cycle R c\<close>: the nodes of \<open>c\<close> form a cycle in their order.\<close>

definition is_cycle :: "(TxnID \<times> TxnID) set \<Rightarrow> TxnID list \<Rightarrow> bool" where
  "is_cycle R c \<longleftrightarrow> c \<noteq> [] \<and> distinct c \<and> walk R (c @ [hd c])"

lemma is_cycle_trancl:
  assumes "is_cycle R c" and "single_valued R" and "x \<in> set c"
  shows "(x, x) \<in> R\<^sup>+"
proof -
  obtain a cs where c: "c = a # cs" using assms(1) by (cases c) (auto simp: is_cycle_def)
  with assms(1) have w: "walk R (a # cs @ [a])" by (simp add: is_cycle_def)
  obtain b bs where b: "cs @ [a] = b # bs" by (cases cs) auto
  with w have "(a, b) \<in> R" "walk R (b # bs)" by (simp_all add: walk_def successively_Cons)
  moreover have "a \<in> set (b # bs)" by (simp add: b [symmetric])
  ultimately have aa: "(a, a) \<in> R\<^sup>+" by (meson rtrancl_into_trancl2 walk_reach)
  have "(a, x) \<in> R\<^sup>*" using walk_reach [OF w, of x] assms(3) c by auto
  from cycle_stays [OF assms(2) subset_refl aa this] show ?thesis by simp
qed

lemma is_cycle_closed:
  assumes "is_cycle R c" and sv: "single_valued R" and "y \<in> set c" and "(y, z) \<in> R\<^sup>*"
  shows "z \<in> set c"
  using assms(4)
proof (induction rule: rtrancl_induct)
  case base
  then show ?case using assms(3) by simp
next
  case (step y z)
  then obtain xs ys where c: "c = xs @ y # ys" by (meson split_list)
  obtain z' zs where z': "ys @ [hd c] = z' # zs" by (cases ys) auto
  have "walk R (xs @ (y # ys @ [hd c]))" using assms(1) c by (simp add: is_cycle_def)
  then have "walk R (y # z' # zs)" unfolding z' [symmetric] using walk_append by blast
  then have "(y, z') \<in> R" by (simp add: walk_def)
  with step.hyps(2) sv have "z' = z" by (auto dest: single_valuedD)
  moreover have "z' \<in> set (ys @ [hd c])" by (simp add: z')
  moreover have "hd c \<in> set c" using c by (cases xs) auto
  ultimately show ?case using c by auto
qed

lemma dfs_sound:
  assumes "walk (waits es) (path @ [node])" and "distinct path" and "fst (dfs es [] path node) = Some c"
  shows "is_cycle (waits es) c \<and> (hd (path @ [node]), hd c) \<in> (waits es)\<^sup>*"
  using assms
proof (induction es "[] :: TxnID list" path node rule: dfs.induct)
  case (1 es path node)
  show ?case
  proof (cases "node \<in> set path")
    case True
    with "1.prems"(3) have c: "c = dropWhile (\<lambda>n. n \<noteq> node) path" by (simp add: dfs.simps)
    define pre where "pre = takeWhile (\<lambda>n. n \<noteq> node) path"
    have p: "path = pre @ c" using takeWhile_dropWhile_id [of "\<lambda>n. n \<noteq> node" path] by (simp add: c pre_def)
    have ne: "c \<noteq> []" and hd: "hd c = node"
      using True hd_dropWhile [of "\<lambda>n. n \<noteq> node" path] by (auto simp: c dropWhile_eq_Nil_conv)
    have "walk (waits es) (pre @ (c @ [node]))" using "1.prems"(1) p by simp
    then have "walk (waits es) (c @ [hd c])" using walk_append hd by blast
    moreover have "distinct c" using "1.prems"(2) p by simp
    moreover obtain a q where aq: "path @ [node] = a # q" by (cases path) auto
    moreover have "(a, node) \<in> (waits es)\<^sup>*"
      using walk_reach [of "waits es" a q node] "1.prems"(1) aq by (metis in_set_conv_decomp)
    ultimately show ?thesis using ne hd by (simp add: is_cycle_def)
  next
    case False
    with "1.prems"(3) obtain nxt where n: "map_of es node = Some nxt"
      by (subst (asm) dfs.simps) (auto split: option.splits)
    with False "1.prems"(3) have rec: "fst (dfs es [] (path @ [node]) nxt) = Some c"
      by (subst (asm) dfs.simps) (auto split: option.splits prod.splits)
    have "walk (waits es) ((path @ [node]) @ [nxt])"
      using "1.prems"(1) n by (simp add: walk_def successively_append_iff)
    with "1.hyps" [OF _ False n] "1.prems"(2) False rec show ?thesis
      by (cases path) auto
  qed
qed

lemma dfs_complete:
  assumes "fst (dfs es [] path node) = None"
  shows "\<exists>d. (node, d) \<in> (waits es)\<^sup>* \<and> d \<notin> Domain (waits es)"
  using assms
proof (induction es "[] :: TxnID list" path node rule: dfs.induct)
  case (1 es path node)
  then have np: "node \<notin> set path" by (subst (asm) dfs.simps) (auto split: if_splits)
  show ?case
  proof (cases "map_of es node")
    case None
    then show ?thesis by (intro exI [of _ node]) auto
  next
    case (Some nxt)
    with np "1.prems" have "fst (dfs es [] (path @ [node]) nxt) = None"
      by (subst (asm) dfs.simps) (auto split: option.splits prod.splits)
    from "1.hyps" [OF _ np Some this] obtain e where "(nxt, e) \<in> (waits es)\<^sup>*" "e \<notin> Domain (waits es)"
      by auto
    with Some show ?thesis
      by (intro exI [of _ e]) (auto intro: converse_rtrancl_into_rtrancl [of node nxt])
  qed
qed

lemma findCycle_Some:
  assumes "findCycle d s = Some c"
  shows "is_cycle (waits (edges d)) c" and "(s, hd c) \<in> (waits (edges d))\<^sup>*"
  using dfs_sound [of "edges d" "[]" s c] assms by (simp_all add: findCycle_def walk_def)

lemma findCycle_None:
  assumes "findCycle d s = None" and "(s, x) \<in> (waits (edges d))\<^sup>*"
  shows "(x, x) \<notin> (waits (edges d))\<^sup>+"
  using dfs_complete [of "edges d" "[]" s] assms dead_end_no_cycle [OF single_valued_waits]
  by (auto simp: findCycle_def)

lemma foldl_max:
  "foldl (\<lambda>v i. if i > v then i else v) c cs = Max (set (c # cs))" for c :: TxnID
proof (induction cs arbitrary: c)
  case (Cons x cs)
  have "Max (set (c # x # cs)) = Max (set (max c x # cs))"
    by (cases cs) (auto simp: max.assoc)
  with Cons show ?case by (simp add: max_def)
qed simp

section \<open>Adding a wait keeps the graph acyclic\<close>

lemma waits_update:
  "waits (AList.update a b es) = {(x, y). (x, y) \<in> waits es \<and> x \<noteq> a} \<union> {(a, b)}"
  by (auto simp: update_conv split: if_splits)

lemma waits_delete: "waits (AList.delete a es) = {(x, y). (x, y) \<in> waits es \<and> x \<noteq> a}"
  by (auto simp: delete_conv' split: if_splits)

text \<open>
  Removing the out-edge of a node on the cycle that the new edge closed leaves no cycle.
\<close>

lemma break_cycle:
  assumes ac: "acyclic R" and R': "R' = {(x, y). (x, y) \<in> R \<and> x \<noteq> w} \<union> {(w, h)}"
    and sv: "single_valued R'" and v: "(w, v) \<in> R'\<^sup>*"
  shows "acyclic {(x, y). (x, y) \<in> R' \<and> x \<noteq> v}"
proof (rule ccontr)
  let ?Q = "{(x, y). (x, y) \<in> R' \<and> x \<noteq> v}"
  let ?P = "{(x, y). (x, y) \<in> R \<and> x \<noteq> w \<and> x \<noteq> v}"
  assume cyc: "\<not> acyclic ?Q"
  have acP: "acyclic ?P" by (rule acyclic_subset [OF ac]) auto
  have "w \<noteq> v"
  proof
    assume "w = v"
    then have "?Q = ?P" unfolding R' by auto
    with acP cyc show False by simp
  qed
  then have Q: "?Q = insert (w, h) ?P" unfolding R' by auto
  with cyc acP have "(h, w) \<in> ?P\<^sup>*" by (simp add: acyclic_insert)
  then have "(h, w) \<in> ?Q\<^sup>*" by (rule rtrancl_mono [THEN subsetD, rotated]) (use Q in auto)
  moreover have "(w, h) \<in> ?Q" using Q by auto
  ultimately have "(w, w) \<in> ?Q\<^sup>+" by (meson rtrancl_into_trancl2)
  then have "(v, v) \<in> ?Q\<^sup>+" using cycle_stays [OF sv _ _ v, of ?Q] by auto
  then show False by (auto dest: tranclD)
qed

lemma closed_cycle:
  assumes "acyclic P" and "(x, x) \<in> (insert (w, h) P)\<^sup>+"
  shows "(w, x) \<in> (insert (w, h) P)\<^sup>*" and "(x, w) \<in> (insert (w, h) P)\<^sup>*"
proof -
  from assms have "(h, x) \<in> P\<^sup>*" "(x, w) \<in> P\<^sup>*" by (auto simp: trancl_insert acyclic_def)
  then have "(h, x) \<in> (insert (w, h) P)\<^sup>*" and "(x, w) \<in> (insert (w, h) P)\<^sup>*"
    by (auto intro: rtrancl_mono [THEN subsetD, rotated])
  then show "(w, x) \<in> (insert (w, h) P)\<^sup>*" and "(x, w) \<in> (insert (w, h) P)\<^sup>*"
    by (auto intro: converse_rtrancl_into_rtrancl)
qed

lemma findCycle_all:
  assumes "findCycle d w = Some c" and "\<And>x. (x, x) \<in> (waits (edges d))\<^sup>+ \<Longrightarrow> (w, x) \<in> (waits (edges d))\<^sup>*"
  shows "set c = {x. (x, x) \<in> (waits (edges d))\<^sup>+}"
proof -
  let ?R = "waits (edges d)"
  have sv: "single_valued ?R" by (rule single_valued_waits)
  note c = findCycle_Some [OF assms(1)]
  have hd: "hd c \<in> set c" using c(1) by (simp add: is_cycle_def)
  have "x \<in> set c" if x: "(x, x) \<in> ?R\<^sup>+" for x
  proof -
    have "(hd c, x) \<in> ?R\<^sup>*"
      using single_valued_confluent [OF sv c(2) assms(2) [OF x]] cycle_stays [OF sv subset_refl x] by blast
    with is_cycle_closed [OF c(1) sv hd] show ?thesis by blast
  qed
  with is_cycle_trancl [OF c(1) sv] show ?thesis by blast
qed

text \<open>
  C10. The wait graph has no deadlock after a call: if the graph is acyclic, it is acyclic
  after \<open>AddWait\<close> and after \<open>RemoveWait\<close>. \<open>AddWait\<close> reports a deadlock exactly when the new
  edge closes a cycle; the victim is then the youngest transaction, the one with the greatest
  id, of that cycle, and only its edge is dropped. Without a cycle the edge stays.
\<close>

theorem AddWait_acyclic:
  assumes "acyclic (waits (edges d))"
  shows "(let es = AList.update w h (edges d); C = {x. (x, x) \<in> (waits es)\<^sup>+}
      in AddWait d w h = (if C = {} then ((0, None), d\<lparr>edges := es\<rparr>)
           else ((Max C, Some ErrDeadlockVictim), d\<lparr>edges := AList.delete (Max C) es\<rparr>)) \<and>
         (C \<noteq> {} \<longrightarrow> w \<in> C \<and> h \<in> C)) \<and>
    acyclic (waits (edges (snd (AddWait d w h)))) \<and> acyclic (waits (edges (RemoveWait d x)))"
proof -
  define es d' R where "es = AList.update w h (edges d)" and "d' = d\<lparr>edges := es\<rparr>" and "R = waits es"
  define P where "P = {(x, y). (x, y) \<in> waits (edges d) \<and> x \<noteq> w}"
  have R: "R = P \<union> {(w, h)}" unfolding R_def es_def P_def by (rule waits_update)
  have acP: "acyclic P" unfolding P_def by (rule acyclic_subset [OF assms]) auto
  have sv: "single_valued R" unfolding R_def by (rule single_valued_waits)
  have reach: "(w, x) \<in> R\<^sup>*" if "(x, x) \<in> R\<^sup>+" for x
    using closed_cycle(1) [OF acP, of x w h] that R by simp
  have rem: "acyclic (waits (edges (RemoveWait d x)))"
    unfolding RemoveWait_def using waits_delete by (auto intro: acyclic_subset [OF assms])
  have add: "AddWait d w h = (case findCycle d' w of None \<Rightarrow> ((0, None), d') | Some [] \<Rightarrow> ((0, None), d')
      | Some (c # cs) \<Rightarrow> ((Max (set (c # cs)), Some ErrDeadlockVictim), d'\<lparr>edges := AList.delete (Max (set (c # cs))) es\<rparr>))"
    by (simp add: AddWait_def d'_def es_def foldl_max Let_def del: set_simps cong: option.case_cong list.case_cong)
  show ?thesis
  proof (cases "findCycle d' w")
    case None
    then have "{x. (x, x) \<in> R\<^sup>+} = {}"
      using findCycle_None [OF None] reach by (auto simp: d'_def R_def)
    with None rem show ?thesis
      unfolding Let_def add by (simp add: es_def [symmetric] R_def [symmetric] d'_def acyclic_def)
  next
    case (Some c)
    note fc = findCycle_Some [OF Some]
    have C: "set c = {x. (x, x) \<in> R\<^sup>+}"
      using findCycle_all [OF Some] reach by (simp add: d'_def R_def)
    obtain a cs where ac: "c = a # cs" using fc(1) by (cases c) (auto simp: is_cycle_def)
    have aa: "(a, a) \<in> R\<^sup>+" using C ac by auto
    then have "(a, w) \<in> R\<^sup>*" using closed_cycle(2) [OF acP, of a w h] R by simp
    from cycle_stays [OF sv subset_refl aa this] have ww: "(w, w) \<in> R\<^sup>+" by simp
    have "(w, h) \<in> R" using R by simp
    then have "(w, h) \<in> R\<^sup>*" by auto
    from cycle_stays [OF sv subset_refl ww this] have hh: "(h, h) \<in> R\<^sup>+" by simp
    have v: "(w, Max (set c)) \<in> R\<^sup>*"
      using reach C Max_in [of "set c"] ac by blast
    from break_cycle [OF assms, of R w h, folded P_def, OF R sv v]
    have "acyclic (waits (AList.delete (Max (set c)) es))" by (simp add: waits_delete R_def)
    moreover have "AddWait d w h = ((Max (set c), Some ErrDeadlockVictim), d'\<lparr>edges := AList.delete (Max (set c)) es\<rparr>)"
      unfolding add Some ac by simp
    moreover have "{x. (x, x) \<in> R\<^sup>+} \<noteq> {}" using aa by auto
    ultimately show ?thesis
      using rem ww hh by (simp add: C es_def [symmetric] R_def [symmetric] d'_def Let_def)
  qed
qed

theorem AddWait_acyclic_witness:
  "AddWait (snd (AddWait NewDeadlockDetector 1 2)) 2 1 = ((2, Some ErrDeadlockVictim), \<lparr>edges = [(1, 2)]\<rparr>)
    \<and> acyclic (waits (edges (snd (AddWait (snd (AddWait NewDeadlockDetector 1 2)) 2 1))))"
proof -
  have e: "AddWait NewDeadlockDetector 1 2 = ((0, None), \<lparr>edges = [(1, 2)]\<rparr>)"
    by (simp add: AddWait_def NewDeadlockDetector_def findCycle_def dfs.simps)
  have "acyclic (waits (edges NewDeadlockDetector))"
    by (simp add: NewDeadlockDetector_def waits_def acyclic_def)
  from AddWait_acyclic [OF this, of 1 2] have a: "acyclic (waits (edges (snd (AddWait NewDeadlockDetector 1 2))))"
    by blast
  from AddWait_acyclic [OF this, of 2 1]
  have "acyclic (waits (edges (snd (AddWait (snd (AddWait NewDeadlockDetector 1 2)) 2 1))))" by blast
  moreover have "AddWait \<lparr>edges = [(1, 2)]\<rparr> 2 1 = ((2, Some ErrDeadlockVictim), \<lparr>edges = [(1, 2)]\<rparr>)"
    by (simp add: AddWait_def findCycle_def dfs.simps)
  ultimately show ?thesis by (simp add: e)
qed

text \<open>
  C33. Cycle detection is exact: \<open>findCycle\<close> terminates, a result is a cycle of the graph, in
  order and without repetition, that the start node reaches, and it returns \<open>nil\<close> exactly when
  no cycle is reachable; \<open>CycleExists\<close> holds exactly when the graph has a cycle.
\<close>

theorem findCycle_exact:
  "(case findCycle d s of
      Some c \<Rightarrow> is_cycle (waits (edges d)) c \<and> (s, hd c) \<in> (waits (edges d))\<^sup>*
    | None \<Rightarrow> (\<forall>x. (s, x) \<in> (waits (edges d))\<^sup>* \<longrightarrow> (x, x) \<notin> (waits (edges d))\<^sup>+)) \<and>
   (CycleExists d \<longleftrightarrow> \<not> acyclic (waits (edges d)))"
proof -
  have "CycleExists d \<longleftrightarrow> \<not> acyclic (waits (edges d))"
  proof
    assume "CycleExists d"
    then obtain t c where "findCycle d t = Some c" by (auto simp: CycleExists_def list_ex_iff)
    from findCycle_Some(1) [OF this] is_cycle_trancl [OF _ single_valued_waits]
    show "\<not> acyclic (waits (edges d))" by (metis acyclic_def is_cycle_def list.set_sel(1))
  next
    assume "\<not> acyclic (waits (edges d))"
    then obtain x where x: "(x, x) \<in> (waits (edges d))\<^sup>+" by (auto simp: acyclic_def)
    then obtain y where "map_of (edges d) x = Some y" by (meson tranclD waits_iff)
    then have "x \<in> set (map fst (edges d))" by (force dest: map_of_SomeD)
    moreover have "findCycle d x \<noteq> None" using findCycle_None [of d x x] x by auto
    ultimately show "CycleExists d" by (auto simp: CycleExists_def list_ex_iff)
  qed
  then show ?thesis
    using findCycle_Some [of d s] findCycle_None [of d s] by (auto split: option.split)
qed

theorem findCycle_exact_witness:
  "findCycle \<lparr>edges = [(1, 2), (2, 3), (3, 2)]\<rparr> 1 = Some [2, 3]
    \<and> is_cycle (waits [(1, 2), (2, 3), (3, 2)]) [2, 3]"
proof -
  have e: "findCycle \<lparr>edges = [(1, 2), (2, 3), (3, 2)]\<rparr> 1 = Some [2, 3]"
    by (simp add: findCycle_def dfs.simps)
  with findCycle_exact [where d = "\<lparr>edges = [(1, 2), (2, 3), (3, 2)]\<rparr>" and s = 1] show ?thesis by simp
qed

end
