(* ===== verification/SIRead.thy ===== *)
theory SIRead
  imports Deadlock
begin

text \<open>
  The SIREAD lock manager of serializable snapshot isolation
  (\<^verbatim>\<open>internal/mvcc/siread.go\<close>): read locks per key and the two rw-anti-dependency flags of
  a transaction. The Go maps are HOL maps; the set of readers of a key is a list without
  repetition. \<open>CheckAndRecordWrite\<close> ranges over that set in an order Go does not fix, so the
  order is an argument.
\<close>

section \<open>Definitions\<close>

record txnConflictEntry =
  inConflict :: bool
  outConflict :: bool
  committed :: bool

record SIREADLockManager =
  keyReaders :: "bytes \<rightharpoonup> TxnID list"
  conflicts :: "TxnID \<rightharpoonup> txnConflictEntry"

definition NewSIREADLockManager :: SIREADLockManager where
  "NewSIREADLockManager = \<lparr>keyReaders = Map.empty, conflicts = Map.empty\<rparr>"

text \<open>
  \<open>getOrCreate\<close> returns the entry and the manager that holds it; \<open>set_entry\<close> is the write through
  the pointer that it returned.
\<close>

definition getOrCreate :: "SIREADLockManager \<Rightarrow> TxnID \<Rightarrow> txnConflictEntry \<times> SIREADLockManager" where
  "getOrCreate m i =
     (case conflicts m i of
        Some e \<Rightarrow> (e, m)
      | None \<Rightarrow> let e = \<lparr>inConflict = False, outConflict = False, committed = False\<rparr>
                in (e, m\<lparr>conflicts := (conflicts m)(i \<mapsto> e)\<rparr>))"

definition set_entry :: "SIREADLockManager \<Rightarrow> TxnID \<Rightarrow> txnConflictEntry \<Rightarrow> SIREADLockManager" where
  "set_entry m i e = m\<lparr>conflicts := (conflicts m)(i \<mapsto> e)\<rparr>"

definition AcquireRead :: "SIREADLockManager \<Rightarrow> TxnID \<Rightarrow> bytes \<Rightarrow> SIREADLockManager" where
  "AcquireRead m txnID k =
     (let readers = (case keyReaders m k of Some rs \<Rightarrow> rs | None \<Rightarrow> []);
          readers = (if txnID \<in> set readers then readers else readers @ [txnID]);
          m = m\<lparr>keyReaders := (keyReaders m)(k \<mapsto> readers)\<rparr>
      in snd (getOrCreate m txnID))"

text \<open>The readers of a key, none for an absent entry.\<close>

definition readers_of :: "SIREADLockManager \<Rightarrow> bytes \<Rightarrow> TxnID list" where
  "readers_of m k = (case keyReaders m k of Some rs \<Rightarrow> rs | None \<Rightarrow> [])"

fun recordReaders :: "SIREADLockManager \<Rightarrow> TxnID \<Rightarrow> TxnID list \<Rightarrow> error option \<times> SIREADLockManager" where
  "recordReaders m writerID [] = (None, m)"
| "recordReaders m writerID (readerID # rest) =
     (if readerID = writerID then recordReaders m writerID rest
      else
        let (re, m) = getOrCreate m readerID;
            re = re\<lparr>outConflict := True\<rparr>;
            m = set_entry m readerID re;
            (we, m) = getOrCreate m writerID;
            we = we\<lparr>inConflict := True\<rparr>;
            m = set_entry m writerID we
        in if inConflict we \<and> outConflict we then (Some ErrSerializationFailure, m)
           else if inConflict re \<and> outConflict re then (Some ErrSerializationFailure, m)
           else recordReaders m writerID rest)"

text \<open>\<open>order\<close> is the order in which the range statement visits the readers of the key.\<close>

definition CheckAndRecordWrite ::
  "SIREADLockManager \<Rightarrow> TxnID \<Rightarrow> bytes \<Rightarrow> TxnID list \<Rightarrow> error option \<times> SIREADLockManager" where
  "CheckAndRecordWrite m writerID key order =
     (if readers_of m key = [] then (None, m)
      else let (we, m) = getOrCreate m writerID in recordReaders m writerID order)"

definition CheckCommit :: "SIREADLockManager \<Rightarrow> TxnID \<Rightarrow> error option" where
  "CheckCommit m txnID =
     (case conflicts m txnID of
        None \<Rightarrow> None
      | Some e \<Rightarrow> if inConflict e \<and> outConflict e then Some ErrSerializationFailure else None)"

definition CommitTxn :: "SIREADLockManager \<Rightarrow> TxnID \<Rightarrow> SIREADLockManager" where
  "CommitTxn m txnID =
     (let (e, m) = getOrCreate m txnID in set_entry m txnID (e\<lparr>committed := True\<rparr>))"

text \<open>
  \<open>releaseLocked\<close> for every transaction that satisfies \<open>P\<close>: each is removed from every reader
  set, emptied sets are dropped, and the conflict entries go.
\<close>

definition release_all :: "SIREADLockManager \<Rightarrow> (TxnID \<Rightarrow> bool) \<Rightarrow> SIREADLockManager" where
  "release_all m P =
     m\<lparr>keyReaders := (\<lambda>k. case keyReaders m k of
                            None \<Rightarrow> None
                          | Some rs \<Rightarrow> let rs = filter (\<lambda>t. \<not> P t) rs
                                       in if rs = [] then None else Some rs),
       conflicts := (\<lambda>t. if P t then None else conflicts m t)\<rparr>"

definition Release :: "SIREADLockManager \<Rightarrow> TxnID \<Rightarrow> SIREADLockManager" where
  "Release m txnID = release_all m (\<lambda>t. t = txnID)"

definition PruneBefore :: "SIREADLockManager \<Rightarrow> TxnID \<Rightarrow> SIREADLockManager" where
  "PruneBefore m horizon =
     (if horizon = 0 then m
      else release_all m (\<lambda>t. case conflicts m t of
                                None \<Rightarrow> False
                              | Some e \<Rightarrow> committed e \<and> t < horizon))"

section \<open>Flags and readers\<close>

definition in_flag :: "SIREADLockManager \<Rightarrow> TxnID \<Rightarrow> bool" where
  "in_flag m t \<longleftrightarrow> (\<exists>e. conflicts m t = Some e \<and> inConflict e)"

definition out_flag :: "SIREADLockManager \<Rightarrow> TxnID \<Rightarrow> bool" where
  "out_flag m t \<longleftrightarrow> (\<exists>e. conflicts m t = Some e \<and> outConflict e)"

definition done_flag :: "SIREADLockManager \<Rightarrow> TxnID \<Rightarrow> bool" where
  "done_flag m t \<longleftrightarrow> (\<exists>e. conflicts m t = Some e \<and> committed e)"

lemmas flag_defs = in_flag_def out_flag_def done_flag_def

lemma getOrCreate_flags [simp]:
  "in_flag (snd (getOrCreate m i)) = in_flag m" "out_flag (snd (getOrCreate m i)) = out_flag m"
  "done_flag (snd (getOrCreate m i)) = done_flag m" "readers_of (snd (getOrCreate m i)) = readers_of m"
  by (auto simp: getOrCreate_def flag_defs readers_of_def fun_eq_iff Let_def split: option.splits)

lemma getOrCreate_entry:
  "getOrCreate m i = (e, m') \<Longrightarrow> inConflict e = in_flag m i \<and> outConflict e = out_flag m i \<and>
     committed e = done_flag m i \<and> in_flag m' = in_flag m \<and> out_flag m' = out_flag m \<and>
     done_flag m' = done_flag m \<and> readers_of m' = readers_of m"
  using getOrCreate_flags [of m i]
  by (auto simp: getOrCreate_def flag_defs Let_def split: option.splits)

lemma set_entry_flags [simp]:
  "in_flag (set_entry m i e) = (in_flag m)(i := inConflict e)"
  "out_flag (set_entry m i e) = (out_flag m)(i := outConflict e)"
  "done_flag (set_entry m i e) = (done_flag m)(i := committed e)"
  "readers_of (set_entry m i e) = readers_of m"
  by (auto simp: set_entry_def flag_defs readers_of_def fun_eq_iff)

lemma readers_AcquireRead:
  "set (readers_of (AcquireRead m t k) k') = (if k' = k then insert t (set (readers_of m k)) else set (readers_of m k'))"
  by (auto simp: AcquireRead_def Let_def) (auto simp: readers_of_def split: option.splits)

lemma flags_AcquireRead [simp]:
  "in_flag (AcquireRead m t k) = in_flag m" "out_flag (AcquireRead m t k) = out_flag m"
  "done_flag (AcquireRead m t k) = done_flag m"
  by (auto simp: AcquireRead_def Let_def) (auto simp: flag_defs fun_eq_iff)

lemma flags_CommitTxn:
  "in_flag (CommitTxn m t) = in_flag m" "out_flag (CommitTxn m t) = out_flag m"
  "done_flag (CommitTxn m t) = (done_flag m)(t := True)" "readers_of (CommitTxn m t) = readers_of m"
proof -
  obtain e m1 where g: "getOrCreate m t = (e, m1)" by fastforce
  from getOrCreate_entry [OF g] show
    "in_flag (CommitTxn m t) = in_flag m" "out_flag (CommitTxn m t) = out_flag m"
    "done_flag (CommitTxn m t) = (done_flag m)(t := True)" "readers_of (CommitTxn m t) = readers_of m"
    by (simp_all add: CommitTxn_def g fun_eq_iff)
qed

lemma flags_release_all:
  "in_flag (release_all m P) t \<longleftrightarrow> in_flag m t \<and> \<not> P t" "out_flag (release_all m P) t \<longleftrightarrow> out_flag m t \<and> \<not> P t"
  "done_flag (release_all m P) t \<longleftrightarrow> done_flag m t \<and> \<not> P t"
  "set (readers_of (release_all m P) k) = {t \<in> set (readers_of m k). \<not> P t}"
  by (auto simp: release_all_def flag_defs readers_of_def Let_def filter_empty_conv split: option.splits)

lemma CheckCommit_flags: "CheckCommit m t = (if in_flag m t \<and> out_flag m t then Some ErrSerializationFailure else None)"
  by (auto simp: CheckCommit_def flag_defs split: option.splits)

text \<open>One turn of the loop over the readers.\<close>

lemma recordReaders_step:
  assumes "r \<noteq> w"
  obtains m' where "recordReaders m w (r # rs) =
      (if out_flag m w \<or> in_flag m r then (Some ErrSerializationFailure, m') else recordReaders m' w rs)"
    and "in_flag m' = (in_flag m)(w := True)" and "out_flag m' = (out_flag m)(r := True)"
    and "done_flag m' = done_flag m" and "readers_of m' = readers_of m"
proof -
  obtain re m1 where g1: "getOrCreate m r = (re, m1)" by fastforce
  note e1 = getOrCreate_entry [OF g1]
  define m2 where "m2 = set_entry m1 r (re\<lparr>outConflict := True\<rparr>)"
  obtain we m3 where g2: "getOrCreate m2 w = (we, m3)" by fastforce
  note e2 = getOrCreate_entry [OF g2]
  define m4 where "m4 = set_entry m3 w (we\<lparr>inConflict := True\<rparr>)"
  have f2: "in_flag m2 = in_flag m" "out_flag m2 = (out_flag m)(r := True)" "done_flag m2 = done_flag m"
    "readers_of m2 = readers_of m"
    using e1 by (simp_all add: m2_def fun_eq_iff)
  have f4: "in_flag m4 = (in_flag m)(w := True)" "out_flag m4 = (out_flag m)(r := True)"
    "done_flag m4 = done_flag m" "readers_of m4 = readers_of m"
    using e2 f2 assms by (simp_all add: m4_def fun_eq_iff)
  have "outConflict we = out_flag m w" "inConflict re = in_flag m r"
    using e1 e2 f2 assms by auto
  then have "recordReaders m w (r # rs) =
      (if out_flag m w \<or> in_flag m r then (Some ErrSerializationFailure, m4) else recordReaders m4 w rs)"
    using assms g1 g2 by (simp add: m2_def m4_def Let_def)
  then show thesis using f4 by (rule that)
qed

lemma recordReaders_spec:
  "\<exists>m'. recordReaders m w rs = (if (\<exists>r \<in> set rs. r \<noteq> w \<and> (out_flag m w \<or> in_flag m r))
        then Some ErrSerializationFailure else None, m') \<and>
     (\<forall>t. in_flag m t \<longrightarrow> in_flag m' t) \<and> (\<forall>t. out_flag m t \<longrightarrow> out_flag m' t) \<and>
     done_flag m' = done_flag m \<and> readers_of m' = readers_of m \<and>
     ((\<forall>r \<in> set rs. r \<noteq> w \<longrightarrow> \<not> out_flag m w \<and> \<not> in_flag m r) \<longrightarrow>
       (\<forall>r \<in> set rs. r \<noteq> w \<longrightarrow> out_flag m' r \<and> in_flag m' w))"
proof (induction rs arbitrary: m)
  case (Cons r rs)
  show ?case
  proof (cases "r = w")
    case True
    then show ?thesis using Cons.IH [of m] by auto
  next
    case False
    obtain m1 where st: "recordReaders m w (r # rs) =
      (if out_flag m w \<or> in_flag m r then (Some ErrSerializationFailure, m1) else recordReaders m1 w rs)"
      and f: "in_flag m1 = (in_flag m)(w := True)" "out_flag m1 = (out_flag m)(r := True)"
      "done_flag m1 = done_flag m" "readers_of m1 = readers_of m"
      by (rule recordReaders_step [OF False])
    show ?thesis
    proof (cases "out_flag m w \<or> in_flag m r")
      case True
      with st f False show ?thesis by auto
    next
      case ok: False
      have eq: "(\<exists>r' \<in> set rs. r' \<noteq> w \<and> (out_flag m1 w \<or> in_flag m1 r')) \<longleftrightarrow>
          (\<exists>r' \<in> set (r # rs). r' \<noteq> w \<and> (out_flag m w \<or> in_flag m r'))"
        using f False ok by auto
      have eq2: "(\<forall>r' \<in> set rs. r' \<noteq> w \<longrightarrow> \<not> out_flag m1 w \<and> \<not> in_flag m1 r') \<longleftrightarrow>
          (\<forall>r' \<in> set (r # rs). r' \<noteq> w \<longrightarrow> \<not> out_flag m w \<and> \<not> in_flag m r')"
        using eq by blast
      obtain m' where m': "recordReaders m1 w rs = (if (\<exists>r \<in> set rs. r \<noteq> w \<and> (out_flag m1 w \<or> in_flag m1 r))
          then Some ErrSerializationFailure else None, m')"
        "\<forall>t. in_flag m1 t \<longrightarrow> in_flag m' t" "\<forall>t. out_flag m1 t \<longrightarrow> out_flag m' t"
        "done_flag m' = done_flag m1" "readers_of m' = readers_of m1"
        "(\<forall>r \<in> set rs. r \<noteq> w \<longrightarrow> \<not> out_flag m1 w \<and> \<not> in_flag m1 r) \<longrightarrow>
           (\<forall>r \<in> set rs. r \<noteq> w \<longrightarrow> out_flag m' r \<and> in_flag m' w)"
        using Cons.IH [of m1] by blast
      have "out_flag m' r" "in_flag m' w" using m'(2,3) f by auto
      with st ok m' f show ?thesis unfolding eq eq2 by (intro exI [of _ m']) auto
    qed
  qed
qed simp

lemma CheckAndRecordWrite_spec:
  assumes "set order = set (readers_of m k)"
  shows "\<exists>m'. CheckAndRecordWrite m w k order =
      (if (\<exists>r \<in> set (readers_of m k). r \<noteq> w \<and> (out_flag m w \<or> in_flag m r))
       then Some ErrSerializationFailure else None, m') \<and>
    (\<forall>t. in_flag m t \<longrightarrow> in_flag m' t) \<and> (\<forall>t. out_flag m t \<longrightarrow> out_flag m' t) \<and>
    done_flag m' = done_flag m \<and> readers_of m' = readers_of m \<and>
    (fst (CheckAndRecordWrite m w k order) = None \<longrightarrow>
      (\<forall>r \<in> set (readers_of m k). r \<noteq> w \<longrightarrow> out_flag m' r \<and> in_flag m' w))"
proof (cases "readers_of m k = []")
  case True
  then show ?thesis by (simp add: CheckAndRecordWrite_def)
next
  case False
  obtain we m1 where g: "getOrCreate m w = (we, m1)" by fastforce
  note f = getOrCreate_entry [OF g]
  have e: "CheckAndRecordWrite m w k order = recordReaders m1 w order"
    using False g by (simp add: CheckAndRecordWrite_def)
  from recordReaders_spec [of m1 w order] show ?thesis
    unfolding e using f assms by (auto split: if_splits)
qed

section \<open>Histories\<close>

text \<open>
  A history of serializable transactions over one manager, with the rw-anti-dependencies
  \<open>(r, w)\<close> that occurred as a ghost set: \<open>r\<close> read a key that \<open>w\<close> wrote later. A transaction is
  unused, active, committed, or gone. A failed write or commit check aborts its transaction, as
  the engine does.
\<close>

record ssi =
  mgr :: SIREADLockManager
  act :: "TxnID set"
  com :: "TxnID set"
  gone :: "TxnID set"
  rw :: "(TxnID \<times> TxnID) set"

inductive ssi_step :: "ssi \<Rightarrow> ssi \<Rightarrow> bool" where
  ssi_begin: "t \<notin> act s \<union> com s \<union> gone s \<Longrightarrow> ssi_step s (s\<lparr>act := insert t (act s)\<rparr>)"
| ssi_read: "t \<in> act s \<Longrightarrow> ssi_step s (s\<lparr>mgr := AcquireRead (mgr s) t k\<rparr>)"
| ssi_write: "t \<in> act s \<Longrightarrow> set order = set (readers_of (mgr s) k) \<Longrightarrow>
    CheckAndRecordWrite (mgr s) t k order = (None, m) \<Longrightarrow>
    ssi_step s (s\<lparr>mgr := m, rw := rw s \<union> {(r, t) |r. r \<in> set (readers_of (mgr s) k) \<and> r \<noteq> t}\<rparr>)"
| ssi_write_fail: "t \<in> act s \<Longrightarrow> set order = set (readers_of (mgr s) k) \<Longrightarrow>
    CheckAndRecordWrite (mgr s) t k order = (Some e, m) \<Longrightarrow>
    ssi_step s (s\<lparr>mgr := Release m t, act := act s - {t}, gone := insert t (gone s)\<rparr>)"
| ssi_commit: "t \<in> act s \<Longrightarrow> CheckCommit (mgr s) t = None \<Longrightarrow>
    ssi_step s (s\<lparr>mgr := CommitTxn (mgr s) t, act := act s - {t}, com := insert t (com s)\<rparr>)"
| ssi_abort: "t \<in> act s \<Longrightarrow>
    ssi_step s (s\<lparr>mgr := Release (mgr s) t, act := act s - {t}, gone := insert t (gone s)\<rparr>)"
| ssi_prune: "ssi_step s (s\<lparr>mgr := PruneBefore (mgr s) h\<rparr>)"

definition ssi_init :: ssi where
  "ssi_init = \<lparr>mgr = NewSIREADLockManager, act = {}, com = {}, gone = {}, rw = {}\<rparr>"

definition pivot :: "(TxnID \<times> TxnID) set \<Rightarrow> TxnID \<Rightarrow> bool" where
  "pivot E t \<longleftrightarrow> (\<exists>a b. (a, t) \<in> E \<and> (t, b) \<in> E)"

definition ssi_ok :: "SIREADLockManager \<Rightarrow> TxnID set \<Rightarrow> TxnID set \<Rightarrow> TxnID set \<Rightarrow> (TxnID \<times> TxnID) set \<Rightarrow> bool" where
  "ssi_ok m A C G E \<longleftrightarrow>
     (\<forall>t \<in> A. t \<notin> C \<and> t \<notin> G) \<and> (\<forall>t. done_flag m t \<longrightarrow> t \<in> C) \<and>
     (\<forall>k. \<forall>t \<in> set (readers_of m k). t \<in> A \<or> t \<in> C) \<and>
     (\<forall>a b. (a, b) \<in> E \<longrightarrow> {a, b} \<subseteq> A \<union> C \<union> G) \<and>
     (\<forall>t \<in> A. \<forall>b. (t, b) \<in> E \<longrightarrow> out_flag m t) \<and>
     (\<forall>t \<in> A. \<forall>a. (a, t) \<in> E \<longrightarrow> in_flag m t) \<and>
     (\<forall>t \<in> C. \<forall>k. t \<in> set (readers_of m k) \<longrightarrow> (\<forall>a. (a, t) \<in> E \<longrightarrow> in_flag m t)) \<and>
     (\<forall>t \<in> C. \<not> pivot E t)"

definition ssi_inv :: "ssi \<Rightarrow> bool" where
  "ssi_inv s \<longleftrightarrow> ssi_ok (mgr s) (act s) (com s) (gone s) (rw s)"

lemma ssi_okD:
  assumes "ssi_ok m A C G E"
  shows "t \<in> A \<Longrightarrow> t \<notin> C" and "t \<in> A \<Longrightarrow> t \<notin> G"
    and "done_flag m t \<Longrightarrow> t \<in> C" and "t \<in> set (readers_of m k) \<Longrightarrow> t \<in> A \<or> t \<in> C"
    and "(a, b) \<in> E \<Longrightarrow> {a, b} \<subseteq> A \<union> C \<union> G"
    and "t \<in> A \<Longrightarrow> (t, b) \<in> E \<Longrightarrow> out_flag m t"
    and "t \<in> A \<Longrightarrow> (a, t) \<in> E \<Longrightarrow> in_flag m t"
    and "t \<in> C \<Longrightarrow> t \<in> set (readers_of m k) \<Longrightarrow> (a, t) \<in> E \<Longrightarrow> in_flag m t"
    and "t \<in> C \<Longrightarrow> \<not> pivot E t"
  using assms unfolding ssi_ok_def by blast+

lemma ssi_okI:
  assumes "\<And>t. t \<in> A \<Longrightarrow> t \<notin> C" and "\<And>t. t \<in> A \<Longrightarrow> t \<notin> G"
    and "\<And>t. done_flag m t \<Longrightarrow> t \<in> C" and "\<And>t k. t \<in> set (readers_of m k) \<Longrightarrow> t \<in> A \<or> t \<in> C"
    and "\<And>a b. (a, b) \<in> E \<Longrightarrow> {a, b} \<subseteq> A \<union> C \<union> G"
    and "\<And>t b. t \<in> A \<Longrightarrow> (t, b) \<in> E \<Longrightarrow> out_flag m t"
    and "\<And>t a. t \<in> A \<Longrightarrow> (a, t) \<in> E \<Longrightarrow> in_flag m t"
    and "\<And>t k a. t \<in> C \<Longrightarrow> t \<in> set (readers_of m k) \<Longrightarrow> (a, t) \<in> E \<Longrightarrow> in_flag m t"
    and "\<And>t. t \<in> C \<Longrightarrow> \<not> pivot E t"
  shows "ssi_ok m A C G E"
  unfolding ssi_ok_def using assms by (intro conjI ballI allI impI)

lemma ssi_ok_write:
  assumes inv: "ssi_ok m A C G E" and t: "t \<in> A" and o: "set order = set (readers_of m k)"
    and ok: "CheckAndRecordWrite m t k order = (None, m')"
  shows "ssi_ok m' A C G (E \<union> {(r, t) |r. r \<in> set (readers_of m k) \<and> r \<noteq> t})"
proof -
  note D = ssi_okD [OF inv]
  from CheckAndRecordWrite_spec [OF o, of t] ok
  have f: "\<And>x. in_flag m x \<Longrightarrow> in_flag m' x" "\<And>x. out_flag m x \<Longrightarrow> out_flag m' x"
      "done_flag m' = done_flag m" "readers_of m' = readers_of m"
    and set_flags: "\<And>r. r \<in> set (readers_of m k) \<Longrightarrow> r \<noteq> t \<Longrightarrow> out_flag m' r \<and> in_flag m' t"
    and no: "\<And>r. r \<in> set (readers_of m k) \<Longrightarrow> r \<noteq> t \<Longrightarrow> \<not> in_flag m r"
    by (auto split: if_splits)
  let ?E = "E \<union> {(r, t) |r. r \<in> set (readers_of m k) \<and> r \<noteq> t}"
  have into: "(a, x) \<in> E" if "(a, x) \<in> ?E" "x \<noteq> t" for a x using that by auto
  show ?thesis
  proof (rule ssi_okI, unfold f(3,4))
    show "\<not> pivot ?E x" if x: "x \<in> C" for x
    proof
      assume "pivot ?E x"
      then obtain a b where ab: "(a, x) \<in> ?E" "(x, b) \<in> ?E" by (auto simp: pivot_def)
      have xt: "x \<noteq> t" using x t D(1) by blast
      then have ax: "(a, x) \<in> E" using ab(1) into by blast
      show False
      proof (cases "(x, b) \<in> E")
        case True
        with ax x D(9) show False by (auto simp: pivot_def)
      next
        case False
        then have xr: "x \<in> set (readers_of m k)" using ab(2) by auto
        with no [OF xr xt] D(8) [OF x xr ax] show False by simp
      qed
    qed
    show "in_flag m' x" if "x \<in> C" "x \<in> set (readers_of m k')" "(a, x) \<in> ?E" for x k' a
      using that D(1) [OF t] D(8) [of x k' a] f(1) [of x] into [of a x] by auto
    show "out_flag m' x" if "x \<in> A" "(x, b) \<in> ?E" for x b using that D(6) [of x b] f(2) [of x] set_flags [of x] by auto
    show "in_flag m' x" if "x \<in> A" "(a, x) \<in> ?E" for x a using that D(7) [of x a] f(1) [of x] set_flags [of a] by auto
    show "{a, b} \<subseteq> A \<union> C \<union> G" if "(a, b) \<in> ?E" for a b
      using that D(4) [of a k] D(5) [of a b] t by auto
  qed (fact D(1) D(2) D(3) D(4))+
qed

lemma ssi_ok_release:
  assumes inv: "ssi_ok m A C G E" and t: "t \<in> A"
    and m: "\<And>x. in_flag m x \<Longrightarrow> in_flag m' x" "\<And>x. out_flag m x \<Longrightarrow> out_flag m' x"
      "done_flag m' = done_flag m" "readers_of m' = readers_of m"
  shows "ssi_ok (Release m' t) (A - {t}) C (insert t G) E"
  unfolding Release_def
proof (rule ssi_okI, unfold flags_release_all m(3,4))
  show "{a, b} \<subseteq> A - {t} \<union> C \<union> insert t G" if "(a, b) \<in> E" for a b using ssi_okD(5) [OF inv that] by blast
qed (auto dest: ssi_okD [OF inv] m(1,2) simp: t)

lemma ssi_ok_prune:
  assumes inv: "ssi_ok m A C G E"
  shows "ssi_ok (PruneBefore m h) A C G E"
proof (cases "h = 0")
  case True
  then show ?thesis using inv by (simp add: PruneBefore_def)
next
  case False
  define P where "P = (\<lambda>x. case conflicts m x of None \<Rightarrow> False | Some e \<Rightarrow> committed e \<and> x < h)"
  have P: "P x \<Longrightarrow> x \<in> C" for x
    using ssi_okD(3) [OF inv, of x] by (auto simp: P_def flag_defs split: option.splits)
  have e: "PruneBefore m h = release_all m P" using False by (simp add: PruneBefore_def P_def)
  show ?thesis
    unfolding e by (rule ssi_okI, unfold flags_release_all) (auto dest: ssi_okD [OF inv] P)
qed

lemma ssi_ok_commit:
  assumes inv: "ssi_ok m A C G E" and t: "t \<in> A" and ok: "CheckCommit m t = None"
  shows "ssi_ok (CommitTxn m t) (A - {t}) (insert t C) G E"
proof -
  note D = ssi_okD [OF inv]
  have "\<not> (in_flag m t \<and> out_flag m t)" using ok by (auto simp: CheckCommit_flags split: if_splits)
  then have p: "\<not> pivot E t" using D(6,7) [OF t] unfolding pivot_def by blast
  show ?thesis
    by (rule ssi_okI, unfold flags_CommitTxn) (auto dest: D simp: t p split: if_splits)
qed

lemma ssi_inv_step: "ssi_step s s' \<Longrightarrow> ssi_inv s \<Longrightarrow> ssi_inv s'"
proof (induction rule: ssi_step.induct)
  case (ssi_begin t s)
  then have inv: "ssi_ok (mgr s) (act s) (com s) (gone s) (rw s)" by (simp add: ssi_inv_def)
  note D = ssi_okD [OF inv]
  from ssi_begin(1) D(5) have "(t, b) \<notin> rw s" "(b, t) \<notin> rw s" for b by blast+
  then have "ssi_ok (mgr s) (insert t (act s)) (com s) (gone s) (rw s)"
    by (intro ssi_okI) (use ssi_begin(1) in \<open>auto dest: D\<close>)
  then show ?case by (simp add: ssi_inv_def)
next
  case (ssi_read t s k)
  then have inv: "ssi_ok (mgr s) (act s) (com s) (gone s) (rw s)" by (simp add: ssi_inv_def)
  note D = ssi_okD [OF inv]
  have r: "x \<in> set (readers_of (AcquireRead (mgr s) t k) k') \<Longrightarrow> x \<in> set (readers_of (mgr s) k') \<or> x = t" for x k'
    by (auto simp: readers_AcquireRead split: if_splits)
  have "ssi_ok (AcquireRead (mgr s) t k) (act s) (com s) (gone s) (rw s)"
    by (rule ssi_okI, unfold flags_AcquireRead) (use ssi_read(1) in \<open>auto dest: D r\<close>)
  then show ?case by (simp add: ssi_inv_def)
next
  case (ssi_write t s order k m)
  then show ?case by (simp add: ssi_inv_def ssi_ok_write)
next
  case (ssi_write_fail t s order k e m)
  from CheckAndRecordWrite_spec [OF ssi_write_fail(2), of t] ssi_write_fail(1,3,4)
  have "ssi_ok (Release m t) (act s - {t}) (com s) (insert t (gone s)) (rw s)"
    by (intro ssi_ok_release [of "mgr s"]) (auto simp: ssi_inv_def)
  then show ?case by (simp add: ssi_inv_def)
next
  case (ssi_commit t s)
  then show ?case by (simp add: ssi_inv_def ssi_ok_commit)
next
  case (ssi_abort t s)
  then show ?case by (simp add: ssi_inv_def ssi_ok_release)
next
  case (ssi_prune s h)
  then show ?case by (simp add: ssi_inv_def ssi_ok_prune)
qed

lemma ssi_inv_init: "ssi_inv ssi_init"
  by (simp add: ssi_inv_def ssi_init_def NewSIREADLockManager_def ssi_ok_def flag_defs readers_of_def)



end
