(* ===== verification/Transaction.thy ===== *)
theory Transaction
  imports Tuple SIRead
begin

text \<open>
  Snapshots and the transaction manager (\<^verbatim>\<open>internal/mvcc/snapshot.go\<close> and
  \<^verbatim>\<open>internal/mvcc/transaction.go\<close>). Every method of the manager holds \<open>tm.mu\<close> for its
  accesses to the tables, so it is one step; \<open>Begin\<close> is two, because it takes its id from the
  atomic counter before it locks. The map of active transactions is an association list (its
  order is the iteration order), the status table a map. Wall-clock times and the event bus are
  left out.
\<close>

section \<open>Definitions\<close>

definition InvalidTxnID :: TxnID where "InvalidTxnID = 0"

datatype TxnStatus = TxnActive | TxnCommitted | TxnAborted

datatype IsolationLevel = ReadCommitted | SnapshotIsolation | Serializable

datatype UndoOpType = UndoInsert | UndoDelete

record UndoRecord =
  urPageID :: u32
  urSlotIdx :: nat
  urOldData :: bytes
  urOldXmax :: u64
  urOp :: UndoOpType
  urWALSN :: u64

record SavepointEntry =
  spName :: string
  spUndoLogMark :: nat
  spLastLSN :: u64

record Snapshot =
  XminSnapshot :: TxnID
  XmaxSnapshot :: TxnID
  XipList :: "TxnID list"
  CreatorTxnID :: TxnID

record Transaction =
  txID :: TxnID
  txStatus :: TxnStatus
  txIsoLevel :: IsolationLevel
  txSnapshot :: Snapshot
  txLastLSN :: u64
  txUndoLog :: "UndoRecord list"
  txSavepoints :: "SavepointEntry list"

record ActiveTxnInfo =
  atStatus :: TxnStatus
  atLastLSN :: u64

record TransactionManager =
  nextTxnID :: u64
  recoveredCommittedFloor :: u64
  statusTable :: "TxnID \<rightharpoonup> TxnStatus"
  activeTxns :: "(TxnID \<times> Transaction) list"
  SIREADMgr :: SIREADLockManager
  tmDeadlock :: DeadlockDetector

subsection \<open>Snapshots\<close>

text \<open>
  \<open>IsVisible\<close>; of the manager it uses \<open>GetStatus\<close> only, which is the argument \<open>status\<close>. The
  \<open>goto checkXmax\<close> is the shared second half.
\<close>

definition checkXmax :: "Snapshot \<Rightarrow> MVCCTuple \<Rightarrow> (TxnID \<Rightarrow> TxnStatus) \<Rightarrow> bool" where
  "checkXmax snap t status =
     (if Xmax t = 0 then True
      else if Xmax t = CreatorTxnID snap then False
      else if status (Xmax t) = TxnAborted then True
      else if Xmax t \<ge> XmaxSnapshot snap then True
      else if list_ex (\<lambda>xid. Xmax t = xid) (XipList snap) then True
      else False)"

definition IsVisible :: "Snapshot \<Rightarrow> MVCCTuple \<Rightarrow> (TxnID \<Rightarrow> TxnStatus) \<Rightarrow> bool" where
  "IsVisible snap t status =
     (if Xmin t = CreatorTxnID snap then checkXmax snap t status
      else if status (Xmin t) \<noteq> TxnCommitted then False
      else if Xmin t \<ge> XmaxSnapshot snap then False
      else if list_ex (\<lambda>xid. Xmin t = xid) (XipList snap) then False
      else checkXmax snap t status)"

subsection \<open>The manager\<close>

definition NewTransactionManager :: TransactionManager where
  "NewTransactionManager = \<lparr>nextTxnID = 1, recoveredCommittedFloor = 0, statusTable = Map.empty,
     activeTxns = [], SIREADMgr = NewSIREADLockManager, tmDeadlock = NewDeadlockDetector\<rparr>"

text \<open>The least id of a list with the zero value as \<open>unset\<close>, as the two loops compute it.\<close>

definition least_id :: "TxnID list \<Rightarrow> TxnID" where
  "least_id ids = foldl (\<lambda>oldest i. if oldest = 0 \<or> i < oldest then i else oldest) 0 ids"

definition takeSnapshotLocked :: "TransactionManager \<Rightarrow> TxnID \<Rightarrow> Snapshot" where
  "takeSnapshotLocked tm creator =
     (let xip = filter (\<lambda>i. i \<noteq> creator) (map fst (activeTxns tm));
          xmin = least_id xip;
          xmax = nextTxnID tm
      in \<lparr>XminSnapshot = xmin, XmaxSnapshot = xmax, XipList = xip, CreatorTxnID = creator\<rparr>)"

definition TakeSnapshot :: "TransactionManager \<Rightarrow> TxnID \<Rightarrow> Snapshot" where
  "TakeSnapshot tm creator = takeSnapshotLocked tm creator"

definition allocTxnID :: "TransactionManager \<Rightarrow> TxnID \<times> TransactionManager" where
  "allocTxnID tm = (nextTxnID tm, tm\<lparr>nextTxnID := nextTxnID tm + 1\<rparr>)"

definition emptySnapshot :: Snapshot where
  "emptySnapshot = \<lparr>XminSnapshot = 0, XmaxSnapshot = 0, XipList = [], CreatorTxnID = 0\<rparr>"

definition registerTxn :: "TransactionManager \<Rightarrow> TxnID \<Rightarrow> IsolationLevel \<Rightarrow> Transaction \<times> TransactionManager" where
  "registerTxn tm i isoLevel =
     (let txn = \<lparr>txID = i, txStatus = TxnActive, txIsoLevel = isoLevel, txSnapshot = emptySnapshot,
                  txLastLSN = 0, txUndoLog = [], txSavepoints = []\<rparr>;
          tm = tm\<lparr>activeTxns := AList.update i txn (activeTxns tm)\<rparr>;
          txn = txn\<lparr>txSnapshot := takeSnapshotLocked tm i\<rparr>
      in (txn, tm\<lparr>activeTxns := AList.update i txn (activeTxns tm)\<rparr>))"

definition Begin :: "TransactionManager \<Rightarrow> IsolationLevel \<Rightarrow> Transaction \<times> TransactionManager" where
  "Begin tm isoLevel = (let (i, tm) = allocTxnID tm in registerTxn tm i isoLevel)"

definition Commit :: "TransactionManager \<Rightarrow> Transaction \<Rightarrow> Transaction \<times> TransactionManager" where
  "Commit tm txn =
     (let txn = txn\<lparr>txStatus := TxnCommitted\<rparr>;
          tm = tm\<lparr>statusTable := (statusTable tm)(txID txn \<mapsto> TxnCommitted),
                  activeTxns := AList.delete (txID txn) (activeTxns tm)\<rparr>
      in (txn, if txIsoLevel txn = Serializable
               then tm\<lparr>SIREADMgr := CommitTxn (SIREADMgr tm) (txID txn)\<rparr> else tm))"

definition Abort :: "TransactionManager \<Rightarrow> Transaction \<Rightarrow> Transaction \<times> TransactionManager" where
  "Abort tm txn =
     (let txn = txn\<lparr>txStatus := TxnAborted\<rparr>;
          tm = tm\<lparr>statusTable := (statusTable tm)(txID txn \<mapsto> TxnAborted),
                  activeTxns := AList.delete (txID txn) (activeTxns tm)\<rparr>
      in (txn, if txIsoLevel txn = Serializable
               then tm\<lparr>SIREADMgr := Release (SIREADMgr tm) (txID txn)\<rparr> else tm))"

definition GetStatus :: "TransactionManager \<Rightarrow> TxnID \<Rightarrow> TxnStatus" where
  "GetStatus tm i =
     (case map_of (activeTxns tm) i of
        Some txn \<Rightarrow> txStatus txn
      | None \<Rightarrow>
          (case statusTable tm i of
             Some status \<Rightarrow> status
           | None \<Rightarrow>
               if i \<noteq> 0 \<and> recoveredCommittedFloor tm \<noteq> 0 \<and> i < recoveredCommittedFloor tm
               then TxnCommitted else TxnAborted))"

definition OldestActiveTxn :: "TransactionManager \<Rightarrow> TxnID" where
  "OldestActiveTxn tm = least_id (map fst (activeTxns tm))"

definition NextTxnID :: "TransactionManager \<Rightarrow> TxnID" where
  "NextTxnID tm = nextTxnID tm"

text \<open>The compare-and-swap loop, without interference.\<close>

definition AdvanceNextTxnID :: "TransactionManager \<Rightarrow> u64 \<Rightarrow> TransactionManager" where
  "AdvanceNextTxnID tm minID =
     (let current = nextTxnID tm in if current \<ge> minID then tm else tm\<lparr>nextTxnID := minID\<rparr>)"

definition RestoreStatus :: "TransactionManager \<Rightarrow> TxnID \<Rightarrow> TxnStatus \<Rightarrow> TransactionManager" where
  "RestoreStatus tm i status = tm\<lparr>statusTable := (statusTable tm)(i \<mapsto> status)\<rparr>"

definition SetRecoveredCommittedFloor :: "TransactionManager \<Rightarrow> TxnID \<Rightarrow> TransactionManager" where
  "SetRecoveredCommittedFloor tm floor = tm\<lparr>recoveredCommittedFloor := floor\<rparr>"

definition WaitFor :: "TransactionManager \<Rightarrow> TxnID \<Rightarrow> TxnID \<Rightarrow> (TxnID \<times> error option) \<times> TransactionManager" where
  "WaitFor tm waiterID holderID =
     (let (r, d) = AddWait (tmDeadlock tm) waiterID holderID in (r, tm\<lparr>tmDeadlock := d\<rparr>))"

definition ReleaseWait :: "TransactionManager \<Rightarrow> TxnID \<Rightarrow> TransactionManager" where
  "ReleaseWait tm waiterID = tm\<lparr>tmDeadlock := RemoveWait (tmDeadlock tm) waiterID\<rparr>"

definition PruneStatusesBefore :: "TransactionManager \<Rightarrow> TxnID \<Rightarrow> TransactionManager" where
  "PruneStatusesBefore tm horizon =
     (if horizon = 0 then tm
      else tm\<lparr>statusTable := (\<lambda>i. if i < horizon then None else statusTable tm i),
              SIREADMgr := PruneBefore (SIREADMgr tm) horizon\<rparr>)"

definition ActiveCount :: "TransactionManager \<Rightarrow> nat" where
  "ActiveCount tm = length (activeTxns tm)"

definition ActiveTxnSnapshot :: "TransactionManager \<Rightarrow> (TxnID \<times> ActiveTxnInfo) list" where
  "ActiveTxnSnapshot tm =
     map (\<lambda>(i, txn). (i, \<lparr>atStatus = txStatus txn, atLastLSN = txLastLSN txn\<rparr>)) (activeTxns tm)"

section \<open>The interface between snapshots and statuses\<close>

text \<open>
  What visibility needs of a status table that changes: a transaction below the snapshot's bound
  that is not active has a final status, final statuses stay, and nobody beyond the bound is
  committed. Under these laws a snapshot sees the transactions that had committed when it was
  taken, and its creator's own writes.
\<close>

definition visible_spec :: "(TxnID \<Rightarrow> bool) \<Rightarrow> TxnID \<Rightarrow> MVCCTuple \<Rightarrow> bool" where
  "visible_spec done creator t \<longleftrightarrow>
     (Xmin t = creator \<or> done (Xmin t)) \<and> \<not> (Xmax t \<noteq> 0 \<and> (Xmax t = creator \<or> done (Xmax t)))"

locale status_oracle =
  fixes status :: "'s \<Rightarrow> TxnID \<Rightarrow> TxnStatus"
    and running :: "'s \<Rightarrow> TxnID set"
    and bound :: "'s \<Rightarrow> TxnID"
    and ok :: "'s \<Rightarrow> bool"
    and snapshot :: "'s \<Rightarrow> TxnID \<Rightarrow> Snapshot"
    and step :: "'s \<Rightarrow> 's \<Rightarrow> bool"
  assumes running_status: "ok s \<Longrightarrow> status s x = TxnActive \<longleftrightarrow> x \<in> running s"
    and beyond: "ok s \<Longrightarrow> bound s \<le> x \<Longrightarrow> status s x \<noteq> TxnCommitted"
    and snap_sel: "set (XipList (snapshot s c)) = running s - {c}" "XmaxSnapshot (snapshot s c) = bound s"
      "CreatorTxnID (snapshot s c) = c"
    and step_ok: "ok s \<Longrightarrow> step s s' \<Longrightarrow> ok s'"
    and step_bound: "ok s \<Longrightarrow> step s s' \<Longrightarrow> bound s \<le> bound s'"
    and step_final: "ok s \<Longrightarrow> step s s' \<Longrightarrow> x < bound s \<Longrightarrow> x \<notin> running s \<Longrightarrow> status s' x = status s x"
begin

lemma steps_final:
  assumes "step\<^sup>*\<^sup>* s s'" and "ok s"
  shows "ok s' \<and> bound s \<le> bound s' \<and>
    (\<forall>x. x < bound s \<longrightarrow> x \<notin> running s \<longrightarrow> status s' x = status s x \<and> x \<notin> running s')"
  using assms
proof (induction rule: rtranclp_induct)
  case (step s1 s2)
  have o1: "ok s1" and b1: "bound s \<le> bound s1"
    and f1: "\<And>x. x < bound s \<Longrightarrow> x \<notin> running s \<Longrightarrow> status s1 x = status s x \<and> x \<notin> running s1"
    using step by auto
  have o2: "ok s2" and b2: "bound s1 \<le> bound s2" using step_ok step_bound o1 step.hyps(2) by blast+
  have "status s2 x = status s x \<and> x \<notin> running s2" if "x < bound s" "x \<notin> running s" for x
  proof -
    have "status s2 x = status s1 x" using step_final [OF o1 step.hyps(2)] f1 [OF that] that(1) b1 by auto
    with f1 [OF that] running_status [OF o1, of x] running_status [OF o2, of x] show ?thesis by auto
  qed
  with o2 b1 b2 show ?case by auto
qed simp

lemma snapshot_exact:
  assumes "ok s" and "step\<^sup>*\<^sup>* s s'"
  shows "IsVisible (snapshot s c) t (status s') \<longleftrightarrow> visible_spec (\<lambda>x. status s x = TxnCommitted) c t"
proof -
  note F = steps_final [OF assms(2,1)]
  have seen: "(status s' x = TxnCommitted \<and> \<not> bound s \<le> x \<and> x \<notin> running s - {c}) \<longleftrightarrow> status s x = TxnCommitted"
    and del: "(status s' x \<noteq> TxnAborted \<and> \<not> bound s \<le> x \<and> x \<notin> running s - {c}) \<longleftrightarrow> status s x = TxnCommitted"
    if "x \<noteq> c" for x
  proof -
    have "status s x = TxnCommitted \<Longrightarrow> x < bound s \<and> x \<notin> running s"
      using beyond [OF assms(1), of x] running_status [OF assms(1), of x] by force
    moreover have "x < bound s \<Longrightarrow> x \<notin> running s \<Longrightarrow> status s' x = status s x \<and> status s x \<noteq> TxnActive"
      using F running_status [OF assms(1), of x] by auto
    ultimately show
      "(status s' x = TxnCommitted \<and> \<not> bound s \<le> x \<and> x \<notin> running s - {c}) \<longleftrightarrow> status s x = TxnCommitted"
      "(status s' x \<noteq> TxnAborted \<and> \<not> bound s \<le> x \<and> x \<notin> running s - {c}) \<longleftrightarrow> status s x = TxnCommitted"
      using that by (cases "status s x"; force)+
  qed
  have ex: "list_ex (\<lambda>xid. y = xid) l \<longleftrightarrow> y \<in> set l" for y :: TxnID and l by (auto simp: list_ex_iff)
  have chk: "checkXmax (snapshot s c) t (status s') \<longleftrightarrow>
      \<not> (Xmax t \<noteq> 0 \<and> (Xmax t = c \<or> status s (Xmax t) = TxnCommitted))"
    using del [of "Xmax t"] by (auto simp: checkXmax_def snap_sel ex)
  show ?thesis
    unfolding IsVisible_def chk snap_sel ex visible_spec_def
    using seen [of "Xmin t"] by auto
qed

end

section \<open>Histories of the transaction manager\<close>

text \<open>
  The steps of the manager after start-up: beginning a transaction, finishing one that is active,
  updates of an active transaction by its owner, the lock tables, and raising the id counter.
\<close>

inductive tm_step :: "TransactionManager \<Rightarrow> TransactionManager \<Rightarrow> bool" where
  tm_begin: "nextTxnID tm \<noteq> - 1 \<Longrightarrow> tm_step tm (snd (Begin tm isoLevel))"
| tm_commit: "map_of (activeTxns tm) i = Some txn \<Longrightarrow> tm_step tm (snd (Commit tm txn))"
| tm_abort: "map_of (activeTxns tm) i = Some txn \<Longrightarrow> tm_step tm (snd (Abort tm txn))"
| tm_update: "map_of (activeTxns tm) i = Some txn \<Longrightarrow> txID txn' = i \<Longrightarrow> txStatus txn' = TxnActive \<Longrightarrow>
    tm_step tm (tm\<lparr>activeTxns := AList.update i txn' (activeTxns tm)\<rparr>)"
| tm_locks: "tm_step tm (tm\<lparr>SIREADMgr := m, tmDeadlock := d\<rparr>)"
| tm_advance: "tm_step tm (AdvanceNextTxnID tm minID)"

definition tm_ok :: "TransactionManager \<Rightarrow> bool" where
  "tm_ok tm \<longleftrightarrow> nextTxnID tm \<noteq> 0 \<and> recoveredCommittedFloor tm \<le> nextTxnID tm \<and>
     (\<forall>i txn. map_of (activeTxns tm) i = Some txn \<longrightarrow>
        txID txn = i \<and> txStatus txn = TxnActive \<and> 0 < i \<and> i < nextTxnID tm \<and> statusTable tm i = None) \<and>
     (\<forall>i st. statusTable tm i = Some st \<longrightarrow> st \<noteq> TxnActive \<and> i < nextTxnID tm)"

definition running_ids :: "TransactionManager \<Rightarrow> TxnID set" where
  "running_ids tm = dom (map_of (activeTxns tm))"

lemma tm_ok_New: "tm_ok NewTransactionManager"
  by (simp add: tm_ok_def NewTransactionManager_def)

lemma tm_okD:
  assumes "tm_ok tm"
  shows "map_of (activeTxns tm) i = Some txn \<Longrightarrow>
      txID txn = i \<and> txStatus txn = TxnActive \<and> 0 < i \<and> i < nextTxnID tm \<and> statusTable tm i = None"
    and "statusTable tm i = Some st \<Longrightarrow> st \<noteq> TxnActive \<and> i < nextTxnID tm"
  using assms unfolding tm_ok_def by blast+

lemma Begin_sel:
  "nextTxnID (snd (Begin tm lvl)) = nextTxnID tm + 1"
  "statusTable (snd (Begin tm lvl)) = statusTable tm"
  "recoveredCommittedFloor (snd (Begin tm lvl)) = recoveredCommittedFloor tm"
  "map_of (activeTxns (snd (Begin tm lvl))) = (map_of (activeTxns tm))(nextTxnID tm \<mapsto> fst (Begin tm lvl))"
  "txID (fst (Begin tm lvl)) = nextTxnID tm" "txStatus (fst (Begin tm lvl)) = TxnActive"
  by (simp_all add: Begin_def allocTxnID_def registerTxn_def Let_def update_conv')

lemma tm_ok_finish:
  assumes ok: "tm_ok tm" and txn: "map_of (activeTxns tm) i = Some txn" and st: "st \<noteq> TxnActive"
  shows "tm_ok (tm\<lparr>statusTable := (statusTable tm)(txID txn \<mapsto> st),
      activeTxns := AList.delete (txID txn) (activeTxns tm)\<rparr>)"
proof -
  note D = tm_okD [OF ok]
  have i: "txID txn = i" "i < nextTxnID tm" using D(1) [OF txn] by auto
  have A: "txID t = j \<and> txStatus t = TxnActive \<and> 0 < j \<and> j < nextTxnID tm \<and>
      ((statusTable tm)(i \<mapsto> st)) j = None" if "map_of (AList.delete i (activeTxns tm)) j = Some t" for j t
    using that D(1) [of j t] by (cases "j = i") (simp_all add: delete_conv')
  have S: "s \<noteq> TxnActive \<and> j < nextTxnID tm" if "((statusTable tm)(i \<mapsto> st)) j = Some s" for j s
    using that st i(2) D(2) [of j s] by (cases "j = i") simp_all
  show ?thesis
    using ok A S by (simp add: tm_ok_def i(1))
qed

lemma tm_ok_locks: "tm_ok (tm\<lparr>SIREADMgr := m\<rparr>) = tm_ok tm"
  by (simp add: tm_ok_def)

lemma tm_ok_step:
  assumes "tm_step tm tm'" and "tm_ok tm"
  shows "tm_ok tm'"
  using assms
proof (cases rule: tm_step.cases)
  case (tm_begin lvl)
  have n: "nextTxnID tm + 1 \<noteq> 0" using tm_begin by (metis add.commute add_eq_0_iff)
  note D = tm_okD [OF assms(2)]
  have lt: "x < nextTxnID tm + 1" if "x < nextTxnID tm" for x
    using that tm_begin u64_less_Suc [of "nextTxnID tm" x] by simp
  have next_lt: "nextTxnID tm < nextTxnID tm + 1" using tm_begin u64_less_Suc [of "nextTxnID tm"] by simp
  have 3: "statusTable tm (nextTxnID tm) = None" using D(2) [of "nextTxnID tm"] by (cases "statusTable tm (nextTxnID tm)") auto
  have 4: "recoveredCommittedFloor tm \<le> nextTxnID tm + 1" "0 < nextTxnID tm"
    using assms(2) next_lt by (auto simp: tm_ok_def word_neq_0_conv)
  show ?thesis
    unfolding tm_begin(1) tm_ok_def Begin_sel
  proof (intro conjI allI impI)
    fix i txn assume "((map_of (activeTxns tm))(nextTxnID tm \<mapsto> fst (Begin tm lvl))) i = Some txn"
    then consider "i = nextTxnID tm" "txn = fst (Begin tm lvl)" | "map_of (activeTxns tm) i = Some txn"
      by (cases "i = nextTxnID tm") simp_all
    then have "txID txn = i \<and> txStatus txn = TxnActive \<and> 0 < i \<and> i < nextTxnID tm + 1 \<and> statusTable tm i = None"
    proof cases
      case 1
      then show ?thesis using next_lt 3 4 by (simp add: Begin_sel)
    next
      case 2
      then show ?thesis using D(1) lt by blast
    qed
    then show "txID txn = i" "txStatus txn = TxnActive" "0 < i" "i < nextTxnID tm + 1" "statusTable tm i = None"
      by blast+
  next
    fix i st assume "statusTable tm i = Some st"
    then show "st \<noteq> TxnActive" "i < nextTxnID tm + 1" using D(2) lt by auto
  qed (use n 4 in simp_all)
next
  case (tm_commit i txn)
  with tm_ok_finish [OF assms(2) tm_commit(2), of TxnCommitted] show ?thesis
    by (simp add: Commit_def Let_def tm_ok_locks)
next
  case (tm_abort i txn)
  with tm_ok_finish [OF assms(2) tm_abort(2), of TxnAborted] show ?thesis
    by (simp add: Abort_def Let_def tm_ok_locks)
next
  case (tm_update i txn txn')
  then show ?thesis using tm_okD(1) [OF assms(2) tm_update(2)] assms(2)
    by (auto simp: tm_ok_def update_conv' split: if_splits)
next
  case (tm_locks m d)
  then show ?thesis using assms(2) by (simp add: tm_ok_def)
next
  case (tm_advance minID)
  then show ?thesis using assms(2) by (fastforce simp: tm_ok_def AdvanceNextTxnID_def Let_def)
qed

lemma GetStatus_cong:
  "map_of (activeTxns tm') x = map_of (activeTxns tm) x \<Longrightarrow> statusTable tm' x = statusTable tm x \<Longrightarrow>
     recoveredCommittedFloor tm' = recoveredCommittedFloor tm \<Longrightarrow> GetStatus tm' x = GetStatus tm x"
  unfolding GetStatus_def by (simp only:)

interpretation tmo: status_oracle GetStatus running_ids nextTxnID tm_ok TakeSnapshot tm_step
proof unfold_locales
  fix tm tm' :: TransactionManager and x c :: TxnID
  show "tm_ok tm \<Longrightarrow> (GetStatus tm x = TxnActive) = (x \<in> running_ids tm)"
    by (auto simp: GetStatus_def running_ids_def dest: tm_okD split: option.splits)
  show "GetStatus tm x \<noteq> TxnCommitted" if "tm_ok tm" "nextTxnID tm \<le> x"
  proof -
    have "map_of (activeTxns tm) x = None" "statusTable tm x = None"
      using tm_okD [OF that(1)] that(2) by (meson leD not_None_eq)+
    moreover have "\<not> x < recoveredCommittedFloor tm" using that by (auto simp: tm_ok_def)
    ultimately show ?thesis by (simp add: GetStatus_def)
  qed
  show "set (XipList (TakeSnapshot tm c)) = running_ids tm - {c}"
    by (auto simp: TakeSnapshot_def takeSnapshotLocked_def Let_def running_ids_def dom_map_of_conv_image_fst)
  show "XmaxSnapshot (TakeSnapshot tm c) = nextTxnID tm" "CreatorTxnID (TakeSnapshot tm c) = c"
    by (simp_all add: TakeSnapshot_def takeSnapshotLocked_def Let_def)
  show "tm_ok tm \<Longrightarrow> tm_step tm tm' \<Longrightarrow> tm_ok tm'" by (rule tm_ok_step)
  show "nextTxnID tm \<le> nextTxnID tm'" if "tm_ok tm" "tm_step tm tm'"
    using that(2)
  proof (cases rule: tm_step.cases)
    case (tm_begin lvl)
    then show ?thesis using u64_less_Suc [of "nextTxnID tm" "nextTxnID tm"] by (simp add: Begin_sel)
  qed (auto simp: Commit_def Abort_def AdvanceNextTxnID_def Let_def)
  show "GetStatus tm' x = GetStatus tm x" if "tm_ok tm" "tm_step tm tm'" "x < nextTxnID tm" "x \<notin> running_ids tm"
    using that(2)
  proof (cases rule: tm_step.cases)
    case (tm_commit i txn)
    then have "x \<noteq> txID txn" using that(4) tm_okD(1) [OF that(1) tm_commit(2)] by (auto simp: running_ids_def)
    then show ?thesis
      unfolding tm_commit(1) by (intro GetStatus_cong) (simp_all add: Commit_def Let_def delete_conv')
  next
    case (tm_abort i txn)
    then have "x \<noteq> txID txn" using that(4) tm_okD(1) [OF that(1) tm_abort(2)] by (auto simp: running_ids_def)
    then show ?thesis
      unfolding tm_abort(1) by (intro GetStatus_cong) (simp_all add: Abort_def Let_def delete_conv')
  next
    case (tm_begin lvl)
    have "x \<noteq> nextTxnID tm" using that(3) by auto
    then show ?thesis unfolding tm_begin(1) by (intro GetStatus_cong) (simp_all add: Begin_sel)
  next
    case (tm_update i txn txn')
    then have "x \<noteq> i" using that(4) by (auto simp: running_ids_def)
    then show ?thesis unfolding tm_update(1) by (intro GetStatus_cong) (simp_all add: update_conv')
  qed (auto intro!: GetStatus_cong simp: AdvanceNextTxnID_def Let_def)
qed

section \<open>Properties\<close>





text \<open>
  C23. Pruning the status table loses commits. After \<open>PruneStatusesBefore\<close> with the oldest active
  transaction as horizon, which is how the vacuum calls it, a transaction that had committed is
  reported as aborted, so its tuples become invisible to every snapshot but its own.
\<close>

theorem PruneStatusesBefore_hides_commit:
  assumes "tm_ok tm" and "statusTable tm x = Some TxnCommitted" and "recoveredCommittedFloor tm \<le> x"
    and "x < OldestActiveTxn tm" and "Xmin t = x" and "CreatorTxnID snap \<noteq> x"
  shows "GetStatus tm x = TxnCommitted \<and>
    GetStatus (PruneStatusesBefore tm (OldestActiveTxn tm)) x = TxnAborted \<and>
    \<not> IsVisible snap t (GetStatus (PruneStatusesBefore tm (OldestActiveTxn tm)))"
proof -
  have "map_of (activeTxns tm) x = None"
    using tm_okD(1) [OF assms(1), of x] assms(2) by (cases "map_of (activeTxns tm) x") auto
  moreover have "\<not> x < recoveredCommittedFloor tm" using assms(3) by simp
  moreover have "OldestActiveTxn tm \<noteq> 0" using assms(4) by auto
  ultimately show ?thesis
    using assms by (simp add: GetStatus_def PruneStatusesBefore_def IsVisible_def)
qed

theorem PruneStatusesBefore_hides_commit_witness:
  "\<exists>tm. tm_ok tm \<and> GetStatus tm 1 = TxnCommitted \<and>
    GetStatus (PruneStatusesBefore tm (OldestActiveTxn tm)) 1 = TxnAborted"
proof -
  let ?a = "Begin NewTransactionManager SnapshotIsolation"
  let ?b = "snd (Commit (snd ?a) (fst ?a))"
  let ?tm = "snd (Begin ?b SnapshotIsolation)"
  have m: "map_of (activeTxns (snd ?a)) 1 = Some (fst ?a)" by (simp add: Begin_sel) (simp add: NewTransactionManager_def)
  have "tm_step NewTransactionManager (snd ?a)" by (rule tm_begin) (simp add: NewTransactionManager_def)
  then have ok: "tm_ok (snd ?a)" using tm_ok_step tm_ok_New by blast
  then have ok: "tm_ok ?b" using tm_ok_step tm_commit [OF m] by blast
  have n: "nextTxnID ?b = 2" "statusTable ?b 1 = Some TxnCommitted" "activeTxns ?b = []" "recoveredCommittedFloor ?b = 0"
    by (simp_all add: Commit_def Let_def Begin_sel) (simp_all add: NewTransactionManager_def Begin_def allocTxnID_def registerTxn_def Let_def)
  have "tm_step ?b ?tm" by (rule tm_begin) (simp add: n)
  then have ok: "tm_ok ?tm" using tm_ok_step ok by blast
  have o: "OldestActiveTxn ?tm = 2"
    using n by (simp add: OldestActiveTxn_def Begin_def allocTxnID_def registerTxn_def Let_def least_id_def)
  from PruneStatusesBefore_hides_commit [OF ok, of 1 "\<lparr>Xmin = 1, Xmax = 0, TFlags = 0, Key = [], Value = []\<rparr>" emptySnapshot]
  show ?thesis using ok o n by (auto simp: Begin_sel emptySnapshot_def)
qed

end
