(* ===== verification/Leaf.thy ===== *)
theory Leaf
  imports Slotted_Ops Transaction
begin

text \<open>
  Leaf pages (\<^verbatim>\<open>internal/btree/leaf.go\<close>): MVCC tuples as the records of a slotted page in
  key order, versions of one key next to each other in the order of insertion. The for loops run
  over the list of the remaining slot indices. \<open>leaf_ok\<close> is the invariant of a leaf page; the lemmas
  rest on the interface of a page of records.
\<close>

section \<open>Definitions\<close>

definition InsertTuple :: "Page \<Rightarrow> MVCCTuple \<Rightarrow> ((error, unit) result \<times> Page) option" where
  "InsertTuple p tuple = do {
     let encoded = EncodeTuple tuple;
     (r, p) \<leftarrow> InsertRecord p encoded TupleKeyExtract;
     Some (case r of Inl e \<Rightarrow> Inl e | Inr _ \<Rightarrow> Inr (), p) }"

definition GetTuple :: "Page \<Rightarrow> nat \<Rightarrow> MVCCTuple option option" where
  "GetTuple p slotIdx = do {
     data \<leftarrow> GetRecord p slotIdx;
     Some (case data of
             NilSlice \<Rightarrow> None
           | Slice bs \<Rightarrow> (case DecodeTuple bs of Inl _ \<Rightarrow> None | Inr t \<Rightarrow> Some t)) }"

text \<open>The first slot of a search: a match, or the position the code of a failed search stands for.\<close>

definition searchStart :: "int \<Rightarrow> nat" where
  "searchStart r = nat (if r < 0 then - (r + 1) else r)"

fun versionsLoop :: "Page \<Rightarrow> bytes \<Rightarrow> nat list \<Rightarrow> MVCCTuple list option" where
  "versionsLoop p key [] = Some []"
| "versionsLoop p key (i # is) = do {
     data \<leftarrow> GetRecord p i;
     (case data of
        NilSlice \<Rightarrow> versionsLoop p key is
      | Slice bs \<Rightarrow>
          (case DecodeTuple bs of
             Inl _ \<Rightarrow> versionsLoop p key is
           | Inr t \<Rightarrow> if Key t \<noteq> key then Some []
                      else do { ts \<leftarrow> versionsLoop p key is; Some (t # ts) })) }"

definition FindAllVersions :: "Page \<Rightarrow> bytes \<Rightarrow> MVCCTuple list option" where
  "FindAllVersions p key = do {
     let n = NumSlots p;
     r \<leftarrow> BinarySearch p key TupleKeyExtract;
     versionsLoop p key [searchStart r..<n] }"

text \<open>
  The slice \<open>data\<close> is the record inside the page array, so its bytes 8 to 15 are page bytes.
\<close>

definition SetXmax :: "Page \<Rightarrow> nat \<Rightarrow> u64 \<Rightarrow> Page option" where
  "SetXmax p slotIdx xmax = do {
     data \<leftarrow> GetRecord p slotIdx;
     (case data of
        NilSlice \<Rightarrow> Some p
      | Slice bs \<Rightarrow>
          if length bs < TupleHeaderSize then Some p
          else do {
            s \<leftarrow> GetSlot p slotIdx;
            Some (p\<lparr>Data := PutUint64 (Data p) (unat (Offset s) + 8) xmax\<rparr>) }) }"

fun visibleLoop ::
  "Page \<Rightarrow> bytes \<Rightarrow> Snapshot \<Rightarrow> (TxnID \<Rightarrow> TxnStatus) \<Rightarrow> nat list \<Rightarrow> (int \<times> MVCCTuple option) option" where
  "visibleLoop p key snap status [] = Some (-1, None)"
| "visibleLoop p key snap status (i # is) = do {
     data \<leftarrow> GetRecord p i;
     (case data of
        NilSlice \<Rightarrow> visibleLoop p key snap status is
      | Slice bs \<Rightarrow>
          (case DecodeTuple bs of
             Inl _ \<Rightarrow> visibleLoop p key snap status is
           | Inr t \<Rightarrow> if Key t \<noteq> key then Some (-1, None)
                      else if IsVisible snap t status then Some (int i, Some t)
                      else visibleLoop p key snap status is)) }"

definition FindVisibleSlot ::
  "Page \<Rightarrow> bytes \<Rightarrow> Snapshot \<Rightarrow> (TxnID \<Rightarrow> TxnStatus) \<Rightarrow> (int \<times> MVCCTuple option) option" where
  "FindVisibleSlot p key snap status = do {
     let n = NumSlots p;
     r \<leftarrow> BinarySearch p key TupleKeyExtract;
     visibleLoop p key snap status [searchStart r..<n] }"

section \<open>The invariant of a leaf\<close>

definition tuple_slice :: "slice \<Rightarrow> bool" where
  "tuple_slice s \<longleftrightarrow> (case s of NilSlice \<Rightarrow> True | Slice bs \<Rightarrow> \<exists>t. tuple_ok t \<and> bs = EncodeTuple t)"

definition leaf_ok :: "Page \<Rightarrow> bool" where
  "leaf_ok p \<longleftrightarrow> page_wf p \<and> keys_sorted TupleKeyExtract (recs p) \<and> (\<forall>s \<in> set (recs p). tuple_slice s)"

text \<open>The tuples of a leaf, in slot order.\<close>

fun tuples_of :: "slice list \<Rightarrow> MVCCTuple list" where
  "tuples_of [] = []"
| "tuples_of (NilSlice # rs) = tuples_of rs"
| "tuples_of (Slice bs # rs) =
     (case DecodeTuple bs of Inr t \<Rightarrow> t # tuples_of rs | Inl _ \<Rightarrow> tuples_of rs)"

lemma tuples_of_append: "tuples_of (xs @ ys) = tuples_of xs @ tuples_of ys"
  by (induction xs rule: tuples_of.induct) (auto split: sum.split)

lemma tuples_of_Slice: "tuple_ok t \<Longrightarrow> tuples_of (Slice (EncodeTuple t) # rs) = t # tuples_of rs"
  by (simp add: DecodeTuple_EncodeTuple)

lemma leaf_okD:
  assumes "leaf_ok p"
  shows "page_wf p" and "keys_sorted TupleKeyExtract (recs p)"
    and "i < NumSlots p \<Longrightarrow> recs p ! i = Slice bs \<Longrightarrow> \<exists>t. tuple_ok t \<and> bs = EncodeTuple t \<and> DecodeTuple bs = Inr t"
    and "i < NumSlots p \<Longrightarrow> GetRecord p i = Some (recs p ! i)"
proof -
  show "page_wf p" "keys_sorted TupleKeyExtract (recs p)" using assms by (simp_all add: leaf_ok_def)
  then show "i < NumSlots p \<Longrightarrow> GetRecord p i = Some (recs p ! i)" by (simp add: sp.fetch_law)
  assume "i < NumSlots p" "recs p ! i = Slice bs"
  then have "tuple_slice (Slice bs)" using assms nth_mem [of i "recs p"] by (auto simp: leaf_ok_def)
  then show "\<exists>t. tuple_ok t \<and> bs = EncodeTuple t \<and> DecodeTuple bs = Inr t"
    by (auto simp: tuple_slice_def DecodeTuple_EncodeTuple)
qed

text \<open>
  From the slot where a search starts on, live keys are at least the searched one; before it they
  are smaller.
\<close>

lemma searchStart_props:
  assumes ok: "leaf_ok p" and r: "BinarySearch p key TupleKeyExtract = Some r"
  defines "s \<equiv> searchStart r"
  shows "s \<le> NumSlots p"
    and "i < NumSlots p \<Longrightarrow> recs p ! i = Slice (EncodeTuple t) \<Longrightarrow> tuple_ok t \<Longrightarrow> i < s \<Longrightarrow> Key t < key"
    and "i < NumSlots p \<Longrightarrow> recs p ! i = Slice (EncodeTuple t) \<Longrightarrow> tuple_ok t \<Longrightarrow> s \<le> i \<Longrightarrow> key \<le> Key t"
proof -
  let ?ke = TupleKeyExtract
  note D = leaf_okD [OF ok]
  have sr: "search_result ?ke (recs p) key r" using sp.search_law [OF D(1,2), of key] r by auto
  have key: "tuple_ok t \<Longrightarrow> key_of ?ke (EncodeTuple t) = Key t" for t by (simp add: TupleKeyExtract_EncodeTuple)
  show "s \<le> NumSlots p" using sr by (auto simp: s_def searchStart_def search_result_def split: if_splits)
  have below: "all_below (\<lambda>bs. key_of ?ke bs < key) (recs p) (int s)"
    using sr by (auto simp: s_def searchStart_def search_result_def split: if_splits)
  then show "i < NumSlots p \<Longrightarrow> recs p ! i = Slice (EncodeTuple t) \<Longrightarrow> tuple_ok t \<Longrightarrow> i < s \<Longrightarrow> Key t < key" for i t
    using key by (auto simp: all_below_def)
  show "key \<le> Key t" if i: "i < NumSlots p" "recs p ! i = Slice (EncodeTuple t)" "tuple_ok t" "s \<le> i" for i t
  proof (cases "0 \<le> r")
    case True
    with sr obtain bs where "nat r < NumSlots p" "recs p ! nat r = Slice bs" "key_of ?ke bs = key"
      by (auto simp: search_result_def nat_less_iff)
    with keys_sortedD [OF D(2), of "nat r" i bs "EncodeTuple t"] i True key show ?thesis
      by (simp add: s_def searchStart_def)
  next
    case False
    with sr have "all_from (\<lambda>bs. key < key_of ?ke bs) (recs p) (int s)"
      by (simp add: s_def searchStart_def search_result_def)
    with i key show ?thesis by (auto simp: all_from_def intro: less_imp_le)
  qed
qed

text \<open>A leaf from slot \<open>s\<close> on whose live keys are at least \<open>key\<close>: the loops stop early rightly.\<close>

lemma leaf_tail:
  assumes ok: "leaf_ok p" and "i < NumSlots p" and "recs p ! i = Slice (EncodeTuple t)" and "tuple_ok t"
    and "key < Key t" and j: "i \<le> j" "j < NumSlots p" and "recs p ! j = Slice (EncodeTuple u)" and "tuple_ok u"
  shows "Key u \<noteq> key"
  using keys_sortedD [OF leaf_okD(2) [OF ok], of i j "EncodeTuple t" "EncodeTuple u"] assms
  by (auto simp: TupleKeyExtract_EncodeTuple)

lemma tuples_of_nth:
  "u \<in> set (tuples_of rs) \<Longrightarrow> \<exists>j < length rs. \<exists>bs. rs ! j = Slice bs \<and> DecodeTuple bs = Inr u"
proof (induction rs rule: tuples_of.induct)
  case (2 rs)
  then show ?case by force
next
  case (3 bs rs)
  then show ?case by (fastforce split: sum.splits)
qed simp

lemma no_match_after:
  assumes ok: "leaf_ok p" and i: "i < NumSlots p" and r: "recs p ! i = Slice (EncodeTuple t)" "tuple_ok t"
    and "key < Key t"
  shows "filter (\<lambda>u. Key u = key) (tuples_of (drop i (recs p))) = []"
proof -
  have "Key u \<noteq> key" if u: "u \<in> set (tuples_of (drop i (recs p)))" for u
  proof -
    from tuples_of_nth [OF u] obtain j bs where j: "i + j < NumSlots p" "recs p ! (i + j) = Slice bs"
      "DecodeTuple bs = Inr u"
      by (auto simp: less_diff_conv add.commute)
    with leaf_okD(3) [OF ok j(1,2)] have "tuple_ok u" "recs p ! (i + j) = Slice (EncodeTuple u)"
      by (auto simp: DecodeTuple_EncodeTuple)
    with leaf_tail [OF ok i r assms(5) _ j(1)] show ?thesis by simp
  qed
  then show ?thesis by (simp add: filter_empty_conv)
qed

lemma versionsLoop_tail:
  assumes ok: "leaf_ok p" and "s \<le> NumSlots p"
    and ge: "\<And>i t. i < NumSlots p \<Longrightarrow> recs p ! i = Slice (EncodeTuple t) \<Longrightarrow> tuple_ok t \<Longrightarrow> s \<le> i \<Longrightarrow> key \<le> Key t"
  shows "versionsLoop p key [s..<NumSlots p] = Some (filter (\<lambda>t. Key t = key) (tuples_of (drop s (recs p))))"
  using assms(2,3)
proof (induction "NumSlots p - s" arbitrary: s)
  case 0
  then show ?case by simp
next
  case (Suc d)
  then have s: "s < NumSlots p" by simp
  have ups: "[s..<NumSlots p] = s # [Suc s..<NumSlots p]" using s by (rule upt_conv_Cons)
  have dr: "drop s (recs p) = recs p ! s # drop (Suc s) (recs p)" using s by (simp add: Cons_nth_drop_Suc)
  have IH: "versionsLoop p key [Suc s..<NumSlots p]
      = Some (filter (\<lambda>t. Key t = key) (tuples_of (drop (Suc s) (recs p))))"
    using Suc.hyps Suc.prems s by (intro Suc.hyps(1)) auto
  note get = leaf_okD(4) [OF ok s]
  show ?case
  proof (cases "recs p ! s")
    case NilSlice
    with IH get show ?thesis by (simp add: ups dr)
  next
    case (Slice bs)
    then obtain t where t: "tuple_ok t" "bs = EncodeTuple t" "DecodeTuple bs = Inr t"
      using leaf_okD(3) [OF ok s] by blast
    show ?thesis
    proof (cases "Key t = key")
      case True
      with IH get Slice t show ?thesis by (simp add: ups dr)
    next
      case False
      with Suc.prems(2) [of s t] s Slice t have "key < Key t" by (simp add: order_less_le)
      from no_match_after [OF ok s _ t(1) this] Slice t get False show ?thesis by (simp add: ups)
    qed
  qed
qed

lemma FindAllVersions_filter:
  assumes ok: "leaf_ok p"
  shows "FindAllVersions p key = Some (filter (\<lambda>t. Key t = key) (tuples_of (recs p)))"
proof -
  obtain r where r: "BinarySearch p key TupleKeyExtract = Some r"
    using sp.search_law [OF leaf_okD(1,2) [OF ok]] by blast
  note S = searchStart_props [OF ok r]
  let ?s = "searchStart r"
  have "Key u \<noteq> key" if u: "u \<in> set (tuples_of (take ?s (recs p)))" for u
  proof -
    from tuples_of_nth [OF u] obtain j bs where j: "j < NumSlots p" "j < ?s" "recs p ! j = Slice bs" "DecodeTuple bs = Inr u"
      by auto
    with leaf_okD(3) [OF ok j(1,3)] have "tuple_ok u" "recs p ! j = Slice (EncodeTuple u)"
      by (auto simp: DecodeTuple_EncodeTuple)
    with S(2) j show ?thesis by force
  qed
  then have "filter (\<lambda>t. Key t = key) (tuples_of (take ?s (recs p))) = []" by (simp add: filter_empty_conv)
  then have "filter (\<lambda>t. Key t = key) (tuples_of (recs p)) = filter (\<lambda>t. Key t = key) (tuples_of (drop ?s (recs p)))"
    using tuples_of_append [of "take ?s (recs p)" "drop ?s (recs p)"] by simp
  with r versionsLoop_tail [OF ok S(1,3)] show ?thesis by (simp add: FindAllVersions_def)
qed

text \<open>\<open>visible_at\<close>: slot \<open>i\<close> holds the version \<open>t\<close> of the key and the snapshot sees it.\<close>

definition visible_at :: "Page \<Rightarrow> bytes \<Rightarrow> Snapshot \<Rightarrow> (TxnID \<Rightarrow> TxnStatus) \<Rightarrow> nat \<Rightarrow> MVCCTuple \<Rightarrow> bool" where
  "visible_at p key snap status i t \<longleftrightarrow> i < NumSlots p \<and> (\<exists>bs. recs p ! i = Slice bs \<and> DecodeTuple bs = Inr t) \<and>
     Key t = key \<and> IsVisible snap t status"

definition first_visible ::
  "Page \<Rightarrow> bytes \<Rightarrow> Snapshot \<Rightarrow> (TxnID \<Rightarrow> TxnStatus) \<Rightarrow> nat \<Rightarrow> int \<times> MVCCTuple option \<Rightarrow> bool" where
  "first_visible p key snap status s r \<longleftrightarrow>
     (case r of
        (i, Some t) \<Rightarrow> int s \<le> i \<and> visible_at p key snap status (nat i) t \<and>
          (\<forall>j u. s \<le> j \<and> j < nat i \<longrightarrow> \<not> visible_at p key snap status j u)
      | (i, None) \<Rightarrow> i = -1 \<and> (\<forall>j u. s \<le> j \<longrightarrow> \<not> visible_at p key snap status j u))"

lemma first_visible_skip:
  assumes "first_visible p key snap status (Suc s) r" and "\<And>u. \<not> visible_at p key snap status s u"
  shows "first_visible p key snap status s r"
  using assms unfolding first_visible_def
  by (auto split: prod.splits option.splits) (metis Suc_leI le_neq_implies_less)+

lemma visibleLoop_tail:
  assumes ok: "leaf_ok p" and "s \<le> NumSlots p"
    and ge: "\<And>i t. i < NumSlots p \<Longrightarrow> recs p ! i = Slice (EncodeTuple t) \<Longrightarrow> tuple_ok t \<Longrightarrow> s \<le> i \<Longrightarrow> key \<le> Key t"
  shows "\<exists>r. visibleLoop p key snap status [s..<NumSlots p] = Some r \<and> first_visible p key snap status s r"
  using assms(2,3)
proof (induction "NumSlots p - s" arbitrary: s)
  case 0
  then show ?case by (auto simp: first_visible_def visible_at_def)
next
  case (Suc d)
  then have s: "s < NumSlots p" by simp
  have ups: "[s..<NumSlots p] = s # [Suc s..<NumSlots p]" using s by (rule upt_conv_Cons)
  obtain r where IH: "visibleLoop p key snap status [Suc s..<NumSlots p] = Some r"
    "first_visible p key snap status (Suc s) r"
    using Suc.hyps(1) [of "Suc s"] Suc.hyps(2) Suc.prems s by force
  note get = leaf_okD(4) [OF ok s]
  show ?case
  proof (cases "recs p ! s")
    case NilSlice
    with IH get show ?thesis by (auto simp: ups visible_at_def intro!: first_visible_skip)
  next
    case (Slice bs)
    then obtain t where t: "tuple_ok t" "bs = EncodeTuple t" "DecodeTuple bs = Inr t"
      using leaf_okD(3) [OF ok s] by blast
    have at: "visible_at p key snap status s u \<longleftrightarrow> u = t \<and> Key t = key \<and> IsVisible snap t status" for u
      using s Slice t by (auto simp: visible_at_def)
    consider "Key t = key" "IsVisible snap t status" | "Key t = key" "\<not> IsVisible snap t status" | "Key t \<noteq> key" by blast
    then show ?thesis
    proof cases
      case 1
      with get Slice t at show ?thesis by (auto simp add: ups first_visible_def)
    next
      case 2
      with IH get Slice t at show ?thesis by (auto simp: ups intro!: first_visible_skip)
    next
      case 3
      with Suc.prems(2) [of s t] s Slice t have lt: "key < Key t" by (simp add: order_less_le)
      have "\<not> visible_at p key snap status j u" if "s \<le> j" for j u
      proof
        assume v: "visible_at p key snap status j u"
        then obtain cs where j: "j < NumSlots p" "recs p ! j = Slice cs" "DecodeTuple cs = Inr u" "Key u = key"
          by (auto simp: visible_at_def)
        with leaf_okD(3) [OF ok j(1,2)] have "tuple_ok u" "recs p ! j = Slice (EncodeTuple u)"
          by (auto simp: DecodeTuple_EncodeTuple)
        with leaf_tail [OF ok s _ t(1) lt that j(1)] Slice t j(4) show False by simp
      qed
      with 3 get Slice t show ?thesis by (simp add: ups first_visible_def)
    qed
  qed
qed

lemma FindVisibleSlot_spec:
  assumes ok: "leaf_ok p"
  shows "\<exists>r. FindVisibleSlot p key snap status = Some r \<and> first_visible p key snap status 0 r"
proof -
  obtain r where r: "BinarySearch p key TupleKeyExtract = Some r"
    using sp.search_law [OF leaf_okD(1,2) [OF ok]] by blast
  note S = searchStart_props [OF ok r]
  let ?s = "searchStart r"
  have none: "\<not> visible_at p key snap status j u" if "j < ?s" for j u
  proof
    assume v: "visible_at p key snap status j u"
    then obtain cs where j: "j < NumSlots p" "recs p ! j = Slice cs" "DecodeTuple cs = Inr u" "Key u = key"
      by (auto simp: visible_at_def)
    with leaf_okD(3) [OF ok j(1,2)] have "tuple_ok u" "recs p ! j = Slice (EncodeTuple u)"
      by (auto simp: DecodeTuple_EncodeTuple)
    with S(2) [OF j(1)] that j(4) show False by force
  qed
  have "first_visible p key snap status 0 x" if "first_visible p key snap status ?s x" for x
    using that none unfolding first_visible_def by (auto split: prod.splits option.splits) (metis not_le)+
  moreover have "\<exists>x. visibleLoop p key snap status [?s..<NumSlots p] = Some x \<and> first_visible p key snap status ?s x"
    by (rule visibleLoop_tail [OF ok S(1)]) (rule S(3))
  ultimately show ?thesis using r by (auto simp: FindVisibleSlot_def)
qed

lemma first_visible_find:
  assumes r: "first_visible p key snap status 0 r"
  shows "snd r = find (\<lambda>t. Key t = key \<and> IsVisible snap t status) (tuples_of (recs p))"
proof -
  let ?P = "\<lambda>t. Key t = key \<and> IsVisible snap t status"
  have none: "find ?P (tuples_of (take k (recs p))) = None"
    if "\<And>j u. j < k \<Longrightarrow> \<not> visible_at p key snap status j u" for k
  proof (rule ccontr)
    assume "find ?P (tuples_of (take k (recs p))) \<noteq> None"
    then obtain x where x: "x \<in> set (tuples_of (take k (recs p)))" "?P x" by (auto simp: find_None_iff)
    from tuples_of_nth [OF x(1)] x(2) obtain j where "j < k" "visible_at p key snap status j x"
      by (auto simp: visible_at_def)
    with that show False by blast
  qed
  obtain i x where rx: "r = (i, x)" by fastforce
  show ?thesis
  proof (cases x)
    case None
    with r rx none [of "NumSlots p"] show ?thesis by (simp add: first_visible_def)
  next
    case (Some t)
    with r rx have v: "visible_at p key snap status (nat i) t" "\<And>j u. j < nat i \<Longrightarrow> \<not> visible_at p key snap status j u"
      by (auto simp: first_visible_def)
    then obtain bs where bs: "nat i < NumSlots p" "recs p ! nat i = Slice bs" "DecodeTuple bs = Inr t" "?P t"
      by (auto simp: visible_at_def)
    then have "recs p = take (nat i) (recs p) @ Slice bs # drop (Suc (nat i)) (recs p)" by (metis id_take_nth_drop length_recs)
    then have "tuples_of (recs p) = tuples_of (take (nat i) (recs p)) @ t # tuples_of (drop (Suc (nat i)) (recs p))"
      using bs(3) by (metis tuples_of_append tuples_of.simps(3) sum.case(2))
    with none [of "nat i"] v bs(4) rx Some show ?thesis by (simp add: find_append)
  qed
qed

lemma SetXmax_ok:
  assumes ok: "leaf_ok p" and i: "i < NumSlots p" and t: "recs p ! i = Slice (EncodeTuple t)" "tuple_ok t"
  obtains p' where "SetXmax p i x = Some p'" and "leaf_ok p'" and "same_meta p p'"
    and "recs p' = (recs p)[i := Slice (EncodeTuple (t\<lparr>Xmax := x\<rparr>))]"
proof -
  note D = leaf_okD [OF ok]
  let ?p = "poke p i 8 (le_bytes 8 (unat x))"
  have fit: "8 + length (le_bytes 8 (unat x)) \<le> length (EncodeTuple t)" by simp
  note P = poke_ok [OF D(1) i t(1) fit]
  have "HeaderSize + i * SlotSize + SlotSize \<le> PageSize"
    using page_wf_bounds [OF D(1)] i by (simp add: page_consts)
  then obtain s where s: "GetSlot p i = Some s" "slot_at (Data p) i = (unat (Offset s), unat (Length s))"
    using GetSlot_slot_at by blast
  have S: "SetXmax p i x = Some ?p"
    using D(4) [OF i] t(1) s by (simp add: SetXmax_def TupleHeaderSize_def poke_def PutUint64_def)
  have R: "recs ?p = (recs p)[i := Slice (EncodeTuple (t\<lparr>Xmax := x\<rparr>))]"
    using P(1) by (simp add: EncodeTuple_poke_Xmax)
  have ok': "tuple_ok (t\<lparr>Xmax := x\<rparr>)" using t(2) by (simp add: tuple_ok_def)
  have same: "key_le TupleKeyExtract (recs ?p ! a) (recs ?p ! b) = key_le TupleKeyExtract (recs p ! a) (recs p ! b)"
    if "a < NumSlots p" "b < NumSlots p" for a b
  proof -
    have e: "key_of TupleKeyExtract (EncodeTuple (t\<lparr>Xmax := x\<rparr>)) = key_of TupleKeyExtract (EncodeTuple t)"
      using t(2) ok' by (simp add: TupleKeyExtract_EncodeTuple)
    then show ?thesis
      using that t(1) unfolding R
      by (cases "a = i"; cases "b = i"; cases "recs p ! a"; cases "recs p ! b") auto
  qed
  have "NumSlots ?p = NumSlots p" using arg_cong [OF R, of length] by simp
  with same have sorted: "keys_sorted TupleKeyExtract (recs ?p)"
    using D(2) unfolding keys_sorted_def sorted_wrt_iff_nth_less by auto
  have "\<forall>s \<in> set (recs ?p). tuple_slice s"
    unfolding R using ok ok' by (auto simp: leaf_ok_def tuple_slice_def dest!: set_update_subset_insert [THEN subsetD])
  with P(2) sorted have "leaf_ok ?p" by (simp add: leaf_ok_def)
  with S R P(3) show thesis by (intro that)
qed

lemma InsertTuple_ok:
  assumes ok: "leaf_ok p" and t: "tuple_ok t"
  shows "if room_of p < length (EncodeTuple t) + 4 then InsertTuple p t = Some (Inl ErrPageFull, p)
    else \<exists>pos p'. InsertTuple p t = Some (Inr (), p') \<and> leaf_ok p' \<and> same_meta p p' \<and> pos \<le> NumSlots p \<and>
      recs p' = insert_at pos (Slice (EncodeTuple t)) (recs p) \<and>
      all_below (\<lambda>bs. key_of TupleKeyExtract bs \<le> Key t) (recs p) (int pos) \<and>
      all_from (\<lambda>bs. Key t < key_of TupleKeyExtract bs) (recs p) (int pos)"
proof (cases "room_of p < length (EncodeTuple t) + 4")
  case True
  with sp.full_law [OF True, of TupleKeyExtract] show ?thesis by (simp add: InsertTuple_def)
next
  case False
  note D = leaf_okD [OF ok]
  from False have "length (EncodeTuple t) + 4 \<le> room_of p" by simp
  with sp.ins_law [OF D(1,2), of "EncodeTuple t"] obtain pos p' where
    i: "InsertRecord p (EncodeTuple t) TupleKeyExtract = Some (Inr pos, p')"
    and b: "all_below (\<lambda>bs. key_of TupleKeyExtract bs \<le> key_of TupleKeyExtract (EncodeTuple t)) (recs p) (int pos)"
      "all_from (\<lambda>bs. key_of TupleKeyExtract (EncodeTuple t) < key_of TupleKeyExtract bs) (recs p) (int pos)"
    by auto
  note S = sp.ins_sorted [OF D(1,2) EncodeTuple_nonempty i]
  have "leaf_ok p'"
    using S ok t by (auto simp: leaf_ok_def tuple_slice_def)
  with False S i b t show ?thesis
    by (intro if_not_P [THEN iffD2, OF False] exI [of _ pos] exI [of _ p'])
       (simp_all add: InsertTuple_def TupleKeyExtract_EncodeTuple)
qed

section \<open>Properties\<close>

text \<open>
  \<open>FindAllVersions\<close> on a leaf returns exactly the stored versions of the key, each once and in
  slot order; it neither panics nor misses a version behind a tombstone.
\<close>

theorem FindAllVersions_exact:
  assumes "leaf_ok p"
  shows "FindAllVersions p key = Some (filter (\<lambda>t. Key t = key) (tuples_of (recs p)))"
  using assms by (rule FindAllVersions_filter)

lemma leaf_ok_Init: "page_ok p \<Longrightarrow> leaf_ok (Init p t)"
  using page_wf_Init [of p t] by (simp add: leaf_ok_def keys_sorted_def)

lemma room_of_Init: "page_ok p \<Longrightarrow> room_of (Init p t) = 4064"
  using page_wf_Init [of p t] by (simp add: room_of_def)

lemma leaf_example:
  assumes "tuple_ok t" and "length (EncodeTuple t) \<le> 4060"
  obtains p where "leaf_ok p" and "recs p = [Slice (EncodeTuple t)]"
proof -
  let ?p = "Init \<lparr>ID = 3, Data = replicate 4096 0\<rparr> PageTypeLeaf"
  from InsertTuple_ok [OF leaf_ok_Init [OF page_ok_zero] assms(1), of 3 PageTypeLeaf]
  obtain pos p' where p': "leaf_ok p'" "pos \<le> NumSlots ?p" "recs p' = insert_at pos (Slice (EncodeTuple t)) (recs ?p)"
    using assms(2) room_of_Init [OF page_ok_zero, of 3 PageTypeLeaf] by (auto split: if_splits)
  with page_wf_Init(2) [OF page_ok_zero, of 3 PageTypeLeaf] show thesis
    by (intro that [of p']) (simp_all add: insert_at_def)
qed

theorem FindAllVersions_exact_witness:
  "\<exists>p. FindAllVersions p [1] = Some [\<lparr>Xmin = 5, Xmax = 0, TFlags = 0, Key = [1], Value = [2]\<rparr>]"
proof -
  let ?t = "\<lparr>Xmin = 5, Xmax = 0, TFlags = 0, Key = [1], Value = [2]\<rparr>"
  have t: "tuple_ok ?t" "length (EncodeTuple ?t) \<le> 4060" by (simp_all add: tuple_ok_def)
  then obtain p where p: "leaf_ok p" "recs p = [Slice (EncodeTuple ?t)]" by (rule leaf_example)
  with FindAllVersions_exact [OF p(1), of "[1]"] show ?thesis
    by (auto simp: DecodeTuple_EncodeTuple [OF t(1)])
qed

text \<open>
  \<open>FindVisibleSlot\<close> returns the first slot, in slot order, that holds a version of the key
  which the snapshot sees, with that version, and \<open>(-1, nil)\<close> exactly when there is none.
\<close>

theorem FindVisibleSlot_first:
  assumes "leaf_ok p"
  shows "case FindVisibleSlot p key snap status of
      Some (i, Some t) \<Rightarrow> 0 \<le> i \<and> visible_at p key snap status (nat i) t \<and>
        (\<forall>j u. j < nat i \<longrightarrow> \<not> visible_at p key snap status j u)
    | Some (i, None) \<Rightarrow> i = -1 \<and> (\<forall>j u. \<not> visible_at p key snap status j u)
    | None \<Rightarrow> False"
  using FindVisibleSlot_spec [OF assms, of key snap status]
  by (auto simp: first_visible_def split: prod.splits option.splits)

theorem FindVisibleSlot_first_witness:
  "\<exists>p. leaf_ok p \<and> FindVisibleSlot p [1] emptySnapshot (\<lambda>_. TxnAborted) = Some (-1, None)"
proof -
  let ?p = "Init \<lparr>ID = 3, Data = replicate 4096 0\<rparr> PageTypeLeaf"
  have ok: "leaf_ok ?p" by (rule leaf_ok_Init [OF page_ok_zero])
  have n: "NumSlots ?p = 0" using Init_sel(3) [OF page_ok_zero] by blast
  with FindVisibleSlot_first [OF ok, of "[1]" emptySnapshot "\<lambda>_. TxnAborted"] ok show ?thesis
    by (intro exI [of _ ?p]) (auto simp: visible_at_def split: option.splits prod.splits)
qed

text \<open>
  The two writes of a leaf refine their effect on the list of tuples. \<open>InsertTuple\<close> either
  reports \<open>ErrPageFull\<close> without a change or adds the tuple after all versions of its key and keeps
  the leaf invariant. \<open>SetXmax\<close> replaces the delete mark of one stored tuple and nothing else.
\<close>

theorem leaf_writes:
  assumes "leaf_ok p" and "tuple_ok t"
  shows "(if room_of p < length (EncodeTuple t) + 4 then InsertTuple p t = Some (Inl ErrPageFull, p)
      else \<exists>p' pre post. InsertTuple p t = Some (Inr (), p') \<and> leaf_ok p' \<and> same_meta p p' \<and>
        tuples_of (recs p) = pre @ post \<and> tuples_of (recs p') = pre @ t # post \<and>
        (\<forall>u \<in> set pre. Key u \<le> Key t) \<and> (\<forall>u \<in> set post. Key t < Key u)) \<and>
    (i < NumSlots p \<and> recs p ! i = Slice (EncodeTuple t) \<longrightarrow>
      (\<exists>p'. SetXmax p i x = Some p' \<and> leaf_ok p' \<and> same_meta p p' \<and>
        recs p' = (recs p)[i := Slice (EncodeTuple (t\<lparr>Xmax := x\<rparr>))]))"
proof (intro conjI impI)
  show "if room_of p < length (EncodeTuple t) + 4 then InsertTuple p t = Some (Inl ErrPageFull, p)
      else \<exists>p' pre post. InsertTuple p t = Some (Inr (), p') \<and> leaf_ok p' \<and> same_meta p p' \<and>
        tuples_of (recs p) = pre @ post \<and> tuples_of (recs p') = pre @ t # post \<and>
        (\<forall>u \<in> set pre. Key u \<le> Key t) \<and> (\<forall>u \<in> set post. Key t < Key u)"
  proof (cases "room_of p < length (EncodeTuple t) + 4")
    case True
    with InsertTuple_ok [OF assms] show ?thesis by simp
  next
    case False
    with InsertTuple_ok [OF assms] obtain pos p' where *: "InsertTuple p t = Some (Inr (), p')" "leaf_ok p'"
      "same_meta p p'" "recs p' = insert_at pos (Slice (EncodeTuple t)) (recs p)"
      "all_below (\<lambda>bs. key_of TupleKeyExtract bs \<le> Key t) (recs p) (int pos)"
      "all_from (\<lambda>bs. Key t < key_of TupleKeyExtract bs) (recs p) (int pos)"
      by auto
    let ?a = "tuples_of (take pos (recs p))" and ?b = "tuples_of (drop pos (recs p))"
    have "Key u \<le> Key t" if "u \<in> set ?a" for u
      using tuples_of_nth [OF that] *(5) DecodeTuple_key by (fastforce simp: all_below_def)
    moreover have "Key t < Key u" if "u \<in> set ?b" for u
    proof -
      from tuples_of_nth [OF that] obtain j bs where "pos + j < length (recs p)" "recs p ! (pos + j) = Slice bs"
        "DecodeTuple bs = Inr u"
        by (auto simp: less_diff_conv add.commute)
      with *(6) DecodeTuple_key [of bs u] show ?thesis by (force simp: all_from_def)
    qed
    moreover have "tuples_of (recs p') = ?a @ t # ?b"
      using *(4) assms(2) by (simp add: insert_at_def tuples_of_append DecodeTuple_EncodeTuple)
    moreover have "tuples_of (recs p) = ?a @ ?b"
      using tuples_of_append [of "take pos (recs p)" "drop pos (recs p)"] by simp
    ultimately show ?thesis using False * by auto
  qed
  assume "i < NumSlots p \<and> recs p ! i = Slice (EncodeTuple t)"
  then show "\<exists>p'. SetXmax p i x = Some p' \<and> leaf_ok p' \<and> same_meta p p' \<and>
        recs p' = (recs p)[i := Slice (EncodeTuple (t\<lparr>Xmax := x\<rparr>))]"
    using SetXmax_ok [OF assms(1), of i t] assms(2) by metis
qed

theorem leaf_writes_witness:
  "\<exists>p p'. SetXmax p 0 9 = Some p' \<and> tuples_of (recs p') = [\<lparr>Xmin = 5, Xmax = 9, TFlags = 0, Key = [1], Value = [2]\<rparr>]"
proof -
  let ?t = "\<lparr>Xmin = 5, Xmax = 0, TFlags = 0, Key = [1], Value = [2]\<rparr>"
  have t: "tuple_ok ?t" "length (EncodeTuple ?t) \<le> 4060" by (simp_all add: tuple_ok_def)
  then obtain p where p: "leaf_ok p" "recs p = [Slice (EncodeTuple ?t)]" by (rule leaf_example)
  have "NumSlots p = 1" using arg_cong [OF p(2), of length] by simp
  with leaf_writes [OF p(1) t(1), of 0 9] p(2) obtain p' where
    "SetXmax p 0 9 = Some p'" "recs p' = [Slice (EncodeTuple (?t\<lparr>Xmax := 9\<rparr>))]"
    by auto
  moreover have "DecodeTuple (EncodeTuple (?t\<lparr>Xmax := 9\<rparr>)) = Inr (?t\<lparr>Xmax := 9\<rparr>)"
    by (rule DecodeTuple_EncodeTuple) (simp add: tuple_ok_def)
  ultimately show ?thesis by (intro exI [of _ p] exI [of _ p']) simp
qed

end
