(* ===== verification/Bloom.thy ===== *)
theory Bloom
  imports Prelude
begin

text \<open>
  The Bloom filters of the leaf pages (\<^verbatim>\<open>internal/btree/bloom.go\<close>): 1024 bits, three bit
  positions per key derived from the 64-bit FNV-1a hash, and the index from page id to filter.
  The methods of the index hold its lock, so each is one step.
\<close>

section \<open>Definitions\<close>

definition bloomBits :: nat where "bloomBits = 1024"
definition bloomBytes :: nat where "bloomBytes = bloomBits div 8"
definition bloomHashCount :: nat where "bloomHashCount = 3"

record BloomFilter =
  bfBits :: bytes

definition emptyBloomFilter :: BloomFilter where
  "emptyBloomFilter = \<lparr>bfBits = replicate bloomBytes 0\<rparr>"

definition fnv1a64 :: "bytes \<Rightarrow> u64 \<Rightarrow> u64" where
  "fnv1a64 data seed = foldl (\<lambda>h b. (h XOR ucast b) * 1099511628211) seed data"

definition bloomHashK :: "bytes \<Rightarrow> nat \<Rightarrow> nat" where
  "bloomHashK key k =
     (let h1 = fnv1a64 key 14695981039346656037;
          h2 = fnv1a64 key 2166136261;
          h = h1 + word_of_nat k * h2;
          h = (if k = 2 then h XOR fnv1a64 key 0xc4ceb9fe1a85ec53 else h)
      in unat (h mod word_of_nat bloomBits))"

definition set_bit_at :: "BloomFilter \<Rightarrow> nat \<Rightarrow> BloomFilter" where
  "set_bit_at f i = f\<lparr>bfBits := (bfBits f)[i div 8 := bfBits f ! (i div 8) OR push_bit (i mod 8) 1]\<rparr>"

definition AddFilter :: "BloomFilter \<Rightarrow> bytes \<Rightarrow> BloomFilter" where
  "AddFilter f key = foldl (\<lambda>f k. set_bit_at f (bloomHashK key k)) f [0..<bloomHashCount]"

definition MayContainFilter :: "BloomFilter \<Rightarrow> bytes \<Rightarrow> bool" where
  "MayContainFilter f key =
     list_all (\<lambda>k. let i = bloomHashK key k
                   in bfBits f ! (i div 8) AND push_bit (i mod 8) 1 \<noteq> 0) [0..<bloomHashCount]"

definition ResetFilter :: "BloomFilter \<Rightarrow> BloomFilter" where
  "ResetFilter f = f\<lparr>bfBits := replicate bloomBytes 0\<rparr>"

definition EncodeFilter :: "BloomFilter \<Rightarrow> bytes" where
  "EncodeFilter f = put_at (replicate bloomBytes 0) 0 (bfBits f)"

definition DecodeBloomFilter :: "bytes \<Rightarrow> BloomFilter" where
  "DecodeBloomFilter b =
     (let n = (if length b < bloomBytes then length b else bloomBytes)
      in emptyBloomFilter\<lparr>bfBits := put_at (bfBits emptyBloomFilter) 0 (take n b)\<rparr>)"

record BloomIndex =
  filters :: "u32 \<rightharpoonup> BloomFilter"

definition NewBloomIndex :: BloomIndex where
  "NewBloomIndex = \<lparr>filters = Map.empty\<rparr>"

definition BloomAdd :: "BloomIndex \<Rightarrow> u32 \<Rightarrow> bytes \<Rightarrow> BloomIndex" where
  "BloomAdd bi pageID key =
     (let f = (case filters bi pageID of Some f \<Rightarrow> f | None \<Rightarrow> emptyBloomFilter)
      in bi\<lparr>filters := (filters bi)(pageID \<mapsto> AddFilter f key)\<rparr>)"

definition BloomMayContain :: "BloomIndex \<Rightarrow> u32 \<Rightarrow> bytes \<Rightarrow> bool" where
  "BloomMayContain bi pageID key =
     (case filters bi pageID of None \<Rightarrow> True | Some f \<Rightarrow> MayContainFilter f key)"

definition BloomRebuild :: "BloomIndex \<Rightarrow> u32 \<Rightarrow> bytes list \<Rightarrow> BloomIndex" where
  "BloomRebuild bi pageID keys =
     (let f = foldl AddFilter emptyBloomFilter keys
      in bi\<lparr>filters := (filters bi)(pageID \<mapsto> f)\<rparr>)"

definition BloomRemove :: "BloomIndex \<Rightarrow> u32 \<Rightarrow> BloomIndex" where
  "BloomRemove bi pageID = bi\<lparr>filters := (filters bi)(pageID := None)\<rparr>"

section \<open>Filters have no false negatives\<close>

definition filter_ok :: "BloomFilter \<Rightarrow> bool" where
  "filter_ok f \<longleftrightarrow> length (bfBits f) = bloomBytes"

text \<open>Bit \<open>i\<close> of the filter.\<close>

definition fbit :: "BloomFilter \<Rightarrow> nat \<Rightarrow> bool" where
  "fbit f i \<longleftrightarrow> bit (bfBits f ! (i div 8)) (i mod 8)"

lemma and_push_bit_1: "(x :: byte) AND 2 ^ n \<noteq> 0 \<longleftrightarrow> bit x n"
  by (simp add: and_exp_eq_0_iff_not_bit)

lemma bloomHashK_bound: "bloomHashK key k < 1024"
proof -
  have "unat (h mod word_of_nat bloomBits) < 1024" for h :: u64
    by (simp add: unat_mod_distrib bloomBits_def)
  then show ?thesis by (simp add: bloomHashK_def Let_def)
qed

lemma MayContainFilter_bits: "MayContainFilter f key \<longleftrightarrow> (\<forall>k < 3. fbit f (bloomHashK key k))"
  by (simp add: MayContainFilter_def Let_def list_all_iff bloomHashCount_def fbit_def and_push_bit_1 Ball_def)

lemma fbit_set_bit_at:
  assumes "filter_ok f" and "i < 1024"
  shows "fbit (set_bit_at f i) j \<longleftrightarrow> (j = i \<or> fbit f j)" and "filter_ok (set_bit_at f i)"
proof -
  have l: "i div 8 < length (bfBits f)" using assms by (simp add: filter_ok_def bloomBytes_def bloomBits_def)
  show "filter_ok (set_bit_at f i)" using assms by (simp add: set_bit_at_def filter_ok_def)
  have "j = i \<longleftrightarrow> j div 8 = i div 8 \<and> j mod 8 = i mod 8" by (metis mult_div_mod_eq)
  with l show "fbit (set_bit_at f i) j \<longleftrightarrow> (j = i \<or> fbit f j)"
    by (cases "j div 8 = i div 8") (auto simp: fbit_def set_bit_at_def bit_simps)
qed

lemma fbit_AddFilter:
  assumes "filter_ok f"
  shows "fbit (AddFilter f key) j \<longleftrightarrow> (\<exists>k < 3. j = bloomHashK key k) \<or> fbit f j" and "filter_ok (AddFilter f key)"
proof -
  have *: "filter_ok (foldl (\<lambda>f k. set_bit_at f (bloomHashK key k)) f ks) \<and>
      (fbit (foldl (\<lambda>f k. set_bit_at f (bloomHashK key k)) f ks) j \<longleftrightarrow> (\<exists>k \<in> set ks. j = bloomHashK key k) \<or> fbit f j)"
    if "filter_ok f" for f ks
    using that
  proof (induction ks arbitrary: f)
    case (Cons k ks)
    have "filter_ok (set_bit_at f (bloomHashK key k))" "fbit (set_bit_at f (bloomHashK key k)) j \<longleftrightarrow> (j = bloomHashK key k \<or> fbit f j)"
      using fbit_set_bit_at [OF Cons.prems bloomHashK_bound] by blast+
    with Cons.IH [of "set_bit_at f (bloomHashK key k)"] show ?case by auto
  qed simp
  from * [OF assms, of "[0..<bloomHashCount]"]
  show "fbit (AddFilter f key) j \<longleftrightarrow> (\<exists>k < 3. j = bloomHashK key k) \<or> fbit f j" "filter_ok (AddFilter f key)"
    by (auto simp: AddFilter_def bloomHashCount_def Bex_def)
qed

lemma filter_ok_empty: "filter_ok emptyBloomFilter"
  by (simp add: filter_ok_def emptyBloomFilter_def)

lemma MayContain_AddFilter:
  assumes "filter_ok f"
  shows "MayContainFilter (AddFilter f key) key"
    and "MayContainFilter f key' \<Longrightarrow> MayContainFilter (AddFilter f key) key'"
  using fbit_AddFilter(1) [OF assms] by (auto simp: MayContainFilter_bits)

lemma MayContain_foldl:
  assumes "filter_ok f"
  shows "filter_ok (foldl AddFilter f keys) \<and>
    (\<forall>k. k \<in> set keys \<or> MayContainFilter f k \<longrightarrow> MayContainFilter (foldl AddFilter f keys) k)"
  using assms
proof (induction keys arbitrary: f)
  case (Cons x xs)
  with Cons.IH [OF fbit_AddFilter(2) [OF Cons.prems]] MayContain_AddFilter [OF Cons.prems] show ?case by auto
qed simp

section \<open>Histories of the index\<close>

datatype bloom_op = OpAdd u32 bytes | OpRebuild u32 "bytes list" | OpRemove u32

fun bloom_run :: "BloomIndex \<Rightarrow> bloom_op list \<Rightarrow> BloomIndex" where
  "bloom_run bi [] = bi"
| "bloom_run bi (OpAdd p k # ops) = bloom_run (BloomAdd bi p k) ops"
| "bloom_run bi (OpRebuild p ks # ops) = bloom_run (BloomRebuild bi p ks) ops"
| "bloom_run bi (OpRemove p # ops) = bloom_run (BloomRemove bi p) ops"

text \<open>The keys that a page holds after the operations, as its clients report them.\<close>

fun keys_run :: "(u32 \<Rightarrow> bytes set) \<Rightarrow> bloom_op list \<Rightarrow> u32 \<Rightarrow> bytes set" where
  "keys_run K [] = K"
| "keys_run K (OpAdd p k # ops) = keys_run (K(p := insert k (K p))) ops"
| "keys_run K (OpRebuild p ks # ops) = keys_run (K(p := set ks)) ops"
| "keys_run K (OpRemove p # ops) = keys_run (K(p := {})) ops"

definition index_covers :: "BloomIndex \<Rightarrow> (u32 \<Rightarrow> bytes set) \<Rightarrow> bool" where
  "index_covers bi K \<longleftrightarrow> (\<forall>p. filters bi p = None \<longrightarrow> K p = {}) \<and>
     (\<forall>p f. filters bi p = Some f \<longrightarrow> filter_ok f \<and> (\<forall>k \<in> K p. MayContainFilter f k))"

lemma index_covers_run: "index_covers bi K \<Longrightarrow> index_covers (bloom_run bi ops) (keys_run K ops)"
proof (induction bi ops arbitrary: K rule: bloom_run.induct)
  case (2 bi p k ops)
  have "index_covers (BloomAdd bi p k) (K(p := insert k (K p)))"
    using 2(2) filter_ok_empty MayContain_AddFilter fbit_AddFilter(2)
    by (auto simp: index_covers_def BloomAdd_def Let_def split: option.splits)
  then show ?case using 2(1) by simp
next
  case (3 bi p ks ops)
  have "index_covers (BloomRebuild bi p ks) (K(p := set ks))"
    using 3(2) MayContain_foldl [OF filter_ok_empty, of ks]
    by (auto simp: index_covers_def BloomRebuild_def Let_def)
  then show ?case using 3(1) by simp
next
  case (4 bi p ops)
  have "index_covers (BloomRemove bi p) (K(p := {}))"
    using 4(2) by (auto simp: index_covers_def BloomRemove_def)
  then show ?case using 4(1) by simp
qed simp



end
