(* ===== verification/Internal.thy ===== *)
theory Internal
  imports Slotted_Ops
begin

text \<open>
  Internal pages (\<^verbatim>\<open>internal/btree/internal.go\<close>): separator keys with the child to their
  right as the records of a slotted page, the leftmost child in the \<open>PrevSib\<close> field and the
  rightmost one in \<open>NextSib\<close>. \<open>FindChild\<close> is specified on pages without tombstones, which is what
  its callers keep: every deletion of a separator is followed by a compaction.
\<close>

section \<open>Definitions\<close>

record InternalRecord =
  irKey :: bytes
  irChildID :: u32

definition EncodeInternalRecord :: "InternalRecord \<Rightarrow> bytes" where
  "EncodeInternalRecord r =
     (let buf = replicate (2 + length (irKey r) + 4) 0;
          buf = PutUint16 buf 0 (word_of_nat (length (irKey r)));
          buf = put_at buf 2 (irKey r);
          buf = PutUint32 buf (2 + length (irKey r)) (irChildID r)
      in buf)"

definition DecodeInternalRecord :: "bytes \<Rightarrow> (error, InternalRecord) result" where
  "DecodeInternalRecord data =
     (if length data < 2 then Inl ErrInternalTooShort
      else let keyLen = unat (Uint16 data 0)
           in if length data < 2 + keyLen + 4 then Inl ErrInternalTruncated
              else Inr \<lparr> irKey = get_at data 2 keyLen, irChildID = Uint32 data (2 + keyLen) \<rparr>)"

definition InternalKeyExtract :: "bytes \<Rightarrow> slice" where
  "InternalKeyExtract data =
     (if length data < 2 then NilSlice
      else let keyLen = unat (Uint16 data 0)
           in if length data < 2 + keyLen then NilSlice
              else Slice (get_at data 2 keyLen))"

text \<open>The loop of \<open>bytesLessOrEqual\<close> over the common length.\<close>

fun lessOrEqualLoop :: "bytes \<Rightarrow> bytes \<Rightarrow> nat list \<Rightarrow> bool" where
  "lessOrEqualLoop a b [] \<longleftrightarrow> length a \<le> length b"
| "lessOrEqualLoop a b (i # is) \<longleftrightarrow>
     (if a ! i < b ! i then True else if a ! i > b ! i then False else lessOrEqualLoop a b is)"

definition bytesLessOrEqual :: "bytes \<Rightarrow> bytes \<Rightarrow> bool" where
  "bytesLessOrEqual a b =
     (let la = length a; lb = length b; minLen = (if lb < la then lb else la)
      in lessOrEqualLoop a b [0..<minLen])"

text \<open>\<open>r, _ := DecodeInternalRecord(data)\<close>: the error is dropped, and \<open>r\<close> is then the zero value.\<close>

definition decodedOrZero :: "slice \<Rightarrow> InternalRecord" where
  "decodedOrZero data =
     (case DecodeInternalRecord (bytes_of data) of
        Inr r \<Rightarrow> r | Inl _ \<Rightarrow> \<lparr>irKey = [], irChildID = 0\<rparr>)"

function findChildLoop :: "Page \<Rightarrow> bytes \<Rightarrow> int \<Rightarrow> int \<Rightarrow> int \<Rightarrow> int option" where
  "findChildLoop p key lo hi result =
     (if lo \<le> hi then do {
        let mid = (lo + hi) div 2;
        data \<leftarrow> GetRecord p (nat mid);
        (case data of
           NilSlice \<Rightarrow> findChildLoop p key (mid + 1) hi result
         | Slice bs \<Rightarrow>
             if bytesLessOrEqual (bytes_of (InternalKeyExtract bs)) key
             then findChildLoop p key (mid + 1) hi mid
             else findChildLoop p key lo (mid - 1) result) }
      else Some result)"
  by pat_completeness auto
termination
  by (relation "measure (\<lambda>(p, key, lo, hi, r). nat (hi - lo + 1))") auto

declare findChildLoop.simps [simp del]

definition FindChild :: "Page \<Rightarrow> bytes \<Rightarrow> u32 option" where
  "FindChild p key = do {
     let n = NumSlots p;
     result \<leftarrow> findChildLoop p key 0 (int n - 1) (-1);
     if result < 0 then Some (PrevSib p)
     else do {
       data \<leftarrow> GetRecord p (nat result);
       Some (irChildID (decodedOrZero data)) } }"

definition RightmostChild :: "Page \<Rightarrow> u32" where
  "RightmostChild p = NextSib p"

definition SetRightmostChild :: "Page \<Rightarrow> u32 \<Rightarrow> Page" where
  "SetRightmostChild p childID = SetNextSib p childID"

definition SetLeftmostChild :: "Page \<Rightarrow> u32 \<Rightarrow> Page" where
  "SetLeftmostChild p childID = SetPrevSib p childID"

definition LeftmostChild :: "Page \<Rightarrow> u32" where
  "LeftmostChild p = PrevSib p"

definition InsertKey :: "Page \<Rightarrow> bytes \<Rightarrow> u32 \<Rightarrow> ((error, unit) result \<times> Page) option" where
  "InsertKey p key rightChild = do {
     let encoded = EncodeInternalRecord \<lparr>irKey = key, irChildID = rightChild\<rparr>;
     (r, p) \<leftarrow> InsertRecord p encoded InternalKeyExtract;
     Some (case r of Inl e \<Rightarrow> Inl e | Inr _ \<Rightarrow> Inr (), p) }"

definition RemoveKey :: "Page \<Rightarrow> nat \<Rightarrow> Page option" where
  "RemoveKey p slotIdx = DeleteRecord p slotIdx"

section \<open>Comparison and records\<close>

lemma lessOrEqualLoop_drop:
  "i \<le> min (length a) (length b) \<Longrightarrow> lessOrEqualLoop a b [i..<min (length a) (length b)] \<longleftrightarrow> drop i a \<le> drop i b"
proof (induction "min (length a) (length b) - i" arbitrary: i)
  case 0
  then have i: "i = min (length a) (length b)" by simp
  show ?case
  proof (cases "length a \<le> length b")
    case False
    then have "drop i b = []" "drop i a \<noteq> []" using i by simp_all
    then have "\<not> drop i a \<le> drop i b" by (cases "drop i a") auto
    with False i show ?thesis by simp
  qed (simp add: i)
next
  case (Suc n)
  then have i: "i < length a" "i < length b" by auto
  then have "[i..<min (length a) (length b)] = i # [Suc i..<min (length a) (length b)]"
    by (intro upt_conv_Cons) simp
  moreover have "drop i a = a ! i # drop (Suc i) a" "drop i b = b ! i # drop (Suc i) b"
    using i by (simp_all add: Cons_nth_drop_Suc)
  moreover have "lessOrEqualLoop a b [Suc i..<min (length a) (length b)] \<longleftrightarrow> drop (Suc i) a \<le> drop (Suc i) b"
    using Suc i by (intro Suc.hyps(1)) auto
  ultimately show ?case by (auto simp: Cons_le_Cons)
qed

lemma bytesLessOrEqual_le: "bytesLessOrEqual a b \<longleftrightarrow> a \<le> b"
proof -
  have "(if length b < length a then length b else length a) = min (length a) (length b)" by simp
  with lessOrEqualLoop_drop [of 0 a b] show ?thesis by (simp only: bytesLessOrEqual_def Let_def) simp
qed

definition irec_ok :: "InternalRecord \<Rightarrow> bool" where
  "irec_ok r \<longleftrightarrow> length (irKey r) < 65536"

lemma length_EncodeInternalRecord [simp]: "length (EncodeInternalRecord r) = 6 + length (irKey r)"
  by (simp add: EncodeInternalRecord_def Let_def)

lemma EncodeInternalRecord_nonempty [simp]: "EncodeInternalRecord r \<noteq> []"
  using length_EncodeInternalRecord [of r] by fastforce

lemma EncodeInternalRecord_append:
  "EncodeInternalRecord r = le_bytes 2 (unat (word_of_nat (length (irKey r)) :: u16)) @ irKey r @
     le_bytes 4 (unat (irChildID r))"
proof -
  define k where "k = irKey r"
  define a c where "a = le_bytes 2 (unat (word_of_nat (length k) :: u16))" and "c = le_bytes 4 (unat (irChildID r))"
  have l: "length a = 2" "length c = 4" by (simp_all add: a_def c_def)
  have p1: "put_at (replicate (2 + length k + 4) 0) 0 a = a @ replicate (length k + 4) 0"
    using l by (simp add: put_at_def)
  have p2: "put_at (a @ replicate (length k + 4) 0) 2 k = (a @ k) @ replicate 4 0"
    using l by (simp add: put_at_def)
  have p3: "put_at ((a @ k) @ replicate 4 0) (2 + length k) c = a @ k @ c"
    using l by (simp add: put_at_def)
  show ?thesis
    unfolding EncodeInternalRecord_def Let_def le_defs k_def [symmetric] a_def [symmetric] c_def [symmetric]
    using p1 p2 p3 by simp
qed

lemma DecodeInternalRecord_Encode: "irec_ok r \<Longrightarrow> DecodeInternalRecord (EncodeInternalRecord r) = Inr r"
  and InternalKeyExtract_Encode: "irec_ok r \<Longrightarrow> InternalKeyExtract (EncodeInternalRecord r) = Slice (irKey r)"
proof -
  assume ok: "irec_ok r"
  have k: "unat (Uint16 (EncodeInternalRecord r) 0) = length (irKey r)"
    using ok by (simp add: EncodeInternalRecord_append Uint16_def get_at_def le_val_le_bytes irec_ok_def unat_of_nat)
  have c: "Uint32 (EncodeInternalRecord r) (2 + length (irKey r)) = irChildID r"
    using u32_bound [of "irChildID r"]
    by (simp add: EncodeInternalRecord_append Uint32_def get_at_def le_val_le_bytes)
  have g: "get_at (EncodeInternalRecord r) 2 (length (irKey r)) = irKey r"
    by (simp add: EncodeInternalRecord_append get_at_def)
  show "DecodeInternalRecord (EncodeInternalRecord r) = Inr r"
    using k c g by (simp add: DecodeInternalRecord_def)
  show "InternalKeyExtract (EncodeInternalRecord r) = Slice (irKey r)"
    using k g by (simp add: InternalKeyExtract_def)
qed

section \<open>The invariant of an internal page\<close>

definition internal_ok :: "Page \<Rightarrow> bool" where
  "internal_ok p \<longleftrightarrow> page_wf p \<and> keys_sorted InternalKeyExtract (recs p) \<and>
     (\<forall>s \<in> set (recs p). \<exists>r. irec_ok r \<and> s = Slice (EncodeInternalRecord r))"

text \<open>The separators of a page, in order.\<close>

definition seps :: "Page \<Rightarrow> InternalRecord list" where
  "seps p = map decodedOrZero (recs p)"

lemma internal_okD:
  assumes "internal_ok p"
  shows "page_wf p" and "keys_sorted InternalKeyExtract (recs p)"
    and "i < NumSlots p \<Longrightarrow> recs p ! i = Slice (EncodeInternalRecord (seps p ! i)) \<and> irec_ok (seps p ! i)"
    and "recs p = map (\<lambda>r. Slice (EncodeInternalRecord r)) (seps p)" and "\<forall>r \<in> set (seps p). irec_ok r"
proof -
  show "page_wf p" "keys_sorted InternalKeyExtract (recs p)" using assms by (simp_all add: internal_ok_def)
  have *: "recs p ! i = Slice (EncodeInternalRecord (seps p ! i)) \<and> irec_ok (seps p ! i)" if "i < NumSlots p" for i
  proof -
    have "recs p ! i \<in> set (recs p)" using that by simp
    then obtain r where "irec_ok r" "recs p ! i = Slice (EncodeInternalRecord r)"
      using assms unfolding internal_ok_def by blast
    then show ?thesis using that by (simp add: seps_def decodedOrZero_def DecodeInternalRecord_Encode)
  qed
  then show "i < NumSlots p \<Longrightarrow> recs p ! i = Slice (EncodeInternalRecord (seps p ! i)) \<and> irec_ok (seps p ! i)" .
  show "recs p = map (\<lambda>r. Slice (EncodeInternalRecord r)) (seps p)"
    using * by (intro nth_equalityI) (simp_all add: seps_def)
  show "\<forall>r \<in> set (seps p). irec_ok r"
    using * by (auto simp: in_set_conv_nth) (simp add: seps_def)
qed

lemma length_seps [simp]: "length (seps p) = NumSlots p"
  by (simp add: seps_def)

lemma seps_sorted:
  assumes "internal_ok p" and "i \<le> j" and "j < NumSlots p"
  shows "irKey (seps p ! i) \<le> irKey (seps p ! j)"
proof -
  have "recs p ! i = Slice (EncodeInternalRecord (seps p ! i)) \<and> irec_ok (seps p ! i)"
    "recs p ! j = Slice (EncodeInternalRecord (seps p ! j)) \<and> irec_ok (seps p ! j)"
    using internal_okD(3) [OF assms(1)] assms(2,3) by simp_all
  with keys_sortedD [OF internal_okD(2) [OF assms(1)] assms(2), of "EncodeInternalRecord (seps p ! i)"
      "EncodeInternalRecord (seps p ! j)"] assms(3)
  show ?thesis by (simp add: InternalKeyExtract_Encode)
qed

text \<open>The child a key belongs to: right of the last separator not above it, or the leftmost.\<close>

definition child_for :: "Page \<Rightarrow> bytes \<Rightarrow> u32" where
  "child_for p key =
     (let rs = filter (\<lambda>r. irKey r \<le> key) (seps p) in if rs = [] then PrevSib p else irChildID (last rs))"

lemma findChildLoop_spec:
  assumes ok: "internal_ok p"
  shows "0 \<le> lo \<Longrightarrow> lo \<le> hi + 1 \<Longrightarrow> hi < int (NumSlots p) \<Longrightarrow>
    (\<forall>i < NumSlots p. int i < lo \<longrightarrow> irKey (seps p ! i) \<le> key) \<Longrightarrow>
    (\<forall>i < NumSlots p. hi < int i \<longrightarrow> key < irKey (seps p ! i)) \<Longrightarrow>
    \<exists>k \<le> NumSlots p. findChildLoop p key lo hi (lo - 1) = Some (int k - 1) \<and>
      (\<forall>i < NumSlots p. irKey (seps p ! i) \<le> key \<longleftrightarrow> i < k)"
proof (induction "nat (hi - lo + 1)" arbitrary: lo hi rule: less_induct)
  case less
  show ?case
  proof (cases "lo \<le> hi")
    case False
    with less.prems have e: "lo = hi + 1" by simp
    have "irKey (seps p ! i) \<le> key \<longleftrightarrow> i < nat lo" if "i < NumSlots p" for i
      using less.prems(1,4,5) that e by (metis leD linorder_not_less nat_less_iff not_less_iff_gr_or_eq zless_nat_eq_int_zless zle_add1_eq_le)
    with e less.prems(1,3) show ?thesis
      by (intro exI [of _ "nat lo"]) (simp add: findChildLoop.simps nat_le_iff)
  next
    case True
    define mid where "mid = (lo + hi) div 2"
    have m: "lo \<le> mid" "mid \<le> hi" "nat mid < NumSlots p" using True less.prems(1,3) by (auto simp: mid_def nat_less_iff)
    note S = internal_okD(3) [OF ok m(3)]
    have get: "GetRecord p (nat mid) = Some (Slice (EncodeInternalRecord (seps p ! nat mid)))"
      using sp.fetch_law [OF internal_okD(1) [OF ok]] m(3) S by simp
    have cmp: "bytesLessOrEqual (bytes_of (InternalKeyExtract (EncodeInternalRecord (seps p ! nat mid)))) key
        \<longleftrightarrow> irKey (seps p ! nat mid) \<le> key"
      using S by (simp add: InternalKeyExtract_Encode bytesLessOrEqual_le)
    have unf: "findChildLoop p key lo hi (lo - 1) = (if irKey (seps p ! nat mid) \<le> key
        then findChildLoop p key (mid + 1) hi mid else findChildLoop p key lo (mid - 1) (lo - 1))"
      using True get cmp by (simp add: findChildLoop.simps [of p key lo hi] mid_def [symmetric] Let_def)
    show ?thesis
    proof (cases "irKey (seps p ! nat mid) \<le> key")
      case le: True
      have "irKey (seps p ! i) \<le> key" if "i < NumSlots p" "int i < mid + 1" for i
      proof -
        have "i \<le> nat mid" using that m less.prems(1) by linarith
        with seps_sorted [OF ok this m(3)] le show ?thesis by (meson order_trans)
      qed
      with less.hyps [of hi "mid + 1"] less.prems m le unf show ?thesis by simp
    next
      case gt: False
      have "key < irKey (seps p ! i)" if "i < NumSlots p" "mid - 1 < int i" for i
      proof -
        have "nat mid \<le> i" using that m less.prems(1) by linarith
        with seps_sorted [OF ok this that(1)] gt show ?thesis by (meson not_le order_less_le_trans)
      qed
      with less.hyps [of "mid - 1" lo] less.prems m gt unf show ?thesis by simp
    qed
  qed
qed

lemma filter_prefix:
  assumes "\<And>i. i < length xs \<Longrightarrow> P (xs ! i) \<longleftrightarrow> i < k" and "k \<le> length xs"
  shows "filter P xs = take k xs"
proof -
  have "filter P (take k xs) = take k xs" using assms by (auto simp: filter_id_conv in_set_conv_nth)
  moreover have "filter P (drop k xs) = []" using assms by (auto simp: filter_empty_conv in_set_conv_nth)
  ultimately show ?thesis by (metis append_Nil2 append_take_drop_id filter_append)
qed

lemma FindChild_child_for:
  assumes ok: "internal_ok p"
  shows "FindChild p key = Some (child_for p key)"
proof -
  obtain k where k: "k \<le> NumSlots p" "findChildLoop p key 0 (int (NumSlots p) - 1) (-1) = Some (int k - 1)"
    "\<And>i. i < NumSlots p \<Longrightarrow> irKey (seps p ! i) \<le> key \<longleftrightarrow> i < k"
    using findChildLoop_spec [OF ok, of 0 "int (NumSlots p) - 1" key] by auto
  have f: "filter (\<lambda>r. irKey r \<le> key) (seps p) = take k (seps p)" using k by (intro filter_prefix) simp_all
  show ?thesis
  proof (cases "k = 0")
    case True
    with k(2) f show ?thesis by (simp add: FindChild_def child_for_def)
  next
    case False
    then have lt: "k - 1 < NumSlots p" using k(1) by simp
    have get: "GetRecord p (k - 1) = Some (Slice (EncodeInternalRecord (seps p ! (k - 1))))"
      using sp.fetch_law [OF internal_okD(1) [OF ok]] lt internal_okD(3) [OF ok lt] by simp
    have lk: "length (take k (seps p)) = k" using k(1) by simp
    with False have ne: "take k (seps p) \<noteq> []" by (metis list.size(3))
    have "last (take k (seps p)) = seps p ! (k - 1)"
      using last_conv_nth [OF ne] lk False by simp
    with ne get False k(2) f internal_okD(3) [OF ok lt] show ?thesis
      by (simp add: FindChild_def child_for_def decodedOrZero_def DecodeInternalRecord_Encode nat_diff_distrib)
  qed
qed

section \<open>Insertion of a separator\<close>

lemma InsertKey_ok:
  assumes ok: "internal_ok p" and len: "length key < 65536"
  shows "if room_of p < length key + 10 then InsertKey p key c = Some (Inl ErrPageFull, p)
    else \<exists>pos p'. InsertKey p key c = Some (Inr (), p') \<and> internal_ok p' \<and> same_meta p p' \<and> pos \<le> NumSlots p \<and>
      seps p' = insert_at pos \<lparr>irKey = key, irChildID = c\<rparr> (seps p) \<and>
      (\<forall>r \<in> set (take pos (seps p)). irKey r \<le> key) \<and> (\<forall>r \<in> set (drop pos (seps p)). key < irKey r)"
proof (cases "room_of p < length key + 10")
  case True
  let ?r = "\<lparr>irKey = key, irChildID = c\<rparr>"
  from True have "room_of p < length (EncodeInternalRecord ?r) + 4" by simp
  from sp.full_law [OF this, of InternalKeyExtract] True show ?thesis by (simp add: InsertKey_def)
next
  case False
  let ?r = "\<lparr>irKey = key, irChildID = c\<rparr>" and ?ke = InternalKeyExtract
  note D = internal_okD [OF ok]
  have r: "irec_ok ?r" using len by (simp add: irec_ok_def)
  have "length (EncodeInternalRecord ?r) + 4 \<le> room_of p" using False by simp
  with sp.ins_law [OF D(1,2), of "EncodeInternalRecord ?r"] obtain pos p' where
    i: "InsertRecord p (EncodeInternalRecord ?r) ?ke = Some (Inr pos, p')"
    and b: "all_below (\<lambda>bs. key_of ?ke bs \<le> key) (recs p) (int pos)"
      "all_from (\<lambda>bs. key < key_of ?ke bs) (recs p) (int pos)"
    using InternalKeyExtract_Encode [OF r] by auto
  note S = sp.ins_sorted [OF D(1,2) EncodeInternalRecord_nonempty i]
  have pos: "pos \<le> NumSlots p" using S(4) by simp
  have sp': "seps p' = insert_at pos ?r (seps p)"
    using S(5) r by (simp add: seps_def map_insert_at decodedOrZero_def DecodeInternalRecord_Encode)
  have "internal_ok p'" using S ok r by (auto simp: internal_ok_def)
  moreover have "irKey x \<le> key" if "x \<in> set (take pos (seps p))" for x
  proof -
    from that obtain j where j: "j < pos" "j < NumSlots p" "x = seps p ! j" by (auto simp: in_set_conv_nth)
    with b(1) D(3) [OF j(2)] show ?thesis by (auto simp: all_below_def InternalKeyExtract_Encode)
  qed
  moreover have "key < irKey x" if "x \<in> set (drop pos (seps p))" for x
  proof -
    from that obtain j where "j < NumSlots p - pos" "x = seps p ! (pos + j)"
      by (auto simp: in_set_conv_nth)
    then have "pos + j < NumSlots p" "x = seps p ! (pos + j)" by simp_all
    with b(2) D(3) [of "pos + j"] show ?thesis by (auto simp: all_from_def InternalKeyExtract_Encode)
  qed
  ultimately have "\<exists>pos p'. InsertKey p key c = Some (Inr (), p') \<and> internal_ok p' \<and> same_meta p p' \<and>
      pos \<le> NumSlots p \<and> seps p' = insert_at pos ?r (seps p) \<and>
      (\<forall>r \<in> set (take pos (seps p)). irKey r \<le> key) \<and> (\<forall>r \<in> set (drop pos (seps p)). key < irKey r)"
    using i S(2) sp' pos by (intro exI [of _ pos] exI [of _ p']) (simp add: InsertKey_def)
  with False show ?thesis by simp
qed

text \<open>
  Routing in an internal page: \<open>FindChild\<close> never panics and returns the child to the right of
  the last separator that is not above the key, or the leftmost child when every separator is
  above it; the comparison it uses is the lexicographic order.
\<close>

theorem FindChild_correct:
  assumes "internal_ok p"
  shows "FindChild p key = Some (child_for p key) \<and> (bytesLessOrEqual a b \<longleftrightarrow> bytes_Compare a b \<le> 0)"
  using FindChild_child_for [OF assms] by (simp add: bytesLessOrEqual_le)

lemma internal_ok_Init: "page_ok p \<Longrightarrow> internal_ok (Init p t)"
  using page_wf_Init [of p t] by (simp add: internal_ok_def keys_sorted_def)

theorem FindChild_correct_witness:
  "FindChild (SetPrevSib (Init \<lparr>ID = 3, Data = replicate 4096 0\<rparr> PageTypeInternal) 8) [1] = Some 8"
proof -
  let ?p = "Init \<lparr>ID = 3, Data = replicate 4096 0\<rparr> PageTypeInternal"
  have pok: "page_ok ?p" using Init_sel(1) [OF page_ok_zero] .
  note S = SetPrevSib_sel [OF pok, of 8]
  have n: "NumSlots (SetPrevSib ?p 8) = 0" "PrevSib (SetPrevSib ?p 8) = 8"
    using S(3,5) Init_sel(3) [OF page_ok_zero, of 3 PageTypeInternal] by simp_all
  then have e: "slots (SetPrevSib ?p 8) = []" "recs (SetPrevSib ?p 8) = []" by (simp_all add: recs_def slots_of_def)
  have f: "free_end (SetPrevSib ?p 8) = 4096" "free_start (SetPrevSib ?p 8) = 32"
    using S(8,9) Init_sel(8,9) [OF page_ok_zero, of 3 PageTypeInternal] by (simp_all add: free_end_def free_start_def)
  have "internal_ok (SetPrevSib ?p 8)"
    using S(1) n f unfolding internal_ok_def page_wf_def e by (simp add: keys_sorted_def area_ok_def page_consts)
  from FindChild_correct [OF this, of "[1]" "[]" "[]"] n show ?thesis by (simp add: child_for_def seps_def e)
qed

text \<open>
  C36. Inserting a separator after a split redirects exactly the keys of the new right page: after
  a successful \<open>InsertKey\<close> a key goes to the new child if it is at least the new separator and no
  greater separator is at most the key, and to the same child as before otherwise. On a full page
  nothing changes.
\<close>

theorem InsertKey_routes:
  assumes "internal_ok p" and "length sep < 65536"
  shows "if room_of p < length sep + 10 then InsertKey p sep c = Some (Inl ErrPageFull, p)
    else \<exists>p'. InsertKey p sep c = Some (Inr (), p') \<and> internal_ok p' \<and>
      (\<forall>key. FindChild p' key = (if sep \<le> key \<and> (\<forall>r \<in> set (seps p). sep < irKey r \<longrightarrow> key < irKey r)
         then Some c else FindChild p key))"
proof (cases "room_of p < length sep + 10")
  case True
  with InsertKey_ok [OF assms, of c] show ?thesis by simp
next
  case False
  with InsertKey_ok [OF assms, of c] obtain pos p' where *: "InsertKey p sep c = Some (Inr (), p')" "internal_ok p'"
    "same_meta p p'" "seps p' = insert_at pos \<lparr>irKey = sep, irChildID = c\<rparr> (seps p)"
    and lo: "\<forall>r \<in> set (take pos (seps p)). irKey r \<le> sep" and up: "\<forall>r \<in> set (drop pos (seps p)). sep < irKey r"
    by auto
  have route: "child_for p' key = (if sep \<le> key \<and> (\<forall>r \<in> set (seps p). sep < irKey r \<longrightarrow> key < irKey r)
      then c else child_for p key)" for key
  proof -
    let ?F = "filter (\<lambda>r. irKey r \<le> key)" and ?r = "\<lparr>irKey = sep, irChildID = c\<rparr>"
    have f: "?F (seps p) = ?F (take pos (seps p)) @ ?F (drop pos (seps p))"
      by (metis append_take_drop_id filter_append)
    have f': "?F (seps p') = ?F (take pos (seps p)) @ (if sep \<le> key then [?r] else []) @ ?F (drop pos (seps p))"
      using *(4) by (simp add: insert_at_def)
    have prev: "PrevSib p' = PrevSib p" using *(3) by (simp add: same_meta_def)
    have empty: "?F (drop pos (seps p)) = [] \<longleftrightarrow> (\<forall>r \<in> set (seps p). sep < irKey r \<longrightarrow> key < irKey r)" if "sep \<le> key"
    proof -
      have "set (seps p) = set (take pos (seps p)) \<union> set (drop pos (seps p))"
        by (metis append_take_drop_id set_append)
      with lo up show ?thesis by (auto simp: filter_empty_conv not_le)
    qed
    show ?thesis
    proof (cases "sep \<le> key")
      case True
      with f f' prev empty [OF True] show ?thesis by (cases "?F (drop pos (seps p)) = []") (auto simp: child_for_def Let_def)
    next
      case False
      with f f' prev show ?thesis by (simp add: child_for_def)
    qed
  qed
  show ?thesis
    using False * route FindChild_child_for [OF *(2)] FindChild_child_for [OF assms(1)] by auto
qed

theorem InsertKey_routes_witness:
  "\<exists>p'. InsertKey (Init \<lparr>ID = 3, Data = replicate 4096 0\<rparr> PageTypeInternal) [5] 9 = Some (Inr (), p') \<and>
     FindChild p' [7] = Some 9"
proof -
  let ?p = "Init \<lparr>ID = 3, Data = replicate 4096 0\<rparr> PageTypeInternal"
  have ok: "internal_ok ?p" by (rule internal_ok_Init [OF page_ok_zero])
  have "room_of ?p = 4064" "seps ?p = []"
    using page_wf_Init [OF page_ok_zero, of 3 PageTypeInternal] by (simp_all add: room_of_def seps_def)
  with InsertKey_routes [OF ok, of "[5]" 9] show ?thesis by auto
qed

end
