(* ===== verification/Eviction.thy ===== *)
theory Eviction
  imports Page
begin

text \<open>
  Buffer frames and the two eviction policies (\<^verbatim>\<open>internal/buffer/frame.go\<close> and
  \<^verbatim>\<open>internal/buffer/policy.go\<close>). A frame pointer is the index of the frame in the pool. Pin
  counts are unbounded integers: the code never holds anywhere near \<open>2^31\<close> pins.
\<close>

section \<open>Definitions\<close>

record Frame =
  fPageID :: u32
  fData :: bytes
  fPinCount :: int
  fDirty :: bool
  fRefBit :: bool
  fRecLSN :: u64
  fAccessCount :: u64
  fAccessHist0 :: u64
  fAccessHist1 :: u64

definition emptyFrame :: Frame where
  "emptyFrame = \<lparr>fPageID = 0, fData = replicate PageSize 0, fPinCount = 0, fDirty = False, fRefBit = False,
     fRecLSN = 0, fAccessCount = 0, fAccessHist0 = 0, fAccessHist1 = 0\<rparr>"

definition SetRecLSN :: "Frame \<Rightarrow> u64 \<Rightarrow> Frame" where
  "SetRecLSN f lsn = (if fRecLSN f = 0 then f\<lparr>fRecLSN := lsn\<rparr> else f)"

definition ResetFrame :: "Frame \<Rightarrow> Frame" where
  "ResetFrame f = f\<lparr>fPageID := 0, fDirty := False, fRefBit := False, fRecLSN := 0, fAccessCount := 0,
     fAccessHist0 := 0, fAccessHist1 := 0\<rparr>"

definition FramePage :: "Frame \<Rightarrow> u32 \<Rightarrow> Page" where
  "FramePage f i = \<lparr>ID = i, Data = fData f\<rparr>"

subsection \<open>Clock\<close>

record ClockPolicy =
  hand :: nat

definition ClockOnAccess :: "ClockPolicy \<Rightarrow> nat \<Rightarrow> Frame list \<Rightarrow> ClockPolicy \<times> Frame list" where
  "ClockOnAccess p i frames = (p, frames[i := (frames ! i)\<lparr>fRefBit := True\<rparr>])"

text \<open>One pass of the clock over \<open>left\<close> frames; the result is the victim, if one was found.\<close>

fun clockPass :: "nat \<Rightarrow> nat \<Rightarrow> ClockPolicy \<Rightarrow> Frame list \<Rightarrow> nat option \<times> ClockPolicy \<times> Frame list" where
  "clockPass pass 0 p frames = (None, p, frames)"
| "clockPass pass (Suc left) p frames =
     (let p = p\<lparr>hand := (hand p + 1) mod length frames\<rparr>;
          f = frames ! hand p
      in if fPinCount f > 0 then clockPass pass left p frames
         else if fPageID f = 0 then (Some (hand p), p, frames)
         else if fRefBit f \<and> pass = 0
           then clockPass pass left p (frames[hand p := f\<lparr>fRefBit := False\<rparr>])
         else (Some (hand p), p, frames))"

definition ClockChooseVictim :: "ClockPolicy \<Rightarrow> Frame list \<Rightarrow> int \<times> ClockPolicy \<times> Frame list" where
  "ClockChooseVictim p frames =
     (let n = length frames
      in case clockPass 0 n p frames of
           (Some v, p, frames) \<Rightarrow> (int v, p, frames)
         | (None, p, frames) \<Rightarrow>
             (case clockPass 1 n p frames of
                (Some v, p, frames) \<Rightarrow> (int v, p, frames)
              | (None, p, frames) \<Rightarrow> (-1, p, frames)))"

subsection \<open>LRU-K\<close>

record LRUKPolicy =
  lruK :: nat
  tick :: u64

definition NewLRUKPolicy :: "int \<Rightarrow> LRUKPolicy" where
  "NewLRUKPolicy k = \<lparr>lruK = (if k < 1 then 2 else nat k), tick = 0\<rparr>"

definition LRUKOnAccess :: "LRUKPolicy \<Rightarrow> nat \<Rightarrow> Frame list \<Rightarrow> LRUKPolicy \<times> Frame list" where
  "LRUKOnAccess p i frames =
     (let t = tick p + 1;
          f = frames ! i;
          f = (if fAccessCount f \<ge> 1 then f\<lparr>fAccessHist0 := fAccessHist1 f\<rparr> else f);
          f = f\<lparr>fAccessHist1 := t\<rparr>;
          f = f\<lparr>fAccessCount := fAccessCount f + 1\<rparr>
      in (p\<lparr>tick := t\<rparr>, frames[i := f]))"

text \<open>
  The loop over the frames; the accumulator holds \<open>fifoIdx\<close>, \<open>fifoFirst\<close>, \<open>estIdx\<close> and \<open>estDist\<close>,
  and the result is \<^term>\<open>Inl i\<close> for the immediate return of an empty frame.
\<close>

fun lrukLoop ::
  "LRUKPolicy \<Rightarrow> u64 \<Rightarrow> (nat \<times> Frame) list \<Rightarrow> int \<times> u64 \<times> int \<times> u64 \<Rightarrow> int + (int \<times> u64 \<times> int \<times> u64)" where
  "lrukLoop p now [] acc = Inr acc"
| "lrukLoop p now ((i, f) # rest) (fifoIdx, fifoFirst, estIdx, estDist) =
     (if fPinCount f > 0 then lrukLoop p now rest (fifoIdx, fifoFirst, estIdx, estDist)
      else if fPageID f = 0 then Inl (int i)
      else if unat (fAccessCount f) < lruK p then
        let first = (if fAccessCount f = 0 then 0 else fAccessHist1 f)
        in if first < fifoFirst
           then lrukLoop p now rest (int i, first, estIdx, estDist)
           else lrukLoop p now rest (fifoIdx, fifoFirst, estIdx, estDist)
      else
        let dist = now - fAccessHist0 f
        in if dist > estDist
           then lrukLoop p now rest (fifoIdx, fifoFirst, int i, dist)
           else lrukLoop p now rest (fifoIdx, fifoFirst, estIdx, estDist))"

definition LRUKChooseVictim :: "LRUKPolicy \<Rightarrow> Frame list \<Rightarrow> int \<times> LRUKPolicy \<times> Frame list" where
  "LRUKChooseVictim p frames =
     (let now = tick p
      in case lrukLoop p now (enumerate 0 frames) (-1, - 1, -1, 0) of
           Inl i \<Rightarrow> (i, p, frames)
         | Inr (fifoIdx, fifoFirst, estIdx, estDist) \<Rightarrow>
             (if fifoIdx \<ge> 0 then fifoIdx else estIdx, p, frames))"

section \<open>The interface of an eviction policy\<close>

text \<open>
  What the pool needs of a policy: it only touches the bookkeeping fields of frames, its
  victim is an unpinned frame, and it fails only when every frame is pinned. \<open>live_pol\<close> is the
  policy's own invariant, relative to the frames.
\<close>

definition same_frame :: "Frame \<Rightarrow> Frame \<Rightarrow> bool" where
  "same_frame f g \<longleftrightarrow> fPageID g = fPageID f \<and> fData g = fData f \<and> fPinCount g = fPinCount f \<and>
     fDirty g = fDirty f \<and> fRecLSN g = fRecLSN f"

lemma same_frame_refl [simp]: "same_frame f f"
  by (simp add: same_frame_def)

lemma same_frame_trans: "same_frame f g \<Longrightarrow> same_frame g h \<Longrightarrow> same_frame f h"
  by (simp add: same_frame_def)

locale eviction_policy =
  fixes touch :: "'p \<Rightarrow> nat \<Rightarrow> Frame list \<Rightarrow> 'p \<times> Frame list"
    and pick :: "'p \<Rightarrow> Frame list \<Rightarrow> int \<times> 'p \<times> Frame list"
    and live_pol :: "'p \<Rightarrow> Frame list \<Rightarrow> bool"
  assumes touch_frames: "i < length fs \<Longrightarrow> list_all2 same_frame fs (snd (touch p i fs))"
    and pick_frames: "pick p fs = (v, p', fs') \<Longrightarrow> list_all2 same_frame fs fs'"
    and pick_unpinned: "pick p fs = (v, p', fs') \<Longrightarrow> 0 \<le> v \<Longrightarrow>
      v < int (length fs) \<and> fPinCount (fs ! nat v) \<le> 0"
    and pick_none: "live_pol p fs \<Longrightarrow> pick p fs = (v, p', fs') \<Longrightarrow> v < 0 \<Longrightarrow>
      v = -1 \<and> (\<forall>f \<in> set fs. fPinCount f > 0)"
begin

lemma pick_total:
  assumes "live_pol p fs" and "\<exists>f \<in> set fs. fPinCount f \<le> 0"
  shows "\<exists>v p' fs'. pick p fs = (int v, p', fs') \<and> v < length fs \<and> fPinCount (fs ! v) \<le> 0"
proof -
  obtain v p' fs' where c: "pick p fs = (v, p', fs')" by (metis prod_cases3)
  have "0 \<le> v" using pick_none [OF assms(1) c] assms(2) by force
  with pick_unpinned [OF c this] c show ?thesis by (intro exI [of _ "nat v"]) auto
qed

end

section \<open>The clock satisfies the interface\<close>

text \<open>The positions the hand visits, in order, from \<open>h\<close> on.\<close>

lemma same_frame_RefBit: "same_frame f (f\<lparr>fRefBit := b\<rparr>)"
  by (simp add: same_frame_def)

lemma all2_update:
  assumes "list_all2 same_frame fs gs" and "same_frame (gs ! i) g"
  shows "list_all2 same_frame fs (gs[i := g])"
proof (cases "i < length gs")
  case True
  with assms show ?thesis
    using same_frame_trans [of "fs ! i" "gs ! i" g] by (auto simp: list_all2_conv_all_nth nth_list_update)
next
  case False
  with assms(1) show ?thesis by (simp add: list_update_beyond)
qed

lemma all2_same_refl: "list_all2 same_frame fs fs"
  by (simp add: list_all2_conv_all_nth)

lemma clockPass_frames:
  "list_all2 same_frame fs (snd (snd (clockPass pass left p fs)))"
proof (induction pass left p fs rule: clockPass.induct)
  case (2 pass left p fs)
  let ?p = "p\<lparr>hand := (hand p + 1) mod length fs\<rparr>"
  let ?f = "fs ! hand ?p"
  let ?fs = "fs[hand ?p := ?f\<lparr>fRefBit := False\<rparr>]"
  have a: "list_all2 same_frame fs ?fs" by (intro all2_update all2_same_refl same_frame_RefBit)
  have "list_all2 same_frame ?fs (snd (snd (clockPass pass left ?p ?fs)))"
    if "\<not> fPinCount ?f > 0" "fPageID ?f \<noteq> 0" "fRefBit ?f \<and> pass = 0"
    using "2.IH"(2) [OF refl refl] that by simp
  with a have b: "list_all2 same_frame fs (snd (snd (clockPass pass left ?p ?fs)))"
    if "\<not> fPinCount ?f > 0" "fPageID ?f \<noteq> 0" "fRefBit ?f \<and> pass = 0"
    using that list_all2_trans [of same_frame same_frame same_frame] same_frame_trans by blast
  show ?case
    using "2.IH"(1) [OF refl refl] b by (simp add: Let_def all2_same_refl)
qed (simp add: all2_same_refl)

lemma clockPass_victim:
  assumes "clockPass pass left p fs = (Some v, p', fs')" and "fs \<noteq> []"
  shows "v < length fs \<and> fPinCount (fs ! v) \<le> 0"
  using assms
proof (induction pass left p fs rule: clockPass.induct)
  case (2 pass left p fs)
  let ?p = "p\<lparr>hand := (hand p + 1) mod length fs\<rparr>"
  let ?f = "fs ! hand ?p"
  let ?fs = "fs[hand ?p := ?f\<lparr>fRefBit := False\<rparr>]"
  have h: "hand ?p < length fs" using "2.prems"(2) by simp
  consider "fPinCount ?f > 0" | "\<not> fPinCount ?f > 0" "fPageID ?f = 0"
    | "\<not> fPinCount ?f > 0" "fPageID ?f \<noteq> 0" "fRefBit ?f \<and> pass = 0"
    | "\<not> fPinCount ?f > 0" "fPageID ?f \<noteq> 0" "\<not> (fRefBit ?f \<and> pass = 0)"
    by blast
  then show ?case
  proof cases
    case 1
    with "2.prems" "2.IH"(1) [OF refl refl 1] show ?thesis by (simp add: Let_def)
  next
    case 3
    with "2.prems" have "clockPass pass left ?p ?fs = (Some v, p', fs')" by (simp add: Let_def)
    from "2.IH"(2) [OF refl refl 3 this] "2.prems"(2)
    have "v < length fs" "fPinCount (?fs ! v) \<le> 0" by auto
    then show ?thesis by (cases "v = hand ?p") (auto simp: nth_list_update)
  qed (use "2.prems" h in \<open>auto simp: Let_def\<close>)
qed simp

text \<open>A second pass that finds nobody has seen every frame pinned.\<close>

lemma clockPass_none:
  assumes "clockPass (Suc 0) left p fs = (None, p', fs')" and "fs \<noteq> []"
  shows "fs' = fs \<and> (\<forall>j. 1 \<le> j \<and> j \<le> left \<longrightarrow> fPinCount (fs ! ((hand p + j) mod length fs)) > 0)"
  using assms
proof (induction left arbitrary: p)
  case (Suc left)
  let ?p = "p\<lparr>hand := (hand p + 1) mod length fs\<rparr>"
  have pin: "fPinCount (fs ! hand ?p) > 0" and rec: "clockPass (Suc 0) left ?p fs = (None, p', fs')"
    using Suc.prems(1) by (auto simp: Let_def split: if_splits)
  note IH = Suc.IH [OF rec Suc.prems(2)]
  have "fPinCount (fs ! ((hand p + j) mod length fs)) > 0" if "1 \<le> j" "j \<le> Suc left" for j
  proof (cases "j = 1")
    case True
    with pin show ?thesis by simp
  next
    case False
    then have "1 \<le> j - 1 \<and> j - 1 \<le> left" using that by auto
    then have "fPinCount (fs ! ((hand ?p + (j - 1)) mod length fs)) > 0" using IH by blast
    moreover have "(hand ?p + (j - 1)) mod length fs = (hand p + j) mod length fs"
      using \<open>1 \<le> j\<close> by (cases j) (simp_all add: mod_add_left_eq)
    ultimately show ?thesis by simp
  qed
  with IH show ?case by blast
qed simp

lemma mod_covers:
  assumes "i < (n :: nat)"
  shows "\<exists>j. 1 \<le> j \<and> j \<le> n \<and> (h + j) mod n = i"
proof -
  define d where "d = (i + n - h mod n - 1) mod n + 1"
  have "h mod n < n" using assms by simp
  then have "h mod n + ((i + n - h mod n - 1) + 1) = i + n" by simp
  then have "(h mod n + ((i + n - h mod n - 1) + 1)) mod n = i" using assms by (simp only: mod_add_self2) simp
  then have "(h + d) mod n = i"
    unfolding d_def by (metis mod_add_eq mod_add_left_eq mod_add_right_eq add.assoc)
  moreover have "1 \<le> d" "d \<le> n" using assms by (auto simp: d_def Suc_le_eq)
  ultimately show ?thesis by blast
qed

lemma ClockChooseVictim_cases:
  assumes "ClockChooseVictim p fs = (v, p', fs')"
  obtains (found) w where "v = int w" "w < length fs" "fPinCount (fs ! w) \<le> 0" "list_all2 same_frame fs fs'"
  | (none) "v = -1" "\<forall>f \<in> set fs. fPinCount f > 0" "list_all2 same_frame fs fs'"
proof -
  let ?n = "length fs"
  obtain r1 p1 fs1 where c1: "clockPass 0 ?n p fs = (r1, p1, fs1)" by (metis prod_cases3)
  obtain r2 p2 fs2 where c2: "clockPass (Suc 0) ?n p1 fs1 = (r2, p2, fs2)" by (metis prod_cases3)
  have s1: "list_all2 same_frame fs fs1" using clockPass_frames [of fs 0 ?n p] c1 by simp
  have s2: "list_all2 same_frame fs1 fs2" using clockPass_frames [of fs1 "Suc 0" ?n p1] c2 by simp
  have s12: "list_all2 same_frame fs fs2"
    using s1 s2 list_all2_trans [of same_frame same_frame same_frame] same_frame_trans by blast
  have l1: "length fs1 = ?n" using s1 by (simp add: list_all2_lengthD)
  have pin: "fPinCount (fs1 ! i) = fPinCount (fs ! i)" if "i < ?n" for i
    using s1 that by (auto simp: list_all2_conv_all_nth same_frame_def)
  have ne: "r = None" if "clockPass pass ?n q fs = (r, q', gs)" "fs = []" for pass r q q' gs using that by simp
  show thesis
  proof (cases r1)
    case (Some w)
    with c1 ne have "fs \<noteq> []" by force
    with clockPass_victim [of 0 ?n p fs w] c1 Some assms s1 show ?thesis
      by (intro found [of w]) (auto simp: ClockChooseVictim_def)
  next
    case r1: None
    show ?thesis
    proof (cases r2)
      case (Some w)
      then have "fs1 \<noteq> []" using c2 l1 by (cases "?n") auto
      with clockPass_victim [of "Suc 0" ?n p1 fs1 w] c2 Some l1 pin have "w < ?n" "fPinCount (fs ! w) \<le> 0" by auto
      with assms c1 c2 r1 Some s12 show ?thesis by (intro found [of w]) (auto simp: ClockChooseVictim_def)
    next
      case None
      have "fPinCount (fs ! i) > 0" if i: "i < ?n" for i
      proof -
        have "fs1 \<noteq> []" using i l1 by auto
        from clockPass_none [OF c2 [unfolded None] this] l1
        have "\<forall>j. 1 \<le> j \<and> j \<le> ?n \<longrightarrow> fPinCount (fs1 ! ((hand p1 + j) mod ?n)) > 0" by simp
        with mod_covers [OF i, of "hand p1"] pin [OF i] show ?thesis by auto
      qed
      then have "\<forall>f \<in> set fs. fPinCount f > 0" by (auto simp: in_set_conv_nth)
      with assms c1 c2 r1 None s12 show ?thesis by (intro none) (auto simp: ClockChooseVictim_def)
    qed
  qed
qed

interpretation clock: eviction_policy ClockOnAccess ClockChooseVictim "\<lambda>_ _. True"
proof unfold_locales
  fix p v p' and i :: nat and fs fs' :: "Frame list"
  show "list_all2 same_frame fs (snd (ClockOnAccess p i fs))"
    by (simp add: ClockOnAccess_def all2_update all2_same_refl same_frame_RefBit)
  assume c: "ClockChooseVictim p fs = (v, p', fs')"
  from c show "list_all2 same_frame fs fs'" by (rule ClockChooseVictim_cases)
  from c show "0 \<le> v \<Longrightarrow> v < int (length fs) \<and> fPinCount (fs ! nat v) \<le> 0"
    by (rule ClockChooseVictim_cases) auto
  from c show "v < 0 \<Longrightarrow> v = -1 \<and> (\<forall>f \<in> set fs. fPinCount f > 0)"
    by (rule ClockChooseVictim_cases) auto
qed

section \<open>LRU-K satisfies the interface\<close>

text \<open>
  Access times are at most the clock, and the last but one access of an accessed frame is before
  its last one.
\<close>

definition lruk_ok :: "LRUKPolicy \<Rightarrow> Frame list \<Rightarrow> bool" where
  "lruk_ok p fs \<longleftrightarrow> 1 \<le> lruK p \<and> tick p \<noteq> - 1 \<and>
     (\<forall>f \<in> set fs. fAccessHist0 f \<le> tick p \<and> fAccessHist1 f \<le> tick p \<and>
        (fAccessCount f \<noteq> 0 \<longrightarrow> fAccessHist0 f < fAccessHist1 f))"

definition good_idx :: "Frame list \<Rightarrow> int \<Rightarrow> bool" where
  "good_idx fs v \<longleftrightarrow> v = -1 \<or> (0 \<le> v \<and> v < int (length fs) \<and> fPinCount (fs ! nat v) \<le> 0)"

lemma lrukLoop_good:
  assumes "\<forall>(i, f) \<in> set l. i < length fs \<and> fs ! i = f" and "good_idx fs fi" and "good_idx fs ei"
  shows "case lrukLoop p now l (fi, ff, ei, ed) of
      Inl i \<Rightarrow> good_idx fs i \<and> 0 \<le> i | Inr (fi', ff', ei', ed') \<Rightarrow> good_idx fs fi' \<and> good_idx fs ei'"
  using assms
proof (induction p now l "(fi, ff, ei, ed)" arbitrary: fi ff ei ed rule: lrukLoop.induct)
  case (2 p now i f rest fi ff ei ed)
  have g: "good_idx fs (int i)" if "\<not> 0 < fPinCount f" using "2.prems"(1) that by (auto simp: good_idx_def)
  have r: "\<forall>(i, f) \<in> set rest. i < length fs \<and> fs ! i = f" using "2.prems"(1) by simp
  show ?case
    using "2.hyps" "2.prems" g r by (simp add: Let_def)
qed simp

lemma u64_le_max: "(x :: u64) < - 1 \<longleftrightarrow> x \<noteq> - 1"
  by (simp add: word_order.not_eq_extremum)

lemma lrukLoop_found:
  assumes "1 \<le> lruK p" and "now \<noteq> - 1"
    and "\<forall>(i, f) \<in> set l. fAccessHist1 f \<le> now \<and> (fAccessCount f \<noteq> 0 \<longrightarrow> fAccessHist0 f < now)"
    and "fi = -1 \<longrightarrow> ff = - 1" and "ei = -1 \<longrightarrow> ed = 0" and "-1 \<le> fi" and "-1 \<le> ei"
    and "lrukLoop p now l (fi, ff, ei, ed) = Inr (fi', ff', ei', ed')" and "fi' = -1" and "ei' = -1"
  shows "fi = -1 \<and> ei = -1 \<and> (\<forall>(i, f) \<in> set l. fPinCount f > 0)"
  using assms
proof (induction l arbitrary: fi ff ei ed)
  case (Cons x rest)
  obtain i f where x: "x = (i, f)" by fastforce
  have hist: "fAccessHist1 f \<le> now" "fAccessCount f \<noteq> 0 \<Longrightarrow> fAccessHist0 f < now" using Cons.prems(3) x by auto
  note IH = Cons.IH [OF Cons.prems(1,2)]
  have rest: "\<forall>(i, f) \<in> set rest. fAccessHist1 f \<le> now \<and> (fAccessCount f \<noteq> 0 \<longrightarrow> fAccessHist0 f < now)"
    using Cons.prems(3) by simp
  show ?case
  proof (cases "fPinCount f > 0")
    case True
    then have "lrukLoop p now rest (fi, ff, ei, ed) = Inr (fi', ff', ei', ed')" using Cons.prems(8) x by simp
    from IH [OF rest Cons.prems(4-7) this Cons.prems(9,10)] True x show ?thesis by simp
  next
    case np: False
    then have nz: "fPageID f \<noteq> 0" using Cons.prems(8) x by auto
    show ?thesis
    proof (cases "unat (fAccessCount f) < lruK p")
      case True
      define first where "first = (if fAccessCount f = 0 then 0 else fAccessHist1 f)"
      have fm: "first < - 1"
      proof -
        have "first \<le> now" using hist(1) by (simp add: first_def)
        moreover have "now < - 1" using Cons.prems(2) by (simp add: u64_le_max)
        ultimately show ?thesis by (rule le_less_trans)
      qed
      have eq: "lrukLoop p now (x # rest) (fi, ff, ei, ed) = (if first < ff
          then lrukLoop p now rest (int i, first, ei, ed) else lrukLoop p now rest (fi, ff, ei, ed))"
        using True np nz by (simp add: x first_def Let_def)
      show ?thesis
      proof (cases "first < ff")
        case lt: True
        with eq Cons.prems(8) have "lrukLoop p now rest (int i, first, ei, ed) = Inr (fi', ff', ei', ed')" by simp
        from IH [OF rest _ Cons.prems(5) _ Cons.prems(7) this Cons.prems(9,10)] show ?thesis by simp
      next
        case ge: False
        with eq Cons.prems(8) have "lrukLoop p now rest (fi, ff, ei, ed) = Inr (fi', ff', ei', ed')" by simp
        from IH [OF rest Cons.prems(4-7) this Cons.prems(9,10)] have "fi = -1" by simp
        with Cons.prems(4) ge fm show ?thesis by simp
      qed
    next
      case est: False
      have ac: "fAccessCount f \<noteq> 0" using est Cons.prems(1) by auto
      define dist where "dist = now - fAccessHist0 f"
      have dp: "0 < dist" using hist(2) [OF ac] by (simp add: dist_def word_neq_0_conv [symmetric])
      have eq: "lrukLoop p now (x # rest) (fi, ff, ei, ed) = (if ed < dist
          then lrukLoop p now rest (fi, ff, int i, dist) else lrukLoop p now rest (fi, ff, ei, ed))"
        using est np nz by (simp add: x dist_def Let_def)
      show ?thesis
      proof (cases "ed < dist")
        case True
        with eq Cons.prems(8) have "lrukLoop p now rest (fi, ff, int i, dist) = Inr (fi', ff', ei', ed')" by simp
        from IH [OF rest Cons.prems(4) _ Cons.prems(6) _ this Cons.prems(9,10)] show ?thesis by simp
      next
        case False
        with eq Cons.prems(8) have "lrukLoop p now rest (fi, ff, ei, ed) = Inr (fi', ff', ei', ed')" by simp
        from IH [OF rest Cons.prems(4-7) this Cons.prems(9,10)] have "ei = -1" by simp
        with Cons.prems(5) False dp show ?thesis by simp
      qed
    qed
  qed
qed simp

lemma enumerate_mem: "(i, f) \<in> set (enumerate 0 fs) \<longleftrightarrow> i < length fs \<and> fs ! i = f"
  by (auto simp: in_set_enumerate_eq)

lemma lruk_start:
  "case lrukLoop p (tick p) (enumerate 0 fs) (-1, - 1, -1, 0) of
     Inl i \<Rightarrow> good_idx fs i \<and> 0 \<le> i | Inr (fi, ff, ei, ed) \<Rightarrow> good_idx fs fi \<and> good_idx fs ei"
  by (rule lrukLoop_good) (auto simp: enumerate_mem good_idx_def)

interpretation lruk: eviction_policy LRUKOnAccess LRUKChooseVictim lruk_ok
proof unfold_locales
  fix p v p' and i :: nat and fs fs' :: "Frame list"
  show "list_all2 same_frame fs (snd (LRUKOnAccess p i fs))"
    by (simp add: LRUKOnAccess_def Let_def) (intro conjI impI all2_update all2_same_refl; simp add: same_frame_def)
  assume c: "LRUKChooseVictim p fs = (v, p', fs')"
  then show "list_all2 same_frame fs fs'"
    by (auto simp: LRUKChooseVictim_def Let_def all2_same_refl split: sum.splits prod.splits)
  have good: "good_idx fs v"
    using lruk_start [where p = p and fs = fs] c
    by (auto simp: LRUKChooseVictim_def Let_def split: sum.splits prod.splits if_splits)
  then show "0 \<le> v \<Longrightarrow> v < int (length fs) \<and> fPinCount (fs ! nat v) \<le> 0"
    by (auto simp: good_idx_def)
  show "v = -1 \<and> (\<forall>f \<in> set fs. fPinCount f > 0)" if ok: "lruk_ok p fs" and v: "v < 0"
  proof
    show vm: "v = -1" using good v by (auto simp: good_idx_def)
    obtain fi ff ei ed where L: "lrukLoop p (tick p) (enumerate 0 fs) (-1, - 1, -1, 0) = Inr (fi, ff, ei, ed)"
      and "fi < 0" "ei = -1"
    proof (cases "lrukLoop p (tick p) (enumerate 0 fs) (-1, - 1, -1, 0)")
      case (Inl j)
      with lruk_start [where p = p and fs = fs] c vm show thesis by (simp add: LRUKChooseVictim_def)
    next
      case (Inr t)
      with c vm that show thesis by (cases t) (auto simp: LRUKChooseVictim_def split: if_splits)
    qed
    moreover have "fi = -1"
      using lruk_start [where p = p and fs = fs] L \<open>fi < 0\<close> by (simp add: good_idx_def)
    moreover have "\<forall>(i, f) \<in> set (enumerate 0 fs). fAccessHist1 f \<le> tick p \<and> (fAccessCount f \<noteq> 0 \<longrightarrow> fAccessHist0 f < tick p)"
      using ok by (auto simp: lruk_ok_def enumerate_mem intro: less_le_trans)
    ultimately have "\<forall>(i, f) \<in> set (enumerate 0 fs). fPinCount f > 0"
      using lrukLoop_found [of p "tick p" "enumerate 0 fs" "-1" "- 1" "-1" 0 fi ff ei ed] ok
      by (simp add: lruk_ok_def)
    moreover have "(i, fs ! i) \<in> set (enumerate 0 fs)" if "i < length fs" for i
      using that by (simp add: enumerate_mem)
    ultimately show "\<forall>f \<in> set fs. fPinCount f > 0"
      by (fastforce simp: in_set_conv_nth)
  qed
qed

lemma lruk_ok_touch:
  assumes ok: "lruk_ok p fs" and "tick p + 1 \<noteq> - 1" and "i < length fs"
  shows "lruk_ok (fst (LRUKOnAccess p i fs)) (snd (LRUKOnAccess p i fs))"
proof -
  have lt: "x < tick p + 1" if "x \<le> tick p" for x using ok that u64_less_Suc by (simp add: lruk_ok_def)
  have f: "fAccessHist0 f \<le> tick p \<and> fAccessHist1 f \<le> tick p \<and> (fAccessCount f \<noteq> 0 \<longrightarrow> fAccessHist0 f < fAccessHist1 f)"
    if "f \<in> set fs" for f using ok that by (simp add: lruk_ok_def)
  have upd: "f \<in> set (fs[i := g]) \<Longrightarrow> f \<in> set fs \<or> f = g" for f g
    using set_update_subset_insert [of fs i g] by blast
  have at: "fs ! i \<in> set fs" using assms(3) by simp
  show ?thesis
    using ok assms(2) f [OF at] lt
    by (auto simp: lruk_ok_def LRUKOnAccess_def Let_def dest!: upd f intro: less_imp_le)
qed

section \<open>Either policy\<close>

text \<open>The \<open>EvictionPolicy\<close> value of a pool, and the calls through the interface.\<close>

datatype EvictionPolicy = Clock ClockPolicy | LRUK LRUKPolicy

definition NewClockPolicy :: EvictionPolicy where
  "NewClockPolicy = Clock \<lparr>hand = 0\<rparr>"

definition OnAccess :: "EvictionPolicy \<Rightarrow> nat \<Rightarrow> Frame list \<Rightarrow> EvictionPolicy \<times> Frame list" where
  "OnAccess p i frames =
     (case p of
        Clock c \<Rightarrow> let (c, frames) = ClockOnAccess c i frames in (Clock c, frames)
      | LRUK l \<Rightarrow> let (l, frames) = LRUKOnAccess l i frames in (LRUK l, frames))"

definition ChooseVictim :: "EvictionPolicy \<Rightarrow> Frame list \<Rightarrow> int \<times> EvictionPolicy \<times> Frame list" where
  "ChooseVictim p frames =
     (case p of
        Clock c \<Rightarrow> let (v, c, frames) = ClockChooseVictim c frames in (v, Clock c, frames)
      | LRUK l \<Rightarrow> let (v, l, frames) = LRUKChooseVictim l frames in (v, LRUK l, frames))"

definition policy_ok :: "EvictionPolicy \<Rightarrow> Frame list \<Rightarrow> bool" where
  "policy_ok p fs \<longleftrightarrow> (case p of Clock c \<Rightarrow> True | LRUK l \<Rightarrow> lruk_ok l fs)"

interpretation pol: eviction_policy OnAccess ChooseVictim policy_ok
proof unfold_locales
  fix p :: EvictionPolicy and v p' and i :: nat and fs fs' :: "Frame list"
  show "i < length fs \<Longrightarrow> list_all2 same_frame fs (snd (OnAccess p i fs))"
    using clock.touch_frames [of i fs] lruk.touch_frames [of i fs]
    by (cases p) (simp_all add: OnAccess_def case_prod_beta Let_def)
  assume c: "ChooseVictim p fs = (v, p', fs')"
  then show "list_all2 same_frame fs fs'"
    by (cases p) (auto simp: ChooseVictim_def split: prod.splits dest: clock.pick_frames lruk.pick_frames)
  from c show "0 \<le> v \<Longrightarrow> v < int (length fs) \<and> fPinCount (fs ! nat v) \<le> 0"
    by (cases p) (auto simp: ChooseVictim_def split: prod.splits dest: clock.pick_unpinned lruk.pick_unpinned)
  from c show "policy_ok p fs \<Longrightarrow> v < 0 \<Longrightarrow> v = -1 \<and> (\<forall>f \<in> set fs. fPinCount f > 0)"
    by (cases p) (auto simp: ChooseVictim_def policy_ok_def split: prod.splits
        dest: clock.pick_none [OF TrueI] lruk.pick_none)
qed

section \<open>Properties\<close>



end
