(* ===== verification/LogRecord.thy ===== *)
theory LogRecord
  imports Prelude
begin

text \<open>
  Log records and their wire format (\<^verbatim>\<open>internal/wal/record.go\<close>):
  \<open>[LSN:8][PrevLSN:8][TxnID:8][PageID:4][Type:1][PayloadLen:4][Payload][CRC32:4]\<close>; and the payload of a
  compensation record (\<^verbatim>\<open>internal/wal/checkpoint.go\<close>). Every slice expression of the decoder is
  guarded by a length check, so nothing here can panic.
\<close>

section \<open>Definitions\<close>

type_synonym LogRecordType = u8

definition LogBegin :: LogRecordType where "LogBegin = 1"
definition LogCommit :: LogRecordType where "LogCommit = 2"
definition LogAbort :: LogRecordType where "LogAbort = 3"
definition LogInsert :: LogRecordType where "LogInsert = 4"
definition LogDelete :: LogRecordType where "LogDelete = 5"
definition LogUpdate :: LogRecordType where "LogUpdate = 6"
definition LogSplit :: LogRecordType where "LogSplit = 7"
definition LogMerge :: LogRecordType where "LogMerge = 8"
definition LogCLR :: LogRecordType where "LogCLR = 9"
definition LogCheckpoint :: LogRecordType where "LogCheckpoint = 10"
definition LogPageAlloc :: LogRecordType where "LogPageAlloc = 11"
definition LogPageFree :: LogRecordType where "LogPageFree = 12"
definition LogRootChange :: LogRecordType where "LogRootChange = 13"

lemmas log_types = LogBegin_def LogCommit_def LogAbort_def LogInsert_def LogDelete_def LogUpdate_def
  LogSplit_def LogMerge_def LogCLR_def LogCheckpoint_def LogPageAlloc_def LogPageFree_def LogRootChange_def

definition LogRecordFixedSize :: nat where
  "LogRecordFixedSize = 8 + 8 + 8 + 4 + 1 + 4 + 4"

record LogRecord =
  rLSN :: u64
  rPrevLSN :: u64
  rTxnID :: u64
  rPageID :: u32
  rType :: LogRecordType
  rPayload :: bytes

text \<open>The zero value of the struct, from which composite literals set some fields.\<close>

definition emptyLogRecord :: LogRecord where
  "emptyLogRecord = \<lparr>rLSN = 0, rPrevLSN = 0, rTxnID = 0, rPageID = 0, rType = 0, rPayload = []\<rparr>"

definition EncodeLogRecord :: "LogRecord \<Rightarrow> bytes" where
  "EncodeLogRecord r =
     (let buf = replicate (LogRecordFixedSize + length (rPayload r)) 0;
          buf = PutUint64 buf 0 (rLSN r);
          buf = PutUint64 buf 8 (rPrevLSN r);
          buf = PutUint64 buf 16 (rTxnID r);
          buf = PutUint32 buf 24 (rPageID r);
          buf = buf[28 := rType r];
          buf = PutUint32 buf 29 (word_of_nat (length (rPayload r)));
          buf = put_at buf 33 (rPayload r);
          crc = ChecksumIEEE (get_at buf 0 (33 + length (rPayload r)));
          buf = PutUint32 buf (33 + length (rPayload r)) crc
      in buf)"

definition DecodeLogRecord :: "bytes \<Rightarrow> (error, LogRecord) result" where
  "DecodeLogRecord data =
     (if length data < LogRecordFixedSize then Inl ErrInvalidLogRecord
      else let payloadLen = unat (Uint32 data 29)
           in if length data < LogRecordFixedSize + payloadLen then Inl ErrInvalidLogRecord
              else let storedCRC = Uint32 data (33 + payloadLen);
                       computedCRC = ChecksumIEEE (get_at data 0 (33 + payloadLen))
                   in if storedCRC \<noteq> computedCRC then Inl ErrCRCMismatch
                      else Inr \<lparr>rLSN = Uint64 data 0, rPrevLSN = Uint64 data 8, rTxnID = Uint64 data 16,
                                rPageID = Uint32 data 24, rType = data ! 28,
                                rPayload = get_at data 33 payloadLen\<rparr>)"

definition EncodedSize :: "nat \<Rightarrow> nat" where
  "EncodedSize payloadLen = LogRecordFixedSize + payloadLen"

definition EncodeCLRPayload :: "u64 \<Rightarrow> LogRecordType \<Rightarrow> bytes \<Rightarrow> bytes" where
  "EncodeCLRPayload undoNextLSN originalType undonePayload =
     (let buf = replicate (8 + 1 + length undonePayload) 0;
          buf = PutUint64 buf 0 undoNextLSN;
          buf = buf[8 := originalType];
          buf = put_at buf 9 undonePayload
      in buf)"

definition DecodeCLRPayload :: "bytes \<Rightarrow> u64 \<times> LogRecordType \<times> slice" where
  "DecodeCLRPayload payload =
     (if length payload < 8 then (0, 0, NilSlice)
      else let undoNext = Uint64 payload 0
           in if length payload < 9 then (undoNext, 0, NilSlice)
              else (undoNext, payload ! 8, Slice (drop 9 payload)))"

definition DecodeCLRUndoNext :: "bytes \<Rightarrow> u64" where
  "DecodeCLRUndoNext payload = fst (DecodeCLRPayload payload)"

section \<open>The wire format\<close>

definition logrec_ok :: "LogRecord \<Rightarrow> bool" where
  "logrec_ok r \<longleftrightarrow> length (rPayload r) < 4294967296"

text \<open>The bytes before the checksum.\<close>

definition logrec_body :: "LogRecord \<Rightarrow> bytes" where
  "logrec_body r = le_bytes 8 (unat (rLSN r)) @ le_bytes 8 (unat (rPrevLSN r)) @ le_bytes 8 (unat (rTxnID r)) @
     le_bytes 4 (unat (rPageID r)) @ [rType r] @ le_bytes 4 (unat (word_of_nat (length (rPayload r)) :: u32)) @
     rPayload r"

lemma length_logrec_body [simp]: "length (logrec_body r) = 33 + length (rPayload r)"
  by (simp add: logrec_body_def)

lemma EncodeLogRecord_append:
  "EncodeLogRecord r = logrec_body r @ le_bytes 4 (unat (ChecksumIEEE (logrec_body r)))"
proof -
  define p where "p = rPayload r"
  define a b c d e where "a = le_bytes 8 (unat (rLSN r))" and "b = le_bytes 8 (unat (rPrevLSN r))"
    and "c = le_bytes 8 (unat (rTxnID r))" and "d = le_bytes 4 (unat (rPageID r))"
    and "e = le_bytes 4 (unat (word_of_nat (length p) :: u32))"
  have l: "length a = 8" "length b = 8" "length c = 8" "length d = 4" "length e = 4"
    by (simp_all add: a_def b_def c_def d_def e_def)
  have nine: "replicate (9 + length p) (0 :: byte) = 0 # replicate (8 + length p) 0"
    by (simp add: replicate_Suc [symmetric] del: replicate_Suc)
  have p1: "put_at (replicate (37 + length p) 0) 0 a = a @ replicate (29 + length p) 0"
    using put_at_fill [of 0 "[]" "37 + length p" a "29 + length p" 0] l by simp
  have p2: "put_at (a @ replicate (29 + length p) 0) 8 b = (a @ b) @ replicate (21 + length p) 0"
    using l by (simp add: put_at_fill)
  have p3: "put_at ((a @ b) @ replicate (21 + length p) 0) 16 c = (a @ b @ c) @ replicate (13 + length p) 0"
    using put_at_fill [of 16 "a @ b" "21 + length p" c "13 + length p" 0] l by simp
  have p4: "put_at ((a @ b @ c) @ replicate (13 + length p) 0) 24 d = (a @ b @ c @ d) @ 0 # replicate (8 + length p) 0"
    using put_at_fill [of 24 "a @ b @ c" "13 + length p" d "9 + length p" 0] l nine by simp
  have p5: "((a @ b @ c @ d) @ 0 # replicate (8 + length p) 0)[28 := rType r]
      = (a @ b @ c @ d @ [rType r]) @ replicate (8 + length p) 0"
    using l by (simp add: list_update_append)
  have p6: "put_at ((a @ b @ c @ d @ [rType r]) @ replicate (8 + length p) 0) 29 e
      = (a @ b @ c @ d @ [rType r] @ e) @ replicate (4 + length p) 0"
    using put_at_fill [of 29 "a @ b @ c @ d @ [rType r]" "8 + length p" e "4 + length p" 0] l by simp
  have p7: "put_at ((a @ b @ c @ d @ [rType r] @ e) @ replicate (4 + length p) 0) 33 p
      = (a @ b @ c @ d @ [rType r] @ e @ p) @ replicate 4 0"
    using put_at_fill [of 33 "a @ b @ c @ d @ [rType r] @ e" "4 + length p" p 4 0] l by simp
  have body: "logrec_body r = a @ b @ c @ d @ [rType r] @ e @ p"
    by (simp add: logrec_body_def a_def b_def c_def d_def e_def p_def)
  have p8: "put_at (logrec_body r @ replicate 4 0) (33 + length p) x = logrec_body r @ x" if "length x = 4" for x
    using that by (simp add: put_at_def p_def)
  have g: "get_at (logrec_body r @ replicate 4 0) 0 (33 + length p) = logrec_body r"
    by (simp add: get_at_def p_def)
  show ?thesis
    unfolding EncodeLogRecord_def Let_def PutUint64_def PutUint32_def LogRecordFixedSize_def p_def [symmetric]
      a_def [symmetric] b_def [symmetric] c_def [symmetric] d_def [symmetric] e_def [symmetric]
    using p1 p2 p3 p4 p5 p6 p7 p8 g by (simp add: body)
qed

lemma length_EncodeLogRecord [simp]: "length (EncodeLogRecord r) = 37 + length (rPayload r)"
  by (simp add: EncodeLogRecord_append)

lemma logrec_fields:
  assumes "logrec_ok r"
  shows "Uint64 (logrec_body r @ xs) 0 = rLSN r" and "Uint64 (logrec_body r @ xs) 8 = rPrevLSN r"
    and "Uint64 (logrec_body r @ xs) 16 = rTxnID r" and "Uint32 (logrec_body r @ xs) 24 = rPageID r"
    and "(logrec_body r @ xs) ! 28 = rType r" and "unat (Uint32 (logrec_body r @ xs) 29) = length (rPayload r)"
    and "get_at (logrec_body r @ xs) 33 (length (rPayload r)) = rPayload r"
  using assms u64_bound [of "rLSN r"] u64_bound [of "rPrevLSN r"] u64_bound [of "rTxnID r"] u32_bound [of "rPageID r"]
  by (simp_all add: logrec_body_def le_defs get_at_def nth_append logrec_ok_def unat_of_nat le_val_le_bytes)

lemma get_at_body [simp]: "get_at (logrec_body r @ xs) 0 (33 + length (rPayload r)) = logrec_body r"
  by (simp add: get_at_def)

lemma DecodeLogRecord_body:
  assumes "logrec_ok r" and "length crc = 4"
  shows "DecodeLogRecord (logrec_body r @ crc @ xs) =
    (if Uint32 crc 0 = ChecksumIEEE (logrec_body r) then Inr r else Inl ErrCRCMismatch)"
proof -
  have "Uint32 (logrec_body r @ crc @ xs) (33 + length (rPayload r)) = Uint32 crc 0"
    using assms(2) by (simp add: Uint32_def get_at_def)
  then show ?thesis
    using assms(2) logrec_fields [OF assms(1)] by (simp add: DecodeLogRecord_def Let_def LogRecordFixedSize_def)
qed

lemma Uint32_le_bytes [simp]: "Uint32 (le_bytes 4 (unat v)) 0 = v"
  using u32_bound [of v] by (simp add: Uint32_def get_at_def le_val_le_bytes)

lemma DecodeLogRecord_EncodeLogRecord:
  "logrec_ok r \<Longrightarrow> DecodeLogRecord (EncodeLogRecord r @ xs) = Inr r"
  by (simp add: EncodeLogRecord_append DecodeLogRecord_body)

lemma DecodeCLRPayload_EncodeCLRPayload:
  "DecodeCLRPayload (EncodeCLRPayload u t p) = (u, t, Slice p)"
proof -
  have "EncodeCLRPayload u t p = le_bytes 8 (unat u) @ t # p"
    using put_at_fill [of 0 "[]" "9 + length p" "le_bytes 8 (unat u)" "1 + length p" 0]
      put_at_fill [of 9 "le_bytes 8 (unat u) @ [t]" "length p" p 0 0]
    by (simp add: EncodeCLRPayload_def Let_def PutUint64_def list_update_append)
  then show ?thesis
    using u64_bound [of u] by (simp add: DecodeCLRPayload_def Let_def Uint64_def get_at_def le_val_le_bytes nth_append)
qed

text \<open>A damaged byte of the body, outside the length field, or of the checksum.\<close>

lemma DecodeLogRecord_damaged_body:
  assumes ok: "logrec_ok r" and i: "i < 33 + length (rPayload r)" "\<not> (29 \<le> i \<and> i < 33)" and x: "x \<noteq> logrec_body r ! i"
  shows "DecodeLogRecord ((logrec_body r)[i := x] @ le_bytes 4 (unat (ChecksumIEEE (logrec_body r))) @ xs)
    = Inl ErrCRCMismatch"
proof -
  let ?b = "(logrec_body r)[i := x]" and ?c = "le_bytes 4 (unat (ChecksumIEEE (logrec_body r)))"
  have crc: "ChecksumIEEE ?b \<noteq> ChecksumIEEE (logrec_body r)"
    using ChecksumIEEE_one_byte [of i "logrec_body r" x] i x by simp
  have "get_at ?b 29 4 = get_at (logrec_body r) 29 4" using i(2) by (intro get_at_list_update) auto
  moreover have "get_at (ys @ zs) 29 4 = get_at ys 29 4" if "33 \<le> length ys" for ys zs :: bytes
    using that by (simp add: get_at_def)
  ultimately have "Uint32 (?b @ ?c @ xs) 29 = Uint32 (logrec_body r @ []) 29" by (simp add: Uint32_def)
  then have "unat (Uint32 (?b @ ?c @ xs) 29) = length (rPayload r)" using logrec_fields(6) [OF ok, of "[]"] by simp
  moreover have "Uint32 (?b @ ?c @ xs) (33 + length (rPayload r)) = Uint32 ?c 0"
    by (simp add: Uint32_def get_at_def)
  moreover have "get_at (?b @ ?c @ xs) 0 (33 + length (rPayload r)) = ?b" by (simp add: get_at_def)
  ultimately show ?thesis using crc by (simp add: DecodeLogRecord_def Let_def LogRecordFixedSize_def)
qed

lemma Uint32_one_byte:
  assumes "length bs = 4" and "i < 4" and "x \<noteq> bs ! i"
  shows "Uint32 (bs[i := x]) 0 \<noteq> Uint32 bs 0"
proof
  assume "Uint32 (bs[i := x]) 0 = Uint32 bs 0"
  then have "(word_of_nat (le_val (bs[i := x])) :: u32) = word_of_nat (le_val bs)"
    using assms(1) by (simp add: Uint32_def get_at_def)
  moreover have "unat (word_of_nat (le_val ys) :: u32) = le_val ys" if "length ys = 4" for ys
    using le_val_bound [of ys] that by (simp add: unat_of_nat)
  ultimately have "le_val (bs[i := x]) = le_val bs" using assms(1) by (metis length_list_update)
  then have "bs[i := x] = bs" by (metis le_bytes_le_val length_list_update)
  with assms show False by (metis nth_list_update_eq)
qed

lemma DecodeLogRecord_damaged:
  assumes ok: "logrec_ok r" and i: "i < length (EncodeLogRecord r)" "\<not> (29 \<le> i \<and> i < 33)"
    and x: "x \<noteq> EncodeLogRecord r ! i"
  shows "DecodeLogRecord ((EncodeLogRecord r)[i := x] @ xs) = Inl ErrCRCMismatch"
proof (cases "i < 33 + length (rPayload r)")
  case True
  with x have "x \<noteq> logrec_body r ! i" by (simp add: EncodeLogRecord_append nth_append)
  from DecodeLogRecord_damaged_body [OF ok True i(2) this, of xs] True show ?thesis
    by (simp add: EncodeLogRecord_append list_update_append)
next
  case False
  let ?c = "le_bytes 4 (unat (ChecksumIEEE (logrec_body r)))" and ?j = "i - (33 + length (rPayload r))"
  from False x i(1) have "?j < 4" "x \<noteq> ?c ! ?j" by (auto simp: EncodeLogRecord_append nth_append)
  with Uint32_one_byte [of ?c ?j x] have "Uint32 (?c[?j := x]) 0 \<noteq> ChecksumIEEE (logrec_body r)" by simp
  with DecodeLogRecord_body [OF ok, of "?c[?j := x]" xs] False show ?thesis
    by (simp add: EncodeLogRecord_append list_update_append)
qed

lemma DecodeLogRecord_cut:
  assumes ok: "logrec_ok r" and i: "i < length (EncodeLogRecord r)"
  shows "DecodeLogRecord (take i (EncodeLogRecord r)) = Inl ErrInvalidLogRecord"
proof (cases "i < 37")
  case True
  then show ?thesis by (simp add: DecodeLogRecord_def LogRecordFixedSize_def)
next
  case False
  have "Uint32 (take i (EncodeLogRecord r)) 29 = Uint32 (logrec_body r @ []) 29"
  proof -
    have "get_at (take i bs) 29 4 = get_at bs 29 4" for bs :: bytes
      using False by (simp add: get_at_def drop_take min_def)
    moreover have "get_at (EncodeLogRecord r) 29 4 = get_at (logrec_body r) 29 4"
      by (simp add: EncodeLogRecord_append get_at_def)
    ultimately show ?thesis by (simp add: Uint32_def)
  qed
  with False i logrec_fields(6) [OF ok, of "[]"] show ?thesis
    by (simp add: DecodeLogRecord_def Let_def LogRecordFixedSize_def)
qed

section \<open>Properties\<close>

text \<open>
  C38. Log records survive the disk or are recognised as damaged: decoding an encoded record, with
  whatever follows it in the file, gives the record back; a record with one damaged byte outside
  its length field is refused with a checksum error; a cut record is refused as invalid; and the
  payload of a compensation record round-trips.
\<close>

theorem log_record_roundtrip:
  assumes "logrec_ok r"
  shows "DecodeLogRecord (EncodeLogRecord r @ xs) = Inr r \<and>
    (i < length (EncodeLogRecord r) \<and> \<not> (29 \<le> i \<and> i < 33) \<and> x \<noteq> EncodeLogRecord r ! i \<longrightarrow>
      DecodeLogRecord ((EncodeLogRecord r)[i := x] @ xs) = Inl ErrCRCMismatch) \<and>
    (i < length (EncodeLogRecord r) \<longrightarrow> DecodeLogRecord (take i (EncodeLogRecord r)) = Inl ErrInvalidLogRecord) \<and>
    DecodeCLRPayload (EncodeCLRPayload u t p) = (u, t, Slice p)"
  using DecodeLogRecord_EncodeLogRecord [OF assms, of xs] DecodeCLRPayload_EncodeCLRPayload [of u t p]
    DecodeLogRecord_damaged [OF assms, of i x xs] DecodeLogRecord_cut [OF assms, of i] by blast

theorem log_record_roundtrip_witness:
  "DecodeLogRecord (EncodeLogRecord (emptyLogRecord\<lparr>rType := LogCommit, rTxnID := 5\<rparr>)) =
     Inr (emptyLogRecord\<lparr>rType := LogCommit, rTxnID := 5\<rparr>)"
proof -
  have "logrec_ok (emptyLogRecord\<lparr>rType := LogCommit, rTxnID := 5\<rparr>)"
    by (simp add: logrec_ok_def emptyLogRecord_def)
  from log_record_roundtrip [OF this, of "[]"] show ?thesis by simp
qed

end
