(* ===== verification/Catalog.thy ===== *)
theory Catalog
  imports LogRecord
begin

text \<open>
  The catalog of log segments (\<^verbatim>\<open>internal/wal/catalog.go\<close>) and the files it manages.

  The file system of the log is a record: the segment files by path, and the catalog files by path.
  A catalog file is held as the value that its JSON text denotes, \<^term>\<open>None\<close> for text that does
  not parse; \<open>json.Unmarshal\<close> after \<open>json.MarshalIndent\<close> is the identity on these structs. The
  temporary file and the rename of \<open>save\<close> make one atomic replacement. The shell commands of the
  archive hook are recorded in the order they are run; their effects are outside of the model. The
  catalog's mutex makes every method one step.
\<close>

section \<open>Definitions\<close>

record segmentInfo =
  segSeq :: nat
  segStartLSN :: u64
  segEndLSN :: u64
  segPath :: string

record catalogState =
  Segments :: "segmentInfo list"
  OldestRequiredLSN :: u64

record segmentCatalog =
  catPath :: string
  catState :: catalogState

record FS =
  fsFiles :: "string \<rightharpoonup> bytes"
  fsCatalogs :: "string \<rightharpoonup> catalogState option"
  fsCommands :: "string list"

text \<open>The content of a file, empty when there is none.\<close>

definition content :: "FS \<Rightarrow> string \<Rightarrow> bytes" where
  "content fs path = (case fsFiles fs path of None \<Rightarrow> [] | Some b \<Rightarrow> b)"

text \<open>\<open>os.OpenFile\<close> with \<open>O_CREATE|O_APPEND\<close>: an existing file keeps its content.\<close>

definition createFile :: "FS \<Rightarrow> string \<Rightarrow> FS" where
  "createFile fs path = fs\<lparr>fsFiles := (fsFiles fs)(path \<mapsto> content fs path)\<rparr>"

definition catalogPath :: "string \<Rightarrow> string" where
  "catalogPath basePath = basePath @ ''.catalog.json''"

text \<open>The verb \<open>%06d\<close> of \<open>fmt.Sprintf\<close> on a natural number.\<close>

definition digit :: "nat \<Rightarrow> char" where
  "digit n = char_of (48 + n mod 10)"

fun decimal :: "nat \<Rightarrow> string" where
  "decimal n = (if n < 10 then [digit n] else decimal (n div 10) @ [digit n])"

declare decimal.simps [simp del]

definition pad6 :: "string \<Rightarrow> string" where
  "pad6 s = replicate (6 - length s) CHR ''0'' @ s"

definition segmentPath :: "string \<Rightarrow> nat \<Rightarrow> string" where
  "segmentPath basePath seq = basePath @ ''_'' @ pad6 (decimal seq) @ ''.log''"

definition saveCatalog :: "segmentCatalog \<Rightarrow> FS \<Rightarrow> FS" where
  "saveCatalog c fs = fs\<lparr>fsCatalogs := (fsCatalogs fs)(catPath c \<mapsto> Some (catState c))\<rparr>"

definition loadOrCreateCatalog :: "FS \<Rightarrow> string \<Rightarrow> (error, segmentCatalog \<times> FS) result" where
  "loadOrCreateCatalog fs basePath =
     (let cp = catalogPath basePath
      in case fsCatalogs fs cp of
           Some (Some st) \<Rightarrow> Inr (\<lparr>catPath = cp, catState = st\<rparr>, fs)
         | Some None \<Rightarrow> Inl (ErrCatalogCorrupt cp)
         | None \<Rightarrow>
             let path1 = (if fsFiles fs basePath \<noteq> None then basePath else segmentPath basePath 1);
                 c = \<lparr>catPath = cp, catState = \<lparr>Segments = [\<lparr>segSeq = 1, segStartLSN = 0, segEndLSN = 0, segPath = path1\<rparr>],
                        OldestRequiredLSN = 0\<rparr>\<rparr>
             in Inr (c, saveCatalog c fs))"

text \<open>The next three index the last segment and panic when there is none.\<close>

definition currentSegment :: "segmentCatalog \<Rightarrow> segmentInfo option" where
  "currentSegment c = (if Segments (catState c) = [] then None else Some (last (Segments (catState c))))"

definition nextSeq :: "segmentCatalog \<Rightarrow> nat option" where
  "nextSeq c = (if Segments (catState c) = [] then None else Some (segSeq (last (Segments (catState c))) + 1))"

definition closeCurrentSegment :: "segmentCatalog \<Rightarrow> u64 \<Rightarrow> segmentCatalog option" where
  "closeCurrentSegment c endLSN =
     (let segs = Segments (catState c); n = length segs
      in if segs = [] then None
         else Some (c\<lparr>catState := (catState c)\<lparr>Segments := segs[n - 1 := (segs ! (n - 1))\<lparr>segEndLSN := endLSN\<rparr>]\<rparr>\<rparr>))"

definition appendSegment :: "segmentCatalog \<Rightarrow> segmentInfo \<Rightarrow> segmentCatalog" where
  "appendSegment c info = c\<lparr>catState := (catState c)\<lparr>Segments := Segments (catState c) @ [info]\<rparr>\<rparr>"

definition segmentsContaining :: "segmentCatalog \<Rightarrow> u64 \<Rightarrow> segmentInfo list" where
  "segmentsContaining c startLSN =
     filter (\<lambda>seg. segEndLSN seg = 0 \<or> segEndLSN seg > startLSN) (Segments (catState c))"

definition segmentContaining :: "segmentCatalog \<Rightarrow> u64 \<Rightarrow> segmentInfo option" where
  "segmentContaining c lsn =
     find (\<lambda>seg. segStartLSN seg \<le> lsn \<and> (segEndLSN seg = 0 \<or> lsn < segEndLSN seg)) (rev (Segments (catState c)))"

text \<open>\<open>strings.ReplaceAll(cmd, "%s", path)\<close>\<close>

fun replacePct :: "string \<Rightarrow> string \<Rightarrow> string" where
  "replacePct (a # b # cmd) path =
     (if a = CHR ''%'' \<and> b = CHR ''s'' then path @ replacePct cmd path else a # replacePct (b # cmd) path)"
| "replacePct cmd path = cmd"

definition archiveExec :: "string \<Rightarrow> FS \<Rightarrow> FS" where
  "archiveExec cmd fs = (if cmd = '''' then fs else fs\<lparr>fsCommands := fsCommands fs @ [cmd]\<rparr>)"

definition runArchiveHook :: "string \<Rightarrow> string \<Rightarrow> FS \<Rightarrow> FS" where
  "runArchiveHook cmd path fs = archiveExec (replacePct cmd path) fs"

text \<open>The loop of \<open>truncateUpTo\<close>: the number of removed segments, the remaining ones and the files.\<close>

fun truncateLoop :: "u64 \<Rightarrow> string \<Rightarrow> segmentInfo list \<Rightarrow> FS \<Rightarrow> nat \<times> segmentInfo list \<times> FS" where
  "truncateLoop truncateLSN archiveCmd [] fs = (0, [], fs)"
| "truncateLoop truncateLSN archiveCmd (seg # segs) fs =
     (if segEndLSN seg > 0 \<and> segEndLSN seg \<le> truncateLSN then
        let fs = (if archiveCmd \<noteq> '''' then runArchiveHook archiveCmd (segPath seg) fs else fs);
            fs = fs\<lparr>fsFiles := (fsFiles fs)(segPath seg := None)\<rparr>;
            (removed, remaining, fs) = truncateLoop truncateLSN archiveCmd segs fs
        in (removed + 1, remaining, fs)
      else
        let (removed, remaining, fs) = truncateLoop truncateLSN archiveCmd segs fs
        in (removed, seg # remaining, fs))"

definition truncateUpTo :: "segmentCatalog \<Rightarrow> u64 \<Rightarrow> string \<Rightarrow> FS \<Rightarrow> nat \<times> segmentCatalog \<times> FS" where
  "truncateUpTo c truncateLSN archiveCmd fs =
     (let (removed, remaining, fs) = truncateLoop truncateLSN archiveCmd (Segments (catState c)) fs
      in if removed = 0 then (0, c, fs)
         else let c = c\<lparr>catState := \<lparr>Segments = remaining, OldestRequiredLSN = truncateLSN\<rparr>\<rparr>
              in (removed, c, saveCatalog c fs))"

definition TotalSize :: "segmentCatalog \<Rightarrow> FS \<Rightarrow> nat" where
  "TotalSize c fs = sum_list (map (\<lambda>seg. case fsFiles fs (segPath seg) of Some b \<Rightarrow> length b | None \<Rightarrow> 0) (Segments (catState c)))"

section \<open>Segment paths\<close>

text \<open>The number that a string of digits denotes.\<close>

definition dec_val :: "string \<Rightarrow> nat" where
  "dec_val s = foldl (\<lambda>v c. 10 * v + (of_char c - 48)) 0 s"

lemma of_char_digit [simp]: "of_char (digit n) = 48 + n mod (10 :: nat)"
  unfolding digit_def by simp

lemma dec_val_snoc: "dec_val (s @ [c]) = 10 * dec_val s + (of_char c - 48)"
  by (simp add: dec_val_def)

lemma dec_val_decimal: "dec_val (decimal n) = n"
proof (induction n rule: decimal.induct)
  case (1 n)
  show ?case
  proof (cases "n < 10")
    case True
    then show ?thesis by (simp add: decimal.simps [of n] dec_val_def)
  next
    case False
    with 1 show ?thesis by (simp add: decimal.simps [of n] dec_val_snoc)
  qed
qed

lemma dec_val_zeros: "dec_val (replicate k CHR ''0'' @ s) = dec_val s"
proof -
  have "foldl (\<lambda>v c. 10 * v + (of_char c - 48)) 0 (replicate k CHR ''0'') = (0 :: nat)"
    by (induction k) (simp_all add: of_char_def)
  then show ?thesis by (simp add: dec_val_def)
qed

lemma segmentPath_inj [simp]: "segmentPath base m = segmentPath base n \<longleftrightarrow> m = n"
proof
  assume "segmentPath base m = segmentPath base n"
  then have "pad6 (decimal m) = pad6 (decimal n)" by (simp add: segmentPath_def)
  then have "dec_val (pad6 (decimal m)) = dec_val (pad6 (decimal n))" by simp
  then show "m = n" by (simp add: pad6_def dec_val_zeros dec_val_decimal)
qed simp

lemma segmentPath_not_base [simp]: "segmentPath base n \<noteq> base" "base \<noteq> segmentPath base n"
  by (simp_all add: segmentPath_def)

end
