(* ===== verification/WAL.thy ===== *)
theory WAL
  imports Catalog
begin

text \<open>
  The write-ahead log (\<^verbatim>\<open>internal/wal/wal.go\<close>): an append buffer in front of segment files, LSNs
  that are byte offsets over all segments, rotation, flushing, scanning, truncation.

  The manager's mutex makes every method one step. The open segment file is its path and a flag;
  an operation on a closed file fails with \<open>os.ErrClosed\<close>, other failures of the operating system
  do not occur. \<^term>\<open>None\<close> is the panic of an access to the last segment of an empty catalog. The
  callback of a scan is called on the records of the returned list, in order.
\<close>

section \<open>Definitions\<close>

record WALManager =
  basePath :: string
  walCatalog :: segmentCatalog
  walFS :: FS
  currentFile :: string
  fileOpen :: bool
  segmentStart :: u64
  buffer :: bytes
  bufferSize :: int
  currentLSN :: u64
  flushedLSN :: u64
  syncOnCommit :: bool
  maxSegSize :: int
  archiveCmd :: string
  gcLeader :: bool
  gcEpoch :: u64

definition WALOpen :: "FS \<Rightarrow> string \<Rightarrow> int \<Rightarrow> bool \<Rightarrow> int \<Rightarrow> string \<Rightarrow> (error, WALManager) result option" where
  "WALOpen fs base bufSize sync maxSegmentSize archiveCommand =
     (case loadOrCreateCatalog fs base of
        Inl e \<Rightarrow> Some (Inl e)
      | Inr (cat, fs) \<Rightarrow> do {
          cur \<leftarrow> currentSegment cat;
          let fs = createFile fs (segPath cur);
          let lsn = segStartLSN cur + word_of_nat (length (content fs (segPath cur)));
          Some (Inr \<lparr>basePath = base, walCatalog = cat, walFS = fs, currentFile = segPath cur, fileOpen = True,
            segmentStart = segStartLSN cur, buffer = [], bufferSize = bufSize, currentLSN = lsn, flushedLSN = lsn,
            syncOnCommit = sync, maxSegSize = maxSegmentSize, archiveCmd = archiveCommand, gcLeader = False, gcEpoch = 0\<rparr>) })"

definition flushLocked :: "WALManager \<Rightarrow> (error, unit) result \<times> WALManager" where
  "flushLocked w =
     (if length (buffer w) = 0 then (Inr (), w)
      else if \<not> fileOpen w then (Inl ErrClosed, w)
      else let fs = walFS w;
               fs = fs\<lparr>fsFiles := (fsFiles fs)(currentFile w \<mapsto> content fs (currentFile w) @ buffer w)\<rparr>
           in (Inr (), w\<lparr>walFS := fs, buffer := [], flushedLSN := currentLSN w\<rparr>))"

definition closeFile :: "WALManager \<Rightarrow> (error, unit) result \<times> WALManager" where
  "closeFile w = (if fileOpen w then (Inr (), w\<lparr>fileOpen := False\<rparr>) else (Inl ErrClosed, w))"

definition WALClose :: "WALManager \<Rightarrow> (error, unit) result \<times> WALManager" where
  "WALClose w =
     (case flushLocked w of
        (Inl e, w) \<Rightarrow> (Inl e, w)
      | (Inr _, w) \<Rightarrow> closeFile w)"

definition CrashClose :: "WALManager \<Rightarrow> (error, unit) result \<times> WALManager" where
  "CrashClose w = closeFile (w\<lparr>buffer := []\<rparr>)"

definition rotateSegmentLocked :: "WALManager \<Rightarrow> ((error, unit) result \<times> WALManager) option" where
  "rotateSegmentLocked w =
     (case flushLocked w of
        (Inl e, w) \<Rightarrow> Some (Inl e, w)
      | (Inr _, w) \<Rightarrow>
          if syncOnCommit w \<and> \<not> fileOpen w then Some (Inl ErrClosed, w)
          else let endLSN = currentLSN w
               in case closeFile w of
                    (Inl e, w) \<Rightarrow> Some (Inl e, w)
                  | (Inr _, w) \<Rightarrow> do {
                      cat \<leftarrow> closeCurrentSegment (walCatalog w) endLSN;
                      seq \<leftarrow> nextSeq cat;
                      let newPath = segmentPath (basePath w) seq;
                      let cat = appendSegment cat \<lparr>segSeq = seq, segStartLSN = endLSN, segEndLSN = 0, segPath = newPath\<rparr>;
                      let fs = saveCatalog cat (walFS w);
                      let fs = createFile fs newPath;
                      Some (Inr (), w\<lparr>walCatalog := cat, walFS := fs, currentFile := newPath, fileOpen := True,
                                     segmentStart := endLSN\<rparr>) })"

definition AppendRecord :: "WALManager \<Rightarrow> LogRecord \<Rightarrow> (u64 \<times> WALManager) option" where
  "AppendRecord w r = do {
     let encoded = EncodeLogRecord r;
     let segSize = sint (currentLSN w - segmentStart w) + int (length (buffer w)) + int (length encoded);
     w \<leftarrow> (if maxSegSize w > 0 \<and> segSize > maxSegSize w
            then map_option snd (rotateSegmentLocked w) else Some w);
     let r = r\<lparr>rLSN := currentLSN w\<rparr>;
     let encoded = EncodeLogRecord r;
     let w = w\<lparr>buffer := buffer w @ encoded, currentLSN := currentLSN w + word_of_nat (length encoded)\<rparr>;
     let w = (if int (length (buffer w)) \<ge> bufferSize w then snd (flushLocked w) else w);
     Some (rLSN r, w) }"

definition FlushUpTo :: "WALManager \<Rightarrow> u64 \<Rightarrow> (error, unit) result \<times> WALManager" where
  "FlushUpTo w targetLSN = (if flushedLSN w \<ge> targetLSN then (Inr (), w) else flushLocked w)"

abbreviation CurrentLSN :: "WALManager \<Rightarrow> u64" where "CurrentLSN \<equiv> currentLSN"
abbreviation FlushedLSN :: "WALManager \<Rightarrow> u64" where "FlushedLSN \<equiv> flushedLSN"

definition ActiveSegmentPath :: "WALManager \<Rightarrow> string" where
  "ActiveSegmentPath w = currentFile w"

definition WALSizeBytes :: "WALManager \<Rightarrow> nat" where
  "WALSizeBytes w = TotalSize (walCatalog w) (walFS w)"

definition SegmentCount :: "WALManager \<Rightarrow> nat" where
  "SegmentCount w = length (Segments (catState (walCatalog w)))"

definition OldestLSN :: "WALManager \<Rightarrow> u64" where
  "OldestLSN w = (case Segments (catState (walCatalog w)) of [] \<Rightarrow> 0 | s # ss \<Rightarrow> segStartLSN s)"

definition WALCommit :: "WALManager \<Rightarrow> u64 \<Rightarrow> u64 \<Rightarrow> (u64 \<times> WALManager) option" where
  "WALCommit w txnID prevLSN = do {
     (lsn, w) \<leftarrow> AppendRecord w (emptyLogRecord\<lparr>rType := LogCommit, rTxnID := txnID, rPrevLSN := prevLSN\<rparr>);
     Some (lsn, snd (FlushUpTo w lsn)) }"

definition WALAbort :: "WALManager \<Rightarrow> u64 \<Rightarrow> u64 \<Rightarrow> (u64 \<times> WALManager) option" where
  "WALAbort w txnID prevLSN = do {
     (lsn, w) \<leftarrow> AppendRecord w (emptyLogRecord\<lparr>rType := LogAbort, rTxnID := txnID, rPrevLSN := prevLSN\<rparr>);
     Some (lsn, snd (FlushUpTo w lsn)) }"

text \<open>
  \<open>CommitGrouped\<close> as one goroutine runs it when no other interferes: it becomes the leader, flushes,
  and looks again. A caller that finds another leader waits; alone it would wait forever.
\<close>

partial_function (option) groupLoop :: "WALManager \<Rightarrow> u64 \<Rightarrow> WALManager option" where
  "groupLoop w lsn =
     (if flushedLSN w < lsn then
        if \<not> gcLeader w then
          let startEpoch = gcEpoch w;
              w = w\<lparr>gcLeader := True\<rparr>;
              w = snd (flushLocked w);
              w = w\<lparr>gcLeader := False, gcEpoch := startEpoch + 1\<rparr>
          in groupLoop w lsn
        else None
      else Some w)"

definition CommitGrouped :: "WALManager \<Rightarrow> u64 \<Rightarrow> u64 \<Rightarrow> int \<Rightarrow> (u64 \<times> WALManager) option" where
  "CommitGrouped w txnID prevLSN delay = do {
     (lsn, w) \<leftarrow> AppendRecord w (emptyLogRecord\<lparr>rType := LogCommit, rTxnID := txnID, rPrevLSN := prevLSN\<rparr>);
     if delay \<le> 0 then Some (lsn, snd (FlushUpTo w lsn))
     else do { w \<leftarrow> groupLoop w lsn; Some (lsn, w) } }"

definition LogBeginTxn :: "WALManager \<Rightarrow> u64 \<Rightarrow> (u64 \<times> WALManager) option" where
  "LogBeginTxn w txnID = AppendRecord w (emptyLogRecord\<lparr>rType := LogBegin, rTxnID := txnID\<rparr>)"

definition LogInsertRecord :: "WALManager \<Rightarrow> u64 \<Rightarrow> u64 \<Rightarrow> u64 \<Rightarrow> bytes \<Rightarrow> (u64 \<times> WALManager) option" where
  "LogInsertRecord w txnID pageID prevLSN tupleData =
     AppendRecord w (emptyLogRecord\<lparr>rType := LogInsert, rTxnID := txnID, rPageID := ucast pageID, rPrevLSN := prevLSN,
       rPayload := tupleData\<rparr>)"

definition LogDeleteRecord :: "WALManager \<Rightarrow> u64 \<Rightarrow> u64 \<Rightarrow> u64 \<Rightarrow> int \<Rightarrow> u64 \<Rightarrow> (u64 \<times> WALManager) option" where
  "LogDeleteRecord w txnID pageID prevLSN slotIdx oldXmax =
     (let payload = replicate (4 + 8) 0;
          payload = PutUint32 payload 0 (word_of_int slotIdx);
          payload = PutUint64 payload 4 oldXmax
      in AppendRecord w (emptyLogRecord\<lparr>rType := LogDelete, rTxnID := txnID, rPageID := ucast pageID,
           rPrevLSN := prevLSN, rPayload := payload\<rparr>))"

definition LogSplitRecord :: "WALManager \<Rightarrow> u64 \<Rightarrow> u64 \<Rightarrow> u64 \<Rightarrow> u64 \<Rightarrow> bytes \<Rightarrow> (u64 \<times> WALManager) option" where
  "LogSplitRecord w txnID leftPageID rightPageID prevLSN newTuple =
     (let payload = replicate (4 + 4 + length newTuple) 0;
          payload = PutUint32 payload 0 (ucast rightPageID);
          payload = PutUint32 payload 4 (word_of_nat (length newTuple));
          payload = put_at payload 8 newTuple
      in AppendRecord w (emptyLogRecord\<lparr>rType := LogSplit, rTxnID := txnID, rPageID := ucast leftPageID,
           rPrevLSN := prevLSN, rPayload := payload\<rparr>))"

definition LogMergeRecord ::
  "WALManager \<Rightarrow> u64 \<Rightarrow> u32 \<Rightarrow> u32 \<Rightarrow> u32 \<Rightarrow> u64 \<Rightarrow> bytes \<Rightarrow> bytes \<Rightarrow> (u64 \<times> WALManager) option" where
  "LogMergeRecord w txnID survivingPageID freedPageID parentPageID prevLSN survivingAfterImage parentAfterImage =
     (let payload = replicate (4 + 4 + length survivingAfterImage + length parentAfterImage) 0;
          payload = PutUint32 payload 0 freedPageID;
          payload = PutUint32 payload 4 parentPageID;
          payload = put_at payload 8 survivingAfterImage;
          payload = put_at payload (8 + length survivingAfterImage) parentAfterImage
      in AppendRecord w (emptyLogRecord\<lparr>rType := LogMerge, rTxnID := txnID, rPageID := survivingPageID,
           rPrevLSN := prevLSN, rPayload := payload\<rparr>))"

definition LogRootChangeRecord :: "WALManager \<Rightarrow> u32 \<Rightarrow> u32 \<Rightarrow> u32 \<Rightarrow> bytes \<Rightarrow> u64 \<Rightarrow> (u64 \<times> WALManager) option" where
  "LogRootChangeRecord w newRootID leftChildID rightChildID separatorKey prevLSN =
     (let payload = replicate (4 + 4 + 4 + 2 + length separatorKey) 0;
          payload = PutUint32 payload 0 newRootID;
          payload = PutUint32 payload 4 leftChildID;
          payload = PutUint32 payload 8 rightChildID;
          payload = PutUint16 payload 12 (word_of_nat (length separatorKey));
          payload = put_at payload 14 separatorKey
      in do {
        (lsn, w) \<leftarrow> AppendRecord w (emptyLogRecord\<lparr>rType := LogRootChange, rTxnID := 0, rPrevLSN := prevLSN, rPayload := payload\<rparr>);
        Some (lsn, snd (FlushUpTo w lsn)) })"

text \<open>The loop of \<open>scanSegment\<close> over what is left of the file.\<close>

function scanRecords :: "bytes \<Rightarrow> LogRecord list" where
  "scanRecords data =
     (if length data < LogRecordFixedSize then []
      else let payloadLen = unat (Uint32 data 29)
           in if length data < LogRecordFixedSize + payloadLen then []
              else let full = take (LogRecordFixedSize + payloadLen) data;
                       rest = drop (LogRecordFixedSize + payloadLen) data
                   in case DecodeLogRecord full of
                        Inl e \<Rightarrow> scanRecords rest
                      | Inr r \<Rightarrow> r # scanRecords rest)"
  by pat_completeness auto
termination
  by (relation "measure length") (auto simp: LogRecordFixedSize_def)

declare scanRecords.simps [simp del]

text \<open>A position that is negative as \<open>int64\<close> makes \<open>Seek\<close> fail.\<close>

definition scanSegment :: "FS \<Rightarrow> segmentInfo \<Rightarrow> u64 \<Rightarrow> (error, LogRecord list) result" where
  "scanSegment fs seg startLSN =
     (case fsFiles fs (segPath seg) of
        None \<Rightarrow> Inr []
      | Some data \<Rightarrow>
          let seekOffset = (if startLSN > segStartLSN seg then sint (startLSN - segStartLSN seg) else 0)
          in if seekOffset < 0 then Inl ErrInvalidSeek
             else Inr (scanRecords (drop (nat seekOffset) data)))"

fun scanSegments :: "FS \<Rightarrow> u64 \<Rightarrow> segmentInfo list \<Rightarrow> (error, unit) result \<times> LogRecord list" where
  "scanSegments fs startLSN [] = (Inr (), [])"
| "scanSegments fs startLSN (seg # segs) =
     (case scanSegment fs seg startLSN of
        Inl e \<Rightarrow> (Inl e, [])
      | Inr rs \<Rightarrow> let (err, rest) = scanSegments fs startLSN segs in (err, rs @ rest))"

text \<open>\<open>ScanFrom\<close>: the error, the records the callback saw, and the manager after the flush.\<close>

definition ScanFrom :: "WALManager \<Rightarrow> u64 \<Rightarrow> (error, unit) result \<times> LogRecord list \<times> WALManager" where
  "ScanFrom w startLSN =
     (case flushLocked w of
        (Inl e, w) \<Rightarrow> (Inl e, [], w)
      | (Inr _, w) \<Rightarrow>
          let (err, rs) = scanSegments (walFS w) startLSN (segmentsContaining (walCatalog w) startLSN)
          in (err, rs, w))"

text \<open>\<open>io.ReadFull\<close>: EOF when nothing is left, unexpected EOF when too little is.\<close>

definition readFull :: "bytes \<Rightarrow> nat \<Rightarrow> (error, bytes) result" where
  "readFull data n =
     (if n = 0 then Inr []
      else if data = [] then Inl ErrEOF
      else if length data < n then Inl ErrUnexpectedEOF
      else Inr (take n data))"

definition readRecordAt :: "bytes \<Rightarrow> (error, LogRecord) result" where
  "readRecordAt data =
     (case readFull data LogRecordFixedSize of
        Inl e \<Rightarrow> Inl e
      | Inr header \<Rightarrow>
          let payloadLen = unat (Uint32 header 29)
          in case readFull (drop LogRecordFixedSize data) payloadLen of
               Inl e \<Rightarrow> Inl e
             | Inr rest \<Rightarrow> DecodeLogRecord (header @ rest))"

definition FetchRecord :: "WALManager \<Rightarrow> u64 \<Rightarrow> (error, LogRecord) result \<times> WALManager" where
  "FetchRecord w lsn =
     (case flushLocked w of
        (Inl e, w) \<Rightarrow> (Inl e, w)
      | (Inr _, w) \<Rightarrow>
          (case segmentContaining (walCatalog w) lsn of
             None \<Rightarrow> (Inl ErrLSNNotFound, w)
           | Some seg \<Rightarrow>
               (case fsFiles (walFS w) (segPath seg) of
                  None \<Rightarrow> (Inl ErrNotExist, w)
                | Some data \<Rightarrow>
                    let seekOffset = sint (lsn - segStartLSN seg)
                    in if seekOffset < 0 then (Inl ErrInvalidSeek, w)
                       else (readRecordAt (drop (nat seekOffset) data), w))))"

definition FindLastCheckpoint :: "WALManager \<Rightarrow> u64 \<times> WALManager" where
  "FindLastCheckpoint w =
     (case ScanFrom w 0 of
        (_, rs, w) \<Rightarrow> (foldl (\<lambda>lastCkpt r. if rType r = LogCheckpoint then rLSN r else lastCkpt) 0 rs, w))"

definition TruncateUpTo :: "WALManager \<Rightarrow> u64 \<Rightarrow> WALManager" where
  "TruncateUpTo w truncateLSN =
     (if truncateLSN = 0 then w
      else case truncateUpTo (walCatalog w) truncateLSN (archiveCmd w) (walFS w) of
             (removed, cat, fs) \<Rightarrow> w\<lparr>walCatalog := cat, walFS := fs\<rparr>)"

end
