(* ===== verification/WAL_Log.thy ===== *)
theory WAL_Log
  imports WAL
begin

text \<open>
  The log as a list of records. \<open>durable_of\<close> reads the records of the segment files, \<open>log_of\<close> adds
  the buffered ones; \<open>wal_inv\<close> says that the segments follow each other, that every record carries
  its own position as LSN, and that the catalog on disk is the one in memory.
\<close>

section \<open>Encoded lists of records\<close>

definition enc :: "LogRecord list \<Rightarrow> bytes" where
  "enc rs = concat (map EncodeLogRecord rs)"

lemma enc_simps [simp]: "enc [] = []" "enc (r # rs) = EncodeLogRecord r @ enc rs" "enc (rs @ ss) = enc rs @ enc ss"
  by (simp_all add: enc_def)

text \<open>Records that lie one after the other from position \<open>p\<close> on, each with its position as LSN.\<close>

primrec lsn_from :: "nat \<Rightarrow> LogRecord list \<Rightarrow> bool" where
  "lsn_from p [] \<longleftrightarrow> True"
| "lsn_from p (r # rs) \<longleftrightarrow> unat (rLSN r) = p \<and> logrec_ok r \<and> lsn_from (p + length (EncodeLogRecord r)) rs"

lemma lsn_from_append [simp]:
  "lsn_from p (rs @ ss) \<longleftrightarrow> lsn_from p rs \<and> lsn_from (p + length (enc rs)) ss"
  by (induction rs arbitrary: p) (auto simp: add.assoc)

lemma scanRecords_Cons:
  assumes "logrec_ok r"
  shows "scanRecords (EncodeLogRecord r @ xs) = r # scanRecords xs"
proof -
  let ?n = "37 + length (rPayload r)"
  have "unat (Uint32 (EncodeLogRecord r @ xs) 29) = length (rPayload r)"
    using logrec_fields(6) [OF assms] by (simp add: EncodeLogRecord_append)
  moreover have "take ?n (EncodeLogRecord r @ xs) = EncodeLogRecord r" "drop ?n (EncodeLogRecord r @ xs) = xs"
    by simp_all
  moreover have "DecodeLogRecord (EncodeLogRecord r) = Inr r"
    using DecodeLogRecord_EncodeLogRecord [OF assms, of "[]"] by simp
  ultimately show ?thesis
    by (subst scanRecords.simps) (simp add: LogRecordFixedSize_def)
qed

lemma scanRecords_Nil [simp]: "scanRecords [] = []"
  by (simp add: scanRecords.simps LogRecordFixedSize_def)

lemma scanRecords_enc_append: "lsn_from p rs \<Longrightarrow> scanRecords (enc rs @ xs) = rs @ scanRecords xs"
  by (induction rs arbitrary: p) (auto simp: scanRecords_Cons)

lemma scanRecords_enc: "lsn_from p rs \<Longrightarrow> scanRecords (enc rs) = rs"
  using scanRecords_enc_append [of p rs "[]"] by simp

text \<open>A record that was cut short at the end of the file is not reported.\<close>

lemma scanRecords_torn:
  assumes "logrec_ok r" and "i < length (EncodeLogRecord r)"
  shows "scanRecords (take i (EncodeLogRecord r)) = []"
proof (cases "i < 37")
  case True
  then show ?thesis by (simp add: scanRecords.simps LogRecordFixedSize_def)
next
  case False
  have "DecodeLogRecord (take i (EncodeLogRecord r)) = Inl ErrInvalidLogRecord"
    using assms by (rule DecodeLogRecord_cut)
  with False have "length (take i (EncodeLogRecord r)) < 37 + unat (Uint32 (take i (EncodeLogRecord r)) 29)"
    using assms(2) by (auto simp: DecodeLogRecord_def Let_def LogRecordFixedSize_def split: if_splits)
  then show ?thesis by (subst scanRecords.simps) (simp add: LogRecordFixedSize_def Let_def)
qed

lemma lsn_from_bounds: "lsn_from p rs \<Longrightarrow> r \<in> set rs \<Longrightarrow>
    p \<le> unat (rLSN r) \<and> unat (rLSN r) + length (EncodeLogRecord r) \<le> p + length (enc rs)"
  by (induction rs arbitrary: p) fastforce+

lemma lsn_from_ok: "lsn_from p rs \<Longrightarrow> r \<in> set rs \<Longrightarrow> logrec_ok r"
  by (induction rs arbitrary: p) auto

text \<open>Reading from the position of a record on.\<close>

lemma lsn_from_split:
  assumes "lsn_from p rs" and "r \<in> set rs"
  obtains as bs where "rs = as @ r # bs" and "unat (rLSN r) = p + length (enc as)"
    and "lsn_from (unat (rLSN r)) (r # bs)" and "lsn_from p as"
proof -
  from assms(2) obtain as bs where "rs = as @ r # bs" by (meson split_list)
  with assms(1) show thesis by (intro that [of as bs]) auto
qed

lemma filter_lsn_from:
  assumes "lsn_from p (as @ bs)" and "q = p + length (enc as)"
  shows "filter (\<lambda>r. q \<le> unat (rLSN r)) (as @ bs) = bs"
proof -
  from assms have "lsn_from p as" "lsn_from q bs" by simp_all
  have "\<not> q \<le> unat (rLSN r)" if "r \<in> set as" for r
    using lsn_from_bounds [OF \<open>lsn_from p as\<close> that] assms(2) by simp
  moreover have "q \<le> unat (rLSN r)" if "r \<in> set bs" for r
    using lsn_from_bounds [OF \<open>lsn_from q bs\<close> that] by simp
  ultimately show ?thesis by (simp add: filter_empty_conv filter_id_conv)
qed

text \<open>Positions from which a scan makes sense: the start of a record, or a place outside.\<close>

definition cut_at :: "nat \<Rightarrow> LogRecord list \<Rightarrow> nat \<Rightarrow> bool" where
  "cut_at p rs q \<longleftrightarrow> q \<le> p \<or> p + length (enc rs) \<le> q \<or> (\<exists>r \<in> set rs. unat (rLSN r) = q)"

lemma scanRecords_drop:
  assumes "lsn_from p rs" and "cut_at p rs q"
  shows "scanRecords (drop (q - p) (enc rs)) = filter (\<lambda>r. q \<le> unat (rLSN r)) rs"
  using assms(2) unfolding cut_at_def
proof (elim disjE bexE)
  assume "q \<le> p"
  with lsn_from_bounds [OF assms(1)] have "filter (\<lambda>r. q \<le> unat (rLSN r)) rs = rs"
    by (intro filter_True) force
  with \<open>q \<le> p\<close> show ?thesis using scanRecords_enc [OF assms(1)] by simp
next
  assume "p + length (enc rs) \<le> q"
  with lsn_from_bounds [OF assms(1)] have "filter (\<lambda>r. q \<le> unat (rLSN r)) rs = []"
    by (force simp: filter_empty_conv)
  with \<open>p + length (enc rs) \<le> q\<close> show ?thesis by simp
next
  fix r assume r: "r \<in> set rs" "unat (rLSN r) = q"
  obtain as bs where s: "rs = as @ r # bs" "unat (rLSN r) = p + length (enc as)" "lsn_from (unat (rLSN r)) (r # bs)"
    by (rule lsn_from_split [OF assms(1) r(1)])
  have "filter (\<lambda>r. q \<le> unat (rLSN r)) rs = r # bs"
    using filter_lsn_from [of p as "r # bs" q] assms(1) s r(2) by simp
  moreover have "drop (q - p) (enc rs) = enc (r # bs)" using s r(2) by simp
  ultimately show ?thesis using scanRecords_enc [OF s(3)] by simp
qed

section \<open>The segments\<close>

text \<open>
  Segments in order from position \<open>p\<close> on; there may be gaps where a segment was removed. A
  segment is closed at the position of its end, the last one is open.
\<close>

primrec segs_ok :: "FS \<Rightarrow> nat \<Rightarrow> segmentInfo list \<Rightarrow> bool" where
  "segs_ok fs p [] \<longleftrightarrow> False"
| "segs_ok fs p (s # ss) \<longleftrightarrow> p \<le> unat (segStartLSN s) \<and>
     (\<exists>rs. fsFiles fs (segPath s) = Some (enc rs) \<and> lsn_from (unat (segStartLSN s)) rs \<and>
       (if ss = [] then segEndLSN s = 0
        else unat (segEndLSN s) = unat (segStartLSN s) + length (enc rs) \<and>
          segs_ok fs (unat (segEndLSN s)) ss))"

definition seg_recs :: "FS \<Rightarrow> segmentInfo \<Rightarrow> LogRecord list" where
  "seg_recs fs s = scanRecords (content fs (segPath s))"

definition seg_end :: "FS \<Rightarrow> segmentInfo \<Rightarrow> nat" where
  "seg_end fs s = unat (segStartLSN s) + length (content fs (segPath s))"

lemma segs_ok_Cons:
  assumes "segs_ok fs p (s # ss)"
  shows "content fs (segPath s) = enc (seg_recs fs s)" and "fsFiles fs (segPath s) = Some (content fs (segPath s))"
    and "lsn_from (unat (segStartLSN s)) (seg_recs fs s)" and "p \<le> unat (segStartLSN s)"
    and "ss = [] \<Longrightarrow> segEndLSN s = 0"
    and "ss \<noteq> [] \<Longrightarrow> unat (segEndLSN s) = seg_end fs s \<and> segs_ok fs (seg_end fs s) ss"
  using assms scanRecords_enc by (auto simp: seg_recs_def seg_end_def content_def)

lemma segs_ok_ConsI:
  assumes "p \<le> unat (segStartLSN s)" and "fsFiles fs (segPath s) = Some (enc rs)" and "lsn_from (unat (segStartLSN s)) rs"
    and "ss = [] \<Longrightarrow> segEndLSN s = 0"
    and "ss \<noteq> [] \<Longrightarrow> unat (segEndLSN s) = unat (segStartLSN s) + length (enc rs) \<and> segs_ok fs (unat (segEndLSN s)) ss"
  shows "segs_ok fs p (s # ss)"
  unfolding segs_ok.simps using assms(1-4) assms(5) by (intro conjI exI [of _ rs]) (simp_all, metis)

lemma segs_ok_mono: "segs_ok fs p ss \<Longrightarrow> q \<le> p \<Longrightarrow> segs_ok fs q ss"
  by (cases ss) auto

lemma segs_ok_cong:
  "(\<And>s. s \<in> set ss \<Longrightarrow> fsFiles fs' (segPath s) = fsFiles fs (segPath s)) \<Longrightarrow> segs_ok fs' p ss = segs_ok fs p ss"
  by (induction ss arbitrary: p) auto

definition durable :: "FS \<Rightarrow> segmentInfo list \<Rightarrow> LogRecord list" where
  "durable fs ss = concat (map (seg_recs fs) ss)"

lemma durable_simps [simp]:
  "durable fs [] = []" "durable fs (s # ss) = seg_recs fs s @ durable fs ss"
  "durable fs (ss @ ss') = durable fs ss @ durable fs ss'"
  by (simp_all add: durable_def)

lemma seg_start_le_end: "segs_ok fs p ss \<Longrightarrow> p \<le> seg_end fs (last ss)"
proof (induction ss arbitrary: p)
  case (Cons s ss)
  note D = segs_ok_Cons [OF Cons.prems]
  show ?case
  proof (cases "ss = []")
    case False
    with D(6) have "segs_ok fs (seg_end fs s) ss" by simp
    from Cons.IH [OF this] D(4) False show ?thesis by (simp add: seg_end_def)
  qed (use D(4) in \<open>simp add: seg_end_def\<close>)
qed simp

lemma durable_bounds:
  assumes "segs_ok fs p ss" and "r \<in> set (durable fs ss)"
  shows "p \<le> unat (rLSN r) \<and> unat (rLSN r) + length (EncodeLogRecord r) \<le> seg_end fs (last ss)"
  using assms
proof (induction ss arbitrary: p)
  case (Cons s ss)
  note D = segs_ok_Cons [OF Cons.prems(1)]
  show ?case
  proof (cases "r \<in> set (seg_recs fs s)")
    case True
    have "seg_end fs s \<le> seg_end fs (last (s # ss))"
      using D(6) seg_start_le_end [of fs "seg_end fs s" ss] by (cases "ss = []") auto
    with lsn_from_bounds [OF D(3) True] D(1,4) show ?thesis by (simp add: seg_end_def)
  next
    case False
    with Cons.prems(2) have r: "r \<in> set (durable fs ss)" "ss \<noteq> []" by auto
    with D(6) have "segs_ok fs (seg_end fs s) ss" by simp
    from Cons.IH [OF this r(1)] r(2) D(4) show ?thesis by (simp add: seg_end_def)
  qed
qed simp

text \<open>\<open>segs_cut\<close>: a scan position for every segment.\<close>

lemma unat_sint_diff:
  assumes "b < (a :: u64)" and "unat a < 2 ^ 63"
  shows "sint (a - b) = int (unat a - unat b)"
proof -
  have u: "unat (a - b) = unat a - unat b" using assms(1) by (intro unat_sub) (simp add: word_less_nat_alt word_le_nat_alt)
  have "uint (a - b) < 2 ^ 63" using assms(2) unfolding uint_nat u by (simp add: nat_less_iff)
  then have "sint (a - b) = uint (a - b)"
    by (simp add: sint_uint) (rule signed_take_bit_int_eq_self, auto intro: order_trans [OF _ uint_ge_0])
  then show ?thesis by (simp add: uint_nat u)
qed

lemma scanSegment_ok:
  assumes "segs_ok fs p (s # ss)" and "cut_at (unat (segStartLSN s)) (seg_recs fs s) (unat q)" and "unat q < 2 ^ 63"
  shows "scanSegment fs s q = Inr (filter (\<lambda>r. q \<le> rLSN r) (seg_recs fs s))"
proof -
  note D = segs_ok_Cons [OF assms(1)]
  define off where "off = (if q > segStartLSN s then sint (q - segStartLSN s) else 0)"
  have off: "off = int (unat q - unat (segStartLSN s))"
    using unat_sint_diff [OF _ assms(3)] by (simp add: off_def word_less_nat_alt)
  have "scanRecords (drop (unat q - unat (segStartLSN s)) (content fs (segPath s))) =
      filter (\<lambda>r. q \<le> rLSN r) (seg_recs fs s)"
    using scanRecords_drop [OF D(3) assms(2)] D(1) by (simp add: word_le_nat_alt)
  then show ?thesis using D(2) off unfolding scanSegment_def off_def [symmetric] by simp
qed

lemma scanSegments_ok:
  assumes "segs_ok fs p ss" and "\<forall>s \<in> set ss. cut_at (unat (segStartLSN s)) (seg_recs fs s) (unat q)" and "unat q < 2 ^ 63"
  shows "scanSegments fs q (filter (\<lambda>s. segEndLSN s = 0 \<or> segEndLSN s > q) ss) =
    (Inr (), filter (\<lambda>r. q \<le> rLSN r) (durable fs ss))"
  using assms(1,2)
proof (induction ss arbitrary: p)
  case (Cons s ss)
  note D = segs_ok_Cons [OF Cons.prems(1)]
  have IH: "scanSegments fs q (filter (\<lambda>s. segEndLSN s = 0 \<or> segEndLSN s > q) ss) =
    (Inr (), filter (\<lambda>r. q \<le> rLSN r) (durable fs ss))"
    using Cons.IH [of "seg_end fs s"] Cons.prems(2) D(6) by (cases "ss = []") auto
  show ?case
  proof (cases "segEndLSN s = 0 \<or> segEndLSN s > q")
    case True
    from Cons.prems(2) have "cut_at (unat (segStartLSN s)) (seg_recs fs s) (unat q)" by simp
    from scanSegment_ok [OF Cons.prems(1) this assms(3)] IH True show ?thesis by simp
  next
    case False
    then have "ss \<noteq> []" using D(5) by auto
    with False D(6) have "seg_end fs s \<le> unat q" by (simp add: word_less_nat_alt)
    then have "\<not> q \<le> rLSN r" if "r \<in> set (seg_recs fs s)" for r
      using lsn_from_bounds [OF D(3) that] D(1) by (simp add: seg_end_def word_le_nat_alt)
    with False IH show ?thesis by (simp add: filter_empty_conv)
  qed
qed simp

lemma segs_cut:
  assumes "segs_ok fs p ss" and "s \<in> set ss"
    and "unat q \<le> p \<or> seg_end fs (last ss) \<le> unat q \<or> (\<exists>r \<in> set (durable fs ss). rLSN r = q)"
  shows "cut_at (unat (segStartLSN s)) (seg_recs fs s) (unat q)"
  using assms
proof (induction ss arbitrary: p)
  case (Cons t ts)
  note D = segs_ok_Cons [OF Cons.prems(1)]
  have le: "seg_end fs t \<le> seg_end fs (last (t # ts))"
    using D(6) seg_start_le_end [of fs "seg_end fs t" ts] by (cases "ts = []") auto
  show ?case
  proof (cases "s = t")
    case True
    have "seg_end fs t \<le> unat (rLSN r)" if "r \<in> set (durable fs ts)" for r
      using that D(6) durable_bounds [of fs "seg_end fs t" ts r] by (cases "ts = []") auto
    then show ?thesis using Cons.prems(3) True D(1,4) le by (fastforce simp: cut_at_def seg_end_def)
  next
    case False
    with Cons.prems(2) have s: "s \<in> set ts" and "ts \<noteq> []" by auto
    with D(6) have ok: "segs_ok fs (seg_end fs t) ts" by simp
    have "unat (rLSN r) \<le> seg_end fs t" if "r \<in> set (seg_recs fs t)" for r
      using lsn_from_bounds [OF D(3) that] D(1) by (simp add: seg_end_def)
    moreover have "p \<le> seg_end fs t" using D(4) by (simp add: seg_end_def)
    ultimately show ?thesis using Cons.IH [OF ok s] Cons.prems(3) \<open>ts \<noteq> []\<close> by auto
  qed
qed simp

lemma segs_start_ge: "segs_ok fs p ss \<Longrightarrow> t \<in> set ss \<Longrightarrow> p \<le> unat (segStartLSN t)"
proof (induction ss arbitrary: p)
  case (Cons u us)
  note D = segs_ok_Cons [OF Cons.prems(1)]
  show ?case
  proof (cases "t = u")
    case False
    with Cons.prems(2) have "t \<in> set us" "us \<noteq> []" by auto
    with D(6) Cons.IH [of "seg_end fs u"] D(4) show ?thesis by (simp add: seg_end_def)
  qed (use D(4) in simp)
qed simp

lemma find_segment:
  assumes "segs_ok fs p ss" and "r \<in> set (durable fs ss)"
  shows "\<exists>s \<in> set ss. find (\<lambda>s. segStartLSN s \<le> rLSN r \<and> (segEndLSN s = 0 \<or> rLSN r < segEndLSN s)) (rev ss) = Some s \<and>
    r \<in> set (seg_recs fs s)"
  using assms
proof (induction ss arbitrary: p)
  case (Cons s ss)
  let ?P = "\<lambda>s. segStartLSN s \<le> rLSN r \<and> (segEndLSN s = 0 \<or> rLSN r < segEndLSN s)"
  note D = segs_ok_Cons [OF Cons.prems(1)]
  show ?case
  proof (cases "r \<in> set (durable fs ss)")
    case True
    then have "ss \<noteq> []" by auto
    with D(6) have "segs_ok fs (seg_end fs s) ss" by simp
    from Cons.IH [OF this True] show ?thesis by (auto simp: find_append)
  next
    case False
    with Cons.prems(2) have r: "r \<in> set (seg_recs fs s)" by simp
    have b: "unat (segStartLSN s) \<le> unat (rLSN r)" "unat (rLSN r) < seg_end fs s"
      using lsn_from_bounds [OF D(3) r] D(1) by (simp_all add: seg_end_def)
    have "\<not> ?P t" if "t \<in> set ss" for t
    proof -
      from that D(6) have "segs_ok fs (seg_end fs s) ss" by force
      from segs_start_ge [OF this that] b(2) show ?thesis by (simp add: word_le_nat_alt)
    qed
    then have "find ?P (rev ss) = None" by (simp add: find_None_iff)
    moreover have "?P s"
      using b D(5,6) by (cases "ss = []") (simp_all add: word_le_nat_alt word_less_nat_alt)
    ultimately show ?thesis using r by (simp add: find_append)
  qed
qed simp


section \<open>The invariant of the manager\<close>

abbreviation segs :: "WALManager \<Rightarrow> segmentInfo list" where
  "segs w \<equiv> Segments (catState (walCatalog w))"

definition durable_of :: "WALManager \<Rightarrow> LogRecord list" where
  "durable_of w = durable (walFS w) (segs w)"

definition log_of :: "WALManager \<Rightarrow> LogRecord list" where
  "log_of w = durable_of w @ scanRecords (buffer w)"

text \<open>Sequence numbers grow, paths are the numbered ones, the first one may be the legacy file.\<close>

definition paths_ok :: "string \<Rightarrow> FS \<Rightarrow> segmentInfo list \<Rightarrow> bool" where
  "paths_ok base fs ss \<longleftrightarrow> distinct (map segPath ss) \<and> (\<forall>s \<in> set ss. segSeq s \<le> segSeq (last ss)) \<and>
     (\<forall>s \<in> set ss. segPath s = base \<or> segPath s = segmentPath base (segSeq s)) \<and>
     (\<forall>n > segSeq (last ss). fsFiles fs (segmentPath base n) = None)"

definition wal_inv :: "WALManager \<Rightarrow> bool" where
  "wal_inv w \<longleftrightarrow> segs_ok (walFS w) 0 (segs w) \<and> paths_ok (basePath w) (walFS w) (segs w) \<and>
     catPath (walCatalog w) = catalogPath (basePath w) \<and>
     fsCatalogs (walFS w) (catPath (walCatalog w)) = Some (Some (catState (walCatalog w))) \<and>
     currentFile w = segPath (last (segs w)) \<and> segmentStart w = segStartLSN (last (segs w)) \<and>
     fileOpen w \<and> unat (flushedLSN w) = seg_end (walFS w) (last (segs w)) \<and>
     (\<exists>rs. buffer w = enc rs \<and> lsn_from (unat (flushedLSN w)) rs) \<and>
     unat (currentLSN w) = unat (flushedLSN w) + length (buffer w) \<and> unat (currentLSN w) < 2 ^ 63"

lemma wal_invD:
  assumes "wal_inv w"
  shows "segs_ok (walFS w) 0 (segs w)" and "paths_ok (basePath w) (walFS w) (segs w)"
    and "catPath (walCatalog w) = catalogPath (basePath w)"
    and "fsCatalogs (walFS w) (catPath (walCatalog w)) = Some (Some (catState (walCatalog w)))"
    and "currentFile w = segPath (last (segs w))" and "segmentStart w = segStartLSN (last (segs w))"
    and "fileOpen w" and "unat (flushedLSN w) = seg_end (walFS w) (last (segs w))"
    and "buffer w = enc (scanRecords (buffer w))" and "lsn_from (unat (flushedLSN w)) (scanRecords (buffer w))"
    and "unat (currentLSN w) = unat (flushedLSN w) + length (buffer w)" and "unat (currentLSN w) < 2 ^ 63"
    and "segs w \<noteq> []"
  using assms by (auto simp: wal_inv_def scanRecords_enc)

text \<open>The segments can be changed from some point on without looking at the earlier ones.\<close>

lemma segs_ok_tail:
  assumes "segs_ok fs p (ss @ ts)" and "ts \<noteq> []"
  obtains q where "p \<le> q" and "segs_ok fs q ts"
    and "\<And>fs' us. us \<noteq> [] \<Longrightarrow> segs_ok fs' q us \<Longrightarrow> (\<And>s. s \<in> set ss \<Longrightarrow> fsFiles fs' (segPath s) = fsFiles fs (segPath s))
      \<Longrightarrow> segs_ok fs' p (ss @ us)"
  using assms
proof (induction ss arbitrary: p thesis)
  case (Cons s ss)
  note D = segs_ok_Cons [OF Cons.prems(2) [unfolded append_Cons]]
  from D(6) Cons.prems(3) have e: "unat (segEndLSN s) = seg_end fs s" "segs_ok fs (seg_end fs s) (ss @ ts)" by simp_all
  obtain q where q: "seg_end fs s \<le> q" "segs_ok fs q ts"
    "\<And>fs' us. us \<noteq> [] \<Longrightarrow> segs_ok fs' q us \<Longrightarrow> (\<And>s. s \<in> set ss \<Longrightarrow> fsFiles fs' (segPath s) = fsFiles fs (segPath s))
      \<Longrightarrow> segs_ok fs' (seg_end fs s) (ss @ us)"
    using Cons.IH [OF _ e(2) Cons.prems(3)] by metis
  have "segs_ok fs' p ((s # ss) @ us)" if u: "us \<noteq> []" "segs_ok fs' q us"
    "\<And>t. t \<in> set (s # ss) \<Longrightarrow> fsFiles fs' (segPath t) = fsFiles fs (segPath t)" for fs' us
  proof -
    have "segs_ok fs' (seg_end fs s) (ss @ us)" using q(3) [OF u(1,2)] u(3) by simp
    then show ?thesis
      using D(1,2,3,4) e(1) u(1,3) by (simp, intro exI [of _ "seg_recs fs s"]) (auto simp: seg_end_def)
  qed
  with q D(4) show ?case by (intro Cons.prems(1) [of q]) (simp_all add: seg_end_def)
next
  case Nil
  then show ?case by (intro Nil.prems(1) [of p]) simp_all
qed

lemma segs_ok_butlast_last:
  assumes "wal_inv w"
  shows "segs_ok (walFS w) 0 (butlast (segs w) @ [last (segs w)])"
  using wal_invD(1,13) [OF assms] by simp

text \<open>What a flush does.\<close>

lemma content_upd: "content (fs\<lparr>fsFiles := (fsFiles fs)(p \<mapsto> b)\<rparr>) q = (if q = p then b else content fs q)"
  by (simp add: content_def)

lemma distinct_last:
  "distinct (map f xs) \<Longrightarrow> xs \<noteq> [] \<Longrightarrow> x \<in> set (butlast xs) \<Longrightarrow> f x \<noteq> f (last xs)"
  by (induction xs) (auto split: if_splits)

lemma durable_cong:
  "(\<And>s. s \<in> set ss \<Longrightarrow> content fs' (segPath s) = content fs (segPath s)) \<Longrightarrow> durable fs' ss = durable fs ss"
  by (induction ss) (auto simp: seg_recs_def)

definition flush_state :: "WALManager \<Rightarrow> WALManager" where
  "flush_state w = w\<lparr>walFS := (walFS w)\<lparr>fsFiles := (fsFiles (walFS w))(currentFile w \<mapsto> content (walFS w) (currentFile w) @ buffer w)\<rparr>,
     buffer := [], flushedLSN := currentLSN w\<rparr>"

lemma flush_state_fields [simp]:
  "walCatalog (flush_state w) = walCatalog w" "basePath (flush_state w) = basePath w" "buffer (flush_state w) = []"
  "flushedLSN (flush_state w) = currentLSN w" "currentLSN (flush_state w) = currentLSN w" "fileOpen (flush_state w) = fileOpen w"
  "currentFile (flush_state w) = currentFile w" "segmentStart (flush_state w) = segmentStart w"
  "fsCatalogs (walFS (flush_state w)) = fsCatalogs (walFS w)" "maxSegSize (flush_state w) = maxSegSize w"
  "syncOnCommit (flush_state w) = syncOnCommit w" "bufferSize (flush_state w) = bufferSize w"
  "gcLeader (flush_state w) = gcLeader w"
  by (simp_all add: flush_state_def)

lemma flush_state_inv:
  assumes "wal_inv w"
  shows "wal_inv (flush_state w)" and "durable_of (flush_state w) = log_of w" and "log_of (flush_state w) = log_of w"
proof -
  note D = wal_invD [OF assms]
  let ?ss = "butlast (segs w)" and ?s = "last (segs w)" and ?fs = "walFS w" and ?fs' = "walFS (flush_state w)"
  have ss: "segs w = ?ss @ [?s]" using D(13) by simp
  have dp: "distinct (map segPath (segs w))" using D(2) by (simp add: paths_ok_def)
  have other: "fsFiles ?fs' (segPath s) = fsFiles ?fs (segPath s)" if "s \<in> set ?ss" for s
    using distinct_last [OF dp D(13) that] D(5) by (simp add: flush_state_def)
  obtain q where q: "segs_ok ?fs q [?s]" "\<And>fs' us. us \<noteq> [] \<Longrightarrow> segs_ok fs' q us \<Longrightarrow>
      (\<And>s. s \<in> set ?ss \<Longrightarrow> fsFiles fs' (segPath s) = fsFiles ?fs (segPath s)) \<Longrightarrow> segs_ok fs' 0 (?ss @ us)"
    by (rule segs_ok_tail [OF segs_ok_butlast_last [OF assms]]) auto
  note S = segs_ok_Cons [OF q(1)]
  let ?rs = "seg_recs ?fs ?s" and ?b = "scanRecords (buffer w)"
  have rs: "lsn_from (unat (segStartLSN ?s)) (?rs @ ?b)"
    using S(1,3) D(8,10) by (simp add: seg_end_def)
  have c: "content ?fs' (segPath ?s) = enc (?rs @ ?b)"
    using S(1) D(5,9) by (simp add: flush_state_def content_upd)
  have f: "fsFiles ?fs' (segPath ?s) = Some (enc (?rs @ ?b))"
    using c D(5) by (simp add: flush_state_def content_upd)
  have s1: "segs_ok ?fs' q [?s]" using S(4,5) rs f by (intro segs_ok_ConsI [of _ _ _ "?rs @ ?b"]) auto
  have s2: "segs_ok ?fs' 0 (segs w)" using q(2) [OF _ s1] other ss by (metis list.distinct(1))
  have r: "seg_recs ?fs' ?s = ?rs @ ?b" using scanRecords_enc [OF rs] c by (simp add: seg_recs_def)
  have "durable ?fs' ?ss = durable ?fs ?ss" using other by (intro durable_cong) (simp add: content_def)
  then have "durable ?fs' (?ss @ [?s]) = durable ?fs (?ss @ [?s]) @ ?b" using r by simp
  then show dl: "durable_of (flush_state w) = log_of w" using ss by (simp add: durable_of_def log_of_def)
  then show "log_of (flush_state w) = log_of w" by (simp add: log_of_def)
  have "seg_end ?fs' ?s = unat (currentLSN w)"
    using c S(1) D(8,9,11) by (simp add: seg_end_def)
  moreover have "fsFiles ?fs' (segmentPath (basePath w) n) = None" if "n > segSeq ?s" for n
  proof -
    have "currentFile w = basePath w \<or> currentFile w = segmentPath (basePath w) (segSeq ?s)"
      using D(2,5,13) by (simp add: paths_ok_def)
    with that D(2) show ?thesis by (auto simp: flush_state_def paths_ok_def)
  qed
  then have "paths_ok (basePath w) ?fs' (segs w)" using D(2) by (simp add: paths_ok_def)
  ultimately show "wal_inv (flush_state w)"
    using s2 D(3-7,11,12) by (simp add: wal_inv_def exI [of _ "[]"])
qed

lemma flushLocked_ok:
  assumes "wal_inv w"
  shows "\<exists>w'. flushLocked w = (Inr (), w') \<and> wal_inv w' \<and> log_of w' = log_of w \<and> durable_of w' = log_of w \<and>
    buffer w' = [] \<and> currentLSN w' = currentLSN w \<and> flushedLSN w' = currentLSN w \<and> basePath w' = basePath w \<and>
    maxSegSize w' = maxSegSize w \<and> bufferSize w' = bufferSize w \<and> segs w' = segs w \<and> gcLeader w' = gcLeader w"
proof (cases "buffer w = []")
  case True
  then have "flushedLSN w = currentLSN w" using wal_invD(11) [OF assms] by (simp add: word_unat_eq_iff)
  moreover have "log_of w = durable_of w" using True by (simp add: log_of_def)
  ultimately show ?thesis using True assms by (simp add: flushLocked_def)
next
  case False
  then have "flushLocked w = (Inr (), flush_state w)"
    using wal_invD(7) [OF assms] by (simp add: flushLocked_def flush_state_def Let_def)
  with flush_state_inv [OF assms] show ?thesis by simp
qed


text \<open>What a rotation does to a flushed log.\<close>

lemma update_last: "xs \<noteq> [] \<Longrightarrow> xs[length xs - Suc 0 := y] = butlast xs @ [y]"
  by (induction xs) (auto split: nat.splits simp: list_update.simps)

definition rotate_state :: "WALManager \<Rightarrow> WALManager" where
  "rotate_state w =
     (let s = last (segs w); n = segSeq s + 1; path = segmentPath (basePath w) n;
          st = (catState (walCatalog w))\<lparr>Segments := (butlast (segs w) @ [s\<lparr>segEndLSN := currentLSN w\<rparr>]) @
                 [\<lparr>segSeq = n, segStartLSN = currentLSN w, segEndLSN = 0, segPath = path\<rparr>]\<rparr>;
          cat = (walCatalog w)\<lparr>catState := st\<rparr>
      in w\<lparr>walCatalog := cat, walFS := createFile (saveCatalog cat (walFS w)) path, currentFile := path,
           fileOpen := True, segmentStart := currentLSN w\<rparr>)"

lemma rotate_flushed:
  assumes "wal_inv w" and "buffer w = []"
  shows "rotateSegmentLocked w = Some (Inr (), rotate_state w)"
proof -
  have "closeCurrentSegment (walCatalog w) e = Some ((walCatalog w)\<lparr>catState := (catState (walCatalog w))\<lparr>Segments :=
      butlast (segs w) @ [(last (segs w))\<lparr>segEndLSN := e\<rparr>]\<rparr>\<rparr>)" for e
    using wal_invD(13) [OF assms(1)] by (simp add: closeCurrentSegment_def Let_def update_last last_conv_nth)
  then show ?thesis
    using assms wal_invD(7,13) [OF assms(1)]
    by (simp add: rotateSegmentLocked_def flushLocked_def closeFile_def nextSeq_def appendSegment_def rotate_state_def Let_def)
qed

lemma rotate_state_inv:
  assumes "wal_inv w" and "buffer w = []"
  shows "wal_inv (rotate_state w)" and "log_of (rotate_state w) = log_of w"
proof -
  note D = wal_invD [OF assms(1)]
  let ?ss = "butlast (segs w)" and ?s = "last (segs w)" and ?fs = "walFS w" and ?fs' = "walFS (rotate_state w)"
  let ?e = "currentLSN w" and ?path = "segmentPath (basePath w) (segSeq (last (segs w)) + 1)"
  let ?s' = "?s\<lparr>segEndLSN := ?e\<rparr>"
  let ?new = "\<lparr>segSeq = segSeq ?s + 1, segStartLSN = ?e, segEndLSN = 0, segPath = ?path\<rparr>"
  have dp: "distinct (map segPath (segs w))" using D(2) by (simp add: paths_ok_def)
  have pn: "segPath s = basePath w \<or> segPath s = segmentPath (basePath w) (segSeq s) \<and> segSeq s \<le> segSeq ?s" if "s \<in> set (segs w)" for s
    using D(2) that by (auto simp: paths_ok_def)
  have ne: "segPath s \<noteq> ?path" if "s \<in> set (segs w)" for s using pn [OF that] by auto
  have segs': "segs (rotate_state w) = ?ss @ [?s', ?new]" by (simp add: rotate_state_def Let_def)
  have none: "fsFiles ?fs ?path = None" using D(2) by (simp add: paths_ok_def)
  have files: "fsFiles ?fs' = (fsFiles ?fs)(?path \<mapsto> [])"
    using none by (simp add: rotate_state_def Let_def createFile_def saveCatalog_def content_def)
  have other: "fsFiles ?fs' (segPath s) = fsFiles ?fs (segPath s)" if "s \<in> set (segs w)" for s
    using ne [OF that] files by simp
  have e: "unat ?e = seg_end ?fs ?s" "flushedLSN w = ?e"
    using D(8,11) assms(2) by (simp_all add: word_unat_eq_iff)
  obtain q where q: "segs_ok ?fs q [?s]" "\<And>fs' us. us \<noteq> [] \<Longrightarrow> segs_ok fs' q us \<Longrightarrow>
      (\<And>s. s \<in> set ?ss \<Longrightarrow> fsFiles fs' (segPath s) = fsFiles ?fs (segPath s)) \<Longrightarrow> segs_ok fs' 0 (?ss @ us)"
    by (rule segs_ok_tail [OF segs_ok_butlast_last [OF assms(1)]]) auto
  note S = segs_ok_Cons [OF q(1)]
  have last_in: "?s \<in> set (segs w)" using D(13) by simp
  have fs: "fsFiles ?fs' (segPath ?s) = Some (enc (seg_recs ?fs ?s))" using other [OF last_in] S(1,2) by simp
  have new: "segs_ok ?fs' (unat ?e) [?new]" using files by (intro segs_ok_ConsI [of _ _ _ "[]"]) auto
  have s1: "segs_ok ?fs' q [?s', ?new]"
    using S(1,3,4) fs new e(1) by (intro segs_ok_ConsI [of _ _ _ "seg_recs ?fs ?s"]) (auto simp: seg_end_def)
  have s2: "segs_ok ?fs' 0 (?ss @ [?s', ?new])"
    by (rule q(2) [OF _ s1]) (auto intro: other in_set_butlastD)
  have "durable ?fs' (?ss @ [?s', ?new]) = durable ?fs (?ss @ [?s])"
  proof -
    have "durable ?fs' ?ss = durable ?fs ?ss"
      using other by (intro durable_cong) (auto simp: content_def dest!: in_set_butlastD)
    moreover have "seg_recs ?fs' ?s' = seg_recs ?fs ?s" using other [OF last_in] by (simp add: seg_recs_def content_def)
    moreover have "seg_recs ?fs' ?new = []" using files by (simp add: seg_recs_def content_def)
    ultimately show ?thesis by simp
  qed
  then show "log_of (rotate_state w) = log_of w"
    using assms(2) segs' D(13) by (simp add: log_of_def durable_of_def) (simp add: rotate_state_def Let_def)
  have "paths_ok (basePath w) ?fs' (?ss @ [?s', ?new])"
  proof -
    have d: "distinct (map segPath (?ss @ [?s]))" using dp D(13) by simp
    have "?path \<notin> segPath ` set (?ss @ [?s])" using ne D(13) by (metis append_butlast_last_id imageE)
    then have "distinct (map segPath (?ss @ [?s', ?new]))" using d by auto
    moreover have "segPath s = basePath w \<or> segPath s = segmentPath (basePath w) (segSeq s)" "segSeq s \<le> segSeq ?s + 1"
      if "s \<in> set (?ss @ [?s', ?new])" for s
      using that pn [of s] pn [OF last_in] D(2) by (auto simp: paths_ok_def dest!: in_set_butlastD)
    moreover have "fsFiles ?fs' (segmentPath (basePath w) n) = None" if "n > segSeq ?s + 1" for n
      using that files D(2) by (simp add: paths_ok_def)
    ultimately show ?thesis by (simp add: paths_ok_def)
  qed
  moreover have "seg_end ?fs' ?new = unat ?e" using files by (simp add: seg_end_def content_def)
  moreover have "fsCatalogs ?fs' (catPath (walCatalog (rotate_state w))) = Some (Some (catState (walCatalog (rotate_state w))))"
    by (simp add: rotate_state_def Let_def createFile_def saveCatalog_def)
  ultimately show "wal_inv (rotate_state w)"
    using s2 segs' D(3,12) e(2) assms(2)
    by (simp add: wal_inv_def exI [of _ "[]"]) (simp add: rotate_state_def Let_def exI [of _ "[]"])
qed


section \<open>The operations\<close>

lemma rotateSegmentLocked_ok:
  assumes "wal_inv w"
  shows "\<exists>w'. rotateSegmentLocked w = Some (Inr (), w') \<and> wal_inv w' \<and> log_of w' = log_of w \<and>
    currentLSN w' = currentLSN w \<and> bufferSize w' = bufferSize w \<and> basePath w' = basePath w \<and> gcLeader w' = gcLeader w"
proof -
  obtain w1 where w1: "flushLocked w = (Inr (), w1)" "wal_inv w1" "log_of w1 = log_of w" "buffer w1 = []"
    "currentLSN w1 = currentLSN w" "bufferSize w1 = bufferSize w" "basePath w1 = basePath w" "gcLeader w1 = gcLeader w"
    using flushLocked_ok [OF assms] by blast
  have "flushLocked w1 = (Inr (), w1)" using w1(4) by (simp add: flushLocked_def)
  then have "rotateSegmentLocked w = rotateSegmentLocked w1" using w1(1) by (simp add: rotateSegmentLocked_def)
  with rotate_flushed [OF w1(2,4)] rotate_state_inv [OF w1(2,4)] w1 show ?thesis
    by (auto simp: rotate_state_def Let_def)
qed

lemma segs_ok_at:
  assumes "segs_ok fs p ss" and "s \<in> set ss"
  obtains q bs where "segs_ok fs q (s # bs)"
proof -
  from assms(2) obtain as bs where "ss = as @ s # bs" by (meson split_list)
  with assms(1) have "segs_ok fs p (as @ s # bs)" by simp
  then obtain q where "segs_ok fs q (s # bs)" by (rule segs_ok_tail) simp
  then show thesis by (rule that)
qed

lemma log_bounds:
  assumes "wal_inv w" and "r \<in> set (log_of w)"
  shows "unat (rLSN r) + length (EncodeLogRecord r) \<le> unat (currentLSN w) \<and> logrec_ok r"
proof -
  note D = wal_invD [OF assms(1)]
  show ?thesis
  proof (cases "r \<in> set (durable_of w)")
    case True
    then have r: "r \<in> set (durable (walFS w) (segs w))" by (simp add: durable_of_def)
    obtain s where "s \<in> set (segs w)" "r \<in> set (seg_recs (walFS w) s)" using find_segment [OF D(1) r] by blast
    moreover have "lsn_from (unat (segStartLSN s)) (seg_recs (walFS w) s)" if "s \<in> set (segs w)" for s
      using segs_ok_at [OF D(1) that] segs_ok_Cons(3) by metis
    ultimately have "logrec_ok r" using lsn_from_ok by blast
    with durable_bounds [OF D(1) r] D(8,11) show ?thesis by simp
  next
    case False
    with assms(2) have r: "r \<in> set (scanRecords (buffer w))" by (simp add: log_of_def)
    from lsn_from_bounds [OF D(10) r] lsn_from_ok [OF D(10) r] D(9,11) show ?thesis by simp
  qed
qed

lemma AppendRecord_ok:
  assumes inv: "wal_inv w" and ok: "logrec_ok r" and lim: "unat (currentLSN w) + length (EncodeLogRecord r) < 2 ^ 63"
  shows "\<exists>w'. AppendRecord w r = Some (currentLSN w, w') \<and> wal_inv w' \<and>
    log_of w' = log_of w @ [r\<lparr>rLSN := currentLSN w\<rparr>] \<and> basePath w' = basePath w \<and> gcLeader w' = gcLeader w \<and>
    unat (currentLSN w') = unat (currentLSN w) + length (EncodeLogRecord r)"
proof -
  let ?r = "r\<lparr>rLSN := currentLSN w\<rparr>"
  obtain w1 where w1: "(if maxSegSize w > 0 \<and> sint (currentLSN w - segmentStart w) + int (length (buffer w)) +
        int (length (EncodeLogRecord r)) > maxSegSize w then map_option snd (rotateSegmentLocked w) else Some w) = Some w1"
    and i1: "wal_inv w1" "log_of w1 = log_of w" "currentLSN w1 = currentLSN w" "basePath w1 = basePath w"
      "gcLeader w1 = gcLeader w"
  proof (cases "maxSegSize w > 0 \<and> sint (currentLSN w - segmentStart w) + int (length (buffer w)) +
        int (length (EncodeLogRecord r)) > maxSegSize w")
    case True
    obtain w' where "rotateSegmentLocked w = Some (Inr (), w')" "wal_inv w'" "log_of w' = log_of w"
      "currentLSN w' = currentLSN w" "basePath w' = basePath w" "gcLeader w' = gcLeader w"
      using rotateSegmentLocked_ok [OF inv] by blast
    with True show thesis by (intro that [of w']) simp_all
  next
    case False
    then show thesis by (intro that [of w] inv refl if_not_P)
  qed
  note D = wal_invD [OF i1(1)]
  define w2 where "w2 = w1\<lparr>buffer := buffer w1 @ EncodeLogRecord ?r,
    currentLSN := currentLSN w1 + word_of_nat (length (EncodeLogRecord ?r))\<rparr>"
  have len: "length (EncodeLogRecord ?r) = length (EncodeLogRecord r)" by simp
  have lsn: "unat (currentLSN w2) = unat (currentLSN w) + length (EncodeLogRecord r)"
    using lim i1(3) by (simp add: w2_def unat_word_ariths unat_of_nat)
  have okr: "logrec_ok ?r" using ok by (simp add: logrec_ok_def)
  define bs where "bs = scanRecords (buffer w1)"
  have b: "buffer w1 = enc bs" "lsn_from (unat (flushedLSN w1)) bs" using D(9,10) by (simp_all add: bs_def)
  have new: "lsn_from (unat (flushedLSN w1)) (bs @ [?r])"
    using b D(11) okr i1(3) by simp
  have buf: "buffer w2 = enc (bs @ [?r])" using b by (simp add: w2_def)
  have fld: "flushedLSN w2 = flushedLSN w1" "walFS w2 = walFS w1" "walCatalog w2 = walCatalog w1" "basePath w2 = basePath w1"
    "currentFile w2 = currentFile w1" "segmentStart w2 = segmentStart w1" "fileOpen w2 = fileOpen w1"
    by (simp_all add: w2_def)
  have "\<exists>rs. buffer w2 = enc rs \<and> lsn_from (unat (flushedLSN w2)) rs" using buf new fld(1) by metis
  moreover have "unat (currentLSN w2) = unat (flushedLSN w2) + length (buffer w2)"
    using lsn i1(3) D(11) b(1) fld(1) buf by simp
  ultimately have i2: "wal_inv w2" using D(1-8) lsn lim unfolding wal_inv_def fld by simp
  have l2: "log_of w2 = log_of w @ [?r]"
    using scanRecords_enc [OF new] buf i1(2) by (simp add: log_of_def durable_of_def w2_def bs_def)
  obtain w3 where w3: "w3 = (if int (length (buffer w2)) \<ge> bufferSize w2 then snd (flushLocked w2) else w2)"
    "wal_inv w3" "log_of w3 = log_of w2" "currentLSN w3 = currentLSN w2" "basePath w3 = basePath w2"
    "gcLeader w3 = gcLeader w2"
    using flushLocked_ok [OF i2] i2 by (cases "int (length (buffer w2)) \<ge> bufferSize w2") auto
  have "AppendRecord w r = Some (currentLSN w, w3)"
    unfolding AppendRecord_def Let_def w1 w3(1) w2_def using i1(3) by simp
  moreover have "basePath w3 = basePath w" "gcLeader w3 = gcLeader w" using w3(5,6) i1(4,5) by (simp_all add: w2_def)
  ultimately show ?thesis using w3 l2 lsn by auto
qed

lemma ScanFrom_ok:
  assumes inv: "wal_inv w" and q: "unat q \<le> unat (OldestLSN w) \<or> currentLSN w \<le> q \<or> (\<exists>r \<in> set (log_of w). rLSN r = q)"
    and lim: "unat q < 2 ^ 63"
  shows "\<exists>w'. ScanFrom w q = (Inr (), filter (\<lambda>r. q \<le> rLSN r) (log_of w), w') \<and> wal_inv w' \<and>
    log_of w' = log_of w \<and> durable_of w' = log_of w \<and> currentLSN w' = currentLSN w"
proof -
  obtain w1 where w1: "flushLocked w = (Inr (), w1)" "wal_inv w1" "log_of w1 = log_of w" "durable_of w1 = log_of w"
    "currentLSN w1 = currentLSN w" "flushedLSN w1 = currentLSN w" "segs w1 = segs w"
    using flushLocked_ok [OF inv] by blast
  note D = wal_invD [OF w1(2)]
  let ?p = "unat (OldestLSN w)"
  have ok: "segs_ok (walFS w1) ?p (segs w1)"
  proof (cases "segs w1")
    case (Cons t ts)
    with w1(7) have "segs w = t # ts" by simp
    with D(1) w1(7) show ?thesis by (simp add: OldestLSN_def)
  qed (use D(13) in simp)
  have "seg_end (walFS w1) (last (segs w1)) = unat (currentLSN w)" using D(8) w1(6) by simp
  then have "unat q \<le> ?p \<or> seg_end (walFS w1) (last (segs w1)) \<le> unat q \<or> (\<exists>r \<in> set (durable (walFS w1) (segs w1)). rLSN r = q)"
    using q w1(4) by (simp add: durable_of_def word_le_nat_alt)
  from segs_cut [OF ok _ this] have "\<forall>s \<in> set (segs w1). cut_at (unat (segStartLSN s)) (seg_recs (walFS w1) s) (unat q)"
    by blast
  from scanSegments_ok [OF ok this lim] w1 show ?thesis
    by (simp add: ScanFrom_def segmentsContaining_def durable_of_def)
qed

lemma readRecordAt_enc: "logrec_ok r \<Longrightarrow> readRecordAt (EncodeLogRecord r @ xs) = Inr r"
proof -
  assume ok: "logrec_ok r"
  let ?e = "EncodeLogRecord r"
  have n: "unat (Uint32 (take 37 (?e @ xs)) 29) = length (rPayload r)"
  proof -
    have "get_at (take 37 bs) 29 4 = get_at bs 29 4" for bs :: bytes by (simp add: get_at_def drop_take)
    then have "Uint32 (take 37 (?e @ xs)) 29 = Uint32 (?e @ xs) 29" unfolding Uint32_def by metis
    then show ?thesis using logrec_fields(6) [OF ok, of "le_bytes 4 (unat (ChecksumIEEE (logrec_body r))) @ xs"]
      by (simp only: EncodeLogRecord_append append_assoc)
  qed
  have ne: "?e @ xs \<noteq> []" using length_EncodeLogRecord [of r] by fastforce
  have h: "readFull (?e @ xs) 37 = Inr (take 37 (?e @ xs))" using ne by (simp add: readFull_def)
  have p: "readFull (drop 37 (?e @ xs)) (length (rPayload r)) = Inr (take (length (rPayload r)) (drop 37 (?e @ xs)))"
    by (auto simp: readFull_def)
  have "take 37 (?e @ xs) @ take (length (rPayload r)) (drop 37 (?e @ xs)) = ?e"
    unfolding take_add [symmetric] by simp
  moreover have "DecodeLogRecord ?e = Inr r" using DecodeLogRecord_EncodeLogRecord [OF ok, of "[]"] by simp
  moreover have fx: "LogRecordFixedSize = 37" by (simp add: LogRecordFixedSize_def)
  ultimately show ?thesis unfolding readRecordAt_def Let_def fx h sum.case n p by (simp only:)
qed

lemma FetchRecord_ok:
  assumes inv: "wal_inv w" and r: "r \<in> set (log_of w)"
  shows "\<exists>w'. FetchRecord w (rLSN r) = (Inr r, w') \<and> wal_inv w' \<and> log_of w' = log_of w"
proof -
  obtain w1 where w1: "flushLocked w = (Inr (), w1)" "wal_inv w1" "log_of w1 = log_of w" "durable_of w1 = log_of w"
    using flushLocked_ok [OF inv] by blast
  note D = wal_invD [OF w1(2)]
  from r w1(4) have "r \<in> set (durable (walFS w1) (segs w1))" by (simp add: durable_of_def)
  with find_segment [OF D(1)] obtain s where s: "s \<in> set (segs w1)"
    "segmentContaining (walCatalog w1) (rLSN r) = Some s" "r \<in> set (seg_recs (walFS w1) s)"
    by (auto simp: segmentContaining_def)
  obtain q bs where "segs_ok (walFS w1) q (s # bs)" by (rule segs_ok_at [OF D(1) s(1)])
  note S = segs_ok_Cons [OF this]
  obtain cs ds where c: "seg_recs (walFS w1) s = cs @ r # ds" "unat (rLSN r) = unat (segStartLSN s) + length (enc cs)"
    by (rule lsn_from_split [OF S(3) s(3)])
  have lt: "unat (rLSN r) < 2 ^ 63" "logrec_ok r"
    using log_bounds [OF w1(2), of r] r w1(3) D(12) by auto
  have off: "sint (rLSN r - segStartLSN s) = int (length (enc cs))"
  proof (cases "segStartLSN s < rLSN r")
    case True
    with unat_sint_diff [OF True lt(1)] c(2) show ?thesis by simp
  next
    case False
    with c(2) have "enc cs = []" by (simp add: word_less_nat_alt)
    then have "rLSN r = segStartLSN s" using c(2) by (simp add: word_unat_eq_iff)
    with \<open>enc cs = []\<close> show ?thesis by simp
  qed
  have "drop (length (enc cs)) (content (walFS w1) (segPath s)) = EncodeLogRecord r @ enc ds"
    using S(1) c(1) by simp
  with readRecordAt_enc [OF lt(2)] off s(2) S(2) w1 show ?thesis by (simp add: FetchRecord_def)
qed


text \<open>A crash loses the buffer; reopening finds the segments as the catalog lists them.\<close>

lemma reopen_ok:
  assumes inv: "wal_inv w"
  shows "\<exists>w'. WALOpen (walFS (snd (CrashClose w))) (basePath w) bs sync mx ac = Some (Inr w') \<and> wal_inv w' \<and>
    log_of w' = durable_of w \<and> currentLSN w' = flushedLSN w"
proof -
  note D = wal_invD [OF inv]
  let ?s = "last (segs w)" and ?fs = "walFS w"
  have fs: "walFS (snd (CrashClose w)) = ?fs" by (simp add: CrashClose_def closeFile_def)
  have in_s: "?s \<in> set (segs w)" using D(13) by simp
  obtain q rest where "segs_ok ?fs q (?s # rest)" by (rule segs_ok_at [OF D(1) in_s])
  note S = segs_ok_Cons [OF this]
  have cr: "createFile ?fs (segPath ?s) = ?fs"
    using S(2) by (simp add: createFile_def fun_upd_idem)
  have lsn: "segStartLSN ?s + word_of_nat (length (content ?fs (segPath ?s))) = flushedLSN w"
    using D(8) u64_bound [of "flushedLSN w"] by (simp add: word_unat_eq_iff unat_word_ariths unat_of_nat seg_end_def)
  have load: "loadOrCreateCatalog ?fs (basePath w) = Inr (walCatalog w, ?fs)"
    using D(3,4) by (simp add: loadOrCreateCatalog_def)
  define w' where "w' = \<lparr>basePath = basePath w, walCatalog = walCatalog w, walFS = ?fs, currentFile = segPath ?s, fileOpen = True,
    segmentStart = segStartLSN ?s, buffer = [], bufferSize = bs, currentLSN = flushedLSN w, flushedLSN = flushedLSN w,
    syncOnCommit = sync, maxSegSize = mx, archiveCmd = ac, gcLeader = False, gcEpoch = 0\<rparr>"
  have "WALOpen ?fs (basePath w) bs sync mx ac = Some (Inr w')"
    using D(13) cr lsn by (simp add: WALOpen_def load currentSegment_def w'_def Let_def)
  moreover have "wal_inv w'"
    using D(1-4,8,11,12) by (simp add: wal_inv_def w'_def exI [of _ "[]"])
  moreover have "log_of w' = durable_of w" "currentLSN w' = flushedLSN w"
    by (simp_all add: log_of_def durable_of_def w'_def)
  ultimately show ?thesis unfolding fs by blast
qed

text \<open>A log in a fresh directory.\<close>

lemma open_fresh:
  assumes "fsCatalogs fs (catalogPath base) = None" and "\<And>n. fsFiles fs (segmentPath base n) = None" and "fsFiles fs base = None"
  shows "\<exists>w. WALOpen fs base bs sync mx ac = Some (Inr w) \<and> wal_inv w \<and> log_of w = [] \<and> currentLSN w = 0"
proof -
  let ?p = "segmentPath base 1"
  define s where "s = \<lparr>segSeq = 1, segStartLSN = 0, segEndLSN = 0, segPath = ?p\<rparr>"
  define c where "c = \<lparr>catPath = catalogPath base, catState = \<lparr>Segments = [s], OldestRequiredLSN = 0\<rparr>\<rparr>"
  define fs' where "fs' = createFile (saveCatalog c fs) ?p"
  have files: "fsFiles fs' = (fsFiles fs)(?p \<mapsto> [])" "fsCatalogs fs' = (fsCatalogs fs)(catalogPath base \<mapsto> Some (catState c))"
    using assms(2) by (simp_all add: fs'_def createFile_def saveCatalog_def content_def c_def)
  define w where "w = \<lparr>basePath = base, walCatalog = c, walFS = fs', currentFile = ?p, fileOpen = True,
    segmentStart = 0, buffer = [], bufferSize = bs, currentLSN = 0, flushedLSN = 0,
    syncOnCommit = sync, maxSegSize = mx, archiveCmd = ac, gcLeader = False, gcEpoch = 0\<rparr>"
  have c0: "content fs' ?p = []" using files by (simp add: content_def)
  have "WALOpen fs base bs sync mx ac = Some (Inr w)"
    using assms c0 by (simp add: WALOpen_def loadOrCreateCatalog_def currentSegment_def c_def s_def w_def fs'_def Let_def)
  moreover have "wal_inv w"
    using files assms(2) c0
    by (auto simp: wal_inv_def w_def c_def s_def paths_ok_def seg_end_def intro!: exI [of _ "[]"])
  moreover have "log_of w = []"
    using c0 by (simp add: log_of_def durable_of_def w_def c_def s_def seg_recs_def)
  ultimately show ?thesis by (auto simp: w_def)
qed

end
