(* ===== verification/WAL_Props.thy ===== *)
theory WAL_Props
  imports WAL_Log
begin

text \<open>
  Truncation of the log, the interface that the other components use, and the properties of the
  log: appended records can be read back in order, flushed ones survive a crash.
\<close>

section \<open>Truncation\<close>

abbreviation expired :: "u64 \<Rightarrow> segmentInfo \<Rightarrow> bool" where
  "expired t s \<equiv> segEndLSN s > 0 \<and> segEndLSN s \<le> t"

lemma truncateLoop_files:
  assumes "truncateLoop t ac ss fs = (n, rem, fs')"
  shows "rem = filter (\<lambda>s. \<not> expired t s) ss" and "fsCatalogs fs' = fsCatalogs fs"
    and "fsFiles fs' = (\<lambda>p. if p \<in> segPath ` {s \<in> set ss. expired t s} then None else fsFiles fs p)"
    and "n = 0 \<longleftrightarrow> rem = ss"
proof -
  have *: "rem = filter (\<lambda>s. \<not> expired t s) ss \<and> fsCatalogs fs' = fsCatalogs fs \<and>
      fsFiles fs' = (\<lambda>p. if p \<in> segPath ` {s \<in> set ss. expired t s} then None else fsFiles fs p) \<and>
      n = length (filter (expired t) ss)"
    using assms
  proof (induction ss arbitrary: fs n rem)
    case (Cons s ss)
    define fs1 where "fs1 = (if ac \<noteq> '''' then runArchiveHook ac (segPath s) fs else fs)"
    have f1: "fsFiles fs1 = fsFiles fs" "fsCatalogs fs1 = fsCatalogs fs"
      by (simp_all add: fs1_def runArchiveHook_def archiveExec_def)
    show ?case
    proof (cases "expired t s")
      case True
      with Cons.prems obtain n' where
        r: "truncateLoop t ac ss (fs1\<lparr>fsFiles := (fsFiles fs1)(segPath s := None)\<rparr>) = (n', rem, fs')" "n = n' + 1"
        by (auto simp: fs1_def Let_def split: prod.splits)
      from Cons.IH [OF r(1)] r(2) True f1 show ?thesis by (auto simp: fun_eq_iff)
    next
      case False
      with Cons.prems obtain rem' where r: "truncateLoop t ac ss fs = (n, rem', fs')" "rem = s # rem'"
        by (auto split: prod.splits)
      from Cons.IH [OF r(1)] r(2) False show ?thesis by (auto simp: fun_eq_iff)
    qed
  qed auto
  then show "rem = filter (\<lambda>s. \<not> expired t s) ss" "fsCatalogs fs' = fsCatalogs fs"
    "fsFiles fs' = (\<lambda>p. if p \<in> segPath ` {s \<in> set ss. expired t s} then None else fsFiles fs p)" by simp_all
  show "n = 0 \<longleftrightarrow> rem = ss"
    using * by (auto simp: filter_empty_conv filter_id_conv)
qed

lemma segs_ok_filter:
  assumes "segs_ok fs p ss" and "\<And>s. s \<in> set ss \<Longrightarrow> P s \<Longrightarrow> fsFiles fs' (segPath s) = fsFiles fs (segPath s)"
    and "P (last ss)"
  shows "segs_ok fs' p (filter P ss)"
  using assms
proof (induction ss arbitrary: p)
  case (Cons s ss)
  note D = segs_ok_Cons [OF Cons.prems(1)]
  show ?case
  proof (cases "ss = []")
    case True
    with Cons.prems show ?thesis by simp
  next
    case False
    then have e: "unat (segEndLSN s) = seg_end fs s" "segs_ok fs (seg_end fs s) ss" using D(6) by simp_all
    have IH: "segs_ok fs' (seg_end fs s) (filter P ss)" using Cons.IH [OF e(2)] Cons.prems(2,3) False by simp
    have ne: "filter P ss \<noteq> []" using Cons.prems(3) False by (metis filter_empty_conv last_ConsR last_in_set)
    show ?thesis
    proof (cases "P s")
      case True
      with Cons.prems(2) [of s] D(1-4) e(1) IH ne show ?thesis
        by (simp, intro exI [of _ "seg_recs fs s"]) (auto simp: seg_end_def)
    next
      case False
      with IH segs_ok_mono [OF IH, of p] D(4) show ?thesis by (simp add: seg_end_def)
    qed
  qed
qed simp

lemma segs_end_ge: "segs_ok fs p ss \<Longrightarrow> s \<in> set ss \<Longrightarrow> segEndLSN s = 0 \<or> p \<le> unat (segEndLSN s)"
proof (induction ss arbitrary: p)
  case (Cons t ts)
  note D = segs_ok_Cons [OF Cons.prems(1)]
  show ?case
  proof (cases "ts = []")
    case False
    with D(6) have e: "unat (segEndLSN t) = seg_end fs t" "segs_ok fs (seg_end fs t) ts" by simp_all
    show ?thesis
    proof (cases "s = t")
      case False
      with Cons.prems(2) Cons.IH [OF e(2)] D(4) show ?thesis by (auto simp: seg_end_def)
    qed (use e(1) D(4) in \<open>simp add: seg_end_def\<close>)
  qed (use D(5) Cons.prems(2) in simp)
qed simp

lemma durable_filter:
  assumes "segs_ok fs p ss"
  shows "\<exists>pre. durable fs ss = pre @ durable fs (filter (\<lambda>s. \<not> expired t s) ss) \<and> (\<forall>r \<in> set pre. rLSN r < t)"
  using assms
proof (induction ss arbitrary: p)
  case (Cons s ss)
  note D = segs_ok_Cons [OF Cons.prems(1)]
  show ?case
  proof (cases "ss = []")
    case True
    with D(5) show ?thesis by simp
  next
    case False
    with D(6) have e: "unat (segEndLSN s) = seg_end fs s" "segs_ok fs (seg_end fs s) ss" by simp_all
    obtain pre where pre: "durable fs ss = pre @ durable fs (filter (\<lambda>s. \<not> expired t s) ss)" "\<forall>r \<in> set pre. rLSN r < t"
      using Cons.IH [OF e(2)] by blast
    have below: "unat (rLSN r) < unat (segEndLSN s)" if "r \<in> set (seg_recs fs s)" for r
      using lsn_from_bounds [OF D(3) that] D(1) e(1) by (simp add: seg_end_def)
    consider "expired t s" | "segEndLSN s = 0" | "t < segEndLSN s"
      using linorder_not_le [of "segEndLSN s" t] word_gt_0 [of "segEndLSN s"] by metis
    then show ?thesis
    proof cases
      case 1
      then have "rLSN r < t" if "r \<in> set (seg_recs fs s)" for r
        using below [OF that] by (simp add: word_less_nat_alt word_le_nat_alt)
      with pre 1 show ?thesis by (intro exI [of _ "seg_recs fs s @ pre"]) auto
    next
      case 2
      then have "seg_recs fs s = []" using below by (metis gr_implies_not0 list.set_intros(1) neq_Nil_conv unsigned_0)
      with pre 2 show ?thesis by auto
    next
      case 3
      have "\<not> expired t u" if "u \<in> set ss" for u
        using segs_end_ge [OF e(2) that] 3 e(1) by (auto simp: word_less_nat_alt word_le_nat_alt)
      then have "filter (\<lambda>s. \<not> expired t s) (s # ss) = s # ss" using 3 by (auto simp: filter_id_conv)
      then show ?thesis by (metis append_Nil empty_iff list.set(1))
    qed
  qed
qed simp

lemma wal_inv_same_files:
  assumes inv: "wal_inv w" and f: "fsFiles fs' = fsFiles (walFS w)" and c: "fsCatalogs fs' = fsCatalogs (walFS w)"
  shows "wal_inv (w\<lparr>walFS := fs'\<rparr>)" and "log_of (w\<lparr>walFS := fs'\<rparr>) = log_of w"
proof -
  note D = wal_invD [OF inv]
  have "content fs' = content (walFS w)" using f by (simp add: content_def fun_eq_iff)
  then have e: "seg_end fs' = seg_end (walFS w)" "seg_recs fs' = seg_recs (walFS w)"
    by (simp_all add: seg_end_def seg_recs_def fun_eq_iff)
  have "segs_ok fs' 0 (segs w)" using segs_ok_cong [of "segs w" fs' "walFS w"] f D(1) by simp
  moreover have "paths_ok (basePath w) fs' (segs w)" using D(2) f by (simp add: paths_ok_def)
  ultimately show "wal_inv (w\<lparr>walFS := fs'\<rparr>)" using inv c e by (auto simp: wal_inv_def)
  show "log_of (w\<lparr>walFS := fs'\<rparr>) = log_of w" using e by (simp add: log_of_def durable_of_def durable_def)
qed

lemma last_segment_open:
  assumes "wal_inv w"
  shows "segEndLSN (last (segs w)) = 0"
proof -
  from segs_ok_butlast_last [OF assms] obtain q where "segs_ok (walFS w) q [last (segs w)]" by (rule segs_ok_tail) simp
  then show ?thesis by (rule segs_ok_Cons(5)) simp
qed

lemma remaining_segments:
  assumes inv: "wal_inv w" and rem: "rem = filter (\<lambda>s. \<not> expired t s) (segs w)"
    and f: "fsFiles fs' = (\<lambda>p. if p \<in> segPath ` {s \<in> set (segs w). expired t s} then None else fsFiles (walFS w) p)"
  shows "last rem = last (segs w)" and "rem \<noteq> []" and "segs_ok fs' 0 rem" and "paths_ok (basePath w) fs' rem"
    and "s \<in> set rem \<Longrightarrow> content fs' (segPath s) = content (walFS w) (segPath s)"
proof -
  note D = wal_invD [OF inv]
  have "rem = filter (\<lambda>s. \<not> expired t s) (butlast (segs w) @ [last (segs w)])" using rem D(13) by simp
  then show last: "last rem = last (segs w)" "rem \<noteq> []" using last_segment_open [OF inv] by simp_all
  have dist: "distinct (map segPath (segs w))" using D(2) by (simp add: paths_ok_def)
  have keep: "fsFiles fs' (segPath s) = fsFiles (walFS w) (segPath s)" if "s \<in> set (segs w)" "\<not> expired t s" for s
  proof -
    have "segPath s \<notin> segPath ` {s \<in> set (segs w). expired t s}"
      using dist that by (auto simp: distinct_map dest: inj_onD)
    then show ?thesis using f by simp
  qed
  show "segs_ok fs' 0 rem"
    unfolding rem by (rule segs_ok_filter [OF D(1)]) (use keep last_segment_open [OF inv] in auto)
  show "paths_ok (basePath w) fs' rem"
    using D(2) last rem f by (auto simp: paths_ok_def distinct_map intro: inj_on_subset)
  show "content fs' (segPath s) = content (walFS w) (segPath s)" if "s \<in> set rem"
    using keep [of s] that rem by (simp add: content_def)
qed

lemma TruncateUpTo_ok:
  assumes inv: "wal_inv w"
  shows "wal_inv (TruncateUpTo w t) \<and> (\<exists>pre. log_of w = pre @ log_of (TruncateUpTo w t) \<and> (\<forall>r \<in> set pre. rLSN r < t))"
proof -
  note D = wal_invD [OF inv]
  obtain n rem fs' where T: "truncateLoop t (archiveCmd w) (segs w) (walFS w) = (n, rem, fs')" by (metis prod_cases3)
  note L = truncateLoop_files [OF T]
  consider "t = 0" | "t \<noteq> 0" "n = 0" | "t \<noteq> 0" "n \<noteq> 0" by blast
  then show ?thesis
  proof cases
    case 1
    then show ?thesis using inv by (simp add: TruncateUpTo_def)
  next
    case 2
    then have w': "TruncateUpTo w t = w\<lparr>walFS := fs'\<rparr>" using T by (simp add: TruncateUpTo_def truncateUpTo_def)
    from 2 L(1,4) have "\<not> expired t s" if "s \<in> set (segs w)" for s using that by (metis (mono_tags, lifting) filter_id_conv)
    then have "fsFiles fs' = fsFiles (walFS w)" using L(3) by (auto simp: fun_eq_iff)
    from wal_inv_same_files [OF inv this L(2)] show ?thesis unfolding w' by auto
  next
    case 3
    define c where "c = (walCatalog w)\<lparr>catState := \<lparr>Segments = rem, OldestRequiredLSN = t\<rparr>\<rparr>"
    define w' where "w' = w\<lparr>walCatalog := c, walFS := saveCatalog c fs'\<rparr>"
    have w': "TruncateUpTo w t = w'" using 3 T by (simp add: TruncateUpTo_def truncateUpTo_def w'_def c_def Let_def)
    have files: "fsFiles (walFS w') = fsFiles fs'" by (simp add: w'_def saveCatalog_def)
    note R = remaining_segments [OF inv L(1) trans [OF files L(3)]]
    have "seg_end (walFS w') (last rem) = seg_end (walFS w) (last (segs w))"
      using R(5) [of "last rem"] R(1,2) last_in_set [OF R(2)] by (simp add: seg_end_def)
    then have "wal_inv w'"
      using R(1-4) inv by (auto simp: wal_inv_def w'_def c_def saveCatalog_def)
    moreover have "durable (walFS w') rem = durable (walFS w) rem" using R(5) by (rule durable_cong)
    then have "log_of w' = durable (walFS w) rem @ scanRecords (buffer w)"
      by (simp add: log_of_def durable_of_def w'_def c_def)
    ultimately show ?thesis
      using durable_filter [OF D(1), of t] L(1) w' by (auto simp: log_of_def durable_of_def)
  qed
qed

section \<open>The interface of a log\<close>

text \<open>
  What the other components rely on: appending adds the record at the end under the next LSN, and
  a flush makes every record below its target durable. \<open>dur\<close> is the part of the log that a crash
  does not lose.
\<close>

locale record_log =
  fixes inv :: "'w \<Rightarrow> bool" and recs :: "'w \<Rightarrow> LogRecord list" and dur :: "'w \<Rightarrow> LogRecord list"
    and nxt :: "'w \<Rightarrow> u64" and app :: "'w \<Rightarrow> LogRecord \<Rightarrow> (u64 \<times> 'w) option"
    and flush :: "'w \<Rightarrow> u64 \<Rightarrow> (error, unit) result \<times> 'w"
  assumes app_law: "inv w \<Longrightarrow> logrec_ok r \<Longrightarrow> unat (nxt w) + length (EncodeLogRecord r) < 2 ^ 63 \<Longrightarrow>
      \<exists>w'. app w r = Some (nxt w, w') \<and> inv w' \<and> recs w' = recs w @ [r\<lparr>rLSN := nxt w\<rparr>] \<and>
        unat (nxt w') = unat (nxt w) + length (EncodeLogRecord r)"
    and flush_law: "inv w \<Longrightarrow> \<exists>w'. flush w t = (Inr (), w') \<and> inv w' \<and> recs w' = recs w \<and> nxt w' = nxt w \<and>
        set (dur w) \<subseteq> set (dur w') \<and> (\<forall>r \<in> set (recs w). rLSN r < t \<longrightarrow> r \<in> set (dur w'))"
    and recs_law: "inv w \<Longrightarrow> r \<in> set (recs w) \<Longrightarrow> rLSN r < nxt w"
    and dur_law: "inv w \<Longrightarrow> \<exists>bs. recs w = dur w @ bs"
begin

lemma flush_all:
  assumes "inv w"
  shows "\<exists>w'. flush w (nxt w) = (Inr (), w') \<and> inv w' \<and> recs w' = recs w \<and> set (dur w') = set (recs w)"
proof -
  obtain w' where w': "flush w (nxt w) = (Inr (), w')" "inv w'" "recs w' = recs w"
    "\<forall>r \<in> set (recs w). rLSN r < nxt w \<longrightarrow> r \<in> set (dur w')"
    using flush_law [OF assms, of "nxt w"] by blast
  moreover have "set (recs w) \<subseteq> set (dur w')" using w'(4) recs_law [OF assms] by blast
  moreover have "set (dur w') \<subseteq> set (recs w')" using dur_law [OF w'(2)] by auto
  ultimately show ?thesis by auto
qed

end

lemma FlushUpTo_ok:
  assumes inv: "wal_inv w"
  shows "\<exists>w'. FlushUpTo w t = (Inr (), w') \<and> wal_inv w' \<and> log_of w' = log_of w \<and> currentLSN w' = currentLSN w \<and>
    set (durable_of w) \<subseteq> set (durable_of w') \<and> (\<forall>r \<in> set (log_of w). rLSN r < t \<longrightarrow> r \<in> set (durable_of w'))"
proof (cases "flushedLSN w \<ge> t")
  case True
  note D = wal_invD [OF inv]
  have "r \<in> set (durable_of w)" if "r \<in> set (log_of w)" "rLSN r < t" for r
  proof (rule ccontr)
    assume "r \<notin> set (durable_of w)"
    with that(1) have "r \<in> set (scanRecords (buffer w))" by (simp add: log_of_def)
    from lsn_from_bounds [OF D(10) this] that(2) True show False by (simp add: word_less_nat_alt word_le_nat_alt)
  qed
  with True inv show ?thesis by (simp add: FlushUpTo_def)
next
  case False
  obtain w' where "flushLocked w = (Inr (), w')" "wal_inv w'" "log_of w' = log_of w" "durable_of w' = log_of w"
    "currentLSN w' = currentLSN w" using flushLocked_ok [OF inv] by blast
  with False show ?thesis by (auto simp: FlushUpTo_def log_of_def)
qed

interpretation wl: record_log wal_inv log_of durable_of currentLSN AppendRecord FlushUpTo
proof unfold_locales
  fix w r t
  assume inv: "wal_inv w"
  show "\<exists>w'. FlushUpTo w t = (Inr (), w') \<and> wal_inv w' \<and> log_of w' = log_of w \<and> currentLSN w' = currentLSN w \<and>
    set (durable_of w) \<subseteq> set (durable_of w') \<and> (\<forall>r \<in> set (log_of w). rLSN r < t \<longrightarrow> r \<in> set (durable_of w'))"
    by (rule FlushUpTo_ok [OF inv])
  show "rLSN r < currentLSN w" if "r \<in> set (log_of w)"
    using log_bounds [OF inv that] by (simp add: word_less_nat_alt)
  show "\<exists>bs. log_of w = durable_of w @ bs" by (simp add: log_of_def)
  assume "logrec_ok r" "unat (currentLSN w) + length (EncodeLogRecord r) < 2 ^ 63"
  from AppendRecord_ok [OF inv this]
  show "\<exists>w'. AppendRecord w r = Some (currentLSN w, w') \<and> wal_inv w' \<and> log_of w' = log_of w @ [r\<lparr>rLSN := currentLSN w\<rparr>] \<and>
        unat (currentLSN w') = unat (currentLSN w) + length (EncodeLogRecord r)" by blast
qed


section \<open>Group commit\<close>

lemma groupLoop_returns:
  assumes inv: "wal_inv w" and "\<not> gcLeader w" and "lsn \<le> currentLSN w"
  shows "\<exists>w'. groupLoop w lsn = Some w' \<and> wal_inv w' \<and> log_of w' = log_of w \<and> lsn \<le> flushedLSN w'"
proof (cases "flushedLSN w < lsn")
  case True
  let ?v = "w\<lparr>gcLeader := True\<rparr>"
  have "wal_inv ?v" "log_of ?v = log_of w" "currentLSN ?v = currentLSN w"
    using inv by (auto simp: wal_inv_def log_of_def durable_of_def)
  with flushLocked_ok [of ?v] obtain w1 where w1: "flushLocked ?v = (Inr (), w1)" "wal_inv w1" "log_of w1 = log_of w"
    "flushedLSN w1 = currentLSN w" by auto
  let ?u = "w1\<lparr>gcLeader := False, gcEpoch := gcEpoch w + 1\<rparr>"
  have u: "wal_inv ?u" "log_of ?u = log_of w" "flushedLSN ?u = currentLSN w"
    using w1 by (auto simp: wal_inv_def log_of_def durable_of_def)
  have "groupLoop ?u lsn = Some ?u"
    using u(3) assms(3) by (subst groupLoop.simps) (auto simp: not_less)
  then have "groupLoop w lsn = Some ?u"
    using True assms(2) w1(1) by (subst groupLoop.simps) (simp add: Let_def)
  with u assms(3) show ?thesis by simp
next
  case False
  then show ?thesis using inv by (subst groupLoop.simps) simp
qed

lemma CommitGrouped_ok:
  assumes "wal_inv w" and "unat (currentLSN w) + 37 < 2 ^ 63" and "\<not> gcLeader w"
  shows "\<exists>w'. CommitGrouped w txn prev delay = Some (currentLSN w, w') \<and> wal_inv w' \<and>
    log_of w' = log_of w @ [emptyLogRecord\<lparr>rLSN := currentLSN w, rType := LogCommit, rTxnID := txn, rPrevLSN := prev\<rparr>] \<and>
    set (log_of w) \<subseteq> set (durable_of w') \<and> (delay \<le> 0 \<longrightarrow> CommitGrouped w txn prev delay = WALCommit w txn prev)"
proof -
  let ?r = "emptyLogRecord\<lparr>rType := LogCommit, rTxnID := txn, rPrevLSN := prev\<rparr>"
  have ok: "logrec_ok ?r" and len: "length (EncodeLogRecord ?r) = 37" by (simp_all add: logrec_ok_def emptyLogRecord_def)
  obtain w1 where w1: "AppendRecord w ?r = Some (currentLSN w, w1)" "wal_inv w1" "log_of w1 = log_of w @ [?r\<lparr>rLSN := currentLSN w\<rparr>]"
    "unat (currentLSN w1) = unat (currentLSN w) + 37" "gcLeader w1 = gcLeader w"
    using AppendRecord_ok [OF assms(1) ok] assms(2) len by auto
  have old: "rLSN q < currentLSN w" if "q \<in> set (log_of w)" for q using wl.recs_law [OF assms(1) that] .
  show ?thesis
  proof (cases "delay \<le> 0")
    case True
    obtain w2 where w2: "FlushUpTo w1 (currentLSN w) = (Inr (), w2)" "wal_inv w2" "log_of w2 = log_of w1"
      "\<forall>r \<in> set (log_of w1). rLSN r < currentLSN w \<longrightarrow> r \<in> set (durable_of w2)"
      using wl.flush_law [OF w1(2), of "currentLSN w"] by blast
    with w1 True old show ?thesis by (auto simp: CommitGrouped_def WALCommit_def)
  next
    case False
    have "currentLSN w \<le> currentLSN w1" using w1(4) by (simp add: word_le_nat_alt)
    with groupLoop_returns [OF w1(2)] w1(5) assms(3)
    obtain w2 where w2: "groupLoop w1 (currentLSN w) = Some w2" "wal_inv w2" "log_of w2 = log_of w1" "currentLSN w \<le> flushedLSN w2"
      by auto
    have "FlushUpTo w2 (currentLSN w) = (Inr (), w2)" using w2(4) by (simp add: FlushUpTo_def)
    with wl.flush_law [OF w2(2), of "currentLSN w"] have "\<forall>r \<in> set (log_of w2). rLSN r < currentLSN w \<longrightarrow> r \<in> set (durable_of w2)"
      by auto
    with w1 w2 False old show ?thesis by (auto simp: CommitGrouped_def)
  qed
qed

section \<open>Properties\<close>

text \<open>
  C12. The segmented log is a list of records. \<open>AppendRecord\<close> adds the record at the end, with the
  current LSN, whatever rotations and flushes this causes; \<open>ScanFrom\<close> the LSN of any record of the
  log reports exactly the records from there on, in order; \<open>FetchRecord\<close> of an LSN returns the
  record that has it; \<open>TruncateUpTo\<close> drops only records below its bound, from the front.
\<close>

theorem wal_is_a_log:
  assumes "wal_inv w" and "logrec_ok r" and "unat (currentLSN w) + length (EncodeLogRecord r) < 2 ^ 63"
    and "q \<in> set (log_of w)"
  shows "(\<exists>w'. AppendRecord w r = Some (currentLSN w, w') \<and> wal_inv w' \<and> log_of w' = log_of w @ [r\<lparr>rLSN := currentLSN w\<rparr>]) \<and>
    (\<exists>w'. ScanFrom w (rLSN q) = (Inr (), filter (\<lambda>x. rLSN q \<le> rLSN x) (log_of w), w') \<and> log_of w' = log_of w) \<and>
    (\<exists>w'. FetchRecord w (rLSN q) = (Inr q, w') \<and> log_of w' = log_of w) \<and>
    (\<exists>pre. log_of w = pre @ log_of (TruncateUpTo w t) \<and> (\<forall>x \<in> set pre. rLSN x < t))"
proof -
  have "unat (rLSN q) < 2 ^ 63" using log_bounds [OF assms(1,4)] wal_invD(12) [OF assms(1)] by simp
  then have "\<exists>w'. ScanFrom w (rLSN q) = (Inr (), filter (\<lambda>x. rLSN q \<le> rLSN x) (log_of w), w') \<and> log_of w' = log_of w"
    using ScanFrom_ok [OF assms(1), of "rLSN q"] assms(4) by blast
  then show ?thesis
    using wl.app_law [OF assms(1-3)] FetchRecord_ok [OF assms(1,4)] TruncateUpTo_ok [OF assms(1), of t] by blast
qed

definition fresh_fs :: FS where
  "fresh_fs = \<lparr>fsFiles = Map.empty, fsCatalogs = Map.empty, fsCommands = []\<rparr>"

lemma log_example:
  obtains w where "wal_inv w" and "log_of w = [emptyLogRecord]" and "currentLSN w = 37"
proof -
  obtain w0 where w0: "wal_inv w0" "log_of w0 = []" "currentLSN w0 = 0"
    using open_fresh [of fresh_fs "''wal''" 64 True 0 "[]"] by (auto simp: fresh_fs_def)
  have "logrec_ok emptyLogRecord" by (simp add: logrec_ok_def emptyLogRecord_def)
  moreover have e: "emptyLogRecord\<lparr>rLSN := 0\<rparr> = emptyLogRecord" "length (EncodeLogRecord emptyLogRecord) = 37"
    by (simp_all add: emptyLogRecord_def)
  ultimately obtain w where "wal_inv w" "log_of w = [emptyLogRecord]" "unat (currentLSN w) = 37"
    using AppendRecord_ok [OF w0(1), of emptyLogRecord] w0 by auto
  then show thesis by (intro that [of w]) (simp_all add: word_unat_eq_iff)
qed

theorem wal_is_a_log_witness:
  "\<exists>w w'. log_of w = [emptyLogRecord] \<and> FetchRecord w 0 = (Inr emptyLogRecord, w')"
proof -
  obtain w where w: "wal_inv w" "log_of w = [emptyLogRecord]" "currentLSN w = 37" by (rule log_example)
  have "logrec_ok emptyLogRecord" "unat (currentLSN w) + length (EncodeLogRecord emptyLogRecord) < 2 ^ 63"
    using w(3) by (simp_all add: logrec_ok_def emptyLogRecord_def)
  from wal_is_a_log [OF w(1) this, of emptyLogRecord 0] w(2) show ?thesis by (auto simp: emptyLogRecord_def)
qed



text \<open>
  C22. A commit can return before its record is durable. When everything logged so far is on disk,
  the commit record is appended exactly at the flushed LSN; \<open>FlushUpTo\<close> of that LSN then returns
  without a write, so after a crash the commit is gone, although \<open>Commit\<close> (and \<open>CommitGrouped\<close>,
  which returns as well) reported it.
\<close>

theorem commit_not_durable:
  assumes "wal_inv w" and "buffer w = []" and "37 < bufferSize w" and "unat (currentLSN w) + 37 < 2 ^ 63" and "maxSegSize w \<le> 0"
    and "\<not> gcLeader w"
  shows "\<exists>w'. WALCommit w txn prev = Some (currentLSN w, w') \<and> CommitGrouped w txn prev delay = Some (currentLSN w, w') \<and>
    durable_of w' = log_of w \<and> log_of w' = log_of w @ [emptyLogRecord\<lparr>rLSN := currentLSN w, rType := LogCommit, rTxnID := txn, rPrevLSN := prev\<rparr>]"
proof -
  let ?r = "emptyLogRecord\<lparr>rType := LogCommit, rTxnID := txn, rPrevLSN := prev\<rparr>"
  have ok: "logrec_ok ?r" and len: "length (EncodeLogRecord ?r) = 37" and len': "length (EncodeLogRecord (?r\<lparr>rLSN := l\<rparr>)) = 37" for l
    by (simp_all add: logrec_ok_def emptyLogRecord_def)
  obtain w' where w': "AppendRecord w ?r = Some (currentLSN w, w')" "log_of w' = log_of w @ [?r\<lparr>rLSN := currentLSN w\<rparr>]"
    using wl.app_law [OF assms(1) ok] assms(4) len by auto
  have f: "flushedLSN w = currentLSN w" using wal_invD(11) [OF assms(1)] assms(2) by (simp add: word_unat_eq_iff)
  have "w' = w\<lparr>buffer := EncodeLogRecord (?r\<lparr>rLSN := currentLSN w\<rparr>), currentLSN := currentLSN w + 37\<rparr>"
    using w'(1) assms(2,3,5) len' by (simp add: AppendRecord_def Let_def)
  then have "flushedLSN w' = currentLSN w" "durable_of w' = log_of w"
    using f assms(2) by (simp_all add: durable_of_def log_of_def)
  then have "FlushUpTo w' (currentLSN w) = (Inr (), w')" "groupLoop w' (currentLSN w) = Some w'"
    by (simp_all add: FlushUpTo_def groupLoop.simps)
  with w' \<open>durable_of w' = log_of w\<close> show ?thesis by (simp add: WALCommit_def CommitGrouped_def)
qed

theorem commit_not_durable_witness:
  "\<exists>w w'. wal_inv w \<and> WALCommit w 1 0 = Some (0, w') \<and> durable_of w' = [] \<and> length (log_of w') = 1"
proof -
  obtain w where o: "WALOpen fresh_fs ''wal'' 64 True 0 [] = Some (Inr w)" and w: "wal_inv w" "log_of w = []" "currentLSN w = 0"
    using open_fresh [of fresh_fs "''wal''" 64 True 0 "[]"] by (auto simp: fresh_fs_def)
  from o have "buffer w = []" "bufferSize w = 64" "maxSegSize w = 0" "\<not> gcLeader w"
    by (auto simp: WALOpen_def fresh_fs_def loadOrCreateCatalog_def currentSegment_def Let_def)
  with commit_not_durable [OF w(1), of 1 0 0] w show ?thesis by auto
qed




end
