(* ===== verification/Pool.thy ===== *)
theory Pool
  imports Eviction Disk WAL_Props "HOL-Library.AList" Complex_Main
begin

text \<open>
  The buffer pool (\<^verbatim>\<open>internal/buffer/pool.go\<close> and \<^verbatim>\<open>internal/buffer/clock.go\<close>). A frame
  pointer is the index of the frame. The pool owns its disk and its log, which are the disk manager
  and the log manager, as the engine builds it; a pool without a log has \<^term>\<open>None\<close>. The mutex makes
  each method one step; \<open>FlushDirtyPages\<close> visits the dirty page table in the order of the association
  list. Events are left out. \<^term>\<open>None\<close> as a result is a panic of the disk layer on a short buffer,
  which does not occur for frames of the right size.
\<close>

section \<open>Definitions\<close>

definition DefaultPoolSize :: nat where "DefaultPoolSize = 256"

record BufferPool =
  frames :: "Frame list"
  pageTable :: "u32 \<rightharpoonup> nat"
  dirtyPageTable :: "(u32 \<times> u64) list"
  hits :: u64
  misses :: u64
  disk :: DiskManager
  wal :: "WALManager option"
  policy :: EvictionPolicy

definition NewPool :: "nat \<Rightarrow> DiskManager \<Rightarrow> WALManager option \<Rightarrow> BufferPool" where
  "NewPool poolSize dm w = \<lparr>frames = replicate poolSize emptyFrame, pageTable = Map.empty, dirtyPageTable = [],
     hits = 0, misses = 0, disk = dm, wal = w, policy = NewClockPolicy\<rparr>"

definition SetEvictionPolicy :: "BufferPool \<Rightarrow> EvictionPolicy \<Rightarrow> BufferPool" where
  "SetEvictionPolicy bp p = bp\<lparr>policy := p\<rparr>"

text \<open>
  The write-ahead rule, shared by eviction and checkpoint: flush the log up to the greater of the
  recovery LSN and the LSN of the page image.
\<close>

definition flushFor :: "WALManager option \<Rightarrow> u64 \<Rightarrow> bytes \<Rightarrow> (error, unit) result \<times> WALManager option" where
  "flushFor w recLSN data =
     (case w of
        None \<Rightarrow> (Inr (), None)
      | Some w \<Rightarrow>
          let pageLSN = hPageLSN (DecodeHeader \<lparr>ID = 0, Data = data\<rparr>);
              flushLSN = (if pageLSN > recLSN then pageLSN else recLSN);
              (err, w) = FlushUpTo w flushLSN
          in (err, Some w))"

definition evict :: "BufferPool \<Rightarrow> ((error, nat) result \<times> BufferPool) option" where
  "evict bp =
     (let (victimIdx, pol, fs) = ChooseVictim (policy bp) (frames bp);
          bp = bp\<lparr>policy := pol, frames := fs\<rparr>
      in if victimIdx < 0 then Some (Inl ErrBufferPoolFull, bp)
         else let v = nat victimIdx; frame = fs ! v
              in do {
                (err, bp) \<leftarrow>
                  (if fDirty frame then
                     (case flushFor (wal bp) (fRecLSN frame) (fData frame) of
                        (Inl e, w) \<Rightarrow> Some (Inl e, bp\<lparr>wal := w\<rparr>)
                      | (Inr _, w) \<Rightarrow> do {
                          (err, dm) \<leftarrow> WritePage (disk bp) (fPageID frame) (fData frame);
                          let bp = bp\<lparr>wal := w, disk := dm\<rparr>;
                          Some (case err of
                                  Inl e \<Rightarrow> (Inl e, bp)
                                | Inr _ \<Rightarrow> (Inr (), bp\<lparr>dirtyPageTable := AList.delete (fPageID frame) (dirtyPageTable bp)\<rparr>)) })
                   else Some (Inr (), bp));
                Some (case err of
                        Inl e \<Rightarrow> (Inl e, bp)
                      | Inr _ \<Rightarrow> (Inr v, bp\<lparr>pageTable := (pageTable bp)(fPageID frame := None),
                                           frames := (frames bp)[v := ResetFrame frame]\<rparr>)) })"

definition FetchPage :: "BufferPool \<Rightarrow> u32 \<Rightarrow> ((error, nat) result \<times> BufferPool) option" where
  "FetchPage bp pageID =
     (case pageTable bp pageID of
        Some i \<Rightarrow>
          let frame = frames bp ! i;
              fs = (frames bp)[i := frame\<lparr>fPinCount := fPinCount frame + 1\<rparr>];
              (pol, fs) = OnAccess (policy bp) i fs
          in Some (Inr i, bp\<lparr>frames := fs, policy := pol, hits := hits bp + 1\<rparr>)
      | None \<Rightarrow> do {
          (r, bp) \<leftarrow> evict bp;
          (case r of
             Inl e \<Rightarrow> Some (Inl e, bp)
           | Inr i \<Rightarrow>
               let frame = frames bp ! i;
                   (err, data) = ReadPage (disk bp) pageID (fData frame);
                   bp = bp\<lparr>frames := (frames bp)[i := frame\<lparr>fData := data\<rparr>]\<rparr>;
                   tmp = \<lparr>ID = 0, Data = data\<rparr>
               in (case err of
                     Inl e \<Rightarrow> Some (Inl e, bp)
                   | Inr _ \<Rightarrow>
                       if Type tmp \<noteq> 0 \<and> \<not> VerifyChecksum tmp then Some (Inl (ErrChecksumMismatch pageID), bp)
                       else
                         let fs = (frames bp)[i := (frames bp ! i)\<lparr>fPageID := pageID, fPinCount := 1\<rparr>];
                             (pol, fs) = OnAccess (policy bp) i fs
                         in Some (Inr i, bp\<lparr>frames := fs, policy := pol, pageTable := (pageTable bp)(pageID \<mapsto> i),
                                          misses := misses bp + 1\<rparr>))) })"

definition UnpinPage :: "BufferPool \<Rightarrow> u32 \<Rightarrow> bool \<Rightarrow> BufferPool" where
  "UnpinPage bp pageID dirty =
     (case pageTable bp pageID of
        None \<Rightarrow> bp
      | Some i \<Rightarrow>
          let frame = frames bp ! i;
              frame = frame\<lparr>fPinCount := fPinCount frame - 1\<rparr>
          in if dirty \<and> \<not> fDirty frame then
               let frame = frame\<lparr>fDirty := True\<rparr>
               in if map_of (dirtyPageTable bp) pageID = None then
                    let lsn = hPageLSN (DecodeHeader \<lparr>ID = 0, Data = fData frame\<rparr>);
                        lsn = (case wal bp of Some w \<Rightarrow> if lsn = 0 then CurrentLSN w else lsn | None \<Rightarrow> lsn)
                    in bp\<lparr>dirtyPageTable := AList.update pageID lsn (dirtyPageTable bp),
                          frames := (frames bp)[i := SetRecLSN frame lsn]\<rparr>
                  else bp\<lparr>frames := (frames bp)[i := frame]\<rparr>
             else bp\<lparr>frames := (frames bp)[i := frame]\<rparr>)"

definition WritePageData :: "BufferPool \<Rightarrow> u32 \<Rightarrow> Page \<Rightarrow> BufferPool" where
  "WritePageData bp pageID p =
     (case pageTable bp pageID of
        None \<Rightarrow> bp
      | Some i \<Rightarrow> bp\<lparr>frames := (frames bp)[i := (frames bp ! i)\<lparr>fData := Data p\<rparr>]\<rparr>)"

definition ReadPageData :: "BufferPool \<Rightarrow> nat \<Rightarrow> Page" where
  "ReadPageData bp i = \<lparr>ID = fPageID (frames bp ! i), Data = fData (frames bp ! i)\<rparr>"

text \<open>The loop of \<open>FlushDirtyPages\<close> over the entries that are left.\<close>

fun flushLoop :: "BufferPool \<Rightarrow> (u32 \<times> u64) list \<Rightarrow> ((error, unit) result \<times> BufferPool) option" where
  "flushLoop bp [] = Some (Inr (), bp)"
| "flushLoop bp ((pageID, recLSN) # rest) =
     (case pageTable bp pageID of
        None \<Rightarrow> flushLoop bp rest
      | Some i \<Rightarrow>
          let frame = frames bp ! i
          in (case flushFor (wal bp) recLSN (fData frame) of
                (Inl e, w) \<Rightarrow> Some (Inl e, bp\<lparr>wal := w\<rparr>)
              | (Inr _, w) \<Rightarrow> do {
                  (err, dm) \<leftarrow> WritePage (disk bp) pageID (fData frame);
                  let bp = bp\<lparr>wal := w, disk := dm\<rparr>;
                  (case err of
                     Inl e \<Rightarrow> Some (Inl e, bp)
                   | Inr _ \<Rightarrow> flushLoop (bp\<lparr>frames := (frames bp)[i := frame\<lparr>fDirty := False, fRecLSN := 0\<rparr>]\<rparr>) rest) }))"

definition FlushDirtyPages :: "BufferPool \<Rightarrow> ((error, unit) result \<times> BufferPool) option" where
  "FlushDirtyPages bp = do {
     (err, bp) \<leftarrow> flushLoop bp (dirtyPageTable bp);
     Some (case err of Inl e \<Rightarrow> (Inl e, bp) | Inr _ \<Rightarrow> (Inr (), bp\<lparr>dirtyPageTable := []\<rparr>)) }"

text \<open>The ratio as a rational number; the float that the code computes is its rounding.\<close>

definition HitRate :: "BufferPool \<Rightarrow> rat" where
  "HitRate bp = (let h = hits bp; m = misses bp; total = h + m
     in if total = 0 then 0 else rat_of_nat (unat h) / rat_of_nat (unat total))"

definition DirtyPageTable :: "BufferPool \<Rightarrow> (u32 \<times> u64) list" where
  "DirtyPageTable bp = dirtyPageTable bp"

definition InvalidatePage :: "BufferPool \<Rightarrow> u32 \<Rightarrow> BufferPool" where
  "InvalidatePage bp pageID =
     (case pageTable bp pageID of
        None \<Rightarrow> bp
      | Some i \<Rightarrow> bp\<lparr>pageTable := (pageTable bp)(pageID := None),
                     dirtyPageTable := AList.delete pageID (dirtyPageTable bp),
                     frames := (frames bp)[i := ResetFrame (frames bp ! i)]\<rparr>)"

definition FrameCount :: "BufferPool \<Rightarrow> nat" where
  "FrameCount bp = length (frames bp)"

record FrameSnapshot =
  snapPageID :: u32
  snapDirty :: bool
  snapPinCount :: int
  snapRecLSN :: u64

definition SnapshotFrames :: "BufferPool \<Rightarrow> FrameSnapshot list" where
  "SnapshotFrames bp = map (\<lambda>f. \<lparr>snapPageID = fPageID f, snapDirty = fDirty f, snapPinCount = fPinCount f,
     snapRecLSN = fRecLSN f\<rparr>) (frames bp)"

end
