(* ===== verification/Pool_Props.thy ===== *)
theory Pool_Props
  imports Pool
begin

text \<open>
  The pool is a transparent cache: \<open>view\<close> is the content that a page has for the clients, from its
  frame when it is cached and from the disk otherwise. No operation changes the view of another
  page, a pinned page stays in its frame, and page images reach the disk after the log records
  before them.
\<close>

section \<open>The invariant\<close>

definition view :: "BufferPool \<Rightarrow> u32 \<Rightarrow> bytes option" where
  "view bp p = (case pageTable bp p of Some i \<Rightarrow> Some (fData (frames bp ! i)) | None \<Rightarrow> page_of (disk bp) p)"

definition wal_ok :: "WALManager option \<Rightarrow> bool" where
  "wal_ok W \<longleftrightarrow> (\<forall>w. W = Some w \<longrightarrow> wal_inv w)"

definition table_ok :: "BufferPool \<Rightarrow> bool" where
  "table_ok bp \<longleftrightarrow> (\<forall>p i. pageTable bp p = Some i \<longrightarrow> p \<noteq> 0 \<and> i < length (frames bp) \<and> fPageID (frames bp ! i) = p) \<and>
     (\<forall>i < length (frames bp). fPageID (frames bp ! i) \<noteq> 0 \<longrightarrow> pageTable bp (fPageID (frames bp ! i)) = Some i)"

definition dirty_ok :: "BufferPool \<Rightarrow> bool" where
  "dirty_ok bp \<longleftrightarrow> (\<forall>i < length (frames bp). fDirty (frames bp ! i) \<longrightarrow> fPageID (frames bp ! i) \<noteq> 0) \<and>
     (\<forall>p. map_of (dirtyPageTable bp) p \<noteq> None \<longleftrightarrow> (\<exists>i. pageTable bp p = Some i \<and> fDirty (frames bp ! i))) \<and>
     distinct (map fst (dirtyPageTable bp))"

text \<open>An unpinned clean frame has the bytes of the disk; a client may have written to a pinned one.\<close>

definition clean_ok :: "BufferPool \<Rightarrow> bool" where
  "clean_ok bp \<longleftrightarrow> (\<forall>i < length (frames bp). fPageID (frames bp ! i) \<noteq> 0 \<and> \<not> fDirty (frames bp ! i) \<and>
     fPinCount (frames bp ! i) \<le> 0 \<longrightarrow> page_of (disk bp) (fPageID (frames bp ! i)) = Some (fData (frames bp ! i)))"

definition pool_inv :: "BufferPool \<Rightarrow> bool" where
  "pool_inv bp \<longleftrightarrow> (\<forall>i < length (frames bp). length (fData (frames bp ! i)) = PageSize) \<and> table_ok bp \<and> dirty_ok bp \<and>
     clean_ok bp \<and> dmOpen (disk bp) \<and> wal_ok (wal bp) \<and> (\<forall>i < length (frames bp). 0 \<le> fPinCount (frames bp ! i))"

text \<open>
  A pool is quiet outside \<open>X\<close> when every clean frame agrees with the disk, except for the pages of
  \<open>X\<close>, which a client is about to report as dirty.
\<close>

definition quiet :: "u32 set \<Rightarrow> BufferPool \<Rightarrow> bool" where
  "quiet X bp \<longleftrightarrow> (\<forall>i < length (frames bp). fPageID (frames bp ! i) \<noteq> 0 \<and> \<not> fDirty (frames bp ! i) \<and>
     fPageID (frames bp ! i) \<notin> X \<longrightarrow> page_of (disk bp) (fPageID (frames bp ! i)) = Some (fData (frames bp ! i)))"

text \<open>
  What an operation keeps for the clients: the content of every page, and the frames of the pinned
  pages.
\<close>

definition kept :: "BufferPool \<Rightarrow> BufferPool \<Rightarrow> bool" where
  "kept bp bp' \<longleftrightarrow> length (frames bp') = length (frames bp) \<and>
     (\<forall>p d. view bp p = Some d \<longrightarrow> view bp' p = Some d) \<and>
     (\<forall>p i. pageTable bp p = Some i \<and> fPinCount (frames bp ! i) > 0 \<longrightarrow>
        pageTable bp' p = Some i \<and> fPinCount (frames bp' ! i) \<ge> fPinCount (frames bp ! i)) \<and>
     map_option log_of (wal bp') = map_option log_of (wal bp) \<and> (\<forall>X. quiet X bp \<longrightarrow> quiet X bp')"

lemma kept_refl [simp]: "kept bp bp"
  by (simp add: kept_def)

lemma kept_trans: "kept a b \<Longrightarrow> kept b c \<Longrightarrow> kept a c"
  unfolding kept_def by (elim conjE, intro conjI) (metis, metis, (smt (verit) order_less_le_trans order_trans), metis, metis)

lemma keptI:
  assumes "length (frames bp') = length (frames bp)"
    and "\<And>p j. pageTable bp p = Some j \<Longrightarrow> pageTable bp' p = Some j \<and> fData (frames bp' ! j) = fData (frames bp ! j) \<and>
      fPinCount (frames bp' ! j) \<ge> fPinCount (frames bp ! j)"
    and "\<And>p d. pageTable bp p = None \<Longrightarrow> page_of (disk bp) p = Some d \<Longrightarrow> view bp' p = Some d"
    and "wal bp' = wal bp"
    and "\<And>j. j < length (frames bp) \<Longrightarrow> fPageID (frames bp' ! j) \<noteq> 0 \<Longrightarrow> \<not> fDirty (frames bp' ! j) \<Longrightarrow>
      page_of (disk bp') (fPageID (frames bp' ! j)) = Some (fData (frames bp' ! j)) \<or>
      disk bp' = disk bp \<and> fPageID (frames bp' ! j) = fPageID (frames bp ! j) \<and> \<not> fDirty (frames bp ! j) \<and>
        fData (frames bp' ! j) = fData (frames bp ! j)"
  shows "kept bp bp'"
proof -
  have "quiet X bp'" if "quiet X bp" for X
    using that assms(1,5) unfolding quiet_def by metis
  moreover
  have "view bp' p = Some d" if "view bp p = Some d" for p d
    using that assms(2,3) [of p] by (cases "pageTable bp p") (simp_all add: view_def)
  ultimately show ?thesis
    using assms(1,2) arg_cong [OF assms(4), of "map_option log_of"] unfolding kept_def by blast
qed

lemma pool_invD:
  assumes "pool_inv bp"
  shows "\<And>i. i < length (frames bp) \<Longrightarrow> length (fData (frames bp ! i)) = PageSize"
    and "\<And>p i. pageTable bp p = Some i \<Longrightarrow> p \<noteq> 0 \<and> i < length (frames bp) \<and> fPageID (frames bp ! i) = p"
    and "\<And>i. i < length (frames bp) \<Longrightarrow> fPageID (frames bp ! i) \<noteq> 0 \<Longrightarrow> pageTable bp (fPageID (frames bp ! i)) = Some i"
    and "\<And>i. i < length (frames bp) \<Longrightarrow> fDirty (frames bp ! i) \<Longrightarrow> fPageID (frames bp ! i) \<noteq> 0"
    and "\<And>p. map_of (dirtyPageTable bp) p \<noteq> None \<longleftrightarrow> (\<exists>i. pageTable bp p = Some i \<and> fDirty (frames bp ! i))"
    and "distinct (map fst (dirtyPageTable bp))"
    and "\<And>i. i < length (frames bp) \<Longrightarrow> fPageID (frames bp ! i) \<noteq> 0 \<Longrightarrow> \<not> fDirty (frames bp ! i) \<Longrightarrow>
      fPinCount (frames bp ! i) \<le> 0 \<Longrightarrow> page_of (disk bp) (fPageID (frames bp ! i)) = Some (fData (frames bp ! i))"
    and "dmOpen (disk bp)" and "wal_ok (wal bp)" and "\<And>i. i < length (frames bp) \<Longrightarrow> 0 \<le> fPinCount (frames bp ! i)"
  using assms by (auto simp: pool_inv_def table_ok_def dirty_ok_def clean_ok_def)

lemma pool_invI:
  assumes "\<And>i. i < length (frames bp) \<Longrightarrow> length (fData (frames bp ! i)) = PageSize"
    and "\<And>p i. pageTable bp p = Some i \<Longrightarrow> p \<noteq> 0 \<and> i < length (frames bp) \<and> fPageID (frames bp ! i) = p"
    and "\<And>i. i < length (frames bp) \<Longrightarrow> fPageID (frames bp ! i) \<noteq> 0 \<Longrightarrow> pageTable bp (fPageID (frames bp ! i)) = Some i"
    and "\<And>i. i < length (frames bp) \<Longrightarrow> fDirty (frames bp ! i) \<Longrightarrow> fPageID (frames bp ! i) \<noteq> 0"
    and "\<And>p. map_of (dirtyPageTable bp) p \<noteq> None \<longleftrightarrow> (\<exists>i. pageTable bp p = Some i \<and> fDirty (frames bp ! i))"
    and "distinct (map fst (dirtyPageTable bp))"
    and "\<And>i. i < length (frames bp) \<Longrightarrow> fPageID (frames bp ! i) \<noteq> 0 \<Longrightarrow> \<not> fDirty (frames bp ! i) \<Longrightarrow>
      fPinCount (frames bp ! i) \<le> 0 \<Longrightarrow> page_of (disk bp) (fPageID (frames bp ! i)) = Some (fData (frames bp ! i))"
    and "dmOpen (disk bp)" and "wal_ok (wal bp)" and "\<And>i. i < length (frames bp) \<Longrightarrow> 0 \<le> fPinCount (frames bp ! i)"
  shows "pool_inv bp"
  unfolding pool_inv_def table_ok_def dirty_ok_def clean_ok_def
  by (intro conjI allI impI) (use assms in \<open>simp_all only:\<close>, (use assms in blast)+)

text \<open>Changes of the frames that leave page ids and dirty bits alone.\<close>

lemma update_frames:
  assumes inv: "pool_inv bp"
    and same: "pageTable bp' = pageTable bp" "dirtyPageTable bp' = dirtyPageTable bp" "disk bp' = disk bp" "wal bp' = wal bp"
      "length (frames bp') = length (frames bp)"
    and f: "\<And>j. j < length (frames bp) \<Longrightarrow> fPageID (frames bp' ! j) = fPageID (frames bp ! j) \<and>
      fDirty (frames bp' ! j) = fDirty (frames bp ! j) \<and> length (fData (frames bp' ! j)) = PageSize \<and> 0 \<le> fPinCount (frames bp' ! j)"
    and c: "\<And>j. j < length (frames bp) \<Longrightarrow> fPageID (frames bp ! j) \<noteq> 0 \<Longrightarrow> \<not> fDirty (frames bp ! j) \<Longrightarrow>
      fPinCount (frames bp' ! j) \<le> 0 \<Longrightarrow> page_of (disk bp) (fPageID (frames bp ! j)) = Some (fData (frames bp' ! j))"
  shows "pool_inv bp'"
proof -
  note D = pool_invD [OF inv]
  have "fDirty (frames bp' ! i) = fDirty (frames bp ! i)" if "pageTable bp p = Some i" for p i using f D(2) [OF that] by simp
  then have "(\<exists>i. pageTable bp p = Some i \<and> fDirty (frames bp' ! i)) \<longleftrightarrow> (\<exists>i. pageTable bp p = Some i \<and> fDirty (frames bp ! i))" for p
    by auto
  then show ?thesis using D f same c by (intro pool_invI) simp_all
qed

text \<open>Bookkeeping of the policies does not matter.\<close>

lemma pool_inv_same:
  assumes inv: "pool_inv bp" and s: "list_all2 same_frame (frames bp) fs"
  shows "pool_inv (bp\<lparr>policy := pol, frames := fs\<rparr>)" and "kept bp (bp\<lparr>policy := pol, frames := fs\<rparr>)"
    and "pageTable bp p = Some i \<Longrightarrow> fData (fs ! i) = fData (frames bp ! i)"
proof -
  have len: "length fs = length (frames bp)" using s by (simp add: list_all2_lengthD)
  have eq: "fPageID (fs ! i) = fPageID (frames bp ! i)" "fData (fs ! i) = fData (frames bp ! i)"
    "fPinCount (fs ! i) = fPinCount (frames bp ! i)" "fDirty (fs ! i) = fDirty (frames bp ! i)" if "i < length (frames bp)" for i
    using list_all2_nthD [OF s that] by (simp_all add: same_frame_def)
  note D = pool_invD [OF inv]
  show "pool_inv (bp\<lparr>policy := pol, frames := fs\<rparr>)"
    using D(1,7,10) len eq by (intro update_frames [OF inv]) simp_all
  show d: "pageTable bp p = Some i \<Longrightarrow> fData (fs ! i) = fData (frames bp ! i)" for p i using D(2) eq by blast
  show "kept bp (bp\<lparr>policy := pol, frames := fs\<rparr>)"
    by (rule keptI) (use len eq d D(2) in \<open>auto simp: view_def\<close>)
qed

text \<open>A frame is emptied after its content has reached the disk.\<close>

lemma drop_frame:
  assumes inv: "pool_inv bp" and v: "v < length (frames bp)" "fPinCount (frames bp ! v) \<le> 0"
    and pid: "pid = fPageID (frames bp ! v)"
    and dm: "dmOpen dm" "pid \<noteq> 0 \<Longrightarrow> page_of dm pid = Some (fData (frames bp ! v))"
      "\<And>q e. q \<noteq> pid \<or> pid = 0 \<Longrightarrow> page_of (disk bp) q = Some e \<Longrightarrow> page_of dm q = Some e"
    and W: "wal_ok W" "map_option log_of W = map_option log_of (wal bp)"
    and bp': "bp' = bp\<lparr>wal := W, disk := dm, dirtyPageTable := AList.delete pid (dirtyPageTable bp),
      pageTable := (pageTable bp)(pid := None), frames := (frames bp)[v := ResetFrame (frames bp ! v)]\<rparr>"
  shows "pool_inv bp'" and "kept bp bp'"
proof -
  note D = pool_invD [OF inv]
  have f: "frames bp' ! i = (if i = v then ResetFrame (frames bp ! v) else frames bp ! i)" if "i < length (frames bp)" for i
    using that by (simp add: bp')
  have tab: "pageTable bp' p = Some i \<longleftrightarrow> pageTable bp p = Some i \<and> i \<noteq> v" for p i
    using D(2) [of p i] D(3) [OF v(1)] pid by (auto simp: bp')
  have len: "length (frames bp') = length (frames bp)" by (simp add: bp')
  have other: "fPageID (frames bp ! i) \<noteq> pid" if "i < length (frames bp)" "i \<noteq> v" "fPageID (frames bp ! i) \<noteq> 0" for i
    using D(3) [OF that(1,3)] D(3) [OF v(1)] that pid by auto
  have fR: "fPageID (frames bp' ! v) = 0" "\<not> fDirty (frames bp' ! v)" "fData (frames bp' ! v) = fData (frames bp ! v)"
    "fPinCount (frames bp' ! v) = fPinCount (frames bp ! v)"
    using f [OF v(1)] by (simp_all add: ResetFrame_def)
  have fO: "frames bp' ! i = frames bp ! i" if "i < length (frames bp)" "i \<noteq> v" for i using f that by simp
  have dirty: "map_of (dirtyPageTable bp') p \<noteq> None \<longleftrightarrow> (\<exists>i. pageTable bp' p = Some i \<and> fDirty (frames bp' ! i))" for p
  proof -
    have "map_of (dirtyPageTable bp') p \<noteq> None \<longleftrightarrow> p \<noteq> pid \<and> map_of (dirtyPageTable bp) p \<noteq> None"
      by (simp add: bp' delete_conv')
    also have "\<dots> \<longleftrightarrow> p \<noteq> pid \<and> (\<exists>i. pageTable bp p = Some i \<and> fDirty (frames bp ! i))" unfolding D(5) ..
    also have "\<dots> \<longleftrightarrow> (\<exists>i. pageTable bp' p = Some i \<and> fDirty (frames bp' ! i))"
    proof (cases "pageTable bp p")
      case (Some i)
      have "p \<noteq> pid \<longleftrightarrow> i \<noteq> v" using D(2) [OF Some] D(3) [OF v(1)] pid Some by (metis option.inject)
      with Some tab [of p] f D(2) [OF Some] show ?thesis by auto
    qed (simp add: tab)
    finally show ?thesis .
  qed
  show "pool_inv bp'"
  proof (rule pool_invI)
    fix i assume i: "i < length (frames bp')"
    show "length (fData (frames bp' ! i)) = PageSize" using D(1) fR(3) fO i len v(1) by (cases "i = v") simp_all
    show "0 \<le> fPinCount (frames bp' ! i)" using D(10) fR(4) fO i len v(1) by (cases "i = v") simp_all
    show "fDirty (frames bp' ! i) \<Longrightarrow> fPageID (frames bp' ! i) \<noteq> 0" using D(4) fR(2) fO i len by (cases "i = v") simp_all
    show "fPageID (frames bp' ! i) \<noteq> 0 \<Longrightarrow> pageTable bp' (fPageID (frames bp' ! i)) = Some i"
      using D(3) fR(1) fO i len tab by (cases "i = v") simp_all
    show "fPageID (frames bp' ! i) \<noteq> 0 \<Longrightarrow> \<not> fDirty (frames bp' ! i) \<Longrightarrow> fPinCount (frames bp' ! i) \<le> 0 \<Longrightarrow>
        page_of (disk bp') (fPageID (frames bp' ! i)) = Some (fData (frames bp' ! i))"
      using D(7) [of i] fR(1) fO [of i] i len other [of i] dm(3) by (cases "i = v") (simp_all add: bp')
  next
    fix p i assume p: "pageTable bp' p = Some i"
    then show "p \<noteq> 0 \<and> i < length (frames bp') \<and> fPageID (frames bp' ! i) = p"
      using D(2) [of p i] fO [of i] tab len by simp
  qed (use dirty dm(1) W(1) D(6) in \<open>simp_all add: bp' distinct_delete\<close>)
  have "view bp' p = Some e" if "view bp p = Some e" for p e
  proof (cases "p = pid \<and> pid \<noteq> 0")
    case True
    then show ?thesis using that D(3) [OF v(1)] dm(2) pid by (simp add: view_def bp')
  next
    case False
    show ?thesis
    proof (cases "pageTable bp p")
      case None
      then show ?thesis
        using that False dm(3) D(2) [of 0] by (cases "p = pid") (auto simp: view_def bp' split: option.splits)
    next
      case (Some i)
      moreover have "i \<noteq> v" using Some D(2) [OF Some] False pid by auto
      ultimately have "pageTable bp' p = Some i" "frames bp' ! i = frames bp ! i" using tab f D(2) [OF Some] by simp_all
      with that Some show ?thesis by (simp add: view_def)
    qed
  qed
  moreover have "pageTable bp' p = Some i \<and> fPinCount (frames bp' ! i) \<ge> fPinCount (frames bp ! i)"
    if "pageTable bp p = Some i" "fPinCount (frames bp ! i) > 0" for p i
    using that tab f D(2) [OF that(1)] v(2) by auto
  moreover have wb: "wal bp' = W" by (simp add: bp')
  moreover have "quiet X bp'" if "quiet X bp" for X
    unfolding quiet_def
  proof (intro allI impI, elim conjE)
    fix i assume a: "i < length (frames bp')" "fPageID (frames bp' ! i) \<noteq> 0" "\<not> fDirty (frames bp' ! i)" "fPageID (frames bp' ! i) \<notin> X"
    then have "i \<noteq> v" using fR(1) by auto
    with a that fO other [of i] len dm(3) show "page_of (disk bp') (fPageID (frames bp' ! i)) = Some (fData (frames bp' ! i))"
      by (simp add: quiet_def bp')
  qed
  ultimately show "kept bp bp'" unfolding kept_def wb using len W(2) by blast
qed


section \<open>Eviction\<close>

lemma flushFor_ok:
  assumes "wal_ok W"
  shows "\<exists>W'. flushFor W l d = (Inr (), W') \<and> wal_ok W' \<and> map_option log_of W' = map_option log_of W \<and>
    (\<forall>w w'. W = Some w \<and> W' = Some w' \<longrightarrow> set (durable_of w) \<subseteq> set (durable_of w') \<and>
      (\<forall>r \<in> set (log_of w). rLSN r < hPageLSN (DecodeHeader \<lparr>ID = 0, Data = d\<rparr>) \<longrightarrow> r \<in> set (durable_of w')))"
proof (cases W)
  case None
  then show ?thesis by (simp add: flushFor_def wal_ok_def)
next
  case (Some w)
  define t where "t = (if hPageLSN (DecodeHeader \<lparr>ID = 0, Data = d\<rparr>) > l then hPageLSN (DecodeHeader \<lparr>ID = 0, Data = d\<rparr>) else l)"
  have t: "hPageLSN (DecodeHeader \<lparr>ID = 0, Data = d\<rparr>) \<le> t" by (auto simp: t_def)
  have "wal_inv w" using assms Some by (simp add: wal_ok_def)
  from wl.flush_law [OF this, of t] obtain w' where w': "FlushUpTo w t = (Inr (), w')" "wal_inv w'" "log_of w' = log_of w"
    "set (durable_of w) \<subseteq> set (durable_of w')" "\<forall>r \<in> set (log_of w). rLSN r < t \<longrightarrow> r \<in> set (durable_of w')" by blast
  have "flushFor W l d = (Inr (), Some w')" using w'(1) Some by (simp add: flushFor_def Let_def t_def)
  with w' t Some show ?thesis by (fastforce simp: wal_ok_def intro: order_less_le_trans)
qed

text \<open>
  The write-ahead rule as a property of disk and log: whatever image of a page is on disk, the log
  records before its page LSN are on disk too.
\<close>

definition page_lsn :: "bytes \<Rightarrow> u64" where
  "page_lsn d = hPageLSN (DecodeHeader \<lparr>ID = 0, Data = d\<rparr>)"

definition write_ahead :: "DiskManager \<Rightarrow> WALManager option \<Rightarrow> bool" where
  "write_ahead dm W \<longleftrightarrow> PageSize dvd length (dmFile dm) \<and>
     (\<forall>w p d r. W = Some w \<and> page_of dm p = Some d \<and> r \<in> set (log_of w) \<and> rLSN r < page_lsn d \<longrightarrow> r \<in> set (durable_of w))"

lemma page_lsn_zero [simp]: "page_lsn zero_page = 0"
proof -
  have "Uint64 (replicate n 0) 11 = 0" for n
  proof -
    have "le_val (replicate k 0) = 0" for k by (induction k) auto
    then show ?thesis by (simp add: Uint64_def get_at_def)
  qed
  then show ?thesis by (simp add: page_lsn_def DecodeHeader_def zero_page_def Let_def)
qed

text \<open>What is behind the old end of the file after a write is zeros.\<close>

lemma page_of_put_page_cases:
  assumes "dmOpen dm" and "length d = PageSize" and "PageSize dvd length (dmFile dm)" and "page_of (put_page dm i d) j = Some e"
  shows "j = i \<and> e = d \<or> page_of dm j = Some e \<or> e = zero_page"
proof (cases "j = i \<or> (\<exists>e'. page_of dm j = Some e')")
  case True
  then show ?thesis
    using assms(4) page_of_put_page_same [OF assms(1,2), of i] page_of_put_page_other [OF assms(1,2), of j _ i] by fastforce
next
  case False
  let ?n = "length (dmFile dm)" and ?o = "unat i * PageSize" and ?p = "unat j * PageSize"
  from False have "?n < ?p + PageSize" by (auto simp: page_of_def split: if_splits)
  moreover obtain k where "?n = k * PageSize" using assms(3) by (metis dvd_def mult.commute)
  ultimately have np: "?n \<le> ?p" by (metis Suc_le_mono add.commute less_Suc_eq_le mult_Suc mult_less_cancel2 mult_le_mono1)
  from assms(4) have "?p + PageSize \<le> max ?n (?o + PageSize)" and e: "e = get_at (dmFile (put_page dm i d)) ?p PageSize"
    using length_put_page [OF assms(1,2), of i] by (auto simp: page_of_def split: if_splits)
  with np have "?p + PageSize \<le> ?o + PageSize" by (simp add: PageSize_def max_def split: if_splits)
  moreover have "unat i \<noteq> unat j" using False by (metis word_unat_eq_iff)
  ultimately have po: "Suc (unat j) \<le> unat i" by (simp add: PageSize_def)
  then have po': "?p + PageSize \<le> ?o" using mult_le_mono1 [OF po, of PageSize] by simp
  have "e = get_at (dmFile dm @ replicate (?o - ?n) 0) ?p PageSize"
    unfolding e dmFile_put_page [OF assms(1,2)] using po' np by (intro get_at_put_at_before) simp_all
  also have "\<dots> = zero_page" using np po' by (simp add: get_at_def zero_page_def)
  finally show ?thesis by simp
qed

lemma write_ahead_put:
  assumes wa: "write_ahead dm W" and "dmOpen dm" and "length d = PageSize"
    and W: "map_option log_of W' = map_option log_of W"
    and dur: "\<forall>w w'. W = Some w \<and> W' = Some w' \<longrightarrow> set (durable_of w) \<subseteq> set (durable_of w') \<and>
      (\<forall>r \<in> set (log_of w). rLSN r < page_lsn d \<longrightarrow> r \<in> set (durable_of w'))"
  shows "write_ahead (put_page dm i d) W'"
  unfolding write_ahead_def
proof (intro conjI allI impI)
  have dv: "PageSize dvd length (dmFile dm)" using wa by (simp add: write_ahead_def)
  then show "PageSize dvd length (dmFile (put_page dm i d))"
    unfolding length_put_page [OF assms(2,3)] by (simp add: max_def)
  fix w' p e r
  assume a: "W' = Some w' \<and> page_of (put_page dm i d) p = Some e \<and> r \<in> set (log_of w') \<and> rLSN r < page_lsn e"
  with W obtain w where w: "W = Some w" "log_of w' = log_of w" by (cases W) auto
  from page_of_put_page_cases [OF assms(2,3) dv] a have "p = i \<and> e = d \<or> page_of dm p = Some e \<or> e = zero_page" by blast
  then show "r \<in> set (durable_of w')"
    using a w wa dur by (auto simp: write_ahead_def)
qed

lemma write_ahead_log:
  assumes "write_ahead dm W" and "map_option log_of W' = map_option log_of W"
    and "\<forall>w w'. W = Some w \<and> W' = Some w' \<longrightarrow> set (durable_of w) \<subseteq> set (durable_of w')"
  shows "write_ahead dm W'"
  using assms unfolding write_ahead_def by (cases W; cases W') (auto; blast)+


definition all_pinned :: "BufferPool \<Rightarrow> bool" where
  "all_pinned bp \<longleftrightarrow> (\<forall>i < length (frames bp). fPinCount (frames bp ! i) > 0)"

text \<open>The victim is written back when it is dirty, and nothing else happens to the disk.\<close>

lemma evict_victim:
  assumes inv: "pool_inv (bp\<lparr>policy := pol, frames := fs\<rparr>)" and c: "ChooseVictim (policy bp) (frames bp) = (v, pol, fs)"
    and nv: "\<not> v < 0" and n_def: "n = nat v" and n: "n < length fs" "fPinCount (fs ! n) \<le> 0"
  obtains W dm where "wal_ok W" and "map_option log_of W = map_option log_of (wal bp)" and "dmOpen dm"
    and "fPageID (fs ! n) \<noteq> 0 \<Longrightarrow> page_of dm (fPageID (fs ! n)) = Some (fData (fs ! n))"
    and "\<And>q e. q \<noteq> fPageID (fs ! n) \<or> fPageID (fs ! n) = 0 \<Longrightarrow> page_of (disk bp) q = Some e \<Longrightarrow> page_of dm q = Some e"
    and "write_ahead (disk bp) (wal bp) \<Longrightarrow> write_ahead dm W"
    and "evict bp = Some (Inr n, bp\<lparr>policy := pol, frames := fs, wal := W, disk := dm,
      dirtyPageTable := AList.delete (fPageID (fs ! n)) (dirtyPageTable bp),
      pageTable := (pageTable bp)(fPageID (fs ! n) := None), frames := fs[n := ResetFrame (fs ! n)]\<rparr>)"
proof -
  let ?b = "bp\<lparr>policy := pol, frames := fs\<rparr>" and ?f = "fs ! n"
  note D = pool_invD [OF inv, simplified]
  show thesis
  proof (cases "fDirty ?f")
    case True
    obtain W' where W': "flushFor (wal bp) (fRecLSN ?f) (fData ?f) = (Inr (), W')" "wal_ok W'"
      "map_option log_of W' = map_option log_of (wal bp)"
      "\<forall>w w'. wal bp = Some w \<and> W' = Some w' \<longrightarrow> set (durable_of w) \<subseteq> set (durable_of w') \<and>
        (\<forall>r \<in> set (log_of w). rLSN r < page_lsn (fData ?f) \<longrightarrow> r \<in> set (durable_of w'))"
      using flushFor_ok [OF D(9)] unfolding page_lsn_def by blast
    let ?dm = "put_page (disk bp) (fPageID ?f) (fData ?f)"
    have l: "length (fData ?f) = PageSize" using D(1) n(1) by simp
    show thesis
    proof (rule that [of W' ?dm])
      show "evict bp = Some (Inr n, ?b\<lparr>wal := W', disk := ?dm, dirtyPageTable := AList.delete (fPageID ?f) (dirtyPageTable bp),
        pageTable := (pageTable bp)(fPageID ?f := None), frames := fs[n := ResetFrame ?f]\<rparr>)"
        using c nv True W'(1) WritePageRaw_put_page [OF D(8) l] by (simp add: evict_def n_def WritePage_def Let_def)
      show "write_ahead (disk bp) (wal bp) \<Longrightarrow> write_ahead ?dm W'" using W'(3,4) D(8) l by (intro write_ahead_put)
    qed (use W' D(8) l ds.live_wr page_of_put_page_same page_of_put_page_other D(4) [OF n(1) True] in \<open>auto\<close>)
  next
    case False
    have "AList.delete (fPageID ?f) (dirtyPageTable bp) = dirtyPageTable bp"
    proof -
      have "map_of (dirtyPageTable bp) (fPageID ?f) = None"
        using D(2) [of "fPageID ?f"] D(3) [OF n(1)] D(5) [of "fPageID ?f"] False by (metis option.exhaust option.inject)
      then show ?thesis by (simp add: delete_id map_of_eq_None_iff)
    qed
    with False nv c D(7) [OF n(1)] n(2) D(8,9) show thesis
      by (intro that [of "wal bp" "disk bp"]) (simp_all add: evict_def n_def Let_def)
  qed
qed

lemma evict_ok:
  assumes inv: "pool_inv bp"
  obtains r bp' where "evict bp = Some (r, bp')" and "pool_inv bp'" and "kept bp bp'"
    and "write_ahead (disk bp) (wal bp) \<Longrightarrow> write_ahead (disk bp') (wal bp')"
    and "case r of Inl e \<Rightarrow> e = ErrBufferPoolFull \<and> pageTable bp' = pageTable bp \<and> (policy_ok (policy bp) (frames bp) \<longrightarrow> all_pinned bp)
      | Inr i \<Rightarrow> i < length (frames bp') \<and> fPageID (frames bp' ! i) = 0 \<and> fPinCount (frames bp' ! i) \<le> 0 \<and>
          (\<forall>p. pageTable bp p = None \<longrightarrow> pageTable bp' p = None)"
proof -
  obtain v pol fs where c: "ChooseVictim (policy bp) (frames bp) = (v, pol, fs)" by (metis prod_cases3)
  let ?b = "bp\<lparr>policy := pol, frames := fs\<rparr>"
  have s: "list_all2 same_frame (frames bp) fs" by (rule pol.pick_frames [OF c])
  note S = pool_inv_same(1,2) [OF inv s, of pol]
  show thesis
  proof (cases "v < 0")
    case True
    have "policy_ok (policy bp) (frames bp) \<longrightarrow> all_pinned bp"
      using pol.pick_none [OF _ c True] by (auto simp: all_pinned_def)
    with True S c show thesis by (intro that [of "Inl ErrBufferPoolFull" ?b]) (simp_all add: evict_def)
  next
    case False
    define n where "n = nat v"
    have len: "length fs = length (frames bp)" using s by (simp add: list_all2_lengthD)
    have n: "n < length fs" "fPinCount (fs ! n) \<le> 0"
      using pol.pick_unpinned [OF c] False list_all2_nthD [OF s, of n] len by (auto simp: n_def same_frame_def)
    let ?f = "fs ! n"
    obtain W dm where w: "wal_ok W" "map_option log_of W = map_option log_of (wal bp)" "dmOpen dm"
      "fPageID ?f \<noteq> 0 \<Longrightarrow> page_of dm (fPageID ?f) = Some (fData ?f)"
      "\<And>q e. q \<noteq> fPageID ?f \<or> fPageID ?f = 0 \<Longrightarrow> page_of (disk bp) q = Some e \<Longrightarrow> page_of dm q = Some e"
      "write_ahead (disk bp) (wal bp) \<Longrightarrow> write_ahead dm W"
      and ev: "evict bp = Some (Inr n, ?b\<lparr>wal := W, disk := dm, dirtyPageTable := AList.delete (fPageID ?f) (dirtyPageTable bp),
        pageTable := (pageTable bp)(fPageID ?f := None), frames := fs[n := ResetFrame ?f]\<rparr>)"
      by (rule evict_victim [OF S(1) c False n_def n]) (rule that)
    define g where "g = ?b\<lparr>wal := W, disk := dm, dirtyPageTable := AList.delete (fPageID ?f) (dirtyPageTable bp),
        pageTable := (pageTable bp)(fPageID ?f := None), frames := fs[n := ResetFrame ?f]\<rparr>"
    have nb: "n < length (frames ?b)" "fPinCount (frames ?b ! n) \<le> 0" "fPageID ?f = fPageID (frames ?b ! n)" using n by simp_all
    have R: "pool_inv g" "kept ?b g"
      by (rule drop_frame [OF S(1) nb w(3) _ _ w(1)]; use w(2,4,5) in \<open>simp add: g_def\<close>)+
    show thesis
    proof (rule that [of "Inr n" g])
      show "evict bp = Some (Inr n, g)" unfolding g_def by (rule ev)
      show "kept bp g" by (rule kept_trans [OF S(2) R(2)])
      show "write_ahead (disk g) (wal g)" if "write_ahead (disk bp) (wal bp)" using w(6) [OF that] by (simp add: g_def)
    qed (use R(1) n in \<open>simp_all add: ResetFrame_def g_def\<close>)
  qed
qed


section \<open>Fetching\<close>

lemma update_empty:
  assumes inv: "pool_inv bp" and i: "i < length (frames bp)" "fPageID (frames bp ! i) = 0" and d: "length d = PageSize"
  shows "pool_inv (bp\<lparr>frames := (frames bp)[i := (frames bp ! i)\<lparr>fData := d\<rparr>]\<rparr>)"
    and "kept bp (bp\<lparr>frames := (frames bp)[i := (frames bp ! i)\<lparr>fData := d\<rparr>]\<rparr>)"
proof -
  note D = pool_invD [OF inv]
  have ni: "j \<noteq> i" if "pageTable bp p = Some j" for p j using D(2) [OF that] i(2) by auto
  show "pool_inv (bp\<lparr>frames := (frames bp)[i := (frames bp ! i)\<lparr>fData := d\<rparr>]\<rparr>)"
    using D(1,7,10) i d by (intro update_frames [OF inv]) (auto simp: nth_list_update)
  show "kept bp (bp\<lparr>frames := (frames bp)[i := (frames bp ! i)\<lparr>fData := d\<rparr>]\<rparr>)"
    by (rule keptI) (use i in \<open>auto simp: view_def nth_list_update split: if_splits dest: ni\<close>)
qed

lemma load_frame:
  assumes inv: "pool_inv bp" and i: "i < length (frames bp)" "fPageID (frames bp ! i) = 0"
    and p: "p \<noteq> 0" "pageTable bp p = None" "page_of (disk bp) p = Some (fData (frames bp ! i))"
    and bp': "bp' = bp\<lparr>frames := (frames bp)[i := (frames bp ! i)\<lparr>fPageID := p, fPinCount := 1\<rparr>],
      pageTable := (pageTable bp)(p \<mapsto> i), misses := m\<rparr>"
  shows "pool_inv bp'" and "kept bp bp'"
proof -
  note D = pool_invD [OF inv]
  have ni: "j \<noteq> i" if "pageTable bp q = Some j" for q j using D(2) [OF that] i(2) by auto
  have nd: "\<not> fDirty (frames bp ! i)" using D(4) [OF i(1)] i(2) by blast
  have np: "fPageID (frames bp ! j) \<noteq> p" if "j < length (frames bp)" for j using D(3) [OF that] p(1,2) by auto
  have f: "frames bp' ! j = (if j = i then (frames bp ! i)\<lparr>fPageID := p, fPinCount := 1\<rparr> else frames bp ! j)" if "j < length (frames bp)" for j
    using that by (simp add: bp')
  have tab: "pageTable bp' q = (if q = p then Some i else pageTable bp q)" for q by (simp add: bp')
  have len: "length (frames bp') = length (frames bp)" by (simp add: bp')
  have dirty: "map_of (dirtyPageTable bp') q \<noteq> None \<longleftrightarrow> (\<exists>j. pageTable bp' q = Some j \<and> fDirty (frames bp' ! j))" for q
  proof (cases "q = p")
    case True
    then have "map_of (dirtyPageTable bp) q = None" using D(5) [of q] p(2) by auto
    with True show ?thesis using tab f [OF i(1)] nd by (simp add: bp')
  next
    case False
    have "(\<exists>j. pageTable bp' q = Some j \<and> fDirty (frames bp' ! j)) \<longleftrightarrow> (\<exists>j. pageTable bp q = Some j \<and> fDirty (frames bp ! j))"
      using False tab f ni D(2) by (metis (no_types, lifting))
    with D(5) [of q] show ?thesis by (simp add: bp')
  qed
  show "pool_inv bp'"
  proof (rule pool_invI)
    fix j assume j: "j < length (frames bp')"
    show "length (fData (frames bp' ! j)) = PageSize" "0 \<le> fPinCount (frames bp' ! j)"
      "fDirty (frames bp' ! j) \<Longrightarrow> fPageID (frames bp' ! j) \<noteq> 0"
      using D(1,10,4) [of j] f [of j] j len p(1) by (simp_all split: if_splits)
    show "fPageID (frames bp' ! j) \<noteq> 0 \<Longrightarrow> pageTable bp' (fPageID (frames bp' ! j)) = Some j"
      using D(3) [of j] f [of j] j len tab np [of j] by (simp split: if_splits)
    show "fPageID (frames bp' ! j) \<noteq> 0 \<Longrightarrow> \<not> fDirty (frames bp' ! j) \<Longrightarrow> fPinCount (frames bp' ! j) \<le> 0 \<Longrightarrow>
        page_of (disk bp') (fPageID (frames bp' ! j)) = Some (fData (frames bp' ! j))"
      using D(7) [of j] f [of j] j len by (simp add: bp' split: if_splits)
  next
    fix q j assume "pageTable bp' q = Some j"
    then show "q \<noteq> 0 \<and> j < length (frames bp') \<and> fPageID (frames bp' ! j) = q"
      using D(2) [of q j] f [of j] tab [of q] len p(1) i(1) ni [of q j] by (simp split: if_splits)
  qed (use dirty D(6,8,9) in \<open>simp_all add: bp'\<close>)
  have "view bp' q = view bp q" for q
  proof (cases "q = p")
    case True
    then show ?thesis using tab [of q] f [OF i(1)] p by (simp add: view_def)
  next
    case False
    then show ?thesis using tab [of q] f ni D(2) by (cases "pageTable bp q") (simp_all add: view_def, simp add: bp')
  qed
  moreover have "pageTable bp' q = Some j \<and> frames bp' ! j = frames bp ! j" if "pageTable bp q = Some j" for q j
    using that tab [of q] ni [OF that] f [of j] D(2) [OF that] p(2) by auto
  moreover have "page_of (disk bp') (fPageID (frames bp' ! j)) = Some (fData (frames bp' ! j)) \<or> disk bp' = disk bp \<and>
      fPageID (frames bp' ! j) = fPageID (frames bp ! j) \<and> \<not> fDirty (frames bp ! j) \<and> fData (frames bp' ! j) = fData (frames bp ! j)"
    if "j < length (frames bp)" "\<not> fDirty (frames bp' ! j)" for j
    using that f [of j] p(3) by (auto simp: bp' split: if_splits)
  moreover have "wal bp' = wal bp" by (simp add: bp')
  ultimately show "kept bp bp'" using len by (intro keptI) (simp_all add: view_def)
qed

lemma pin_frame:
  assumes inv: "pool_inv bp" and i: "pageTable bp p = Some i"
    and bp': "bp' = bp\<lparr>frames := (frames bp)[i := (frames bp ! i)\<lparr>fPinCount := fPinCount (frames bp ! i) + 1\<rparr>], hits := h\<rparr>"
  shows "pool_inv bp'" and "kept bp bp'"
proof -
  note D = pool_invD [OF inv]
  have f: "fPageID (frames bp' ! j) = fPageID (frames bp ! j)" "fData (frames bp' ! j) = fData (frames bp ! j)"
      "fDirty (frames bp' ! j) = fDirty (frames bp ! j)" "fPinCount (frames bp ! j) \<le> fPinCount (frames bp' ! j)"
    for j using D(2) [OF i] by (simp_all add: bp' nth_list_update)
  have c: "\<not> fPinCount (frames bp' ! j) \<le> 0 \<or> fPinCount (frames bp ! j) \<le> 0" for j using f(4) [of j] by linarith
  show "pool_inv bp'"
  proof (rule update_frames [OF inv])
    fix j assume j: "j < length (frames bp)"
    show "fPageID (frames bp' ! j) = fPageID (frames bp ! j) \<and> fDirty (frames bp' ! j) = fDirty (frames bp ! j) \<and>
        length (fData (frames bp' ! j)) = PageSize \<and> 0 \<le> fPinCount (frames bp' ! j)"
      using f [of j] D(1,10) [OF j] by auto
    show "fPageID (frames bp ! j) \<noteq> 0 \<Longrightarrow> \<not> fDirty (frames bp ! j) \<Longrightarrow> fPinCount (frames bp' ! j) \<le> 0 \<Longrightarrow>
        page_of (disk bp) (fPageID (frames bp ! j)) = Some (fData (frames bp' ! j))"
      using f [of j] c [of j] D(7) [OF j] by simp
  qed (simp_all add: bp')
  show "kept bp bp'" by (rule keptI) (use f in \<open>simp_all add: bp' view_def\<close>)
qed


lemma OnAccess_ok:
  assumes inv: "pool_inv bp" and i: "i < length (frames bp)" and o: "OnAccess (policy bp) i (frames bp) = (pol, fs)"
  shows "pool_inv (bp\<lparr>policy := pol, frames := fs\<rparr>)" and "kept bp (bp\<lparr>policy := pol, frames := fs\<rparr>)"
    and "fPinCount (fs ! i) = fPinCount (frames bp ! i)"
proof -
  have s: "list_all2 same_frame (frames bp) fs" using pol.touch_frames [OF i, of "policy bp"] o by simp
  from pool_inv_same(1,2) [OF inv s, of pol]
  show "pool_inv (bp\<lparr>policy := pol, frames := fs\<rparr>)" "kept bp (bp\<lparr>policy := pol, frames := fs\<rparr>)" .
  show "fPinCount (fs ! i) = fPinCount (frames bp ! i)" using list_all2_nthD [OF s i] by (simp add: same_frame_def)
qed

text \<open>The bytes of a page that \<open>FetchPage\<close> accepts from the disk.\<close>

definition good_image :: "bytes \<Rightarrow> bool" where
  "good_image d \<longleftrightarrow> Type \<lparr>ID = 0, Data = d\<rparr> = 0 \<or> VerifyChecksum \<lparr>ID = 0, Data = d\<rparr>"

definition fetch_result :: "BufferPool \<Rightarrow> u32 \<Rightarrow> (error, nat) result \<Rightarrow> BufferPool \<Rightarrow> bool" where
  "fetch_result bp p r bp' \<longleftrightarrow>
     (case r of
        Inr i \<Rightarrow> pageTable bp' p = Some i \<and> 0 < fPinCount (frames bp' ! i) \<and> view bp' p = Some (fData (frames bp' ! i)) \<and>
          (pageTable bp p = None \<longrightarrow> good_image (fData (frames bp' ! i)))
      | Inl e \<Rightarrow> pageTable bp p = None \<and>
          (e = ErrBufferPoolFull \<and> (policy_ok (policy bp) (frames bp) \<longrightarrow> all_pinned bp) \<or>
           e = ErrEOF \<and> view bp p = None \<or>
           e = ErrChecksumMismatch p \<and> (\<forall>d. view bp p = Some d \<longrightarrow> \<not> good_image d)))"

lemma FetchPage_hit:
  assumes inv: "pool_inv bp" and i: "pageTable bp p = Some i"
  obtains bp' where "FetchPage bp p = Some (Inr i, bp')" and "pool_inv bp'" and "kept bp bp'"
    and "disk bp' = disk bp" and "wal bp' = wal bp" and "fetch_result bp p (Inr i) bp'"
proof -
  note D = pool_invD [OF inv]
  have il: "i < length (frames bp)" using D(2) [OF i] by simp
  define b where "b = bp\<lparr>frames := (frames bp)[i := (frames bp ! i)\<lparr>fPinCount := fPinCount (frames bp ! i) + 1\<rparr>], hits := hits bp + 1\<rparr>"
  note P = pin_frame [OF inv i b_def]
  have bl: "i < length (frames b)" "pageTable b = pageTable bp" "fPinCount (frames b ! i) = fPinCount (frames bp ! i) + 1"
    using il by (simp_all add: b_def)
  obtain pol fs where o: "OnAccess (policy b) i (frames b) = (pol, fs)" by force
  note A = OnAccess_ok [OF P(1) bl(1) o]
  let ?g = "b\<lparr>policy := pol, frames := fs\<rparr>"
  show thesis
  proof (rule that [of ?g])
    show "FetchPage bp p = Some (Inr i, ?g)" using i o by (simp add: FetchPage_def b_def Let_def)
    show "fetch_result bp p (Inr i) ?g"
      using i A(3) bl D(10) [OF il] by (simp add: fetch_result_def view_def)
    show "kept bp ?g" by (rule kept_trans [OF P(2) A(2)])
  qed (use A(1) in \<open>simp_all add: b_def\<close>)
qed

lemma ReadPage_cases:
  assumes "dmOpen dm" and "length buf = PageSize"
  shows "case ReadPage dm p buf of (Inr _, d) \<Rightarrow> page_of dm p = Some d | (Inl e, d) \<Rightarrow> e = ErrEOF \<and> page_of dm p = None \<and> length d = PageSize"
proof (cases "page_of dm p")
  case None
  then show ?thesis using assms
    by (auto simp: ReadPage_def ReadAt_def page_of_def Let_def page_consts split: if_splits)
next
  case (Some e)
  then show ?thesis using ReadPage_page_of [OF assms(1) Some assms(2)] by simp
qed

lemma load_and_touch:
  assumes inv: "pool_inv b" and i: "i < length (frames b)" "fPageID (frames b ! i) = 0" and p: "p \<noteq> 0" "pageTable b p = None"
    and pg: "page_of (disk b) p = Some d"
    and o: "OnAccess (policy b) i ((frames b)[i := (frames b ! i)\<lparr>fData := d, fPageID := p, fPinCount := 1\<rparr>]) = (pol, fs)"
  shows "pool_inv (b\<lparr>frames := fs, policy := pol, pageTable := (pageTable b)(p \<mapsto> i), misses := m\<rparr>)"
    and "kept b (b\<lparr>frames := fs, policy := pol, pageTable := (pageTable b)(p \<mapsto> i), misses := m\<rparr>)"
    and "fPinCount (fs ! i) = 1" and "fData (fs ! i) = d"
proof -
  let ?b1 = "b\<lparr>frames := (frames b)[i := (frames b ! i)\<lparr>fData := d\<rparr>]\<rparr>"
  note U = update_empty [OF inv i ds.rd_len [OF pg]]
  define b2 where "b2 = ?b1\<lparr>frames := (frames ?b1)[i := (frames ?b1 ! i)\<lparr>fPageID := p, fPinCount := 1\<rparr>],
    pageTable := (pageTable ?b1)(p \<mapsto> i), misses := m\<rparr>"
  have L: "pool_inv b2" "kept ?b1 b2"
    by (rule load_frame [OF U(1) _ _ p(1) _ _ b2_def]; use i p(2) pg in simp)+
  have bl: "i < length (frames b2)" "fPinCount (frames b2 ! i) = 1" "fData (frames b2 ! i) = d"
    and fb: "frames b2 = (frames b)[i := (frames b ! i)\<lparr>fData := d, fPageID := p, fPinCount := 1\<rparr>]"
    using i(1) by (simp_all add: b2_def)
  have o2: "OnAccess (policy b2) i (frames b2) = (pol, fs)" using o unfolding fb by (simp add: b2_def)
  note A = OnAccess_ok [OF L(1) bl(1) o2]
  have g: "b\<lparr>frames := fs, policy := pol, pageTable := (pageTable b)(p \<mapsto> i), misses := m\<rparr> = b2\<lparr>policy := pol, frames := fs\<rparr>"
    by (simp add: b2_def)
  show "pool_inv (b\<lparr>frames := fs, policy := pol, pageTable := (pageTable b)(p \<mapsto> i), misses := m\<rparr>)" unfolding g by (rule A(1))
  show "kept b (b\<lparr>frames := fs, policy := pol, pageTable := (pageTable b)(p \<mapsto> i), misses := m\<rparr>)"
    unfolding g by (rule kept_trans [OF U(2) kept_trans [OF L(2) A(2)]])
  show "fPinCount (fs ! i) = 1" using A(3) bl(2) by simp
  show "fData (fs ! i) = d"
    using pol.touch_frames [OF bl(1), of "policy b2"] o2 bl(1,3) by (auto simp: same_frame_def dest: list_all2_nthD)
qed

lemma FetchPage_miss:
  assumes inv: "pool_inv bp" and p: "p \<noteq> 0" "pageTable bp p = None"
  obtains r bp' where "FetchPage bp p = Some (r, bp')" and "pool_inv bp'" and "kept bp bp'"
    and "write_ahead (disk bp) (wal bp) \<Longrightarrow> write_ahead (disk bp') (wal bp')" and "fetch_result bp p r bp'"
proof -
  obtain r b where e: "evict bp = Some (r, b)" "pool_inv b" "kept bp b"
    "write_ahead (disk bp) (wal bp) \<Longrightarrow> write_ahead (disk b) (wal b)"
    "case r of Inl e \<Rightarrow> e = ErrBufferPoolFull \<and> pageTable b = pageTable bp \<and> (policy_ok (policy bp) (frames bp) \<longrightarrow> all_pinned bp)
      | Inr i \<Rightarrow> i < length (frames b) \<and> fPageID (frames b ! i) = 0 \<and> fPinCount (frames b ! i) \<le> 0 \<and>
          (\<forall>p. pageTable bp p = None \<longrightarrow> pageTable b p = None)"
    by (rule evict_ok [OF inv]) (rule that)
  show thesis
  proof (cases r)
    case (Inl err)
    with e p show thesis by (intro that [of "Inl err" b]) (simp_all add: FetchPage_def fetch_result_def)
  next
    case (Inr i)
    with e(5) p(2) have i: "i < length (frames b)" "fPageID (frames b ! i) = 0" and tab: "pageTable b p = None" by auto
    note D = pool_invD [OF e(2)]
    obtain x d where rd: "ReadPage (disk b) p (fData (frames b ! i)) = (x, d)" by force
    have rc: "case (x, d) of (Inr _, d) \<Rightarrow> page_of (disk b) p = Some d | (Inl e, d) \<Rightarrow> e = ErrEOF \<and> page_of (disk b) p = None \<and> length d = PageSize"
      using ReadPage_cases [OF D(8) D(1) [OF i(1)], of p] rd by simp
    then have ld: "length d = PageSize" using ds.rd_len by (cases x) auto
    have vw: "view b p = page_of (disk b) p" using tab by (simp add: view_def)
    have mono: "view bp p = Some y \<Longrightarrow> page_of (disk b) p = Some y" for y using e(3) vw by (simp add: kept_def)
    let ?b1 = "b\<lparr>frames := (frames b)[i := (frames b ! i)\<lparr>fData := d\<rparr>]\<rparr>"
    note U = update_empty [OF e(2) i ld]
    note out = that
    have bad: thesis if fe: "FetchPage bp p = Some (Inl y, ?b1)" and res: "fetch_result bp p (Inl y) ?b1" for y
      by (rule out [OF fe U(1) kept_trans [OF e(3) U(2)] _ res]) (use e(4) in simp)
    show thesis
    proof (cases x)
      case (Inl y)
      show thesis
      proof (rule bad)
        show "FetchPage bp p = Some (Inl y, ?b1)" using p(2) e(1) Inr rd Inl by (simp add: FetchPage_def Let_def)
        show "fetch_result bp p (Inl y) ?b1" using rc Inl p(2) mono by (cases "view bp p") (auto simp: fetch_result_def)
      qed
    next
      case (Inr y)
      with rc have pg: "page_of (disk b) p = Some d" by simp
      show thesis
      proof (cases "good_image d")
        case False
        show thesis
        proof (rule bad)
          show "FetchPage bp p = Some (Inl (ErrChecksumMismatch p), ?b1)"
            using p(2) e(1) \<open>r = Inr i\<close> rd Inr False by (simp add: FetchPage_def Let_def good_image_def)
          show "fetch_result bp p (Inl (ErrChecksumMismatch p)) ?b1"
            using p(2) mono pg False by (auto simp: fetch_result_def)
        qed
      next
        case True
        obtain pol fs where o: "OnAccess (policy b) i ((frames b)[i := (frames b ! i)\<lparr>fData := d, fPageID := p, fPinCount := 1\<rparr>]) = (pol, fs)"
          by force
        note A = load_and_touch(1,2) [OF e(2) i p(1) tab pg o, of "misses b + 1"] load_and_touch(3,4) [OF e(2) i p(1) tab pg o]
        show thesis
        proof (rule that [OF _ A(1) kept_trans [OF e(3) A(2)]])
          show "FetchPage bp p = Some (Inr i, b\<lparr>frames := fs, policy := pol, pageTable := (pageTable b)(p \<mapsto> i), misses := misses b + 1\<rparr>)"
            using p(2) e(1) i(1) \<open>r = Inr i\<close> rd Inr True o by (simp add: FetchPage_def Let_def good_image_def)
          show "fetch_result bp p (Inr i) (b\<lparr>frames := fs, policy := pol, pageTable := (pageTable b)(p \<mapsto> i), misses := misses b + 1\<rparr>)"
            using A(3,4) True by (simp add: fetch_result_def view_def)
        qed (use e(4) in simp)
      qed
    qed
  qed
qed


section \<open>Writing and unpinning\<close>

lemma WritePageData_ok:
  assumes inv: "pool_inv bp" and i: "pageTable bp p = Some i" "0 < fPinCount (frames bp ! i)" and d: "page_ok pg"
  shows "pool_inv (WritePageData bp p pg)" and "view (WritePageData bp p pg) = (view bp)(p \<mapsto> Data pg)"
    and "pageTable (WritePageData bp p pg) = pageTable bp" and "wal (WritePageData bp p pg) = wal bp"
    and "disk (WritePageData bp p pg) = disk bp"
    and "fPinCount (frames (WritePageData bp p pg) ! j) = fPinCount (frames bp ! j)"
    and "quiet X bp \<Longrightarrow> quiet (insert p X) (WritePageData bp p pg)"
    and "length (frames (WritePageData bp p pg)) = length (frames bp)"
proof -
  note D = pool_invD [OF inv]
  have il: "i < length (frames bp)" "fPageID (frames bp ! i) = p" using D(2) [OF i(1)] by simp_all
  have e: "WritePageData bp p pg = bp\<lparr>frames := (frames bp)[i := (frames bp ! i)\<lparr>fData := Data pg\<rparr>]\<rparr>"
    using i(1) by (simp add: WritePageData_def)
  show "pool_inv (WritePageData bp p pg)"
    unfolding e using il D(1,7,10) i(2) d by (intro update_frames [OF inv]) (auto simp: nth_list_update page_ok_def)
  have ne: "j \<noteq> i" if "pageTable bp q = Some j" "q \<noteq> p" for q j using D(2) [OF that(1)] il(2) that(2) by auto
  show "view (WritePageData bp p pg) = (view bp)(p \<mapsto> Data pg)"
  proof
    fix q
    show "view (WritePageData bp p pg) q = ((view bp)(p \<mapsto> Data pg)) q"
      using i(1) il ne [of q] by (cases "q = p"; cases "pageTable bp q") (simp_all add: e view_def)
  qed
  show "quiet (insert p X) (WritePageData bp p pg)" if "quiet X bp"
    using that il by (auto simp: quiet_def e nth_list_update)
  show "fPinCount (frames (WritePageData bp p pg) ! j) = fPinCount (frames bp ! j)" using il(1) by (simp add: e nth_list_update)
qed (simp_all add: WritePageData_def i(1))

lemma UnpinPage_eq:
  assumes inv: "pool_inv bp" and i: "pageTable bp p = Some i"
  obtains g lsn where "UnpinPage bp p dirty = bp\<lparr>frames := (frames bp)[i := g],
      dirtyPageTable := (if dirty \<and> \<not> fDirty (frames bp ! i) then AList.update p lsn (dirtyPageTable bp) else dirtyPageTable bp)\<rparr>"
    and "fPageID g = p" and "fData g = fData (frames bp ! i)" and "fDirty g = (fDirty (frames bp ! i) \<or> dirty)"
    and "fPinCount g = fPinCount (frames bp ! i) - 1"
proof -
  note D = pool_invD [OF inv]
  have m: "map_of (dirtyPageTable bp) p = None \<longleftrightarrow> \<not> fDirty (frames bp ! i)" using D(5) [of p] i by auto
  let ?f = "frames bp ! i"
  let ?g = "?f\<lparr>fPinCount := fPinCount ?f - 1\<rparr>"
  define lsn where "lsn = (let l = hPageLSN (DecodeHeader \<lparr>ID = 0, Data = fData ?f\<rparr>)
    in case wal bp of Some w \<Rightarrow> if l = 0 then currentLSN w else l | None \<Rightarrow> l)"
  show thesis
  proof (cases "dirty \<and> \<not> fDirty ?f")
    case True
    let ?h = "SetRecLSN (?g\<lparr>fDirty := True\<rparr>) lsn"
    have "UnpinPage bp p dirty = bp\<lparr>frames := (frames bp)[i := ?h], dirtyPageTable := AList.update p lsn (dirtyPageTable bp)\<rparr>"
      using m i True by (cases "wal bp") (simp_all add: UnpinPage_def lsn_def Let_def)
    with True D(2) [OF i] show thesis
      by (intro that [where g = ?h and lsn = lsn]) (simp_all add: SetRecLSN_def)
  next
    case False
    with i D(2) [OF i] show thesis by (intro that [where g = ?g]) (auto simp: UnpinPage_def Let_def)
  qed
qed

lemma UnpinPage_ok:
  assumes inv: "pool_inv bp" and i: "pageTable bp p = Some i" "0 < fPinCount (frames bp ! i)"
    and X: "quiet X bp" "dirty \<or> p \<notin> X"
  shows "pool_inv (UnpinPage bp p dirty)" and "view (UnpinPage bp p dirty) = view bp"
    and "pageTable (UnpinPage bp p dirty) = pageTable bp" and "wal (UnpinPage bp p dirty) = wal bp"
    and "disk (UnpinPage bp p dirty) = disk bp"
    and "fPinCount (frames (UnpinPage bp p dirty) ! j) = fPinCount (frames bp ! j) - (if j = i then 1 else 0)"
    and "quiet (X - {p}) (UnpinPage bp p dirty)" and "length (frames (UnpinPage bp p dirty)) = length (frames bp)"
proof -
  note D = pool_invD [OF inv]
  obtain g lsn where e: "UnpinPage bp p dirty = bp\<lparr>frames := (frames bp)[i := g],
      dirtyPageTable := (if dirty \<and> \<not> fDirty (frames bp ! i) then AList.update p lsn (dirtyPageTable bp) else dirtyPageTable bp)\<rparr>"
    and g: "fPageID g = p" "fData g = fData (frames bp ! i)" "fDirty g = (fDirty (frames bp ! i) \<or> dirty)"
      "fPinCount g = fPinCount (frames bp ! i) - 1"
    by (rule UnpinPage_eq [OF inv i(1)]) (rule that)
  let ?b = "UnpinPage bp p dirty"
  have il: "i < length (frames bp)" "fPageID (frames bp ! i) = p" using D(2) [OF i(1)] by simp_all
  have f: "frames ?b ! j = (if j = i then g else frames bp ! j)" if "j < length (frames bp)" for j using that by (simp add: e)
  have simps: "pageTable ?b = pageTable bp" "wal ?b = wal bp" "disk ?b = disk bp" "length (frames ?b) = length (frames bp)"
    by (simp_all add: e)
  then show "pageTable ?b = pageTable bp" "wal ?b = wal bp" "disk ?b = disk bp" "length (frames ?b) = length (frames bp)" .
  show "fPinCount (frames ?b ! j) = fPinCount (frames bp ! j) - (if j = i then 1 else 0)"
    using il(1) g(4) by (simp add: e nth_list_update)
  have other: "fPageID (frames bp ! j) \<noteq> p" if "j < length (frames bp)" "j \<noteq> i" for j
    using D(3) [OF that(1)] D(2) [OF i(1)] i(1) that(2) by auto
  show "view ?b = view bp"
  proof
    fix q show "view ?b q = view bp q"
      using f D(2) [of q] g(2) by (cases "pageTable bp q") (auto simp: view_def simps)
  qed
  show quiet: "quiet (X - {p}) ?b"
    using X f g other il unfolding quiet_def simps by (auto split: if_splits)
  show "pool_inv ?b"
  proof (rule pool_invI)
    fix j assume j: "j < length (frames ?b)"
    then have jl: "j < length (frames bp)" by (simp add: simps)
    show "length (fData (frames ?b ! j)) = PageSize" "0 \<le> fPinCount (frames ?b ! j)"
      "fDirty (frames ?b ! j) \<Longrightarrow> fPageID (frames ?b ! j) \<noteq> 0"
      using D(1,10,4) [OF jl] f [OF jl] g i(2) D(2) [OF i(1)] by (simp_all split: if_splits)
    show "fPageID (frames ?b ! j) \<noteq> 0 \<Longrightarrow> pageTable ?b (fPageID (frames ?b ! j)) = Some j"
      using D(3) [OF jl] f [OF jl] g(1) i(1) by (simp add: simps split: if_splits)
    show "page_of (disk ?b) (fPageID (frames ?b ! j)) = Some (fData (frames ?b ! j))"
      if "fPageID (frames ?b ! j) \<noteq> 0" "\<not> fDirty (frames ?b ! j)" "fPinCount (frames ?b ! j) \<le> 0"
      using that D(7) [OF jl] f [OF jl] g X il unfolding quiet_def simps by (auto split: if_splits)
  next
    fix q j assume q: "pageTable ?b q = Some j"
    then show "q \<noteq> 0 \<and> j < length (frames ?b) \<and> fPageID (frames ?b ! j) = q"
      using D(2) [of q j] f [of j] g(1) il(2) by (auto simp: simps)
  next
    fix q
    have "(\<exists>j. pageTable bp q = Some j \<and> fDirty (frames ?b ! j)) \<longleftrightarrow>
        (\<exists>j. pageTable bp q = Some j \<and> fDirty (frames bp ! j)) \<or> q = p \<and> dirty"
      using f D(2) [of q] g(3) i(1) il(2) by (cases "pageTable bp q") auto
    then show "map_of (dirtyPageTable ?b) q \<noteq> None \<longleftrightarrow> (\<exists>j. pageTable ?b q = Some j \<and> fDirty (frames ?b ! j))"
      using D(5) [of q] i(1) unfolding simps by (auto simp: e update_conv')
  qed (use D(6,8,9) in \<open>auto simp: e distinct_update\<close>)
qed


section \<open>Checkpointing the pages\<close>

lemma clean_frame:
  assumes inv: "pool_inv bp" and dt: "dirtyPageTable bp = (p, l) # R" and i: "pageTable bp p = Some i"
    and W: "wal_ok W" "map_option log_of W = map_option log_of (wal bp)"
    and bp': "bp' = bp\<lparr>wal := W, disk := put_page (disk bp) p (fData (frames bp ! i)),
      frames := (frames bp)[i := (frames bp ! i)\<lparr>fDirty := False, fRecLSN := 0\<rparr>], dirtyPageTable := R\<rparr>"
  shows "pool_inv bp'" and "kept bp bp'"
proof -
  note D = pool_invD [OF inv]
  have il: "i < length (frames bp)" "fPageID (frames bp ! i) = p" "p \<noteq> 0" using D(2) [OF i] by simp_all
  let ?dm = "put_page (disk bp) p (fData (frames bp ! i))"
  have same: "page_of ?dm p = Some (fData (frames bp ! i))" by (rule page_of_put_page_same [OF D(8) D(1) [OF il(1)]])
  have pres: "page_of ?dm q = Some e" if "page_of (disk bp) q = Some e" "q \<noteq> p" for q e
    using page_of_put_page_other [OF D(8) D(1) [OF il(1)] that(1)] that(2) by metis
  have other: "fPageID (frames bp ! j) \<noteq> p" if "j < length (frames bp)" "j \<noteq> i" for j
    using D(3) [OF that(1)] il(3) i that(2) by auto
  have f: "fPageID (frames bp' ! j) = fPageID (frames bp ! j)" "fData (frames bp' ! j) = fData (frames bp ! j)"
    "fPinCount (frames bp' ! j) = fPinCount (frames bp ! j)" "fDirty (frames bp' ! j) = (j \<noteq> i \<and> fDirty (frames bp ! j))" for j
    using il(1) by (simp_all add: bp' nth_list_update)
  have simps: "pageTable bp' = pageTable bp" "length (frames bp') = length (frames bp)" "disk bp' = ?dm" "wal bp' = W" "dirtyPageTable bp' = R"
    by (simp_all add: bp')
  have clean: "page_of ?dm (fPageID (frames bp ! j)) = Some (fData (frames bp ! j))"
    if "j < length (frames bp)" "j = i \<or> page_of (disk bp) (fPageID (frames bp ! j)) = Some (fData (frames bp ! j))" for j
    using that same pres other [of j] il(2) by (cases "j = i") auto
  show "pool_inv bp'"
  proof (rule pool_invI)
    fix q
    have "map_of R q \<noteq> None \<longleftrightarrow> q \<noteq> p \<and> map_of (dirtyPageTable bp) q \<noteq> None"
      using D(6) dt map_of_eq_None_iff [of R p] by auto
    also have "\<dots> \<longleftrightarrow> q \<noteq> p \<and> (\<exists>j. pageTable bp q = Some j \<and> fDirty (frames bp ! j))" unfolding D(5) ..
    also have "\<dots> \<longleftrightarrow> (\<exists>j. pageTable bp q = Some j \<and> fDirty (frames bp' ! j))"
    proof (cases "pageTable bp q")
      case (Some j)
      have "q \<noteq> p \<longleftrightarrow> j \<noteq> i" using D(2) [OF Some] il(2) i Some by (metis option.inject)
      with Some f(4) [of j] show ?thesis by auto
    qed simp
    finally show "map_of (dirtyPageTable bp') q \<noteq> None \<longleftrightarrow> (\<exists>j. pageTable bp' q = Some j \<and> fDirty (frames bp' ! j))"
      unfolding simps .
  qed (use D(1-4,6-10) W(1) f clean simps dt ds.live_wr [OF D(8)] in auto)
  have "view bp' q = Some e" if "view bp q = Some e" for q e
    using that f(2) pres [of q e] i by (cases "pageTable bp q"; cases "q = p") (auto simp: view_def simps)
  moreover have "quiet X bp'" if "quiet X bp" for X
    using that f clean unfolding quiet_def simps by auto
  ultimately show "kept bp bp'" using f(3) W(2) unfolding kept_def simps by simp
qed

lemma flushLoop_ok:
  assumes "pool_inv (b\<lparr>dirtyPageTable := R\<rparr>)"
  shows "\<exists>b'. flushLoop b R = Some (Inr (), b') \<and> pool_inv (b'\<lparr>dirtyPageTable := []\<rparr>) \<and>
    kept (b\<lparr>dirtyPageTable := R\<rparr>) (b'\<lparr>dirtyPageTable := []\<rparr>) \<and> (write_ahead (disk b) (wal b) \<longrightarrow> write_ahead (disk b') (wal b'))"
  using assms
proof (induction R arbitrary: b)
  case (Cons x R)
  obtain p l where x: "x = (p, l)" by force
  let ?b = "b\<lparr>dirtyPageTable := (p, l) # R\<rparr>"
  have inv: "pool_inv ?b" using Cons.prems x by simp
  note D = pool_invD [OF inv, simplified]
  obtain i where i: "pageTable b p = Some i" using D(5) [of p] by auto
  let ?d = "fData (frames b ! i)"
  obtain W where W: "flushFor (wal b) l ?d = (Inr (), W)" "wal_ok W" "map_option log_of W = map_option log_of (wal b)"
    "\<forall>w w'. wal b = Some w \<and> W = Some w' \<longrightarrow> set (durable_of w) \<subseteq> set (durable_of w') \<and>
      (\<forall>r \<in> set (log_of w). rLSN r < page_lsn ?d \<longrightarrow> r \<in> set (durable_of w'))"
    using flushFor_ok [OF D(9)] unfolding page_lsn_def by blast
  have len: "length ?d = PageSize" using D(1) D(2) [OF i] by simp
  let ?c = "b\<lparr>wal := W, disk := put_page (disk b) p ?d, frames := (frames b)[i := (frames b ! i)\<lparr>fDirty := False, fRecLSN := 0\<rparr>]\<rparr>"
  have C: "pool_inv (?c\<lparr>dirtyPageTable := R\<rparr>)" "kept ?b (?c\<lparr>dirtyPageTable := R\<rparr>)"
    by (rule clean_frame [OF inv, of p l R i W]; use i W in simp)+
  have step: "flushLoop b (x # R) = flushLoop ?c R"
    using i W(1) WritePageRaw_put_page [OF D(8) len] x by (simp add: WritePage_def Let_def)
  have wa: "write_ahead (disk b) (wal b) \<Longrightarrow> write_ahead (disk ?c) (wal ?c)"
    using write_ahead_put [OF _ D(8) len W(3,4)] by simp
  from Cons.IH [OF C(1)] obtain b' where b': "flushLoop ?c R = Some (Inr (), b')" "pool_inv (b'\<lparr>dirtyPageTable := []\<rparr>)"
    "kept (?c\<lparr>dirtyPageTable := R\<rparr>) (b'\<lparr>dirtyPageTable := []\<rparr>)" "write_ahead (disk ?c) (wal ?c) \<longrightarrow> write_ahead (disk b') (wal b')"
    by blast
  from kept_trans [OF C(2) b'(3)] b' step wa x show ?case by auto
qed auto

lemma FlushDirtyPages_ok:
  assumes "pool_inv bp"
  obtains bp' where "FlushDirtyPages bp = Some (Inr (), bp')" and "pool_inv bp'" and "kept bp bp'" and "dirtyPageTable bp' = []"
    and "write_ahead (disk bp) (wal bp) \<Longrightarrow> write_ahead (disk bp') (wal bp')"
proof -
  have b: "bp\<lparr>dirtyPageTable := dirtyPageTable bp\<rparr> = bp" by simp
  obtain b' where b': "flushLoop bp (dirtyPageTable bp) = Some (Inr (), b')" "pool_inv (b'\<lparr>dirtyPageTable := []\<rparr>)"
    "kept bp (b'\<lparr>dirtyPageTable := []\<rparr>)" "write_ahead (disk bp) (wal bp) \<longrightarrow> write_ahead (disk b') (wal b')"
    using flushLoop_ok [where b = bp and R = "dirtyPageTable bp"] assms unfolding b by blast
  then show thesis by (intro that [of "b'\<lparr>dirtyPageTable := []\<rparr>"]) (simp_all add: FlushDirtyPages_def)
qed

lemma no_dirty_frame:
  assumes "pool_inv bp" and "dirtyPageTable bp = []" and "i < length (frames bp)"
  shows "\<not> fDirty (frames bp ! i)"
  using pool_invD(3,4,5) [OF assms(1)] assms(2,3) by fastforce

lemma pool_inv_New:
  assumes "dmOpen dm" and "wal_ok W"
  shows "pool_inv (NewPool n dm W)" and "quiet {} (NewPool n dm W)" and "policy_ok (policy (NewPool n dm W)) (frames (NewPool n dm W))"
    and "view (NewPool n dm W) = page_of dm"
  using assms by (auto simp: pool_inv_def table_ok_def dirty_ok_def clean_ok_def NewPool_def emptyFrame_def quiet_def policy_ok_def
      NewClockPolicy_def view_def)


section \<open>The interface of a page cache\<close>

text \<open>
  What the tree relies on: fetching a page pins it in a frame that holds its content, disturbs
  no content and no pinned frame. \<open>pinned b i p\<close>: frame \<open>i\<close> holds page \<open>p\<close> and stays.
\<close>

locale page_cache =
  fixes inv :: "'b \<Rightarrow> bool" and look :: "'b \<Rightarrow> u32 \<Rightarrow> bytes option" and pinned :: "'b \<Rightarrow> nat \<Rightarrow> u32 \<Rightarrow> bool"
    and fetch :: "'b \<Rightarrow> u32 \<Rightarrow> ((error, nat) result \<times> 'b) option" and rd :: "'b \<Rightarrow> nat \<Rightarrow> Page"
  assumes fetch_law: "inv b \<Longrightarrow> p \<noteq> 0 \<Longrightarrow> \<exists>r b'. fetch b p = Some (r, b') \<and> inv b' \<and>
      (\<forall>q d. look b q = Some d \<longrightarrow> look b' q = Some d) \<and> (\<forall>i q. pinned b i q \<longrightarrow> pinned b' i q) \<and>
      (case r of Inr i \<Rightarrow> pinned b' i p | Inl e \<Rightarrow> True)"
    and read_law: "inv b \<Longrightarrow> pinned b i p \<Longrightarrow> look b p = Some (Data (rd b i)) \<and> ID (rd b i) = p \<and> page_ok (rd b i)"
begin

lemma fetch_read:
  assumes "inv b" and "p \<noteq> 0" and "fetch b p = Some (Inr i, b')" and "look b p = Some d"
  shows "inv b'" and "pinned b' i p" and "rd b' i = \<lparr>ID = p, Data = d\<rparr>" and "look b' q = Some e \<or> look b q \<noteq> Some e"
    and "pinned b j q \<Longrightarrow> pinned b' j q"
proof -
  from fetch_law [OF assms(1,2)] assms(3) have *: "inv b'" "\<forall>q d. look b q = Some d \<longrightarrow> look b' q = Some d"
    "\<forall>i q. pinned b i q \<longrightarrow> pinned b' i q" "pinned b' i p" by auto
  from read_law [OF *(1,4)] *(2) assms(4) have "Data (rd b' i) = d" "ID (rd b' i) = p" by auto
  then show "rd b' i = \<lparr>ID = p, Data = d\<rparr>" by simp
qed (use fetch_law [OF assms(1,2)] assms(3) in auto)

end

definition pinned_at :: "BufferPool \<Rightarrow> nat \<Rightarrow> u32 \<Rightarrow> bool" where
  "pinned_at bp i p \<longleftrightarrow> pageTable bp p = Some i \<and> 0 < fPinCount (frames bp ! i)"

lemma FetchPage_ok:
  assumes inv: "pool_inv bp" and p: "p \<noteq> 0"
  obtains r bp' where "FetchPage bp p = Some (r, bp')" and "pool_inv bp'" and "kept bp bp'"
    and "write_ahead (disk bp) (wal bp) \<Longrightarrow> write_ahead (disk bp') (wal bp')" and "fetch_result bp p r bp'"
proof (cases "pageTable bp p")
  case None
  from FetchPage_miss [OF inv p None] show thesis using that by metis
next
  case (Some i)
  from FetchPage_hit [OF inv Some] show thesis using that by metis
qed

interpretation pc: page_cache pool_inv view pinned_at FetchPage ReadPageData
proof unfold_locales
  fix b :: BufferPool and p :: u32 and i :: nat
  assume inv: "pool_inv b"
  note D = pool_invD [OF inv]
  show "view b p = Some (Data (ReadPageData b i)) \<and> ID (ReadPageData b i) = p \<and> page_ok (ReadPageData b i)" if "pinned_at b i p"
    using that D(1,2) by (auto simp: pinned_at_def view_def ReadPageData_def page_ok_def)
  assume "p \<noteq> 0"
  then obtain r b' where "FetchPage b p = Some (r, b')" "pool_inv b'" "kept b b'" "fetch_result b p r b'"
    by (rule FetchPage_ok [OF inv])
  then show "\<exists>r b'. FetchPage b p = Some (r, b') \<and> pool_inv b' \<and> (\<forall>q d. view b q = Some d \<longrightarrow> view b' q = Some d) \<and>
      (\<forall>i q. pinned_at b i q \<longrightarrow> pinned_at b' i q) \<and> (case r of Inr i \<Rightarrow> pinned_at b' i p | Inl e \<Rightarrow> True)"
    by (intro exI [of _ r] exI [of _ b'])
      (auto simp: kept_def pinned_at_def fetch_result_def split: sum.splits intro: order_less_le_trans)
qed

section \<open>Properties\<close>

text \<open>
  C8. The pool is a transparent cache. \<open>FetchPage\<close> of a page keeps the content of every page, keeps
  every pinned page in its frame, and leaves a consistent pool, whatever it evicts. When it
  succeeds, the page is pinned in the returned frame with exactly its content; it fails only when
  every frame is pinned, when the page is past the end of the file, or when its image has a wrong
  checksum.
\<close>

theorem FetchPage_transparent:
  assumes "pool_inv bp" and "p \<noteq> 0"
  shows "\<exists>r bp'. FetchPage bp p = Some (r, bp') \<and> pool_inv bp' \<and> kept bp bp' \<and> fetch_result bp p r bp' \<and>
    (\<forall>d. view bp p = Some d \<and> good_image d \<and> policy_ok (policy bp) (frames bp) \<and> \<not> all_pinned bp \<longrightarrow>
      (\<exists>i. r = Inr i \<and> ReadPageData bp' i = \<lparr>ID = p, Data = d\<rparr>))"
proof -
  obtain r bp' where r: "FetchPage bp p = Some (r, bp')" "pool_inv bp'" "kept bp bp'" "fetch_result bp p r bp'"
    by (rule FetchPage_ok [OF assms])
  have "\<exists>i. r = Inr i \<and> ReadPageData bp' i = \<lparr>ID = p, Data = d\<rparr>"
    if d: "view bp p = Some d" "good_image d" "policy_ok (policy bp) (frames bp)" "\<not> all_pinned bp" for d
  proof (cases r)
    case (Inl e)
    with r(4) d show ?thesis by (auto simp: fetch_result_def)
  next
    case (Inr i)
    with pc.fetch_read(3) [OF assms _ d(1), of i bp'] r(1) show ?thesis by blast
  qed
  with r show ?thesis by blast
qed

definition small_disk :: DiskManager where
  "small_disk = \<lparr>dmFile = replicate (2 * 4096) 0, dmOpen = True, dmPageSize = PageSize\<rparr>"

lemma page_of_small_disk: "page_of small_disk 1 = Some zero_page"
  by (simp add: page_of_def small_disk_def get_at_def zero_page_def PageSize_def)

lemma Type_zero_page: "good_image zero_page"
  by (simp add: good_image_def Type_def zero_page_def PageSize_def)

theorem FetchPage_transparent_witness:
  "\<exists>i bp'. FetchPage (NewPool 2 small_disk None) 1 = Some (Inr i, bp') \<and> ReadPageData bp' i = \<lparr>ID = 1, Data = zero_page\<rparr>"
proof -
  have N: "dmOpen small_disk" "wal_ok None" by (simp_all add: small_disk_def wal_ok_def)
  note P = pool_inv_New [OF N, of 2]
  have "\<not> all_pinned (NewPool 2 small_disk None)"
    by (simp add: all_pinned_def NewPool_def emptyFrame_def exI [of _ 0])
  with FetchPage_transparent [OF P(1), of 1] P(3,4) page_of_small_disk Type_zero_page show ?thesis by auto
qed

text \<open>
  The two writes of a client. \<open>WritePageData\<close> on a pinned page changes the content of that page
  and of no other; \<open>UnpinPage\<close> changes no content, and the page then counts as dirty unless it is
  clean on disk. Both keep the pool consistent.
\<close>

theorem pool_writes:
  assumes "pool_inv bp" and "pinned_at bp i p" and "page_ok pg" and "quiet {} bp"
  shows "view (WritePageData bp p pg) = (view bp)(p \<mapsto> Data pg) \<and>
    view (UnpinPage (WritePageData bp p pg) p True) = (view bp)(p \<mapsto> Data pg) \<and>
    pool_inv (UnpinPage (WritePageData bp p pg) p True) \<and> quiet {} (UnpinPage (WritePageData bp p pg) p True) \<and>
    view (UnpinPage bp p False) = view bp \<and> pool_inv (UnpinPage bp p False) \<and> quiet {} (UnpinPage bp p False)"
proof -
  have i: "pageTable bp p = Some i" "0 < fPinCount (frames bp ! i)" using assms(2) by (simp_all add: pinned_at_def)
  note W = WritePageData_ok [OF assms(1) i assms(3)]
  have i': "pageTable (WritePageData bp p pg) p = Some i" "0 < fPinCount (frames (WritePageData bp p pg) ! i)"
    using W(3,6) i by simp_all
  note U = UnpinPage_ok(1,2,7) [OF W(1) i' W(7) [OF assms(4)], of True, simplified]
  note V = UnpinPage_ok(1,2,7) [OF assms(1) i assms(4), of False, simplified]
  show ?thesis using W(2) U V by simp
qed

theorem pool_writes_witness:
  "\<exists>i bp'. FetchPage (NewPool 2 small_disk None) 1 = Some (Inr i, bp') \<and>
     view (WritePageData bp' 1 \<lparr>ID = 1, Data = replicate 4096 7\<rparr>) 1 = Some (replicate 4096 7)"
proof -
  have N: "dmOpen small_disk" "wal_ok None" by (simp_all add: small_disk_def wal_ok_def)
  note P = pool_inv_New [OF N, of 2]
  have np: "\<not> all_pinned (NewPool 2 small_disk None)"
    by (simp add: all_pinned_def NewPool_def emptyFrame_def exI [of _ 0])
  obtain r bp' where f: "FetchPage (NewPool 2 small_disk None) 1 = Some (r, bp')" "pool_inv bp'" "kept (NewPool 2 small_disk None) bp'"
    "fetch_result (NewPool 2 small_disk None) 1 r bp'"
    by (rule FetchPage_ok [OF P(1), of 1]) auto
  have "\<exists>i. r = Inr i"
    using f(4) P(3,4) np page_of_small_disk Type_zero_page by (cases r) (auto simp: fetch_result_def)
  then obtain i where i: "r = Inr i" "pinned_at bp' i 1" using f(4) by (auto simp: fetch_result_def pinned_at_def)
  have "quiet {} bp'" using f(3) P(2) by (simp add: kept_def)
  from pool_writes [OF f(2) i(2) _ this, of "\<lparr>ID = 1, Data = replicate 4096 7\<rparr>"] i(1) f(1) show ?thesis
    by (auto simp: page_ok_def PageSize_def)
qed





end
