(* ===== verification/Tree.thy ===== *)
theory Tree
  imports Leaf Internal Bloom Pool_Props "HOL-Library.AList"
begin

text \<open>
  The B+tree: descent, point reads, the leaf scanner and cursors
  (\<^verbatim>\<open>internal/btree/tree.go\<close> and \<^verbatim>\<open>internal/btree/cursor.go\<close>). The tree owns its buffer pool, through
  which it reaches the disk manager and the log manager; the engine builds all of them on the same two
  objects, so \<open>bt.disk\<close> is the disk of the pool and \<open>bt.walMgr\<close> its log. A frame pointer is a frame
  index, and the id of a frame is read where the code reads \<open>frame.PageID\<close>. A transaction is shared
  with the table of active transactions: an update of its fields is also made there. Each operation
  runs under the mutex of the engine, so it is one step. Events are left out. The descent and the scans
  follow page links and are partial: a cyclic chain of pages is the value \<^term>\<open>None\<close>.
\<close>

section \<open>Definitions\<close>

record BPlusTree =
  rootPageID :: u32
  bufPool :: BufferPool
  tm :: TransactionManager
  bloom :: BloomIndex
  onRootChange :: "(u32 \<Rightarrow> DiskManager \<Rightarrow> DiskManager option) option"

definition NewTree :: "u32 \<Rightarrow> BufferPool \<Rightarrow> TransactionManager \<Rightarrow> BPlusTree" where
  "NewTree rootID bp m =
     \<lparr>rootPageID = rootID, bufPool = bp, tm = m, bloom = NewBloomIndex, onRootChange = None\<rparr>"

definition SetRootChangeCallback :: "BPlusTree \<Rightarrow> (u32 \<Rightarrow> DiskManager \<Rightarrow> DiskManager option) \<Rightarrow> BPlusTree" where
  "SetRootChangeCallback bt fn = bt\<lparr>onRootChange := Some fn\<rparr>"

definition RootPageID :: "BPlusTree \<Rightarrow> u32" where
  "RootPageID bt = rootPageID bt"

definition TreeBloomRebuild :: "BPlusTree \<Rightarrow> u32 \<Rightarrow> bytes list \<Rightarrow> BPlusTree" where
  "TreeBloomRebuild bt pageID keys = bt\<lparr>bloom := BloomRebuild (bloom bt) pageID keys\<rparr>"

subsection \<open>The pool of the tree\<close>

definition fetchT :: "BPlusTree \<Rightarrow> u32 \<Rightarrow> ((error, nat) result \<times> BPlusTree) option" where
  "fetchT bt pageID = do {
     (r, bp) \<leftarrow> FetchPage (bufPool bt) pageID;
     Some (r, bt\<lparr>bufPool := bp\<rparr>) }"

definition unpinT :: "BPlusTree \<Rightarrow> u32 \<Rightarrow> bool \<Rightarrow> BPlusTree" where
  "unpinT bt pageID dirty = bt\<lparr>bufPool := UnpinPage (bufPool bt) pageID dirty\<rparr>"

definition readT :: "BPlusTree \<Rightarrow> nat \<Rightarrow> Page" where
  "readT bt frame = ReadPageData (bufPool bt) frame"

definition writeT :: "BPlusTree \<Rightarrow> u32 \<Rightarrow> Page \<Rightarrow> BPlusTree" where
  "writeT bt pageID p = bt\<lparr>bufPool := WritePageData (bufPool bt) pageID p\<rparr>"

definition framePageID :: "BPlusTree \<Rightarrow> nat \<Rightarrow> u32" where
  "framePageID bt frame = fPageID (frames (bufPool bt) ! frame)"

definition framePageIDs :: "BPlusTree \<Rightarrow> nat list \<Rightarrow> u32 list" where
  "framePageIDs bt fs = map (framePageID bt) fs"

text \<open>\<open>for _, pf := range parents { bt.bufPool.UnpinPage(pf.PageID, dirty) }\<close>\<close>

fun unpinFrames :: "BPlusTree \<Rightarrow> nat list \<Rightarrow> bool \<Rightarrow> BPlusTree" where
  "unpinFrames bt [] dirty = bt"
| "unpinFrames bt (pf # pfs) dirty = unpinFrames (unpinT bt (framePageID bt pf) dirty) pfs dirty"

definition releaseLeaf :: "BPlusTree \<Rightarrow> nat \<Rightarrow> nat list \<Rightarrow> bool \<Rightarrow> BPlusTree" where
  "releaseLeaf bt frame parents dirty = unpinFrames (unpinT bt (framePageID bt frame) dirty) parents False"

subsection \<open>Descent\<close>

text \<open>The \<open>for\<close> loop of \<open>findLeafWithParents\<close>; \<open>parents\<close> are the pinned frames, root first.\<close>

partial_function (option) findLeafLoop ::
  "BPlusTree \<Rightarrow> bytes \<Rightarrow> nat \<Rightarrow> nat list \<Rightarrow> ((error, nat \<times> nat list) result \<times> BPlusTree) option" where
  "findLeafLoop bt key frame parents =
     (let p = readT bt frame
      in if Type p = PageTypeInternal then do {
           child \<leftarrow> FindChild p key;
           let childID = (if child = 0 then RightmostChild p else child);
           let parents = parents @ [frame];
           (r, bt) \<leftarrow> fetchT bt childID;
           (case r of
              Inl e \<Rightarrow> Some (Inl e, unpinFrames bt parents False)
            | Inr f \<Rightarrow> findLeafLoop bt key f parents) }
         else Some (Inr (frame, parents), bt))"

definition findLeafWithParents ::
  "BPlusTree \<Rightarrow> bytes \<Rightarrow> ((error, nat \<times> nat list) result \<times> BPlusTree) option" where
  "findLeafWithParents bt key = do {
     (r, bt) \<leftarrow> fetchT bt (rootPageID bt);
     (case r of Inl e \<Rightarrow> Some (Inl e, bt) | Inr frame \<Rightarrow> findLeafLoop bt key frame []) }"

definition FindLeafForInspection ::
  "BPlusTree \<Rightarrow> bytes \<Rightarrow> ((error, nat \<times> nat list) result \<times> BPlusTree) option" where
  "FindLeafForInspection bt key = findLeafWithParents bt key"

definition Get :: "BPlusTree \<Rightarrow> Transaction \<Rightarrow> bytes \<Rightarrow> ((error, bytes) result \<times> BPlusTree) option" where
  "Get bt txn key = do {
     (r, bt) \<leftarrow> findLeafWithParents bt key;
     (case r of
        Inl e \<Rightarrow> Some (Inl e, bt)
      | Inr (frame, parents) \<Rightarrow>
          if \<not> BloomMayContain (bloom bt) (framePageID bt frame) key
          then Some (Inl ErrKeyNotFound, releaseLeaf bt frame parents False)
          else do {
            (_, tuple) \<leftarrow> FindVisibleSlot (readT bt frame) key (txSnapshot txn) (GetStatus (tm bt));
            (case tuple of
               None \<Rightarrow> Some (Inl ErrKeyNotFound, releaseLeaf bt frame parents False)
             | Some t \<Rightarrow>
                 let bt = (if txIsoLevel txn = Serializable
                           then bt\<lparr>tm := (tm bt)\<lparr>SIREADMgr := AcquireRead (SIREADMgr (tm bt)) (txID txn) key\<rparr>\<rparr>
                           else bt)
                 in Some (Inr (Value t), releaseLeaf bt frame parents False)) }) }"

text \<open>The keys of the records of a page that the loop of \<open>rebuildPageBloom\<close> collects.\<close>

fun keysLoop :: "Page \<Rightarrow> nat list \<Rightarrow> bytes list option" where
  "keysLoop p [] = Some []"
| "keysLoop p (i # is) = do {
     data \<leftarrow> GetRecord p i;
     (case data of
        NilSlice \<Rightarrow> keysLoop p is
      | Slice bs \<Rightarrow>
          (case TupleKeyExtract bs of
             NilSlice \<Rightarrow> keysLoop p is
           | Slice k \<Rightarrow> do { ks \<leftarrow> keysLoop p is; Some (k # ks) })) }"

definition rebuildPageBloom :: "BPlusTree \<Rightarrow> u32 \<Rightarrow> Page \<Rightarrow> BPlusTree option" where
  "rebuildPageBloom bt pageID p = do {
     keys \<leftarrow> keysLoop p [0..<NumSlots p];
     Some (bt\<lparr>bloom := BloomRebuild (bloom bt) pageID keys\<rparr>) }"

subsection \<open>The leaf scanner\<close>

partial_function (option) firstLeafLoop :: "BPlusTree \<Rightarrow> nat \<Rightarrow> (u32 \<times> BPlusTree) option" where
  "firstLeafLoop bt frame =
     (let p = readT bt frame
      in if Type p = PageTypeInternal then
           let childID = PrevSib p;
               bt = unpinT bt (framePageID bt frame) False
           in if childID = 0 then Some (0, bt)
              else do {
                (r, bt) \<leftarrow> fetchT bt childID;
                (case r of Inl e \<Rightarrow> Some (0, bt) | Inr f \<Rightarrow> firstLeafLoop bt f) }
         else let i = framePageID bt frame in Some (i, unpinT bt i False))"

definition FirstLeafPageID :: "BPlusTree \<Rightarrow> (u32 \<times> BPlusTree) option" where
  "FirstLeafPageID bt = do {
     let rootID = RootPageID bt;
     (r, bt) \<leftarrow> fetchT bt rootID;
     (case r of Inl e \<Rightarrow> Some (0, bt) | Inr frame \<Rightarrow> firstLeafLoop bt frame) }"

definition ReadLeafPage :: "BPlusTree \<Rightarrow> u32 \<Rightarrow> (Page option \<times> BPlusTree) option" where
  "ReadLeafPage bt pageID = do {
     (r, bt) \<leftarrow> fetchT bt pageID;
     Some (case r of Inl e \<Rightarrow> (None, bt) | Inr frame \<Rightarrow> (Some (readT bt frame), bt)) }"

definition WriteLeafPage :: "BPlusTree \<Rightarrow> Page \<Rightarrow> BPlusTree" where
  "WriteLeafPage bt p = writeT bt (ID p) p"

definition UnpinLeaf :: "BPlusTree \<Rightarrow> u32 \<Rightarrow> bool \<Rightarrow> BPlusTree" where
  "UnpinLeaf bt pageID dirty = unpinT bt pageID dirty"

subsection \<open>Cursors\<close>

text \<open>
  The transaction of a cursor is passed to \<open>CursorNext\<close>: the field is a pointer, and the snapshot is
  read at each step.
\<close>

record BTreeCursor =
  current :: "nat option"
  cSlotIdx :: nat
  cursorEnd :: slice

definition Scan :: "BPlusTree \<Rightarrow> bytes \<Rightarrow> slice \<Rightarrow> ((error, BTreeCursor) result \<times> BPlusTree) option" where
  "Scan bt start end' = do {
     (r, bt) \<leftarrow> findLeafWithParents bt start;
     (case r of
        Inl e \<Rightarrow> Some (Inl e, bt)
      | Inr (frame, parents) \<Rightarrow> do {
          let bt = unpinFrames bt parents False;
          s \<leftarrow> BinarySearch (readT bt frame) start TupleKeyExtract;
          Some (Inr \<lparr>current = Some frame, cSlotIdx = searchStart s, cursorEnd = end'\<rparr>, bt) }) }"

partial_function (option) CursorNext ::
  "BPlusTree \<Rightarrow> Transaction \<Rightarrow> BTreeCursor \<Rightarrow> ((error, MVCCTuple) result \<times> BTreeCursor \<times> BPlusTree) option" where
  "CursorNext bt txn c = do {
     frame \<leftarrow> current c;
     let p = readT bt frame;
     if cSlotIdx c \<ge> NumSlots p then
       let nextID = NextSib p;
           bt = unpinT bt (framePageID bt frame) False;
           c = c\<lparr>current := None\<rparr>
       in if nextID = 0 then Some (Inl ErrEOF, c, bt)
          else do {
            (r, bt) \<leftarrow> fetchT bt nextID;
            (case r of
               Inl e \<Rightarrow> Some (Inl e, c, bt)
             | Inr f \<Rightarrow> CursorNext bt txn (c\<lparr>current := Some f, cSlotIdx := 0\<rparr>)) }
     else do {
       data \<leftarrow> GetRecord p (cSlotIdx c);
       let c = c\<lparr>cSlotIdx := cSlotIdx c + 1\<rparr>;
       (case data of
          NilSlice \<Rightarrow> CursorNext bt txn c
        | Slice bs \<Rightarrow>
            (case DecodeTuple bs of
               Inl e \<Rightarrow> CursorNext bt txn c
             | Inr t \<Rightarrow>
                 if cursorEnd c \<noteq> NilSlice \<and> bytes_Compare (Key t) (bytes_of (cursorEnd c)) > 0
                 then Some (Inl ErrEOF, c\<lparr>current := None\<rparr>, unpinT bt (framePageID bt frame) False)
                 else if \<not> IsVisible (txSnapshot txn) t (GetStatus (tm bt)) then CursorNext bt txn c
                 else Some (Inr t, c, bt))) } }"

definition CursorClose :: "BPlusTree \<Rightarrow> BTreeCursor \<Rightarrow> BTreeCursor \<times> BPlusTree" where
  "CursorClose bt c =
     (case current c of
        None \<Rightarrow> (c, bt)
      | Some frame \<Rightarrow> (c\<lparr>current := None\<rparr>, unpinT bt (framePageID bt frame) False))"

end
