(* ===== verification/Split.thy ===== *)
theory Split
  imports Tree
begin

text \<open>
  Insertion with its page splits (\<^verbatim>\<open>internal/btree/split.go\<close>, and \<open>Insert\<close> and \<open>Update\<close> of
  \<^verbatim>\<open>internal/btree/tree.go\<close>). The page images are local copies until \<open>WritePageData\<close>, so the work on
  them is a function of the pages. \<open>insertIntoParent\<close> and \<open>splitInternal\<close> call each other along the
  chain of parents, which gets shorter.
\<close>

section \<open>Definitions\<close>

subsection \<open>Transactions, log and disk of the tree\<close>

definition putTxn :: "BPlusTree \<Rightarrow> Transaction \<Rightarrow> BPlusTree" where
  "putTxn bt txn =
     (case map_of (activeTxns (tm bt)) (txID txn) of
        None \<Rightarrow> bt
      | Some _ \<Rightarrow> bt\<lparr>tm := (tm bt)\<lparr>activeTxns := AList.update (txID txn) txn (activeTxns (tm bt))\<rparr>\<rparr>)"

text \<open>
  \<open>if bt.walMgr != nil { lsn = log(...); txn.LastLSN = lsn; ... }\<close>; the result is the LSN when there is
  a log, and \<open>stampLSN\<close> is the assignment of it to a page in the same block.
\<close>

definition withLog ::
  "BPlusTree \<Rightarrow> Transaction \<Rightarrow> (WALManager \<Rightarrow> (u64 \<times> WALManager) option) \<Rightarrow> (u64 option \<times> Transaction \<times> BPlusTree) option" where
  "withLog bt txn logRec =
     (case wal (bufPool bt) of
        None \<Rightarrow> Some (None, txn, bt)
      | Some w \<Rightarrow> do {
          (lsn, w) \<leftarrow> logRec w;
          let txn = txn\<lparr>txLastLSN := lsn\<rparr>;
          Some (Some lsn, txn, putTxn (bt\<lparr>bufPool := (bufPool bt)\<lparr>wal := Some w\<rparr>\<rparr>) txn) })"

definition stampLSN :: "Page \<Rightarrow> u64 option \<Rightarrow> Page" where
  "stampLSN p lsn = (case lsn of None \<Rightarrow> p | Some l \<Rightarrow> SetPageLSN p l)"

definition lsnOrZero :: "u64 option \<Rightarrow> u64" where
  "lsnOrZero lsn = (case lsn of None \<Rightarrow> 0 | Some l \<Rightarrow> l)"

definition appendUndo :: "BPlusTree \<Rightarrow> Transaction \<Rightarrow> UndoRecord \<Rightarrow> Transaction \<times> BPlusTree" where
  "appendUndo bt txn rec =
     (let txn = txn\<lparr>txUndoLog := txUndoLog txn @ [rec]\<rparr> in (txn, putTxn bt txn))"

definition setDisk :: "BPlusTree \<Rightarrow> DiskManager \<Rightarrow> BPlusTree" where
  "setDisk bt dm = bt\<lparr>bufPool := (bufPool bt)\<lparr>disk := dm\<rparr>\<rparr>"

definition allocT :: "BPlusTree \<Rightarrow> ((error, u32) result \<times> BPlusTree) option" where
  "allocT bt = do {
     (r, dm) \<leftarrow> AllocPage (disk (bufPool bt));
     Some (r, setDisk bt dm) }"

definition changeRoot :: "BPlusTree \<Rightarrow> u32 \<Rightarrow> BPlusTree option" where
  "changeRoot bt newRootID =
     (let bt = bt\<lparr>rootPageID := newRootID\<rparr>
      in (case onRootChange bt of
            None \<Rightarrow> Some bt
          | Some fn \<Rightarrow> do { dm \<leftarrow> fn newRootID (disk (bufPool bt)); Some (setDisk bt dm) }))"

text \<open>\<open>next.SetPrevSib(prev)\<close> on the page after a page that was split or merged.\<close>

definition relinkPrev :: "BPlusTree \<Rightarrow> u32 \<Rightarrow> u32 \<Rightarrow> BPlusTree option" where
  "relinkPrev bt nextID prevID =
     (if nextID = 0 then Some bt
      else do {
        (r, bt) \<leftarrow> fetchT bt nextID;
        Some (case r of
                Inl e \<Rightarrow> bt
              | Inr f \<Rightarrow> unpinT (writeT bt nextID (SetPrevSib (readT bt f) prevID)) nextID True) })"

subsection \<open>Splits\<close>

text \<open>Copy the records of the given slots to the other page and delete them here.\<close>

fun moveSlots :: "(bytes \<Rightarrow> slice) \<Rightarrow> Page \<Rightarrow> Page \<Rightarrow> nat list \<Rightarrow> (Page \<times> Page) option" where
  "moveSlots ke src dst [] = Some (src, dst)"
| "moveSlots ke src dst (i # is) = do {
     data \<leftarrow> GetRecord src i;
     (case data of
        NilSlice \<Rightarrow> moveSlots ke src dst is
      | Slice bs \<Rightarrow> do {
          (_, dst) \<leftarrow> InsertRecord dst bs ke;
          src \<leftarrow> DeleteRecord src i;
          moveSlots ke src dst is }) }"

definition rightHeader :: "PageHeader \<Rightarrow> u32 \<Rightarrow> PageHeader" where
  "rightHeader leafHdr leafPageID =
     emptyHeader\<lparr>hType := PageTypeLeaf, hFlags := hFlags leafHdr AND NOT FlagIsRoot,
       hFreeStart := word_of_nat HeaderSize, hFreeEnd := word_of_nat PageSize,
       hPrevSib := leafPageID, hNextSib := hNextSib leafHdr\<rparr>"

definition splitHalves :: "Page \<Rightarrow> Page \<Rightarrow> u32 \<Rightarrow> u32 \<Rightarrow> u32 \<Rightarrow> (Page \<times> Page) option" where
  "splitHalves leaf right leafPageID rightID oldNextSib = do {
     let numSlots = NumSlots leaf;
     let midSlot = numSlots div 2;
     (leaf, right) \<leftarrow> moveSlots TupleKeyExtract leaf right [midSlot..<numSlots];
     leaf \<leftarrow> Compact leaf;
     Some (SetNextSib leaf rightID, SetNextSib (SetPrevSib right leafPageID) oldNextSib) }"

definition firstKey :: "Page \<Rightarrow> bytes option" where
  "firstKey p = do { data \<leftarrow> GetRecord p 0; Some (bytes_of (TupleKeyExtract (bytes_of data))) }"

definition placeTuple :: "Page \<Rightarrow> Page \<Rightarrow> bytes \<Rightarrow> MVCCTuple \<Rightarrow> (Page \<times> Page) option" where
  "placeTuple leaf right newKey newTuple = do {
     rightMinKey \<leftarrow> firstKey right;
     if bytes_Compare newKey rightMinKey \<ge> 0
     then do { (_, right) \<leftarrow> InsertTuple right newTuple; Some (leaf, right) }
     else do { (_, leaf) \<leftarrow> InsertTuple leaf newTuple; Some (leaf, right) } }"

definition createNewRoot ::
  "BPlusTree \<Rightarrow> Transaction \<Rightarrow> u32 \<Rightarrow> bytes \<Rightarrow> u32 \<Rightarrow> ((error, unit) result \<times> Transaction \<times> BPlusTree) option" where
  "createNewRoot bt txn leftID separatorKey rightID = do {
     (r, bt) \<leftarrow> allocT bt;
     (case r of
        Inl e \<Rightarrow> Some (Inl e, txn, bt)
      | Inr newRootID \<Rightarrow> do {
          (r, bt) \<leftarrow> fetchT bt newRootID;
          (case r of
             Inl e \<Rightarrow> Some (Inl e, txn, bt)
           | Inr newRootFrame \<Rightarrow> do {
               let root = (readT bt newRootFrame)\<lparr>ID := newRootID\<rparr>;
               let root = SetFlag (Init root PageTypeInternal) FlagIsRoot;
               let root = SetRightmostChild (SetLeftmostChild root leftID) rightID;
               (_, root) \<leftarrow> InsertKey root separatorKey rightID;
               (lsn, txn, bt) \<leftarrow> withLog bt txn
                  (\<lambda>w. LogRootChangeRecord w newRootID leftID rightID separatorKey (txLastLSN txn));
               let root = stampLSN root lsn;
               let bt = unpinT (writeT bt newRootID root) newRootID True;
               (r, bt) \<leftarrow> fetchT bt leftID;
               let bt = (case r of
                           Inl e \<Rightarrow> bt
                         | Inr f \<Rightarrow> unpinT (writeT bt leftID (ClearFlag (readT bt f) FlagIsRoot)) leftID True);
               bt \<leftarrow> changeRoot bt newRootID;
               Some (Inr (), txn, bt) }) }) }"

definition splitInternalPages :: "Page \<Rightarrow> Page \<Rightarrow> bytes \<Rightarrow> u32 \<Rightarrow> (Page \<times> Page \<times> bytes) option" where
  "splitInternalPages intern right newKey newChildID = do {
     let numSlots = NumSlots intern;
     let midSlot = numSlots div 2;
     midData \<leftarrow> GetRecord intern midSlot;
     let midRec = decodedOrZero midData;
     let pushUpKey = irKey midRec;
     let right = SetLeftmostChild right (irChildID midRec);
     (intern, right) \<leftarrow> moveSlots InternalKeyExtract intern right [midSlot + 1..<numSlots];
     intern \<leftarrow> DeleteRecord intern midSlot;
     intern \<leftarrow> Compact intern;
     let encoded = EncodeInternalRecord \<lparr>irKey = newKey, irChildID = newChildID\<rparr>;
     if bytes_Compare newKey pushUpKey \<ge> 0
     then do { (_, right) \<leftarrow> InsertRecord right encoded InternalKeyExtract; Some (intern, right, pushUpKey) }
     else do { (_, intern) \<leftarrow> InsertRecord intern encoded InternalKeyExtract; Some (intern, right, pushUpKey) } }"

function insertIntoParent ::
    "BPlusTree \<Rightarrow> Transaction \<Rightarrow> u32 list \<Rightarrow> u32 \<Rightarrow> bytes \<Rightarrow> u32 \<Rightarrow> ((error, unit) result \<times> Transaction \<times> BPlusTree) option"
  and splitInternal ::
    "BPlusTree \<Rightarrow> Transaction \<Rightarrow> u32 \<Rightarrow> u32 list \<Rightarrow> bytes \<Rightarrow> u32 \<Rightarrow> ((error, unit) result \<times> Transaction \<times> BPlusTree) option" where
  "insertIntoParent bt txn parents leftID separatorKey rightID =
     (if parents = [] then createNewRoot bt txn leftID separatorKey rightID
      else do {
        let parentID = last parents;
        (r, bt) \<leftarrow> fetchT bt parentID;
        (case r of
           Inl e \<Rightarrow> Some (Inl e, txn, bt)
         | Inr parentFrame \<Rightarrow> do {
             let parentPage = readT bt parentFrame;
             let sepEncoded = EncodeInternalRecord \<lparr>irKey = separatorKey, irChildID = rightID\<rparr>;
             (lsn, txn, bt) \<leftarrow> withLog bt txn
                (\<lambda>w. LogInsertRecord w (txID txn) (ucast parentID) (txLastLSN txn) sepEncoded);
             (r, parentPage) \<leftarrow> InsertKey (stampLSN parentPage lsn) separatorKey rightID;
             let bt = unpinT (writeT bt parentID parentPage) parentID True;
             (case r of
                Inl e \<Rightarrow> splitInternal bt txn parentID (butlast parents) separatorKey rightID
              | Inr _ \<Rightarrow> Some (Inr (), txn, bt)) }) })"
| "splitInternal bt txn internalPageID parents newKey newChildID = do {
     (r, bt) \<leftarrow> fetchT bt internalPageID;
     (case r of
        Inl e \<Rightarrow> Some (Inl e, txn, bt)
      | Inr internalFrame \<Rightarrow> do {
          let intern = readT bt internalFrame;
          (r, bt) \<leftarrow> allocT bt;
          (case r of
             Inl e \<Rightarrow> Some (Inl e, txn, unpinT bt internalPageID False)
           | Inr rightID \<Rightarrow> do {
               (r, bt) \<leftarrow> fetchT bt rightID;
               (case r of
                  Inl e \<Rightarrow> Some (Inl e, txn, unpinT bt internalPageID False)
                | Inr rightFrame \<Rightarrow> do {
                    let right = Init ((readT bt rightFrame)\<lparr>ID := rightID\<rparr>) PageTypeInternal;
                    (intern, right, pushUpKey) \<leftarrow> splitInternalPages intern right newKey newChildID;
                    let bt = writeT (writeT bt internalPageID intern) rightID right;
                    let bt = unpinT (unpinT bt internalPageID True) rightID True;
                    insertIntoParent bt txn parents internalPageID pushUpKey rightID }) }) }) }"
  by pat_completeness auto
termination
  by (relation "measure (\<lambda>x. case x of
        Inl (bt, txn, parents, leftID, key, rightID) \<Rightarrow> 2 * length parents
      | Inr (bt, txn, pageID, parents, key, childID) \<Rightarrow> 2 * length parents + 1)") (auto simp: neq_Nil_conv)

declare insertIntoParent.simps [simp del] splitInternal.simps [simp del]

definition splitLeaf ::
  "BPlusTree \<Rightarrow> Transaction \<Rightarrow> u32 \<Rightarrow> u32 list \<Rightarrow> bytes \<Rightarrow> MVCCTuple \<Rightarrow> ((error, unit) result \<times> Transaction \<times> BPlusTree) option" where
  "splitLeaf bt txn leafPageID parents newKey newTuple = do {
     (r, bt) \<leftarrow> fetchT bt leafPageID;
     (case r of
        Inl e \<Rightarrow> Some (Inl e, txn, bt)
      | Inr leafFrame \<Rightarrow> do {
          let leaf = readT bt leafFrame;
          let leafHdr = DecodeHeader leaf;
          let oldNextSib = hNextSib leafHdr;
          (r, bt) \<leftarrow> allocT bt;
          (case r of
             Inl e \<Rightarrow> Some (Inl e, txn, unpinT bt leafPageID False)
           | Inr rightID \<Rightarrow> do {
               (r, bt) \<leftarrow> fetchT bt rightID;
               (case r of
                  Inl e \<Rightarrow> Some (Inl e, txn, unpinT bt leafPageID False)
                | Inr rightFrame \<Rightarrow> do {
                    let right = EncodeHeader ((readT bt rightFrame)\<lparr>ID := rightID\<rparr>) (rightHeader leafHdr leafPageID);
                    (lsn, txn, bt) \<leftarrow> withLog bt txn
                       (\<lambda>w. LogSplitRecord w (txID txn) (ucast leafPageID) (ucast rightID) (txLastLSN txn) (EncodeTuple newTuple));
                    (leaf, right) \<leftarrow> splitHalves (stampLSN leaf lsn) (stampLSN right lsn) leafPageID rightID oldNextSib;
                    bt \<leftarrow> relinkPrev bt oldNextSib rightID;
                    (leaf, right) \<leftarrow> placeTuple leaf right newKey newTuple;
                    let bt = writeT (writeT bt leafPageID leaf) rightID right;
                    let bt = unpinT (unpinT bt leafPageID True) rightID True;
                    bt \<leftarrow> rebuildPageBloom bt leafPageID leaf;
                    bt \<leftarrow> rebuildPageBloom bt rightID right;
                    separatorKey \<leftarrow> firstKey right;
                    insertIntoParent bt txn parents leafPageID separatorKey rightID }) }) }) }"

subsection \<open>Insert and Update\<close>

text \<open>The check of a write under the serializable level; the readers are visited in list order.\<close>

definition checkWrite :: "BPlusTree \<Rightarrow> Transaction \<Rightarrow> bytes \<Rightarrow> error option \<times> BPlusTree" where
  "checkWrite bt txn key =
     (if txIsoLevel txn = Serializable then
        let m = SIREADMgr (tm bt);
            (err, m) = CheckAndRecordWrite m (txID txn) key (readers_of m key)
        in (err, bt\<lparr>tm := (tm bt)\<lparr>SIREADMgr := m\<rparr>\<rparr>)
      else (None, bt))"

definition newTuple :: "Transaction \<Rightarrow> bytes \<Rightarrow> bytes \<Rightarrow> MVCCTuple" where
  "newTuple txn key value = \<lparr>Xmin = txID txn, Xmax = 0, TFlags = 0, Key = key, Value = value\<rparr>"

definition Insert ::
  "BPlusTree \<Rightarrow> Transaction \<Rightarrow> bytes \<Rightarrow> bytes \<Rightarrow> ((error, unit) result \<times> Transaction \<times> BPlusTree) option" where
  "Insert bt txn key value =
     (case checkWrite bt txn key of
        (Some e, bt) \<Rightarrow> Some (Inl e, txn, bt)
      | (None, bt) \<Rightarrow> do {
          (r, bt) \<leftarrow> findLeafWithParents bt key;
          (case r of
             Inl e \<Rightarrow> Some (Inl e, txn, bt)
           | Inr (frame, parents) \<Rightarrow> do {
               let pageID = framePageID bt frame;
               let tuple = newTuple txn key value;
               let encoded = EncodeTuple tuple;
               (lsn, txn, bt) \<leftarrow> withLog bt txn
                  (\<lambda>w. LogInsertRecord w (txID txn) (ucast pageID) (txLastLSN txn) encoded);
               let p = readT bt frame;
               let p = (if lsnOrZero lsn \<noteq> 0 then SetPageLSN p (lsnOrZero lsn) else p);
               (r, p) \<leftarrow> InsertRecord p encoded TupleKeyExtract;
               (case r of
                  Inl e \<Rightarrow>
                    if e = ErrPageFull then
                      let parentIDs = framePageIDs bt parents;
                          bt = releaseLeaf (writeT bt pageID p) frame parents True
                      in splitLeaf bt txn pageID parentIDs key tuple
                    else Some (Inl e, txn, releaseLeaf bt frame parents False)
                | Inr slotIdx \<Rightarrow>
                    let bt = releaseLeaf (writeT bt pageID p) frame parents True;
                        bt = bt\<lparr>bloom := BloomAdd (bloom bt) pageID key\<rparr>;
                        (txn, bt) = appendUndo bt txn
                          \<lparr>urPageID = pageID, urSlotIdx = slotIdx, urOldData = [], urOldXmax = 0,
                           urOp = UndoInsert, urWALSN = lsnOrZero lsn\<rparr>
                    in Some (Inr (), txn, bt)) }) })"

text \<open>
  The part that \<open>Update\<close> and \<open>Delete\<close> share: find the visible version and mark it as deleted by the
  transaction. On success the page is written back and still pinned; the result is the slot, the
  overwritten \<open>Xmax\<close> and the LSN.
\<close>

definition markDeleted ::
  "BPlusTree \<Rightarrow> Transaction \<Rightarrow> bytes \<Rightarrow> nat \<Rightarrow> nat list \<Rightarrow>
   ((error, nat \<times> u64 \<times> u64) result \<times> Transaction \<times> BPlusTree) option" where
  "markDeleted bt txn key frame parents = do {
     let p = readT bt frame;
     let pageID = framePageID bt frame;
     (slotIdx, oldTuple) \<leftarrow> FindVisibleSlot p key (txSnapshot txn) (GetStatus (tm bt));
     (case oldTuple of
        None \<Rightarrow> Some (Inl ErrKeyNotFound, txn, releaseLeaf bt frame parents False)
      | Some old \<Rightarrow>
          if Xmax old \<noteq> 0 \<and> Xmax old \<noteq> txID txn \<and> GetStatus (tm bt) (Xmax old) = TxnCommitted
          then Some (Inl ErrWriteConflict, txn, releaseLeaf bt frame parents False)
          else do {
            (lsn, txn, bt) \<leftarrow> withLog bt txn
               (\<lambda>w. LogDeleteRecord w (txID txn) (ucast pageID) (txLastLSN txn) slotIdx (Xmax old));
            p \<leftarrow> SetXmax (stampLSN p lsn) (nat slotIdx) (txID txn);
            Some (Inr (nat slotIdx, Xmax old, lsnOrZero lsn), txn, writeT bt pageID p) }) }"

definition undoDelete :: "u32 \<Rightarrow> nat \<Rightarrow> u64 \<Rightarrow> u64 \<Rightarrow> UndoRecord" where
  "undoDelete pageID slotIdx oldXmax lsn =
     \<lparr>urPageID = pageID, urSlotIdx = slotIdx, urOldData = [], urOldXmax = oldXmax, urOp = UndoDelete, urWALSN = lsn\<rparr>"

definition Update ::
  "BPlusTree \<Rightarrow> Transaction \<Rightarrow> bytes \<Rightarrow> bytes \<Rightarrow> ((error, unit) result \<times> Transaction \<times> BPlusTree) option" where
  "Update bt txn key newValue =
     (case checkWrite bt txn key of
        (Some e, bt) \<Rightarrow> Some (Inl e, txn, bt)
      | (None, bt) \<Rightarrow> do {
          (r, bt) \<leftarrow> findLeafWithParents bt key;
          (case r of
             Inl e \<Rightarrow> Some (Inl e, txn, bt)
           | Inr (frame, parents) \<Rightarrow> do {
               let pageID = framePageID bt frame;
               (r, txn, bt) \<leftarrow> markDeleted bt txn key frame parents;
               (case r of
                  Inl e \<Rightarrow> Some (Inl e, txn, bt)
                | Inr (slotIdx, oldXmax, lsn) \<Rightarrow>
                    let bt = releaseLeaf bt frame parents True;
                        (txn, bt) = appendUndo bt txn (undoDelete pageID slotIdx oldXmax lsn)
                    in Insert bt txn key newValue) }) })"

end
