(* ===== verification/Merge.thy ===== *)
theory Merge
  imports Split
begin

text \<open>
  Deletion with its borrows and merges (\<^verbatim>\<open>internal/btree/merge.go\<close>, and \<open>Delete\<close> and \<open>ApplyUndoRecord\<close>
  of \<^verbatim>\<open>internal/btree/tree.go\<close>). The parents are pinned frames, the root first. \<open>handleRootShrink\<close>
  and \<open>handleInternalUnderflow\<close> call each other along the chain of parents, which gets shorter.
  An attempt that may fall through to the next one returns whether it was made.
\<close>

section \<open>Definitions\<close>

definition minLeafFill :: nat where "minLeafFill = 3"

fun countLoop :: "Page \<Rightarrow> nat list \<Rightarrow> nat option" where
  "countLoop p [] = Some 0"
| "countLoop p (i # is) = do {
     data \<leftarrow> GetRecord p i;
     n \<leftarrow> countLoop p is;
     Some (if data \<noteq> NilSlice then n + 1 else n) }"

definition countLiveSlots :: "Page \<Rightarrow> nat option" where
  "countLiveSlots p = countLoop p [0..<NumSlots p]"

definition canLend :: "Page \<Rightarrow> bool option" where
  "canLend p = do { n \<leftarrow> countLiveSlots p; Some (n > minLeafFill) }"

subsection \<open>Siblings\<close>

definition childAt :: "Page \<Rightarrow> nat \<Rightarrow> u32 option option" where
  "childAt p i = do {
     data \<leftarrow> GetRecord p i;
     Some (case data of NilSlice \<Rightarrow> None | Slice _ \<Rightarrow> Some (irChildID (decodedOrZero data))) }"

fun siblingLoop :: "Page \<Rightarrow> u32 \<Rightarrow> u32 \<Rightarrow> nat \<Rightarrow> nat list \<Rightarrow> (u32 \<times> u32 \<times> int \<times> int) option" where
  "siblingLoop p leftmostChild leafPageID n [] = Some (0, 0, -1, -1)"
| "siblingLoop p leftmostChild leafPageID n (i # is) = do {
     c \<leftarrow> childAt p i;
     if c = Some leafPageID then do {
       leftSibID \<leftarrow> (if i = 0 then Some leftmostChild
                     else do { l \<leftarrow> childAt p (i - 1); Some (case l of Some x \<Rightarrow> x | None \<Rightarrow> 0) });
       (rightSibID, sepSlotRight) \<leftarrow>
         (if i + 1 < n then do {
            r \<leftarrow> childAt p (i + 1);
            Some (case r of Some x \<Rightarrow> (x, int (i + 1)) | None \<Rightarrow> (0, -1)) }
          else Some (0, -1));
       Some (rightSibID, leftSibID, sepSlotRight, int i) }
     else siblingLoop p leftmostChild leafPageID n is }"

definition findSiblingInfo :: "Page \<Rightarrow> u32 \<Rightarrow> (u32 \<times> u32 \<times> int \<times> int) option" where
  "findSiblingInfo ip leafPageID =
     (let leftmostChild = PrevSib ip; n = NumSlots ip
      in if leftmostChild = leafPageID then
           (if n > 0 then do {
              c \<leftarrow> childAt ip 0;
              Some (case c of Some x \<Rightarrow> (x, 0, 0, -1) | None \<Rightarrow> (0, 0, -1, -1)) }
            else Some (0, 0, -1, -1))
         else siblingLoop ip leftmostChild leafPageID n [0..<n])"

subsection \<open>Work on pages\<close>

definition doborrowFromRight :: "Page \<Rightarrow> Page \<Rightarrow> Page \<Rightarrow> nat \<Rightarrow> u32 \<Rightarrow> (Page \<times> Page \<times> Page) option" where
  "doborrowFromRight leaf right ip sepSlot rightSibID = do {
     first \<leftarrow> GetRecord right 0;
     (case first of
        NilSlice \<Rightarrow> Some (leaf, right, ip)
      | Slice cp \<Rightarrow> do {
          (_, leaf) \<leftarrow> InsertRecord leaf cp TupleKeyExtract;
          right \<leftarrow> DeleteRecord right 0;
          right \<leftarrow> Compact right;
          if NumSlots right > 0 then do {
            newFirst \<leftarrow> GetRecord right 0;
            (case newFirst of
               NilSlice \<Rightarrow> Some (leaf, right, ip)
             | Slice bs \<Rightarrow> do {
                 let newKey = bytes_of (TupleKeyExtract bs);
                 ip \<leftarrow> DeleteRecord ip sepSlot;
                 ip \<leftarrow> Compact ip;
                 (_, ip) \<leftarrow> InsertKey ip newKey rightSibID;
                 Some (leaf, right, ip) }) }
          else Some (leaf, right, ip) }) }"

definition doborrowFromLeft :: "Page \<Rightarrow> Page \<Rightarrow> Page \<Rightarrow> nat \<Rightarrow> u32 \<Rightarrow> (Page \<times> Page \<times> Page) option" where
  "doborrowFromLeft left leaf ip sepSlotLeaf leafPageID =
     (let n = NumSlots left
      in if n = 0 then Some (left, leaf, ip)
         else do {
           last \<leftarrow> GetRecord left (n - 1);
           (case last of
              NilSlice \<Rightarrow> Some (left, leaf, ip)
            | Slice cp \<Rightarrow> do {
                (_, leaf) \<leftarrow> InsertRecord leaf cp TupleKeyExtract;
                left \<leftarrow> DeleteRecord left (n - 1);
                left \<leftarrow> Compact left;
                if NumSlots leaf > 0 then do {
                  newFirst \<leftarrow> GetRecord leaf 0;
                  (case newFirst of
                     NilSlice \<Rightarrow> Some (left, leaf, ip)
                   | Slice bs \<Rightarrow> do {
                       let newKey = bytes_of (TupleKeyExtract bs);
                       ip \<leftarrow> DeleteRecord ip sepSlotLeaf;
                       ip \<leftarrow> Compact ip;
                       (_, ip) \<leftarrow> InsertKey ip newKey leafPageID;
                       Some (left, leaf, ip) }) }
                else Some (left, leaf, ip) }) })"

text \<open>The copy loop of the two merges, and the removal of the separator of a child.\<close>

fun copySlots :: "Page \<Rightarrow> Page \<Rightarrow> nat list \<Rightarrow> Page option" where
  "copySlots src dst [] = Some dst"
| "copySlots src dst (i # is) = do {
     data \<leftarrow> GetRecord src i;
     (case data of
        NilSlice \<Rightarrow> copySlots src dst is
      | Slice cp \<Rightarrow> do { (_, dst) \<leftarrow> InsertRecord dst cp TupleKeyExtract; copySlots src dst is }) }"

fun dropChildLoop :: "Page \<Rightarrow> u32 \<Rightarrow> nat list \<Rightarrow> Page option" where
  "dropChildLoop p childID [] = Some p"
| "dropChildLoop p childID (i # is) = do {
     c \<leftarrow> childAt p i;
     if c = Some childID then do { p \<leftarrow> DeleteRecord p i; Compact p }
     else dropChildLoop p childID is }"

definition dropChild :: "Page \<Rightarrow> u32 \<Rightarrow> Page option" where
  "dropChild p childID = dropChildLoop p childID [0..<NumSlots p]"

subsection \<open>Shrinking the tree\<close>

text \<open>\<open>bt.disk.FreePage(id)\<close>, with its error dropped, and \<open>bt.bufPool.InvalidatePage(id)\<close>.\<close>

definition freeT :: "BPlusTree \<Rightarrow> u32 \<Rightarrow> BPlusTree option" where
  "freeT bt pageID = do {
     (_, dm) \<leftarrow> FreePage (disk (bufPool bt)) pageID;
     let bt = setDisk bt dm;
     Some (bt\<lparr>bufPool := InvalidatePage (bufPool bt) pageID\<rparr>) }"

definition logRootShrink :: "u32 \<Rightarrow> u64 \<Rightarrow> WALManager \<Rightarrow> (u64 \<times> WALManager) option" where
  "logRootShrink onlyChildID prevLSN w = do {
     (lsn, w) \<leftarrow> AppendRecord w (emptyLogRecord\<lparr>rType := LogRootChange, rPrevLSN := prevLSN,
        rPayload := PutUint32 (replicate 4 0) 0 onlyChildID\<rparr>);
     Some (lsn, snd (FlushUpTo w lsn)) }"

definition promoteChild ::
  "BPlusTree \<Rightarrow> Transaction \<Rightarrow> u32 \<Rightarrow> nat \<Rightarrow> nat list \<Rightarrow> ((error, unit) result \<times> Transaction \<times> BPlusTree) option" where
  "promoteChild bt txn onlyChildID emptied parents = do {
     (r, bt) \<leftarrow> fetchT bt onlyChildID;
     (case r of
        Inl e \<Rightarrow> Some (Inr (), txn, unpinFrames bt parents True)
      | Inr childFrame \<Rightarrow> do {
          let childPage = SetFlag (readT bt childFrame) FlagIsRoot;
          (lsn, txn, bt) \<leftarrow> withLog bt txn (logRootShrink onlyChildID (txLastLSN txn));
          let bt = unpinT (writeT bt onlyChildID (stampLSN childPage lsn)) onlyChildID True;
          let emptyID = framePageID bt emptied;
          bt \<leftarrow> freeT (unpinT bt emptyID False) emptyID;
          bt \<leftarrow> changeRoot bt onlyChildID;
          if parents = [] then None
          else Some (Inr (), txn, unpinFrames bt (butlast parents) False) }) }"

definition internalMergeRight ::
  "BPlusTree \<Rightarrow> Page \<Rightarrow> u32 \<Rightarrow> u32 \<Rightarrow> nat \<Rightarrow> nat \<Rightarrow> u32 \<Rightarrow> int \<Rightarrow> int \<Rightarrow> (u32 option \<times> Page \<times> BPlusTree) option" where
  "internalMergeRight bt gp underflowID onlyChildID underflowFrame grandparentFrame rightSibID sepSlotRight sepSlotUnderflow =
     (if rightSibID \<noteq> 0 \<and> sepSlotRight \<ge> 0 then do {
        (r, bt) \<leftarrow> fetchT bt rightSibID;
        (case r of
           Inl e \<Rightarrow> Some (None, gp, bt)
         | Inr rightFrame \<Rightarrow> do {
             let right = readT bt rightFrame;
             gpSepData \<leftarrow> GetRecord gp (nat sepSlotRight);
             (case gpSepData of
                NilSlice \<Rightarrow> Some (None, gp, unpinT bt rightSibID False)
              | Slice _ \<Rightarrow> do {
                  let gpSepKey = irKey (decodedOrZero gpSepData);
                  let oldRightLeftmost = LeftmostChild right;
                  let right = SetLeftmostChild right onlyChildID;
                  (_, right) \<leftarrow> InsertKey right gpSepKey oldRightLeftmost;
                  gp \<leftarrow> dropChild gp rightSibID;
                  gp \<leftarrow> (if PrevSib gp = underflowID then Some (SetPrevSib gp rightSibID)
                         else if sepSlotUnderflow \<ge> 0 then do {
                           d \<leftarrow> GetRecord gp (nat sepSlotUnderflow);
                           (case d of
                              NilSlice \<Rightarrow> Some gp
                            | Slice _ \<Rightarrow> do {
                                gp \<leftarrow> DeleteRecord gp (nat sepSlotUnderflow);
                                gp \<leftarrow> Compact gp;
                                let newRec = EncodeInternalRecord \<lparr>irKey = irKey (decodedOrZero d), irChildID = rightSibID\<rparr>;
                                (_, gp) \<leftarrow> InsertRecord gp newRec InternalKeyExtract;
                                Some gp }) }
                         else Some gp);
                  let bt = writeT (writeT bt rightSibID right) (framePageID bt grandparentFrame) gp;
                  let bt = unpinT bt rightSibID True;
                  bt \<leftarrow> freeT (unpinT bt (framePageID bt underflowFrame) False) underflowID;
                  Some (Some rightSibID, gp, bt) }) }) }
      else Some (None, gp, bt))"

definition internalMergeLeft ::
  "BPlusTree \<Rightarrow> Page \<Rightarrow> u32 \<Rightarrow> u32 \<Rightarrow> nat \<Rightarrow> nat \<Rightarrow> u32 \<Rightarrow> int \<Rightarrow> (u32 option \<times> Page \<times> BPlusTree) option" where
  "internalMergeLeft bt gp underflowID onlyChildID underflowFrame grandparentFrame leftSibID sepSlotUnderflow =
     (if leftSibID \<noteq> 0 \<and> sepSlotUnderflow \<ge> 0 then do {
        (r, bt) \<leftarrow> fetchT bt leftSibID;
        (case r of
           Inl e \<Rightarrow> Some (None, gp, bt)
         | Inr leftFrame \<Rightarrow> do {
             let left = readT bt leftFrame;
             gpSepData \<leftarrow> GetRecord gp (nat sepSlotUnderflow);
             (case gpSepData of
                NilSlice \<Rightarrow> Some (None, gp, unpinT bt leftSibID False)
              | Slice _ \<Rightarrow> do {
                  (_, left) \<leftarrow> InsertKey left (irKey (decodedOrZero gpSepData)) onlyChildID;
                  gp \<leftarrow> DeleteRecord gp (nat sepSlotUnderflow);
                  gp \<leftarrow> Compact gp;
                  let bt = writeT (writeT bt leftSibID left) (framePageID bt grandparentFrame) gp;
                  let bt = unpinT bt leftSibID True;
                  bt \<leftarrow> freeT (unpinT bt (framePageID bt underflowFrame) False) underflowID;
                  Some (Some leftSibID, gp, bt) }) }) }
      else Some (None, gp, bt))"

text \<open>The right sibling first, then the left one; the result names the node that survives.\<close>

definition internalMerge ::
  "BPlusTree \<Rightarrow> u32 \<Rightarrow> u32 \<Rightarrow> nat \<Rightarrow> nat \<Rightarrow> (u32 option \<times> Page \<times> BPlusTree) option" where
  "internalMerge bt underflowID onlyChildID underflowFrame grandparentFrame = do {
     let gp = readT bt grandparentFrame;
     (rightSibID, leftSibID, sepSlotRight, sepSlotUnderflow) \<leftarrow> findSiblingInfo gp underflowID;
     (m, gp, bt) \<leftarrow> internalMergeRight bt gp underflowID onlyChildID underflowFrame grandparentFrame
        rightSibID sepSlotRight sepSlotUnderflow;
     (case m of
        Some _ \<Rightarrow> Some (m, gp, bt)
      | None \<Rightarrow> internalMergeLeft bt gp underflowID onlyChildID underflowFrame grandparentFrame leftSibID sepSlotUnderflow) }"

function handleRootShrink ::
    "BPlusTree \<Rightarrow> Transaction \<Rightarrow> u32 \<Rightarrow> nat \<Rightarrow> nat list \<Rightarrow> ((error, unit) result \<times> Transaction \<times> BPlusTree) option"
  and handleInternalUnderflow ::
    "BPlusTree \<Rightarrow> Transaction \<Rightarrow> u32 \<Rightarrow> u32 \<Rightarrow> nat \<Rightarrow> nat \<Rightarrow> nat list \<Rightarrow>
     ((error, unit) result \<times> Transaction \<times> BPlusTree) option" where
  "handleRootShrink bt txn onlyChildID emptied parents =
     (if Flags (readT bt emptied) AND FlagIsRoot = 0 then
        (if parents = [] then Some (Inr (), txn, unpinT bt (framePageID bt emptied) True)
         else handleInternalUnderflow bt txn (framePageID bt emptied) onlyChildID emptied (last parents) (butlast parents))
      else promoteChild bt txn onlyChildID emptied parents)"
| "handleInternalUnderflow bt txn underflowID onlyChildID underflowFrame grandparentFrame ancestors = do {
     (m, gp, bt) \<leftarrow> internalMerge bt underflowID onlyChildID underflowFrame grandparentFrame;
     (case m of
        Some survivor \<Rightarrow>
          if NumSlots gp = 0 then handleRootShrink bt txn survivor grandparentFrame ancestors
          else Some (Inr (), txn, unpinFrames bt ancestors True)
      | None \<Rightarrow>
          let bt = unpinT bt (framePageID bt underflowFrame) True;
              bt = unpinT bt (framePageID bt grandparentFrame) True
          in Some (Inr (), txn, unpinFrames bt ancestors True)) }"
  by pat_completeness auto
termination
  by (relation "measure (\<lambda>x. case x of
        Inl (bt, txn, child, frame, parents) \<Rightarrow> 2 * length parents
      | Inr (bt, txn, pageID, child, frame, gp, ancestors) \<Rightarrow> 2 * length ancestors + 1)") (auto simp: neq_Nil_conv)

declare handleRootShrink.simps [simp del] handleInternalUnderflow.simps [simp del]

subsection \<open>Merging leaves\<close>

text \<open>
  What the two merges do after the records are copied: relink the next leaf, log the images, write the
  surviving leaf and the parent, free the other page and go on with the parent.
\<close>

definition finishMerge ::
  "BPlusTree \<Rightarrow> Transaction \<Rightarrow> Page \<Rightarrow> u32 \<Rightarrow> u32 \<Rightarrow> Page \<Rightarrow> nat \<Rightarrow> nat list \<Rightarrow>
   ((error, unit) result \<times> Transaction \<times> BPlusTree) option" where
  "finishMerge bt txn surviving survivingID freedID parent parentFrame parents = do {
     let parentID = framePageID bt parentFrame;
     (lsn, txn, bt) \<leftarrow> withLog bt txn
        (\<lambda>w. LogMergeRecord w (txID txn) survivingID freedID parentID (txLastLSN txn) (Data surviving) (Data parent));
     let surviving = stampLSN surviving lsn;
     let parent = stampLSN parent lsn;
     let bt = writeT (writeT bt survivingID surviving) parentID parent;
     let bt = unpinT (unpinT bt survivingID True) freedID False;
     bt \<leftarrow> freeT bt freedID;
     bt \<leftarrow> rebuildPageBloom (bt\<lparr>bloom := BloomRemove (bloom bt) freedID\<rparr>) survivingID surviving;
     if NumSlots parent = 0 then handleRootShrink bt txn survivingID parentFrame parents
     else Some (Inr (), txn, unpinFrames bt parents True) }"

definition doMergeWithRight ::
  "BPlusTree \<Rightarrow> Transaction \<Rightarrow> Page \<Rightarrow> u32 \<Rightarrow> Page \<Rightarrow> u32 \<Rightarrow> Page \<Rightarrow> nat \<Rightarrow> nat list \<Rightarrow>
   ((error, unit) result \<times> Transaction \<times> BPlusTree) option" where
  "doMergeWithRight bt txn leaf leafPageID right rightSibID parent parentFrame parents = do {
     leaf \<leftarrow> copySlots right leaf [0..<NumSlots right];
     let oldNextSib = NextSib right;
     let leaf = SetNextSib leaf oldNextSib;
     bt \<leftarrow> relinkPrev bt oldNextSib leafPageID;
     parent \<leftarrow> dropChild parent rightSibID;
     finishMerge bt txn leaf leafPageID rightSibID parent parentFrame parents }"

definition doMergeIntoLeft ::
  "BPlusTree \<Rightarrow> Transaction \<Rightarrow> Page \<Rightarrow> u32 \<Rightarrow> Page \<Rightarrow> u32 \<Rightarrow> Page \<Rightarrow> nat \<Rightarrow> nat list \<Rightarrow> nat \<Rightarrow>
   ((error, unit) result \<times> Transaction \<times> BPlusTree) option" where
  "doMergeIntoLeft bt txn left leftSibID leaf leafPageID parent parentFrame parents sepSlotLeaf = do {
     left \<leftarrow> copySlots leaf left [0..<NumSlots leaf];
     let oldNextSib = NextSib leaf;
     let left = SetNextSib left oldNextSib;
     bt \<leftarrow> relinkPrev bt oldNextSib leftSibID;
     parent \<leftarrow> DeleteRecord parent sepSlotLeaf;
     parent \<leftarrow> Compact parent;
     finishMerge bt txn left leftSibID leafPageID parent parentFrame parents }"

definition tryBorrowRight :: "BPlusTree \<Rightarrow> Page \<Rightarrow> u32 \<Rightarrow> Page \<Rightarrow> nat list \<Rightarrow> u32 \<Rightarrow> int \<Rightarrow> (bool \<times> BPlusTree) option" where
  "tryBorrowRight bt leaf leafPageID parent parents rightSibID sepSlotRight =
     (if rightSibID \<noteq> 0 then do {
        (r, bt) \<leftarrow> fetchT bt rightSibID;
        (case r of
           Inl e \<Rightarrow> Some (False, bt)
         | Inr rightFrame \<Rightarrow> do {
             let right = readT bt rightFrame;
             ok \<leftarrow> canLend right;
             if ok then do {
               (leaf, right, parent) \<leftarrow> doborrowFromRight leaf right parent (nat sepSlotRight) rightSibID;
               let bt = writeT (writeT bt leafPageID leaf) rightSibID right;
               let bt = writeT bt (framePageID bt (last parents)) parent;
               let bt = unpinT (unpinT bt leafPageID True) rightSibID True;
               Some (True, unpinFrames bt parents True) }
             else Some (False, unpinT bt rightSibID False) }) }
      else Some (False, bt))"

definition tryBorrowLeft :: "BPlusTree \<Rightarrow> Page \<Rightarrow> u32 \<Rightarrow> Page \<Rightarrow> nat list \<Rightarrow> u32 \<Rightarrow> int \<Rightarrow> (bool \<times> BPlusTree) option" where
  "tryBorrowLeft bt leaf leafPageID parent parents leftSibID sepSlotLeaf =
     (if leftSibID \<noteq> 0 then do {
        (r, bt) \<leftarrow> fetchT bt leftSibID;
        (case r of
           Inl e \<Rightarrow> Some (False, bt)
         | Inr leftFrame \<Rightarrow> do {
             let left = readT bt leftFrame;
             ok \<leftarrow> canLend left;
             if ok then do {
               (left, leaf, parent) \<leftarrow> doborrowFromLeft left leaf parent (nat sepSlotLeaf) leafPageID;
               let bt = writeT (writeT bt leftSibID left) leafPageID leaf;
               let bt = writeT bt (framePageID bt (last parents)) parent;
               let bt = unpinT (unpinT bt leftSibID True) leafPageID True;
               Some (True, unpinFrames bt parents True) }
             else Some (False, unpinT bt leftSibID False) }) }
      else Some (False, bt))"

text \<open>
  The last two steps: merge with the right sibling, else into the left one, else give up. A sibling that
  is missing is treated as one that cannot be fetched.
\<close>

definition tryMergeLeft ::
  "BPlusTree \<Rightarrow> Transaction \<Rightarrow> Page \<Rightarrow> u32 \<Rightarrow> Page \<Rightarrow> nat list \<Rightarrow> u32 \<Rightarrow> int \<Rightarrow>
   ((error, unit) result \<times> Transaction \<times> BPlusTree) option" where
  "tryMergeLeft bt txn leaf leafPageID parent parents leftSibID sepSlotLeaf = do {
     (r, bt) \<leftarrow> (if leftSibID \<noteq> 0 \<and> sepSlotLeaf \<ge> 0 then fetchT bt leftSibID else Some (Inl ErrKeyNotFound, bt));
     (case r of
        Inr leftFrame \<Rightarrow>
          doMergeIntoLeft bt txn (readT bt leftFrame) leftSibID leaf leafPageID parent (last parents) parents (nat sepSlotLeaf)
      | Inl _ \<Rightarrow> Some (Inr (), txn, unpinFrames (unpinT bt leafPageID False) parents False)) }"

definition tryMerge ::
  "BPlusTree \<Rightarrow> Transaction \<Rightarrow> Page \<Rightarrow> u32 \<Rightarrow> Page \<Rightarrow> nat list \<Rightarrow> u32 \<Rightarrow> u32 \<Rightarrow> int \<Rightarrow> int \<Rightarrow>
   ((error, unit) result \<times> Transaction \<times> BPlusTree) option" where
  "tryMerge bt txn leaf leafPageID parent parents rightSibID leftSibID sepSlotRight sepSlotLeaf = do {
     (r, bt) \<leftarrow> (if rightSibID \<noteq> 0 \<and> sepSlotRight \<ge> 0 then fetchT bt rightSibID else Some (Inl ErrKeyNotFound, bt));
     (case r of
        Inr rightFrame \<Rightarrow>
          doMergeWithRight bt txn leaf leafPageID (readT bt rightFrame) rightSibID parent (last parents) parents
      | Inl _ \<Rightarrow> tryMergeLeft bt txn leaf leafPageID parent parents leftSibID sepSlotLeaf) }"

definition handleUnderflow ::
  "BPlusTree \<Rightarrow> Transaction \<Rightarrow> u32 \<Rightarrow> nat list \<Rightarrow> ((error, unit) result \<times> Transaction \<times> BPlusTree) option" where
  "handleUnderflow bt txn leafPageID parents =
     (if parents = [] then Some (Inr (), txn, bt)
      else do {
        (r, bt) \<leftarrow> fetchT bt leafPageID;
        (case r of
           Inl e \<Rightarrow> Some (Inr (), txn, unpinFrames bt parents False)
         | Inr leafFrame \<Rightarrow> do {
             let leaf = readT bt leafFrame;
             liveSlots \<leftarrow> countLiveSlots leaf;
             if liveSlots \<ge> minLeafFill
             then Some (Inr (), txn, unpinFrames (unpinT bt leafPageID False) parents False)
             else do {
               let parent = readT bt (last parents);
               (rightSibID, leftSibID, sepSlotRight, sepSlotLeaf) \<leftarrow> findSiblingInfo parent leafPageID;
               (made, bt) \<leftarrow> tryBorrowRight bt leaf leafPageID parent parents rightSibID sepSlotRight;
               if made then Some (Inr (), txn, bt)
               else do {
                 (made, bt) \<leftarrow> tryBorrowLeft bt leaf leafPageID parent parents leftSibID sepSlotLeaf;
                 if made then Some (Inr (), txn, bt)
                 else tryMerge bt txn leaf leafPageID parent parents rightSibID leftSibID sepSlotRight sepSlotLeaf } } }) })"

subsection \<open>Delete, undo and rebalancing\<close>

definition Delete ::
  "BPlusTree \<Rightarrow> Transaction \<Rightarrow> bytes \<Rightarrow> ((error, unit) result \<times> Transaction \<times> BPlusTree) option" where
  "Delete bt txn key =
     (case checkWrite bt txn key of
        (Some e, bt) \<Rightarrow> Some (Inl e, txn, bt)
      | (None, bt) \<Rightarrow> do {
          (r, bt) \<leftarrow> findLeafWithParents bt key;
          (case r of
             Inl e \<Rightarrow> Some (Inl e, txn, bt)
           | Inr (frame, parents) \<Rightarrow> do {
               let pageID = framePageID bt frame;
               (r, txn, bt) \<leftarrow> markDeleted bt txn key frame parents;
               (case r of
                  Inl e \<Rightarrow> Some (Inl e, txn, bt)
                | Inr (slotIdx, oldXmax, lsn) \<Rightarrow>
                    let (txn, bt) = appendUndo bt txn (undoDelete pageID slotIdx oldXmax lsn);
                        bt = unpinT bt pageID True
                    in handleUnderflow bt txn pageID parents) }) })"

definition ApplyUndoRecord :: "BPlusTree \<Rightarrow> Transaction \<Rightarrow> UndoRecord \<Rightarrow> u64 \<Rightarrow> ((error, unit) result \<times> BPlusTree) option" where
  "ApplyUndoRecord bt txn rec clrLSN = do {
     (r, bt) \<leftarrow> fetchT bt (urPageID rec);
     (case r of
        Inl e \<Rightarrow> Some (Inl e, bt)
      | Inr frame \<Rightarrow> do {
          let p = readT bt frame;
          p \<leftarrow> (case urOp rec of
                 UndoInsert \<Rightarrow> SetXmax p (urSlotIdx rec) (txID txn)
               | UndoDelete \<Rightarrow> SetXmax p (urSlotIdx rec) (urOldXmax rec));
          let p = (if clrLSN \<noteq> 0 then SetPageLSN p clrLSN else p);
          let pageID = framePageID bt frame;
          Some (Inr (), unpinT (writeT bt pageID p) pageID True) }) }"

text \<open>The first key of a leaf that \<open>Rebalance\<close> searches for; \<open>NilSlice\<close> when there is none.\<close>

fun firstLiveKey :: "Page \<Rightarrow> nat list \<Rightarrow> slice option" where
  "firstLiveKey p [] = Some NilSlice"
| "firstLiveKey p (i # is) = do {
     d \<leftarrow> GetRecord p i;
     (case d of NilSlice \<Rightarrow> firstLiveKey p is | Slice bs \<Rightarrow> Some (TupleKeyExtract bs)) }"

definition rebalanceKey :: "BPlusTree \<Rightarrow> u32 \<Rightarrow> nat \<Rightarrow> (slice \<times> BPlusTree) option" where
  "rebalanceKey bt leafID liveSlots =
     (if liveSlots > 0 then do {
        (r, bt) \<leftarrow> fetchT bt leafID;
        (case r of
           Inl e \<Rightarrow> Some (NilSlice, bt)
         | Inr lf2 \<Rightarrow> do {
             let p2 = readT bt lf2;
             k \<leftarrow> firstLiveKey p2 [0..<NumSlots p2];
             Some (k, unpinT bt leafID False) }) }
      else Some (NilSlice, bt))"

definition rebalanceLeaf ::
  "BPlusTree \<Rightarrow> Transaction \<Rightarrow> u32 \<Rightarrow> nat \<Rightarrow> ((error, unit) result \<times> Transaction \<times> BPlusTree) option" where
  "rebalanceLeaf bt txn leafID liveSlots =
     (if liveSlots < minLeafFill then do {
        (searchKey, bt) \<leftarrow> rebalanceKey bt leafID liveSlots;
        (case searchKey of
           NilSlice \<Rightarrow> Some (Inr (), txn, bt)
         | Slice key \<Rightarrow> do {
             (r, bt) \<leftarrow> findLeafWithParents bt key;
             (case r of
                Inl e \<Rightarrow> Some (Inr (), txn, bt)
              | Inr (frame2, parents2) \<Rightarrow>
                  if framePageID bt frame2 \<noteq> leafID then Some (Inr (), txn, releaseLeaf bt frame2 parents2 False)
                  else handleUnderflow (unpinT bt (framePageID bt frame2) False) txn leafID parents2) }) }
      else Some (Inr (), txn, bt))"

partial_function (option) rebalanceLoop ::
  "BPlusTree \<Rightarrow> Transaction \<Rightarrow> u32 \<Rightarrow> ((error, unit) result \<times> Transaction \<times> BPlusTree) option" where
  "rebalanceLoop bt txn leafID =
     (if leafID = 0 then Some (Inr (), txn, bt)
      else do {
        (r, bt) \<leftarrow> fetchT bt leafID;
        (case r of
           Inl e \<Rightarrow> Some (Inr (), txn, bt)
         | Inr leafFrame \<Rightarrow> do {
             let leaf = readT bt leafFrame;
             let nextID = NextSib leaf;
             liveSlots \<leftarrow> countLiveSlots leaf;
             let bt = unpinT bt leafID False;
             (r, txn, bt) \<leftarrow> rebalanceLeaf bt txn leafID liveSlots;
             (case r of Inl e \<Rightarrow> Some (Inl e, txn, bt) | Inr _ \<Rightarrow> rebalanceLoop bt txn nextID) }) })"

text \<open>
  The walk to the leftmost leaf is the one of the leaf scanner; where it gives up, with id 0, the loop
  over the leaves returns at once.
\<close>

definition Rebalance :: "BPlusTree \<Rightarrow> Transaction \<Rightarrow> ((error, unit) result \<times> Transaction \<times> BPlusTree) option" where
  "Rebalance bt txn = do {
     (startLeafID, bt) \<leftarrow> FirstLeafPageID bt;
     rebalanceLoop bt txn startLeafID }"

end
