(* ===== verification/Vacuum.thy ===== *)
theory Vacuum
  imports Tree
begin

text \<open>
  The vacuum worker (\<^verbatim>\<open>internal/mvcc/vacuum.go\<close>) over the leaf scanner of the tree, which is the
  page scanner that the engine and the server give it; its transaction manager is the one of the tree.
  The threshold is a rational number for the float of the code. The counters that are only logged, the
  events and the ticker of \<open>Run\<close> are left out: a run of the worker is a sequence of \<open>RunOnce\<close> steps.
\<close>

section \<open>Definitions\<close>

record VacuumConfig =
  DeadThreshold :: rat

record VacuumWorker =
  vacTree :: BPlusTree
  vacCfg :: VacuumConfig
  bloomRebuildFn :: "(BPlusTree \<Rightarrow> u32 \<Rightarrow> bytes list \<Rightarrow> BPlusTree) option"

definition DefaultVacuumConfig :: VacuumConfig where
  "DefaultVacuumConfig = \<lparr>DeadThreshold = 20 / 100\<rparr>"

definition NewVacuumWorker :: "BPlusTree \<Rightarrow> VacuumConfig \<Rightarrow> VacuumWorker" where
  "NewVacuumWorker bt cfg = \<lparr>vacTree = bt, vacCfg = cfg, bloomRebuildFn = None\<rparr>"

definition SetBloomRebuildHook :: "VacuumWorker \<Rightarrow> (BPlusTree \<Rightarrow> u32 \<Rightarrow> bytes list \<Rightarrow> BPlusTree) \<Rightarrow> VacuumWorker" where
  "SetBloomRebuildHook v fn = v\<lparr>bloomRebuildFn := Some fn\<rparr>"

definition isDead :: "(TxnID \<Rightarrow> TxnStatus) \<Rightarrow> TxnID \<Rightarrow> MVCCTuple \<Rightarrow> bool" where
  "isDead status oldestActive t \<longleftrightarrow>
     status (Xmin t) = TxnAborted \<or>
     Xmax t \<noteq> 0 \<and> status (Xmax t) = TxnCommitted \<and> (oldestActive = 0 \<or> Xmax t < oldestActive)"

fun countDeadLoop :: "Page \<Rightarrow> (TxnID \<Rightarrow> TxnStatus) \<Rightarrow> TxnID \<Rightarrow> nat list \<Rightarrow> nat option" where
  "countDeadLoop p status oldestActive [] = Some 0"
| "countDeadLoop p status oldestActive (i # is) = do {
     data \<leftarrow> GetRecord p i;
     n \<leftarrow> countDeadLoop p status oldestActive is;
     Some (case data of
             NilSlice \<Rightarrow> n
           | Slice bs \<Rightarrow> (case DecodeTuple bs of
               Inl _ \<Rightarrow> n
             | Inr t \<Rightarrow> if isDead status oldestActive t then n + 1 else n)) }"

definition countDead :: "Page \<Rightarrow> (TxnID \<Rightarrow> TxnStatus) \<Rightarrow> TxnID \<Rightarrow> nat option" where
  "countDead p status oldestActive = countDeadLoop p status oldestActive [0..<NumSlots p]"

fun vacuumLoop :: "Page \<Rightarrow> (TxnID \<Rightarrow> TxnStatus) \<Rightarrow> TxnID \<Rightarrow> bool \<Rightarrow> nat list \<Rightarrow> (bool \<times> Page) option" where
  "vacuumLoop p status oldestActive modified [] = Some (modified, p)"
| "vacuumLoop p status oldestActive modified (i # is) = do {
     data \<leftarrow> GetRecord p i;
     (case data of
        NilSlice \<Rightarrow> vacuumLoop p status oldestActive modified is
      | Slice bs \<Rightarrow>
          (case DecodeTuple bs of
             Inl _ \<Rightarrow> vacuumLoop p status oldestActive modified is
           | Inr t \<Rightarrow>
               if \<not> isDead status oldestActive t then vacuumLoop p status oldestActive modified is
               else do { p \<leftarrow> DeleteRecord p i; vacuumLoop p status oldestActive True is })) }"

definition vacuumLeafPage :: "VacuumConfig \<Rightarrow> (TxnID \<Rightarrow> TxnStatus) \<Rightarrow> Page \<Rightarrow> TxnID \<Rightarrow> (bool \<times> Page) option" where
  "vacuumLeafPage cfg status p oldestActive = do {
     (modified, p) \<leftarrow> vacuumLoop p status oldestActive False [0..<NumSlots p];
     if modified then do {
       r \<leftarrow> FragmentationRatio p;
       if r > DeadThreshold cfg then do { p \<leftarrow> Compact p; Some (modified, p) }
       else Some (modified, p) }
     else Some (modified, p) }"

text \<open>The keys of the tuples that are left, for the Bloom filter.\<close>

fun liveKeys :: "Page \<Rightarrow> nat list \<Rightarrow> bytes list option" where
  "liveKeys p [] = Some []"
| "liveKeys p (i # is) = do {
     data \<leftarrow> GetRecord p i;
     ks \<leftarrow> liveKeys p is;
     Some (case data of
             NilSlice \<Rightarrow> ks
           | Slice bs \<Rightarrow> (case DecodeTuple bs of Inl _ \<Rightarrow> ks | Inr t \<Rightarrow> Key t # ks)) }"

partial_function (option) runLoop :: "VacuumWorker \<Rightarrow> TxnID \<Rightarrow> u32 \<Rightarrow> VacuumWorker option" where
  "runLoop v oldestActive pageID =
     (if pageID = 0 then Some v
      else do {
        (page, bt) \<leftarrow> ReadLeafPage (vacTree v) pageID;
        (case page of
           None \<Rightarrow> Some (v\<lparr>vacTree := bt\<rparr>)
         | Some p \<Rightarrow> do {
             let nextID = NextSib p;
             (dirty, p) \<leftarrow> vacuumLeafPage (vacCfg v) (GetStatus (tm bt)) p oldestActive;
             bt \<leftarrow> (if dirty then do {
                      let bt = WriteLeafPage bt p;
                      (case bloomRebuildFn v of
                         None \<Rightarrow> Some bt
                       | Some fn \<Rightarrow> do { ks \<leftarrow> liveKeys p [0..<NumSlots p]; Some (fn bt pageID ks) }) }
                    else Some bt);
             runLoop (v\<lparr>vacTree := UnpinLeaf bt pageID dirty\<rparr>) oldestActive nextID }) })"

definition RunOnce :: "VacuumWorker \<Rightarrow> VacuumWorker option" where
  "RunOnce v = do {
     let oldestActive = OldestActiveTxn (tm (vacTree v));
     (pageID, bt) \<leftarrow> FirstLeafPageID (vacTree v);
     v \<leftarrow> runLoop (v\<lparr>vacTree := bt\<rparr>) oldestActive pageID;
     Some (v\<lparr>vacTree := (vacTree v)\<lparr>tm := PruneStatusesBefore (tm (vacTree v)) oldestActive\<rparr>\<rparr>) }"

end
