(* ===== verification/Recovery.thy ===== *)
theory Recovery
  imports Split
begin

text \<open>
  Checkpoints (\<^verbatim>\<open>internal/wal/checkpoint.go\<close>) and restart recovery (\<^verbatim>\<open>internal/recovery/aries.go\<close>):
  analysis, redo and undo. Redo and undo work on the buffer pool, through which they reach the log
  and the disk; a pool without a log is the nil pointer, and its use the value \<^term>\<open>None\<close>. The maps of
  the code are association lists, whose order is the order of iteration. The JSON text of a checkpoint
  is produced and read by \<open>encoding/json\<close>; the two functions are the argument \<open>jc\<close>. Timing, log lines
  and events are left out.
\<close>

section \<open>Definitions\<close>

subsection \<open>Checkpoints\<close>

record ATTEntry =
  aeStatus :: TxnStatus
  aeLastLSN :: u64

record CheckpointRecord =
  ckDPT :: "(u32 \<times> u64) list"
  ckATT :: "(u64 \<times> ATTEntry) list"
  ckNextTxnID :: u64

record JSONCodec =
  Marshal :: "CheckpointRecord \<Rightarrow> (error, bytes) result"
  Unmarshal :: "bytes \<Rightarrow> (error, CheckpointRecord) result"

definition EncodeCheckpoint :: "JSONCodec \<Rightarrow> CheckpointRecord \<Rightarrow> (error, bytes) result" where
  "EncodeCheckpoint jc cr = Marshal jc cr"

definition DecodeCheckpoint :: "JSONCodec \<Rightarrow> bytes \<Rightarrow> (error, CheckpointRecord) result" where
  "DecodeCheckpoint jc data = Unmarshal jc data"

text \<open>The smallest LSN with 0 as \<open>unset\<close>; the two packages have the same loop.\<close>

definition minDPTRecLSN :: "(u32 \<times> u64) list \<Rightarrow> u64" where
  "minDPTRecLSN dpt = foldl (\<lambda>m lsn. if m = 0 \<or> lsn < m then lsn else m) 0 (map snd dpt)"

definition WriteCheckpoint ::
  "JSONCodec \<Rightarrow> WALManager \<Rightarrow> (u32 \<times> u64) list \<Rightarrow> (u64 \<times> ATTEntry) list \<Rightarrow> u64 \<Rightarrow>
   ((error, u64) result \<times> WALManager) option" where
  "WriteCheckpoint jc w dpt att nextID =
     (case EncodeCheckpoint jc \<lparr>ckDPT = dpt, ckATT = att, ckNextTxnID = nextID\<rparr> of
        Inl e \<Rightarrow> Some (Inl e, w)
      | Inr payload \<Rightarrow> do {
          (lsn, w) \<leftarrow> AppendRecord w (emptyLogRecord\<lparr>rType := LogCheckpoint, rPayload := payload\<rparr>);
          (case FlushUpTo w lsn of
             (Inl e, w) \<Rightarrow> Some (Inl e, w)
           | (Inr _, w) \<Rightarrow>
               let minLSN = minDPTRecLSN dpt;
                   truncateLSN = (if minLSN > 0 \<and> minLSN < lsn then minLSN else lsn)
               in Some (Inr lsn, TruncateUpTo w truncateLSN)) })"

subsection \<open>Analysis\<close>

record analysisState =
  asDPT :: "(u32 \<times> u64) list"
  asATT :: "(u64 \<times> ATTEntry) list"
  asStatuses :: "(u64 \<times> TxnStatus) list"
  asNextTxnID :: u64
  asMaxTxnID :: u64

definition setATT :: "u64 \<Rightarrow> TxnStatus \<Rightarrow> u64 \<Rightarrow> analysisState \<Rightarrow> analysisState" where
  "setATT i status lsn st = st\<lparr>asATT := AList.update i \<lparr>aeStatus = status, aeLastLSN = lsn\<rparr> (asATT st)\<rparr>"

text \<open>
  The entry of a missing key is the zero value, whose status 0 is \<open>TxnActive\<close>; the assignment under
  \<open>if entry.Status == 0\<close> changes nothing.
\<close>

definition touchATT :: "u64 \<Rightarrow> u64 \<Rightarrow> analysisState \<Rightarrow> analysisState" where
  "touchATT i lsn st =
     (let status = (case map_of (asATT st) i of Some e \<Rightarrow> aeStatus e | None \<Rightarrow> TxnActive) in setATT i status lsn st)"

definition addDPT :: "u32 \<Rightarrow> u64 \<Rightarrow> analysisState \<Rightarrow> analysisState" where
  "addDPT pageID lsn st =
     (case map_of (asDPT st) pageID of None \<Rightarrow> st\<lparr>asDPT := AList.update pageID lsn (asDPT st)\<rparr> | Some _ \<Rightarrow> st)"

definition setStatus :: "u64 \<Rightarrow> TxnStatus \<Rightarrow> analysisState \<Rightarrow> analysisState" where
  "setStatus i status st = st\<lparr>asStatuses := AList.update i status (asStatuses st)\<rparr>"

definition addPayloadPage :: "bytes \<Rightarrow> nat \<Rightarrow> u64 \<Rightarrow> analysisState \<Rightarrow> analysisState" where
  "addPayloadPage payload off lsn st =
     (if length payload \<ge> off + 4 then
        let pageID = Uint32 payload off in if pageID \<noteq> 0 then addDPT pageID lsn st else st
      else st)"

definition analyzeRecord :: "u64 \<Rightarrow> analysisState \<Rightarrow> LogRecord \<Rightarrow> analysisState" where
  "analyzeRecord checkpointLSN st r =
     (if rLSN r = checkpointLSN \<and> rType r = LogCheckpoint then st
      else
        let st = (if rTxnID r > asMaxTxnID st then st\<lparr>asMaxTxnID := rTxnID r\<rparr> else st);
            t = rType r; i = rTxnID r; lsn = rLSN r
        in if t = LogBegin then setATT i TxnActive lsn st
           else if t = LogCommit then setStatus i TxnCommitted (setATT i TxnCommitted lsn st)
           else if t = LogAbort then setStatus i TxnAborted (setATT i TxnAborted lsn st)
           else if t = LogInsert \<or> t = LogDelete \<or> t = LogUpdate \<or> t = LogCLR then
             let st = touchATT i lsn st in if rPageID r \<noteq> 0 then addDPT (rPageID r) lsn st else st
           else if t = LogSplit then
             addPayloadPage (rPayload r) 0 lsn (addDPT (rPageID r) lsn (touchATT i lsn st))
           else if t = LogMerge then
             addPayloadPage (rPayload r) 4 lsn (addDPT (rPageID r) lsn (if i \<noteq> 0 then touchATT i lsn st else st))
           else if t = LogRootChange then
             addPayloadPage (rPayload r) 0 lsn (if i \<noteq> 0 then touchATT i lsn st else st)
           else st)"

definition maxID :: "u64 \<Rightarrow> u64 list \<Rightarrow> u64" where
  "maxID m ids = foldl (\<lambda>m i. if i > m then i else m) m ids"

definition startAnalysis :: "CheckpointRecord option \<Rightarrow> analysisState" where
  "startAnalysis ckpt =
     (case ckpt of
        None \<Rightarrow> \<lparr>asDPT = [], asATT = [], asStatuses = [], asNextTxnID = 0, asMaxTxnID = 0\<rparr>
      | Some ck \<Rightarrow>
          let m = maxID 0 (map fst (ckATT ck));
              m = (if ckNextTxnID ck > 0 \<and> ckNextTxnID ck - 1 > m then ckNextTxnID ck - 1 else m)
          in \<lparr>asDPT = ckDPT ck, asATT = ckATT ck, asStatuses = [], asNextTxnID = ckNextTxnID ck, asMaxTxnID = m\<rparr>)"

text \<open>The checkpoint record at an LSN, when there is one that can be read.\<close>

definition fetchCheckpoint :: "JSONCodec \<Rightarrow> WALManager \<Rightarrow> u64 \<Rightarrow> CheckpointRecord option \<times> WALManager" where
  "fetchCheckpoint jc w checkpointLSN =
     (if checkpointLSN \<noteq> 0 then
        (case FetchRecord w checkpointLSN of
           (Inl _, w) \<Rightarrow> (None, w)
         | (Inr rec, w) \<Rightarrow>
             (if rType rec = LogCheckpoint
              then (case DecodeCheckpoint jc (rPayload rec) of Inl _ \<Rightarrow> None | Inr ck \<Rightarrow> Some ck) else None, w))
      else (None, w))"

definition Analyze :: "JSONCodec \<Rightarrow> WALManager \<Rightarrow> u64 \<Rightarrow> analysisState \<times> WALManager" where
  "Analyze jc w checkpointLSN =
     (let (ckpt, w) = fetchCheckpoint jc w checkpointLSN;
          (_, rs, w) = ScanFrom w checkpointLSN
      in (foldl (analyzeRecord checkpointLSN) (startAnalysis ckpt) rs, w))"

subsection \<open>Redo\<close>

definition recoveryInternalKeyExtract :: "bytes \<Rightarrow> slice" where
  "recoveryInternalKeyExtract d =
     (if length d < 2 then NilSlice
      else let keyLen = unat (d ! 0) OR push_bit 8 (unat (d ! 1))
           in if length d < 2 + keyLen then NilSlice else Slice (get_at d 2 keyLen))"

definition recoveryTupleKeyExtract :: "bytes \<Rightarrow> slice" where
  "recoveryTupleKeyExtract d =
     (if length d < 21 then NilSlice
      else let keyLen = unat (d ! 16) OR push_bit 8 (unat (d ! 17))
           in if length d < 21 + keyLen then NilSlice else Slice (get_at d 21 keyLen))"

definition recoveryEncodeInternalRecord :: "bytes \<Rightarrow> u32 \<Rightarrow> bytes" where
  "recoveryEncodeInternalRecord key childID =
     (let rec = replicate (2 + length key + 4) 0;
          rec = rec[0 := word_of_nat (length key)];
          rec = rec[1 := word_of_nat (drop_bit 8 (length key))];
          rec = put_at rec 2 key
      in PutUint32 rec (2 + length key) childID)"

definition minRecLSN :: "(u32 \<times> u64) list \<Rightarrow> u64" where
  "minRecLSN dpt = foldl (\<lambda>m lsn. if m = 0 \<or> lsn < m then lsn else m) 0 (map snd dpt)"

text \<open>\<open>PutUint64(data[8:], xmax)\<close> on the record of a slot that is long enough.\<close>

definition pokeXmax :: "Page \<Rightarrow> nat \<Rightarrow> u64 \<Rightarrow> Page option" where
  "pokeXmax p slotIdx xmax = do {
     data \<leftarrow> GetRecord p slotIdx;
     if slice_len data \<ge> 16 then do {
       s \<leftarrow> GetSlot p slotIdx;
       Some (p\<lparr>Data := PutUint64 (Data p) (unat (Offset s) + 8) xmax\<rparr>) }
     else Some p }"

text \<open>Delete the first record of the transaction with the key, and compact.\<close>

fun removeLoop :: "Page \<Rightarrow> u64 \<Rightarrow> slice \<Rightarrow> nat list \<Rightarrow> Page option" where
  "removeLoop p txnID targetKey [] = Some p"
| "removeLoop p txnID targetKey (i # is) = do {
     data \<leftarrow> GetRecord p i;
     let d = bytes_of data;
     if length d < 8 then removeLoop p txnID targetKey is
     else if Uint64 d 0 \<noteq> txnID then removeLoop p txnID targetKey is
     else if targetKey \<noteq> NilSlice \<and> bytes_of (recoveryTupleKeyExtract d) \<noteq> bytes_of targetKey
     then removeLoop p txnID targetKey is
     else do { p \<leftarrow> DeleteRecord p i; Compact p } }"

definition removeTuple :: "Page \<Rightarrow> u64 \<Rightarrow> bytes \<Rightarrow> Page option" where
  "removeTuple p txnID payload =
     removeLoop p txnID (recoveryTupleKeyExtract payload) [0..<NumSlots p]"

definition applyRedo :: "BufferPool \<Rightarrow> nat \<Rightarrow> LogRecord \<Rightarrow> BufferPool option" where
  "applyRedo bp frame r =
     (let p = ReadPageData bp frame
      in if rType r = LogInsert then do {
           let keyExtract = (if Type p = PageTypeInternal then recoveryInternalKeyExtract else recoveryTupleKeyExtract);
           (_, p) \<leftarrow> InsertRecord p (rPayload r) keyExtract;
           Some (WritePageData bp (rPageID r) (SetPageLSN p (rLSN r))) }
         else if rType r = LogDelete then
           (if length (rPayload r) \<ge> 4 then do {
              p \<leftarrow> pokeXmax p (unat (Uint32 (rPayload r) 0)) (rTxnID r);
              Some (WritePageData bp (rPageID r) (SetPageLSN p (rLSN r))) }
            else Some bp)
         else Some bp)"

definition applyCLRRedo :: "BufferPool \<Rightarrow> nat \<Rightarrow> LogRecord \<Rightarrow> BufferPool option" where
  "applyCLRRedo bp frame r =
     (let p = ReadPageData bp frame;
          (_, originalType, originalPayload) = DecodeCLRPayload (rPayload r);
          d = bytes_of originalPayload
      in do {
        p \<leftarrow> (if originalType = LogInsert then removeTuple p (rTxnID r) d
               else if originalType = LogDelete \<and> length d \<ge> 12
               then pokeXmax p (unat (Uint32 d 0)) (Uint64 d 4)
               else Some p);
        Some (WritePageData bp (rPageID r) (SetPageLSN p (rLSN r))) })"

text \<open>\<open>recLSN, inDPT := dpt[pageID]; inDPT && record.LSN >= recLSN\<close>\<close>

definition needsRedo :: "(u32 \<times> u64) list \<Rightarrow> u32 \<Rightarrow> u64 \<Rightarrow> bool" where
  "needsRedo dpt pageID lsn = (case map_of dpt pageID of None \<Rightarrow> False | Some recLSN \<Rightarrow> lsn \<ge> recLSN)"

text \<open>The common frame of a redo step: fetch the page, compare its LSN, apply, unpin.\<close>

definition redoPage ::
  "BufferPool \<Rightarrow> (u32 \<times> u64) list \<Rightarrow> u32 \<Rightarrow> u64 \<Rightarrow> (BufferPool \<Rightarrow> nat \<Rightarrow> BufferPool option) \<Rightarrow> BufferPool option" where
  "redoPage bp dpt pageID lsn apply' =
     (if \<not> needsRedo dpt pageID lsn then Some bp
      else do {
        (res, bp) \<leftarrow> FetchPage bp pageID;
        (case res of
           Inl e \<Rightarrow> Some bp
         | Inr frame \<Rightarrow>
             if hPageLSN (DecodeHeader (ReadPageData bp frame)) \<ge> lsn then Some (UnpinPage bp pageID False)
             else do { bp \<leftarrow> apply' bp frame; Some (UnpinPage bp pageID True) }) })"

definition placeRedo :: "Page \<Rightarrow> Page \<Rightarrow> bytes \<Rightarrow> (Page \<times> Page) option" where
  "placeRedo leftPage rightPage tuple =
     (if tuple = [] then Some (leftPage, rightPage)
      else do {
        let newKey = bytes_of (recoveryTupleKeyExtract tuple);
        rightMinKey \<leftarrow> (if NumSlots rightPage > 0
                        then do { d \<leftarrow> GetRecord rightPage 0; Some (recoveryTupleKeyExtract (bytes_of d)) }
                        else Some NilSlice);
        if rightMinKey \<noteq> NilSlice \<and> bytes_Compare newKey (bytes_of rightMinKey) \<ge> 0
        then do { (_, rightPage) \<leftarrow> InsertRecord rightPage tuple recoveryTupleKeyExtract; Some (leftPage, rightPage) }
        else do { (_, leftPage) \<leftarrow> InsertRecord leftPage tuple recoveryTupleKeyExtract; Some (leftPage, rightPage) } })"

definition redoSplitPages :: "Page \<Rightarrow> Page \<Rightarrow> u32 \<Rightarrow> u32 \<Rightarrow> bytes \<Rightarrow> u64 \<Rightarrow> (Page \<times> Page) option" where
  "redoSplitPages leftPage rightPage leftID rightPageID tuple lsn = do {
     let oldNextSib = NextSib leftPage;
     let rightPage = EncodeHeader (rightPage\<lparr>ID := rightPageID\<rparr>)
           (emptyHeader\<lparr>hType := PageTypeLeaf, hFreeStart := word_of_nat HeaderSize, hFreeEnd := word_of_nat PageSize,
              hPrevSib := leftID, hNextSib := oldNextSib\<rparr>);
     let numSlots = NumSlots leftPage;
     (leftPage, rightPage) \<leftarrow> moveSlots recoveryTupleKeyExtract leftPage rightPage [numSlots div 2..<numSlots];
     leftPage \<leftarrow> Compact leftPage;
     let leftPage = SetNextSib leftPage rightPageID;
     let rightPage = SetNextSib (SetPrevSib rightPage leftID) oldNextSib;
     (leftPage, rightPage) \<leftarrow> placeRedo leftPage rightPage tuple;
     Some (SetPageLSN leftPage lsn, SetPageLSN rightPage lsn) }"

definition fixPrevSib :: "BufferPool \<Rightarrow> u32 \<Rightarrow> u32 \<Rightarrow> BufferPool option" where
  "fixPrevSib bp nextID prevID =
     (if nextID = 0 then Some bp
      else do {
        (res, bp) \<leftarrow> FetchPage bp nextID;
        Some (case res of
                Inl e \<Rightarrow> bp
              | Inr f \<Rightarrow> UnpinPage (WritePageData bp nextID (SetPrevSib (ReadPageData bp f) prevID)) nextID True) })"

definition applyRedoSplit :: "BufferPool \<Rightarrow> (u32 \<times> u64) list \<Rightarrow> LogRecord \<Rightarrow> BufferPool option" where
  "applyRedoSplit bp dpt r =
     (if length (rPayload r) < 8 then Some bp
      else
        let rightPageID = Uint32 (rPayload r) 0;
            newTupleLen = unat (Uint32 (rPayload r) 4)
        in if length (rPayload r) < 8 + newTupleLen then Some bp
           else if \<not> needsRedo dpt (rPageID r) (rLSN r) then Some bp
           else do {
             let tuple = get_at (rPayload r) 8 newTupleLen;
             (res, bp) \<leftarrow> FetchPage bp (rPageID r);
             (case res of
                Inl e \<Rightarrow> Some bp
              | Inr leftFrame \<Rightarrow>
                  let leftPage = ReadPageData bp leftFrame
                  in if hPageLSN (DecodeHeader leftPage) \<ge> rLSN r then Some (UnpinPage bp (rPageID r) False)
                     else do {
                       (res, bp) \<leftarrow> FetchPage bp rightPageID;
                       (case res of
                          Inl e \<Rightarrow> Some (UnpinPage bp (rPageID r) False)
                        | Inr rightFrame \<Rightarrow> do {
                            let oldNextSib = NextSib leftPage;
                            (leftPage, rightPage) \<leftarrow>
                               redoSplitPages leftPage (ReadPageData bp rightFrame) (rPageID r) rightPageID tuple (rLSN r);
                            let bp = WritePageData (WritePageData bp (rPageID r) leftPage) rightPageID rightPage;
                            let bp = UnpinPage (UnpinPage bp (rPageID r) True) rightPageID True;
                            fixPrevSib bp oldNextSib rightPageID }) }) })"

definition redoImage :: "u32 \<Rightarrow> bytes \<Rightarrow> BufferPool \<Rightarrow> nat \<Rightarrow> BufferPool option" where
  "redoImage pageID img bp frame = Some (WritePageData bp pageID \<lparr>ID = pageID, Data = img\<rparr>)"

definition applyRedoMerge :: "BufferPool \<Rightarrow> (u32 \<times> u64) list \<Rightarrow> LogRecord \<Rightarrow> BufferPool option" where
  "applyRedoMerge bp dpt r =
     (if length (rPayload r) < 8 + PageSize + PageSize then Some bp
      else do {
        let parentPageID = Uint32 (rPayload r) 4;
        bp \<leftarrow> redoPage bp dpt (rPageID r) (rLSN r) (redoImage (rPageID r) (get_at (rPayload r) 8 PageSize));
        if parentPageID \<noteq> 0
        then redoPage bp dpt parentPageID (rLSN r) (redoImage parentPageID (get_at (rPayload r) (8 + PageSize) PageSize))
        else Some bp })"

text \<open>\<open>meta.RootPageID = id\<close> in the meta page, if it can be read.\<close>

definition saveRoot :: "u32 \<Rightarrow> DiskManager \<Rightarrow> DiskManager option" where
  "saveRoot newRootID dm =
     (case ReadMeta dm of
        Inl e \<Rightarrow> Some dm
      | Inr meta \<Rightarrow> do { (_, dm) \<leftarrow> WriteMeta dm (meta\<lparr>mRootPageID := newRootID\<rparr>); Some dm })"

definition rebuildRoot :: "Page \<Rightarrow> u32 \<Rightarrow> u32 \<Rightarrow> u32 \<Rightarrow> bytes \<Rightarrow> Page option" where
  "rebuildRoot p newRootID leftChildID rightChildID sepKey = do {
     let p = SetFlag (Init (p\<lparr>ID := newRootID\<rparr>) PageTypeInternal) FlagIsRoot;
     let p = SetNextSib (SetPrevSib p leftChildID) rightChildID;
     (_, p) \<leftarrow> InsertRecord p (recoveryEncodeInternalRecord sepKey rightChildID) recoveryInternalKeyExtract;
     Some p }"

definition applyRedoRootChange :: "BufferPool \<Rightarrow> (u32 \<times> u64) list \<Rightarrow> LogRecord \<Rightarrow> BufferPool option" where
  "applyRedoRootChange bp dpt r =
     (if length (rPayload r) < 4 then Some bp
      else do {
        let newRootID = Uint32 (rPayload r) 0;
        dm \<leftarrow> saveRoot newRootID (disk bp);
        let bp = bp\<lparr>disk := dm\<rparr>;
        if \<not> needsRedo dpt newRootID (rLSN r) then Some bp
        else do {
          (res, bp) \<leftarrow> FetchPage bp newRootID;
          (case res of
             Inl e \<Rightarrow> Some bp
           | Inr frame \<Rightarrow>
               let p = ReadPageData bp frame
               in if hPageLSN (DecodeHeader p) \<ge> rLSN r then Some (UnpinPage bp newRootID False)
                  else if length (rPayload r) < 14 then
                    Some (UnpinPage (WritePageData bp newRootID (SetPageLSN (SetFlag p FlagIsRoot) (rLSN r))) newRootID True)
                  else
                    let sepKeyLen = unat (Uint16 (rPayload r) 12)
                    in if length (rPayload r) < 14 + sepKeyLen then Some (UnpinPage bp newRootID False)
                       else do {
                         p \<leftarrow> rebuildRoot p newRootID (Uint32 (rPayload r) 4) (Uint32 (rPayload r) 8)
                                (get_at (rPayload r) 14 sepKeyLen);
                         Some (UnpinPage (WritePageData bp newRootID (SetPageLSN p (rLSN r))) newRootID True) }) } })"

definition redoRecord :: "(u32 \<times> u64) list \<Rightarrow> BufferPool \<Rightarrow> LogRecord \<Rightarrow> BufferPool option" where
  "redoRecord dpt bp r =
     (if rType r = LogRootChange then applyRedoRootChange bp dpt r
      else if rType r = LogSplit then applyRedoSplit bp dpt r
      else if rType r = LogMerge then applyRedoMerge bp dpt r
      else if rType r = LogInsert \<or> rType r = LogDelete \<or> rType r = LogUpdate
      then redoPage bp dpt (rPageID r) (rLSN r) (\<lambda>bp frame. applyRedo bp frame r)
      else if rType r = LogCLR
      then redoPage bp dpt (rPageID r) (rLSN r) (\<lambda>bp frame. applyCLRRedo bp frame r)
      else Some bp)"

fun redoAll :: "(u32 \<times> u64) list \<Rightarrow> BufferPool \<Rightarrow> LogRecord list \<Rightarrow> BufferPool option" where
  "redoAll dpt bp [] = Some bp"
| "redoAll dpt bp (r # rs) = do { bp \<leftarrow> redoRecord dpt bp r; redoAll dpt bp rs }"

definition Redo :: "BufferPool \<Rightarrow> (u32 \<times> u64) list \<Rightarrow> ((error, unit) result \<times> BufferPool) option" where
  "Redo bp dpt =
     (if dpt = [] then Some (Inr (), bp)
      else do {
        w \<leftarrow> wal bp;
        let (err, rs, w) = ScanFrom w (minRecLSN dpt);
        bp \<leftarrow> redoAll dpt (bp\<lparr>wal := Some w\<rparr>) rs;
        Some (err, bp) })"

subsection \<open>Undo\<close>

definition appendCLR :: "BufferPool \<Rightarrow> LogRecord \<Rightarrow> (u64 \<times> BufferPool) option" where
  "appendCLR bp r = do {
     w \<leftarrow> wal bp;
     (clrLSN, w) \<leftarrow> AppendRecord w (emptyLogRecord\<lparr>rType := LogCLR, rTxnID := rTxnID r, rPageID := rPageID r,
        rPrevLSN := rLSN r, rPayload := EncodeCLRPayload (rPrevLSN r) (rType r) (rPayload r)\<rparr>);
     Some (clrLSN, bp\<lparr>wal := Some w\<rparr>) }"

text \<open>Log the compensation record, then change the page.\<close>

definition undoOnPage :: "BufferPool \<Rightarrow> LogRecord \<Rightarrow> (Page \<Rightarrow> Page option) \<Rightarrow> (u64 \<times> BufferPool) option" where
  "undoOnPage bp r change = do {
     (clrLSN, bp) \<leftarrow> appendCLR bp r;
     (res, bp) \<leftarrow> FetchPage bp (rPageID r);
     (case res of
        Inl e \<Rightarrow> Some (0, bp)
      | Inr frame \<Rightarrow> do {
          p \<leftarrow> change (ReadPageData bp frame);
          let bp = WritePageData bp (rPageID r) (SetPageLSN p clrLSN);
          Some (clrLSN, UnpinPage bp (rPageID r) True) }) }"

definition applyUndo :: "BufferPool \<Rightarrow> LogRecord \<Rightarrow> (u64 \<times> BufferPool) option" where
  "applyUndo bp r =
     (if rType r = LogInsert then undoOnPage bp r (\<lambda>p. removeTuple p (rTxnID r) (rPayload r))
      else if rType r = LogDelete then
        (if length (rPayload r) < 12 then Some (0, bp)
         else undoOnPage bp r (\<lambda>p. pokeXmax p (unat (Uint32 (rPayload r) 0)) (Uint64 (rPayload r) 4)))
      else Some (0, bp))"

text \<open>
  The heap of pending undo positions: \<open>heap.Pop\<close> takes an entry with the greatest LSN. Two entries with
  one LSN do not occur, because a record belongs to one transaction.
\<close>

type_synonym lsnEntry = "u64 \<times> u64"

fun heapPop :: "lsnEntry list \<Rightarrow> (lsnEntry \<times> lsnEntry list) option" where
  "heapPop [] = None"
| "heapPop (x # xs) =
     (case heapPop xs of
        None \<Rightarrow> Some (x, xs)
      | Some (y, ys) \<Rightarrow> if fst y > fst x then Some (y, x # ys) else Some (x, xs))"

partial_function (option) undoLoop :: "BufferPool \<Rightarrow> lsnEntry list \<Rightarrow> ((error, unit) result \<times> BufferPool) option" where
  "undoLoop bp h =
     (case heapPop h of
        None \<Rightarrow> Some (Inr (), bp)
      | Some ((lsn, txnID), h) \<Rightarrow> do {
          w \<leftarrow> wal bp;
          let (res, w) = FetchRecord w lsn;
          let bp = bp\<lparr>wal := Some w\<rparr>;
          (case res of
             Inl e \<Rightarrow> Some (Inl e, bp)
           | Inr r \<Rightarrow>
               if rType r = LogCLR then
                 let undoNext = DecodeCLRUndoNext (rPayload r)
                 in undoLoop bp (if undoNext \<noteq> 0 then h @ [(undoNext, txnID)] else h)
               else do {
                 (clrLSN, bp) \<leftarrow> applyUndo bp r;
                 undoLoop bp (if rPrevLSN r \<noteq> 0 then h @ [(rPrevLSN r, txnID)] else h) }) })"

definition losers :: "(u64 \<times> ATTEntry) list \<Rightarrow> lsnEntry list" where
  "losers att = map (\<lambda>(i, e). (aeLastLSN e, i)) (filter (\<lambda>(i, e). aeStatus e = TxnActive \<and> aeLastLSN e \<noteq> 0) att)"

definition Undo :: "BufferPool \<Rightarrow> (u64 \<times> ATTEntry) list \<Rightarrow> ((error, unit) result \<times> BufferPool) option" where
  "Undo bp att = undoLoop bp (losers att)"

subsection \<open>Recovery\<close>

definition recoverIDs :: "TransactionManager \<Rightarrow> analysisState \<Rightarrow> TransactionManager" where
  "recoverIDs txm st =
     (let nextID = asNextTxnID st;
          minNext = asMaxTxnID st + 1;
          nextID = (if minNext > nextID then minNext else nextID)
      in if nextID > 0 then SetRecoveredCommittedFloor (AdvanceNextTxnID txm nextID) nextID else txm)"

definition restoreStatuses :: "TransactionManager \<Rightarrow> analysisState \<Rightarrow> TransactionManager" where
  "restoreStatuses txm st =
     (let txm = foldl (\<lambda>m (i, s). RestoreStatus m i s) txm (asStatuses st)
      in foldl (\<lambda>m (i, e). if aeStatus e = TxnActive then RestoreStatus m i TxnAborted else m) txm (asATT st))"

definition Recover ::
  "JSONCodec \<Rightarrow> BufferPool \<Rightarrow> TransactionManager \<Rightarrow> ((error, unit) result \<times> BufferPool \<times> TransactionManager) option" where
  "Recover jc bp txm = do {
     w \<leftarrow> wal bp;
     let (checkpointLSN, w) = FindLastCheckpoint w;
     let (st, w) = Analyze jc w checkpointLSN;
     let bp = bp\<lparr>wal := Some w\<rparr>;
     let txm = recoverIDs txm st;
     (err, bp) \<leftarrow> Redo bp (asDPT st);
     (case err of
        Inl e \<Rightarrow> Some (Inl e, bp, txm)
      | Inr _ \<Rightarrow> do {
          (err, bp) \<leftarrow> Undo bp (asATT st);
          (case err of
             Inl e \<Rightarrow> Some (Inl e, bp, txm)
           | Inr _ \<Rightarrow> Some (Inr (), bp, restoreStatuses txm st)) }) }"

end
