(* ===== verification/Engine.thy ===== *)
theory Engine
  imports Merge Vacuum Recovery
begin

text \<open>
  The storage engine (\<^verbatim>\<open>internal/engine/engine.go\<close> and \<^verbatim>\<open>internal/engine/config.go\<close>): the composition of
  tree, pool, log, disk and transaction manager. The engine holds the tree, through which it reaches
  the other objects, since they are the same ones. Its read-write lock makes each method one step. The
  background checkpoint is a pair of flags, for its ticker and for its closed \<open>done\<close> channel; a tick of it is the step
  \<open>maybeCheckpoint\<close>. Durations are integers,
  floats are rational numbers. A clock reading is an argument. Log lines and events are left out.
\<close>

section \<open>Definitions\<close>

subsection \<open>Configuration\<close>

record Config =
  DataDir :: string
  DataFile :: string
  WALFile :: string
  BufferPoolSize :: int
  WALBufferSize :: int
  SyncWAL :: bool
  WALMaxSegmentSize :: int
  WALArchiveCommand :: string
  CheckpointInterval :: int
  VacuumInterval :: int
  VacuumThreshold :: rat
  DefaultIsolation :: string
  APIKeys :: "string list"
  WSBuffer :: int
  LogLevel :: string
  LogFormat :: string
  IdleTxnTimeout :: int
  RequestDrainTimeout :: int
  RateLimitPerSec :: rat
  RateLimitBurst :: rat
  GroupCommitDelay :: int

definition Second :: int where "Second = 1000000000"

definition DefaultConfig :: "string \<Rightarrow> Config" where
  "DefaultConfig dataDir = \<lparr>DataDir = dataDir, DataFile = dataDir @ ''/btree.db'', WALFile = dataDir @ ''/wal'',
     BufferPoolSize = 256, WALBufferSize = 65536, SyncWAL = True, WALMaxSegmentSize = 256 * 1024 * 1024,
     WALArchiveCommand = '''', CheckpointInterval = 30 * Second, VacuumInterval = 60 * Second,
     VacuumThreshold = 20 / 100, DefaultIsolation = ''snapshot'', APIKeys = [], WSBuffer = 512, LogLevel = ''info'',
     LogFormat = ''text'', IdleTxnTimeout = 5 * 60 * Second, RequestDrainTimeout = 30 * Second,
     RateLimitPerSec = 100, RateLimitBurst = 200, GroupCommitDelay = 0\<rparr>"

record StorageEngine =
  cfg :: Config
  tree :: BPlusTree
  crashed :: bool
  checkpointTicker :: bool
  checkpointDone :: bool
  lastCheckpointLSN :: u64
  lastCheckpointAt :: int

subsection \<open>Opening and closing\<close>

definition cleanup :: "DiskManager \<Rightarrow> WALManager option \<Rightarrow> DiskManager \<times> WALManager option" where
  "cleanup dm w = (snd (CloseDisk dm), map_option (\<lambda>w. snd (WALClose w)) w)"

definition openTree :: "u32 \<Rightarrow> BufferPool \<Rightarrow> TransactionManager \<Rightarrow> BPlusTree" where
  "openTree rootID bp txm = SetRootChangeCallback (NewTree rootID bp txm) saveRoot"

text \<open>
  The result has the disk and the log as the call leaves them; on success they are those of the engine.
  \<open>dataFile\<close> are the bytes of the data file and \<open>fs\<close> the files of the log.
\<close>

definition OpenEngine ::
  "JSONCodec \<Rightarrow> bytes \<Rightarrow> FS \<Rightarrow> Config \<Rightarrow> ((error, StorageEngine) result \<times> DiskManager \<times> WALManager option) option" where
  "OpenEngine jc dataFile fs c = do {
     (err, dm) \<leftarrow> Open dataFile;
     (case err of
        Inl e \<Rightarrow> Some (Inl e, dm, None)
      | Inr _ \<Rightarrow> do {
          res \<leftarrow> WALOpen fs (WALFile c) (WALBufferSize c) (SyncWAL c) (WALMaxSegmentSize c) (WALArchiveCommand c);
          (case res of
             Inl e \<Rightarrow> Some (Inl e, snd (CloseDisk dm), None)
           | Inr w \<Rightarrow>
               let bp = NewPool (nat (BufferPoolSize c)) dm (Some w)
               in (case ReadMeta dm of
                     Inl e \<Rightarrow> Some (Inl e, cleanup dm (Some w))
                   | Inr meta \<Rightarrow> do {
                       let t = openTree (mRootPageID meta) bp NewTransactionManager;
                       (err, bp, txm) \<leftarrow> Recover jc bp NewTransactionManager;
                       (case err of
                          Inl e \<Rightarrow> Some (Inl e, cleanup (disk bp) (wal bp))
                        | Inr _ \<Rightarrow>
                            (case ReadMeta (disk bp) of
                               Inl e \<Rightarrow> Some (Inl e, cleanup (disk bp) (wal bp))
                             | Inr metaAfter \<Rightarrow>
                                 let t = (if mRootPageID metaAfter \<noteq> mRootPageID meta
                                          then openTree (mRootPageID metaAfter) bp txm
                                          else t\<lparr>bufPool := bp, tm := txm\<rparr>)
                                 in Some (Inr \<lparr>cfg = c, tree = t, crashed = False,
                                            checkpointTicker = (CheckpointInterval c > 0), checkpointDone = False,
                                            lastCheckpointLSN = 0,
                                            lastCheckpointAt = 0\<rparr>,
                                          disk bp, wal bp))) })) }) }"

definition Checkpoint :: "JSONCodec \<Rightarrow> StorageEngine \<Rightarrow> ((error, u64) result \<times> StorageEngine) option" where
  "Checkpoint jc e = do {
     let bp = bufPool (tree e);
     w \<leftarrow> wal bp;
     let att = map (\<lambda>(i, info). (i, \<lparr>aeStatus = atStatus info, aeLastLSN = atLastLSN info\<rparr>)) (ActiveTxnSnapshot (tm (tree e)));
     (res, w) \<leftarrow> WriteCheckpoint jc w (DirtyPageTable bp) att (NextTxnID (tm (tree e)));
     Some (res, e\<lparr>tree := (tree e)\<lparr>bufPool := bp\<lparr>wal := Some w\<rparr>\<rparr>\<rparr>) }"

text \<open>\<open>now\<close> is the clock when the checkpoint is done, in Unix nanoseconds.\<close>

definition maybeCheckpoint :: "JSONCodec \<Rightarrow> int \<Rightarrow> StorageEngine \<Rightarrow> StorageEngine option" where
  "maybeCheckpoint jc now e =
     (if DirtyPageTable (bufPool (tree e)) = [] then Some e
      else do {
        (res, e) \<leftarrow> Checkpoint jc e;
        Some (case res of Inl _ \<Rightarrow> e | Inr lsn \<Rightarrow> e\<lparr>lastCheckpointLSN := lsn, lastCheckpointAt := now\<rparr>) })"

definition LastCheckpointLSN :: "StorageEngine \<Rightarrow> u64" where
  "LastCheckpointLSN e = lastCheckpointLSN e"

definition LastCheckpointAt :: "StorageEngine \<Rightarrow> int" where
  "LastCheckpointAt e = lastCheckpointAt e"

definition setFiles :: "StorageEngine \<Rightarrow> DiskManager \<Rightarrow> WALManager \<Rightarrow> StorageEngine" where
  "setFiles e dm w = e\<lparr>tree := (tree e)\<lparr>bufPool := (bufPool (tree e))\<lparr>disk := dm, wal := Some w\<rparr>\<rparr>\<rparr>"

text \<open>Closing the channel \<open>checkpointDone\<close> a second time panics.\<close>

definition CloseEngine :: "JSONCodec \<Rightarrow> StorageEngine \<Rightarrow> ((error, unit) result \<times> StorageEngine) option" where
  "CloseEngine jc e =
     (if crashed e then Some (Inr (), e)
      else do {
        e \<leftarrow> (if checkpointTicker e then if checkpointDone e then None else Some (e\<lparr>checkpointDone := True\<rparr>) else Some e);
        (_, e) \<leftarrow> Checkpoint jc e;
        (err, bp) \<leftarrow> FlushDirtyPages (bufPool (tree e));
        let e = e\<lparr>tree := (tree e)\<lparr>bufPool := bp\<rparr>\<rparr>;
        w \<leftarrow> wal bp;
        let (walErr, w) = WALClose w;
        let (dmErr, dm) = CloseDisk (disk bp);
        Some (case err of
                Inl x \<Rightarrow> Inl x
              | Inr _ \<Rightarrow> (case walErr of Inl x \<Rightarrow> Inl x | Inr _ \<Rightarrow> dmErr),
              setFiles e dm w) })"

definition CrashCloseEngine :: "StorageEngine \<Rightarrow> StorageEngine option" where
  "CrashCloseEngine e = do {
     w \<leftarrow> wal (bufPool (tree e));
     Some (setFiles (e\<lparr>crashed := True\<rparr>) (snd (CloseDisk (disk (bufPool (tree e))))) (snd (CrashClose w))) }"

subsection \<open>Transactions\<close>

definition withWAL ::
  "StorageEngine \<Rightarrow> (WALManager \<Rightarrow> (u64 \<times> WALManager) option) \<Rightarrow> (u64 \<times> StorageEngine) option" where
  "withWAL e logRec = do {
     w \<leftarrow> wal (bufPool (tree e));
     (lsn, w) \<leftarrow> logRec w;
     Some (lsn, e\<lparr>tree := (tree e)\<lparr>bufPool := (bufPool (tree e))\<lparr>wal := Some w\<rparr>\<rparr>\<rparr>) }"

definition EngBegin :: "StorageEngine \<Rightarrow> IsolationLevel \<Rightarrow> (Transaction \<times> StorageEngine) option" where
  "EngBegin e isoLevel = do {
     let (txn, txm) = Begin (tm (tree e)) isoLevel;
     (_, e) \<leftarrow> withWAL (e\<lparr>tree := (tree e)\<lparr>tm := txm\<rparr>\<rparr>) (\<lambda>w. LogBeginTxn w (txID txn));
     Some (txn, e) }"

definition EngAbort :: "StorageEngine \<Rightarrow> Transaction \<Rightarrow> ((error, unit) result \<times> Transaction \<times> StorageEngine) option" where
  "EngAbort e txn = do {
     (_, e) \<leftarrow> withWAL e (\<lambda>w. WALAbort w (txID txn) (txLastLSN txn));
     let (txn, txm) = Abort (tm (tree e)) txn;
     Some (Inr (), txn, e\<lparr>tree := (tree e)\<lparr>tm := txm\<rparr>\<rparr>) }"

definition EngCommit :: "StorageEngine \<Rightarrow> Transaction \<Rightarrow> ((error, unit) result \<times> Transaction \<times> StorageEngine) option" where
  "EngCommit e txn =
     (case (if txIsoLevel txn = Serializable then CheckCommit (SIREADMgr (tm (tree e))) (txID txn) else None) of
        Some err \<Rightarrow> do {
          (_, txn, e) \<leftarrow> EngAbort e txn;
          Some (Inl err, txn, e) }
      | None \<Rightarrow> do {
          (lsn, e) \<leftarrow> withWAL e (\<lambda>w. CommitGrouped w (txID txn) (txLastLSN txn) (GroupCommitDelay (cfg e)));
          let (txn, txm) = Commit (tm (tree e)) (txn\<lparr>txLastLSN := lsn\<rparr>);
          Some (Inr (), txn, e\<lparr>tree := (tree e)\<lparr>tm := txm\<rparr>\<rparr>) })"

definition Savepoint :: "StorageEngine \<Rightarrow> Transaction \<Rightarrow> string \<Rightarrow> (error, unit) result \<times> Transaction \<times> StorageEngine" where
  "Savepoint e txn name =
     (if list_ex (\<lambda>sp. spName sp = name) (txSavepoints txn) then (Inl (ErrSavepointExists name), txn, e)
      else
        let txn = txn\<lparr>txSavepoints := txSavepoints txn @
              [\<lparr>spName = name, spUndoLogMark = length (txUndoLog txn), spLastLSN = txLastLSN txn\<rparr>]\<rparr>
        in (Inr (), txn, e\<lparr>tree := putTxn (tree e) txn\<rparr>))"

text \<open>The compensation record of one undo step; 0 when the original cannot be read.\<close>

definition rollbackCLR :: "StorageEngine \<Rightarrow> Transaction \<Rightarrow> UndoRecord \<Rightarrow> (u64 \<times> Transaction \<times> StorageEngine) option" where
  "rollbackCLR e txn rec =
     (case wal (bufPool (tree e)) of
        None \<Rightarrow> Some (0, txn, e)
      | Some w \<Rightarrow>
          if urWALSN rec = 0 then Some (0, txn, e)
          else (case FetchRecord w (urWALSN rec) of
                  (Inl _, w) \<Rightarrow> Some (0, txn, e\<lparr>tree := (tree e)\<lparr>bufPool := (bufPool (tree e))\<lparr>wal := Some w\<rparr>\<rparr>\<rparr>)
                | (Inr original, w) \<Rightarrow> do {
                    let clrPayload = EncodeCLRPayload (urWALSN rec) (rType original) (rPayload original);
                    (clrLSN, w) \<leftarrow> AppendRecord w (emptyLogRecord\<lparr>rType := LogCLR, rTxnID := txID txn,
                       rPageID := urPageID rec, rPrevLSN := txLastLSN txn, rPayload := clrPayload\<rparr>);
                    let txn = txn\<lparr>txLastLSN := clrLSN\<rparr>;
                    let t = (tree e)\<lparr>bufPool := (bufPool (tree e))\<lparr>wal := Some w\<rparr>\<rparr>;
                    Some (clrLSN, txn, e\<lparr>tree := putTxn t txn\<rparr>) }))"

fun rollbackLoop ::
  "StorageEngine \<Rightarrow> Transaction \<Rightarrow> UndoRecord list \<Rightarrow> ((error, unit) result \<times> Transaction \<times> StorageEngine) option" where
  "rollbackLoop e txn [] = Some (Inr (), txn, e)"
| "rollbackLoop e txn (rec # rest) = do {
     (clrLSN, txn, e) \<leftarrow> rollbackCLR e txn rec;
     (res, t) \<leftarrow> ApplyUndoRecord (tree e) txn rec clrLSN;
     (case res of
        Inl err \<Rightarrow> Some (Inl err, txn, e\<lparr>tree := t\<rparr>)
      | Inr _ \<Rightarrow> rollbackLoop (e\<lparr>tree := t\<rparr>) txn rest) }"

text \<open>The savepoints before the first one with the name, and that one.\<close>

fun findSavepoint :: "SavepointEntry list \<Rightarrow> string \<Rightarrow> (SavepointEntry list \<times> SavepointEntry) option" where
  "findSavepoint [] name = None"
| "findSavepoint (sp # sps) name =
     (if spName sp = name then Some ([], sp)
      else map_option (\<lambda>(before, s). (sp # before, s)) (findSavepoint sps name))"

definition RollbackToSavepoint ::
  "StorageEngine \<Rightarrow> Transaction \<Rightarrow> string \<Rightarrow> ((error, unit) result \<times> Transaction \<times> StorageEngine) option" where
  "RollbackToSavepoint e txn name =
     (case findSavepoint (txSavepoints txn) name of
        None \<Rightarrow> Some (Inl (ErrSavepointNotFound name), txn, e)
      | Some (before, sp) \<Rightarrow> do {
          (res, txn, e) \<leftarrow> rollbackLoop e txn (rev (drop (spUndoLogMark sp) (txUndoLog txn)));
          (case res of
             Inl err \<Rightarrow> Some (Inl err, txn, e)
           | Inr _ \<Rightarrow>
               let txn = txn\<lparr>txUndoLog := take (spUndoLogMark sp) (txUndoLog txn), txSavepoints := before\<rparr>
               in Some (Inr (), txn, e\<lparr>tree := putTxn (tree e) txn\<rparr>)) })"

subsection \<open>Reads and writes\<close>

definition refreshSnapshot :: "BPlusTree \<Rightarrow> Transaction \<Rightarrow> Transaction \<times> BPlusTree" where
  "refreshSnapshot t txn =
     (if txIsoLevel txn = ReadCommitted then
        let txn = txn\<lparr>txSnapshot := TakeSnapshot (tm t) (txID txn)\<rparr> in (txn, putTxn t txn)
      else (txn, t))"

definition Put ::
  "StorageEngine \<Rightarrow> Transaction \<Rightarrow> bytes \<Rightarrow> bytes \<Rightarrow> ((error, unit) result \<times> Transaction \<times> StorageEngine) option" where
  "Put e txn key value = do {
     let (txn, t) = refreshSnapshot (tree e) txn;
     (res, txn, t) \<leftarrow> Update t txn key value;
     (res, txn, t) \<leftarrow> (if res = Inl ErrKeyNotFound then Insert t txn key value else Some (res, txn, t));
     Some (res, txn, e\<lparr>tree := t\<rparr>) }"

definition EngGet :: "StorageEngine \<Rightarrow> Transaction \<Rightarrow> bytes \<Rightarrow> ((error, bytes) result \<times> Transaction \<times> StorageEngine) option" where
  "EngGet e txn key = do {
     let (txn, t) = refreshSnapshot (tree e) txn;
     (res, t) \<leftarrow> Get t txn key;
     Some (res, txn, e\<lparr>tree := t\<rparr>) }"

definition EngUpdate ::
  "StorageEngine \<Rightarrow> Transaction \<Rightarrow> bytes \<Rightarrow> bytes \<Rightarrow> ((error, unit) result \<times> Transaction \<times> StorageEngine) option" where
  "EngUpdate e txn key newValue = do {
     let (txn, t) = refreshSnapshot (tree e) txn;
     (res, txn, t) \<leftarrow> Update t txn key newValue;
     Some (res, txn, e\<lparr>tree := t\<rparr>) }"

definition EngDelete :: "StorageEngine \<Rightarrow> Transaction \<Rightarrow> bytes \<Rightarrow> ((error, unit) result \<times> Transaction \<times> StorageEngine) option" where
  "EngDelete e txn key = do {
     let (txn, t) = refreshSnapshot (tree e) txn;
     (res, txn, t) \<leftarrow> Delete t txn key;
     Some (res, txn, e\<lparr>tree := t\<rparr>) }"

definition EngScan ::
  "StorageEngine \<Rightarrow> Transaction \<Rightarrow> bytes \<Rightarrow> slice \<Rightarrow> ((error, BTreeCursor) result \<times> Transaction \<times> StorageEngine) option" where
  "EngScan e txn start end' = do {
     let (txn, t) = refreshSnapshot (tree e) txn;
     (res, t) \<leftarrow> Scan t start end';
     Some (res, txn, e\<lparr>tree := t\<rparr>) }"

definition EngTakeSnapshot :: "StorageEngine \<Rightarrow> TxnID \<Rightarrow> Snapshot" where
  "EngTakeSnapshot e txnID = TakeSnapshot (tm (tree e)) txnID"

definition RunVacuum :: "StorageEngine \<Rightarrow> StorageEngine option" where
  "RunVacuum e = do {
     let vw = NewVacuumWorker (tree e) \<lparr>DeadThreshold = VacuumThreshold (cfg e)\<rparr>;
     vw \<leftarrow> RunOnce (SetBloomRebuildHook vw TreeBloomRebuild);
     Some (e\<lparr>tree := vacTree vw\<rparr>) }"

end
