(* ===== verification/Inspect.thy ===== *)
theory Inspect
  imports Engine
begin

text \<open>
  The inspection side of the engine (\<^verbatim>\<open>internal/engine/engine.go\<close>, from \<open>EngineStats\<close> on): counters,
  frames, the tail of the log, page contents, stored versions of a key and the explanation of their
  visibility. A Go string made of bytes stays a byte list.
\<close>

section \<open>Definitions\<close>

record EngineStats =
  BufferHitRate :: rat
  DirtyPages :: nat
  TotalFrames :: nat
  ActiveTxns :: nat
  StatWALSizeBytes :: nat
  WALSegments :: nat
  WALOldestLSN :: u64
  WALCurrentLSN :: u64

definition Stats :: "StorageEngine \<Rightarrow> EngineStats option" where
  "Stats e = do {
     let bp = bufPool (tree e);
     w \<leftarrow> wal bp;
     Some \<lparr>BufferHitRate = HitRate bp, DirtyPages = length (DirtyPageTable bp), TotalFrames = FrameCount bp,
       ActiveTxns = ActiveCount (tm (tree e)), StatWALSizeBytes = WALSizeBytes w, WALSegments = SegmentCount w,
       WALOldestLSN = OldestLSN w, WALCurrentLSN = CurrentLSN w\<rparr> }"

record FrameInfo =
  fiPageID :: u32
  fiDirty :: bool
  fiPinCount :: int
  fiRecLSN :: u64
  fiEmpty :: bool

definition Frames :: "StorageEngine \<Rightarrow> FrameInfo list" where
  "Frames e = map (\<lambda>f. \<lparr>fiPageID = snapPageID f, fiDirty = snapDirty f, fiPinCount = snapPinCount f,
     fiRecLSN = snapRecLSN f, fiEmpty = (snapPageID f = 0)\<rparr>) (SnapshotFrames (bufPool (tree e)))"

record WALRecordInfo =
  wiLSN :: u64
  wiPrevLSN :: u64
  wiTxnID :: u64
  wiPageID :: u32
  wiType :: string

definition typeNames :: "(LogRecordType \<times> string) list" where
  "typeNames = [(LogBegin, ''BEGIN''), (LogCommit, ''COMMIT''), (LogAbort, ''ABORT''), (LogInsert, ''INSERT''),
     (LogDelete, ''DELETE''), (LogUpdate, ''UPDATE''), (LogSplit, ''SPLIT''), (LogMerge, ''MERGE''), (LogCLR, ''CLR''),
     (LogCheckpoint, ''CHECKPOINT''), (LogPageAlloc, ''PAGE_ALLOC''), (LogPageFree, ''PAGE_FREE''),
     (LogRootChange, ''ROOT_CHANGE'')]"

definition walRecordToInfo :: "LogRecord \<Rightarrow> WALRecordInfo" where
  "walRecordToInfo r = \<lparr>wiLSN = rLSN r, wiPrevLSN = rPrevLSN r, wiTxnID = rTxnID r, wiPageID = rPageID r,
     wiType = (case map_of typeNames (rType r) of Some n \<Rightarrow> n | None \<Rightarrow> ''UNKNOWN'')\<rparr>"

text \<open>A negative bound makes the slice expression panic.\<close>

definition WALTail :: "StorageEngine \<Rightarrow> int \<Rightarrow> (WALRecordInfo list \<times> StorageEngine) option" where
  "WALTail e n = do {
     w \<leftarrow> wal (bufPool (tree e));
     let (_, rs, w) = ScanFrom w 0;
     let e = e\<lparr>tree := (tree e)\<lparr>bufPool := (bufPool (tree e))\<lparr>wal := Some w\<rparr>\<rparr>\<rparr>;
     let infos = map walRecordToInfo rs;
     if int (length infos) > n
     then if n < 0 then None else Some (drop (length infos - nat n) infos, e)
     else Some (infos, e) }"

definition txnStatusName :: "TxnStatus \<Rightarrow> string" where
  "txnStatusName s = (case s of TxnCommitted \<Rightarrow> ''committed'' | TxnAborted \<Rightarrow> ''aborted'' | _ \<Rightarrow> ''active'')"

definition xmaxStatusName :: "(TxnID \<Rightarrow> TxnStatus) \<Rightarrow> u64 \<Rightarrow> string" where
  "xmaxStatusName status xmax = (if xmax \<noteq> 0 then txnStatusName (status xmax) else '''')"

record SlotInfo =
  siSlotIdx :: nat
  siXmin :: u64
  siXmax :: u64
  siKey :: bytes
  siValue :: bytes
  siXminStatus :: string
  siXmaxStatus :: string

record PageContentsResult =
  pcPageID :: u32
  pcType :: string
  pcNumSlots :: nat
  pcFreeSpace :: int
  pcPageLSN :: u64
  pcPrevSib :: u32
  pcNextSib :: u32
  pcSlots :: "SlotInfo list"

definition asciiBytes :: "string \<Rightarrow> bytes" where
  "asciiBytes s = map (\<lambda>c. of_char c) s"

fun leafSlots :: "Page \<Rightarrow> (TxnID \<Rightarrow> TxnStatus) \<Rightarrow> nat list \<Rightarrow> SlotInfo list option" where
  "leafSlots p status [] = Some []"
| "leafSlots p status (i # is) = do {
     data \<leftarrow> GetRecord p i;
     rest \<leftarrow> leafSlots p status is;
     Some (case data of
             NilSlice \<Rightarrow> rest
           | Slice bs \<Rightarrow>
               (case DecodeTuple bs of
                  Inl _ \<Rightarrow> rest
                | Inr t \<Rightarrow> \<lparr>siSlotIdx = i, siXmin = Xmin t, siXmax = Xmax t, siKey = Key t, siValue = Value t,
                             siXminStatus = txnStatusName (status (Xmin t)),
                             siXmaxStatus = xmaxStatusName status (Xmax t)\<rparr> # rest)) }"

fun internalSlots :: "Page \<Rightarrow> nat list \<Rightarrow> SlotInfo list option" where
  "internalSlots p [] = Some []"
| "internalSlots p (i # is) = do {
     data \<leftarrow> GetRecord p i;
     rest \<leftarrow> internalSlots p is;
     Some (case data of
             NilSlice \<Rightarrow> rest
           | Slice bs \<Rightarrow>
               (case DecodeInternalRecord bs of
                  Inl _ \<Rightarrow> rest
                | Inr r \<Rightarrow> \<lparr>siSlotIdx = i, siXmin = 0, siXmax = 0, siKey = irKey r,
                             siValue = asciiBytes (''child:'' @ decimal (unat (irChildID r))),
                             siXminStatus = '''', siXmaxStatus = ''''\<rparr> # rest)) }"

definition pageTypeName :: "u8 \<Rightarrow> string" where
  "pageTypeName t =
     (if t = PageTypeInternal then ''internal'' else if t = PageTypeLeaf then ''leaf''
      else if t = PageTypeMeta then ''meta'' else ''free'')"

definition PageContents :: "StorageEngine \<Rightarrow> u32 \<Rightarrow> ((error, PageContentsResult) result \<times> StorageEngine) option" where
  "PageContents e pageID = do {
     (res, t) \<leftarrow> fetchT (tree e) pageID;
     (case res of
        Inl err \<Rightarrow> Some (Inl err, e\<lparr>tree := t\<rparr>)
      | Inr frame \<Rightarrow> do {
          let p = readT t frame;
          let e = e\<lparr>tree := unpinT t (framePageID t frame) False\<rparr>;
          let hdr = DecodeHeader p;
          slots \<leftarrow> (if hType hdr = PageTypeLeaf then leafSlots p (GetStatus (tm t)) [0..<NumSlots p]
                    else if hType hdr = PageTypeInternal then internalSlots p [0..<NumSlots p]
                    else Some []);
          Some (Inr \<lparr>pcPageID = pageID, pcType = pageTypeName (hType hdr), pcNumSlots = NumSlots p,
                  pcFreeSpace = FreeSpace p, pcPageLSN = hPageLSN hdr, pcPrevSib = hPrevSib hdr,
                  pcNextSib = hNextSib hdr, pcSlots = slots\<rparr>, e) }) }"

subsection \<open>Versions of a key\<close>

text \<open>The stored versions of a key on the leaf that the descent ends on; nil when the descent fails.\<close>

definition leafVersions :: "StorageEngine \<Rightarrow> bytes \<Rightarrow> (MVCCTuple list option \<times> StorageEngine) option" where
  "leafVersions e key = do {
     (res, t) \<leftarrow> FindLeafForInspection (tree e) key;
     (case res of
        Inl _ \<Rightarrow> Some (None, e\<lparr>tree := t\<rparr>)
      | Inr (frame, parents) \<Rightarrow> do {
          let t = unpinFrames t parents False;
          let p = readT t frame;
          let t = unpinT t (framePageID t frame) False;
          tuples \<leftarrow> FindAllVersions p key;
          Some (Some tuples, e\<lparr>tree := t\<rparr>) }) }"

record VersionInfo =
  viXmin :: u64
  viXmax :: u64
  viValue :: bytes
  viXminStatus :: string
  viXmaxStatus :: string

definition versionInfo :: "(TxnID \<Rightarrow> TxnStatus) \<Rightarrow> MVCCTuple \<Rightarrow> VersionInfo" where
  "versionInfo status t = \<lparr>viXmin = Xmin t, viXmax = Xmax t, viValue = Value t,
     viXminStatus = txnStatusName (status (Xmin t)), viXmaxStatus = xmaxStatusName status (Xmax t)\<rparr>"

definition MVCCVersions :: "StorageEngine \<Rightarrow> bytes \<Rightarrow> (VersionInfo list \<times> StorageEngine) option" where
  "MVCCVersions e key = do {
     (vs, e) \<leftarrow> leafVersions e key;
     Some (case vs of None \<Rightarrow> [] | Some ts \<Rightarrow> map (versionInfo (GetStatus (tm (tree e)))) ts, e) }"

text \<open>The answer of \<open>explainVisibility\<close>; the \<open>goto checkXmax\<close> is the shared second half.\<close>

definition explainXmax :: "Snapshot \<Rightarrow> TxnStatus \<Rightarrow> MVCCTuple \<Rightarrow> bool \<times> string" where
  "explainXmax snap xmaxStatus t =
     (if Xmax t = 0 then (True, ''visible: tuple is not deleted'')
      else if Xmax t = CreatorTxnID snap then (False, ''invisible: deleted by this transaction'')
      else if xmaxStatus = TxnAborted then (True, ''visible: deleting transaction aborted'')
      else if Xmax t \<ge> XmaxSnapshot snap then (True, ''visible: deletion happened after this snapshot'')
      else if list_ex (\<lambda>xid. Xmax t = xid) (XipList snap)
      then (True, ''visible: deleting transaction was still in progress at snapshot time'')
      else (False, ''invisible: deleted before this snapshot''))"

definition explainVisibility :: "Snapshot \<Rightarrow> TxnStatus \<Rightarrow> TxnStatus \<Rightarrow> MVCCTuple \<Rightarrow> bool \<times> string" where
  "explainVisibility snap xminStatus xmaxStatus t =
     (if Xmin t = CreatorTxnID snap then explainXmax snap xmaxStatus t
      else if xminStatus \<noteq> TxnCommitted then (False, ''creating transaction is not committed'')
      else if Xmin t \<ge> XmaxSnapshot snap then (False, ''version was created after this snapshot'')
      else if list_ex (\<lambda>xid. Xmin t = xid) (XipList snap)
      then (False, ''creating transaction was still in progress at snapshot time'')
      else explainXmax snap xmaxStatus t)"

record VersionVisibilityInfo = VersionInfo +
  vvVisible :: bool
  vvReason :: string

definition versionVisibility :: "Snapshot \<Rightarrow> (TxnID \<Rightarrow> TxnStatus) \<Rightarrow> MVCCTuple \<Rightarrow> VersionVisibilityInfo" where
  "versionVisibility snap status t =
     (let xminStatus = status (Xmin t);
          xmaxStatus = (if Xmax t \<noteq> 0 then status (Xmax t) else TxnActive);
          (visible, reason) = explainVisibility snap xminStatus xmaxStatus t
      in VersionInfo.extend (versionInfo status t) (VersionVisibilityInfo.fields visible reason))"

definition MVCCVisibilityForTxn ::
  "StorageEngine \<Rightarrow> bytes \<Rightarrow> Transaction \<Rightarrow> (VersionVisibilityInfo list \<times> StorageEngine) option" where
  "MVCCVisibilityForTxn e key txn = do {
     (vs, e) \<leftarrow> leafVersions e key;
     Some (case vs of None \<Rightarrow> [] | Some ts \<Rightarrow> map (versionVisibility (txSnapshot txn) (GetStatus (tm (tree e)))) ts, e) }"

end
