(* ===== verification/Inspect_Props.thy ===== *)
theory Inspect_Props
  imports Inspect
begin

text \<open>
  The inspection endpoints agree with the read path: the explanation of visibility is the visibility
  rule, and the first version it marks as visible is the one that a read returns.
\<close>

lemma explainVisibility_IsVisible:
  "fst (explainVisibility snap (status (Xmin t)) (if Xmax t \<noteq> 0 then status (Xmax t) else TxnActive) t) = IsVisible snap t status"
  by (simp add: explainVisibility_def explainXmax_def IsVisible_def checkXmax_def)

lemma vvVisible_IsVisible: "vvVisible (versionVisibility snap status t) = IsVisible snap t status"
proof (cases "explainVisibility snap (status (Xmin t)) (if Xmax t \<noteq> 0 then status (Xmax t) else TxnActive) t")
  case (Pair v reason)
  with explainVisibility_IsVisible [of snap status t] have "v = IsVisible snap t status" by simp
  with Pair show ?thesis
    by (simp only: versionVisibility_def Let_def prod.case) (simp add: VersionInfo.defs VersionVisibilityInfo.defs versionInfo_def)
qed

section \<open>Properties\<close>

text \<open>
  What \<open>MVCCVisibilityForTxn\<close> reports for a leaf is what a read of the key does: each stored
  version is marked visible exactly when the visibility rule of the snapshot accepts it, and
  \<open>FindVisibleSlot\<close> returns the first reported version that is marked so, or none when none is.
\<close>
theorem inspection_matches_reads:
  assumes "leaf_ok p"
  shows "\<exists>ts r. FindAllVersions p key = Some ts \<and> FindVisibleSlot p key snap status = Some r \<and>
    snd r = find (\<lambda>t. vvVisible (versionVisibility snap status t)) ts \<and>
    (\<forall>t. vvVisible (versionVisibility snap status t) = IsVisible snap t status)"
proof -
  obtain r where "FindVisibleSlot p key snap status = Some r" "first_visible p key snap status 0 r"
    using FindVisibleSlot_spec [OF assms] by blast
  then show ?thesis
    using FindAllVersions_filter [OF assms, of key] first_visible_find [of p key snap status r]
    by (simp add: vvVisible_IsVisible find_filter)
qed

theorem inspection_matches_reads_witness:
  "\<exists>p t. FindVisibleSlot p [1] (emptySnapshot\<lparr>CreatorTxnID := 5\<rparr>) (\<lambda>_. TxnActive) = Some (0, Some t) \<and>
    vvVisible (versionVisibility (emptySnapshot\<lparr>CreatorTxnID := 5\<rparr>) (\<lambda>_. TxnActive) t)"
proof -
  let ?t = "\<lparr>Xmin = 5, Xmax = 0, TFlags = 0, Key = [1], Value = [2]\<rparr>"
  let ?snap = "emptySnapshot\<lparr>CreatorTxnID := 5\<rparr>"
  have t: "tuple_ok ?t" "length (EncodeTuple ?t) \<le> 4060" by (simp_all add: tuple_ok_def)
  then obtain p where p: "leaf_ok p" "recs p = [Slice (EncodeTuple ?t)]" by (rule leaf_example)
  then have ts: "FindAllVersions p [1] = Some [?t]"
    using FindAllVersions_filter [OF p(1), of "[1]"] DecodeTuple_EncodeTuple [OF t(1)] by simp
  have v: "IsVisible ?snap ?t (\<lambda>_. TxnActive)" by (simp add: IsVisible_def checkXmax_def)
  from inspection_matches_reads [OF p(1), of "[1]" ?snap "\<lambda>_. TxnActive"] ts v
  obtain k where k: "FindVisibleSlot p [1] ?snap (\<lambda>_. TxnActive) = Some (k, Some ?t)"
    "vvVisible (versionVisibility ?snap (\<lambda>_. TxnActive) ?t)" by auto
  obtain r where "FindVisibleSlot p [1] ?snap (\<lambda>_. TxnActive) = Some r" "first_visible p [1] ?snap (\<lambda>_. TxnActive) 0 r"
    using FindVisibleSlot_spec [OF p(1)] by blast
  moreover have "NumSlots p = 1" using arg_cong [OF p(2), of length] by simp
  ultimately have "k = 0" using k by (auto simp: first_visible_def visible_at_def)
  with k show ?thesis by blast
qed

end
