(* ===== verification/Vacuum_Props.thy ===== *)
theory Vacuum_Props
  imports Vacuum
begin

text \<open>
  A vacuum pass over a leaf removes exactly the dead tuples and keeps the leaf in order. The rule for
  dead tuples compares with the oldest active id, which is too late a horizon for snapshots that were
  taken while an older transaction was running.
\<close>

section \<open>Removal of records\<close>

definition kill :: "(MVCCTuple \<Rightarrow> bool) \<Rightarrow> slice \<Rightarrow> slice" where
  "kill dead s = (case s of NilSlice \<Rightarrow> NilSlice | Slice bs \<Rightarrow>
     (case DecodeTuple bs of Inl _ \<Rightarrow> s | Inr t \<Rightarrow> if dead t then NilSlice else s))"

lemma tuples_of_kill: "tuples_of (map (kill dead) rs) = filter (\<lambda>t. \<not> dead t) (tuples_of rs)"
  by (induction rs rule: tuples_of.induct) (auto simp: kill_def split: sum.splits)

lemma tuples_of_live: "tuples_of (map Slice (live rs)) = tuples_of rs"
  by (induction rs rule: live.induct) (auto split: sum.splits)

lemma leaf_ok_delete:
  assumes ok: "leaf_ok p" and i: "i < NumSlots p"
  obtains p' where "DeleteRecord p i = Some p'" and "leaf_ok p'" and "same_meta p p'" and "recs p' = (recs p)[i := NilSlice]"
proof -
  note D = leaf_okD [OF ok]
  obtain p' where p': "DeleteRecord p i = Some p'" "same_meta p p'" using sp.del_law [OF D(1), of i] i by auto
  note S = sp.del_sorted [OF D(1,2) _ p'(1)]
  have "leaf_ok p'"
    using S i ok by (auto simp: leaf_ok_def tuple_slice_def dest!: set_update_subset_insert [THEN subsetD])
  with p' S(2) i show thesis by (intro that) simp_all
qed

lemma leaf_ok_compact:
  assumes ok: "leaf_ok p"
  obtains p' where "Compact p = Some p'" and "leaf_ok p'" and "same_meta p p'" and "recs p' = map Slice (live (recs p))"
    and "room_of p' + sum_list (map (\<lambda>d. length d + 4) (live (recs p))) = 4064"
proof -
  note D = leaf_okD [OF ok]
  obtain p' where p': "Compact p = Some p'" "recs p' = map Slice (live (recs p))" "page_wf p'" "same_meta p p'"
    "room_of p' + sum_list (map (\<lambda>d. length d + 4) (live (recs p))) = 4064"
    using sp.compact_law [OF D(1)] by blast
  moreover have "keys_sorted TupleKeyExtract (recs p')" using p'(2) sp.keys_sorted_live D(2) by simp
  moreover have "\<forall>s \<in> set (recs p'). tuple_slice s" using ok p'(2) by (auto simp: leaf_ok_def set_live)
  ultimately show thesis by (intro that) (simp_all add: leaf_ok_def)
qed

lemma FragmentationRatio_total:
  assumes "page_wf p"
  shows "\<exists>r. FragmentationRatio p = Some r"
proof -
  have "those (map (GetSlot p) is) \<noteq> None" if "\<forall>i \<in> set is. i < NumSlots p" for "is"
    using that
  proof (induction "is")
    case (Cons i "is")
    then have "HeaderSize + i * SlotSize + SlotSize \<le> PageSize"
      using page_wf_bounds [OF assms] by (simp add: page_consts)
    then obtain s where "GetSlot p i = Some s" using GetSlot_slot_at by blast
    with Cons show ?case by auto
  qed simp
  from this [of "[0..<NumSlots p]"] show ?thesis by (auto simp: FragmentationRatio_def Let_def)
qed

lemma vacuumLoop_ok:
  assumes "leaf_ok p" and "k \<le> NumSlots p"
  obtains p' where "vacuumLoop p status oldest m [k..<NumSlots p] =
      Some (m \<or> (\<exists>t \<in> set (tuples_of (drop k (recs p))). isDead status oldest t), p')"
    and "leaf_ok p'" and "same_meta p p'"
    and "recs p' = take k (recs p) @ map (kill (isDead status oldest)) (drop k (recs p))"
  using assms
proof (induction "NumSlots p - k" arbitrary: p k m thesis)
  case 0
  then show ?case by (intro 0(2) [of p]) (auto simp: same_meta_def)
next
  case (Suc n)
  then have k: "k < NumSlots p" by simp
  let ?dead = "isDead status oldest"
  note D = leaf_okD [OF Suc.prems(2)]
  have ups: "[k..<NumSlots p] = k # [Suc k..<NumSlots p]" using k by (simp add: upt_conv_Cons)
  have get: "GetRecord p k = Some (recs p ! k)" by (rule D(4) [OF k])
  have dr: "drop k (recs p) = recs p ! k # drop (Suc k) (recs p)" using k by (simp add: Cons_nth_drop_Suc)
  have tk: "take (Suc k) (recs p) = take k (recs p) @ [recs p ! k]" using k by (simp add: take_Suc_conv_app_nth)
  have keep: ?case if e: "kill ?dead (recs p ! k) = recs p ! k"
    and l: "vacuumLoop p status oldest m [k..<NumSlots p] = vacuumLoop p status oldest m [Suc k..<NumSlots p]"
    and t: "(\<exists>t \<in> set (tuples_of (drop k (recs p))). ?dead t) \<longleftrightarrow> (\<exists>t \<in> set (tuples_of (drop (Suc k) (recs p))). ?dead t)"
  proof -
    obtain p' where "vacuumLoop p status oldest m [Suc k..<NumSlots p] =
        Some (m \<or> (\<exists>t \<in> set (tuples_of (drop (Suc k) (recs p))). ?dead t), p')"
      "leaf_ok p'" "same_meta p p'" "recs p' = take (Suc k) (recs p) @ map (kill ?dead) (drop (Suc k) (recs p))"
      using Suc.hyps(2) Suc.prems(2) k by (rule_tac Suc.hyps(1) [of p "Suc k" m]) simp_all
    with e l t tk dr show ?case by (intro Suc.prems(1) [of p']) simp_all
  qed
  show ?case
  proof (cases "recs p ! k")
    case NilSlice
    with get dr show ?thesis by (intro keep) (simp_all add: kill_def ups)
  next
    case (Slice bs)
    then obtain t where t: "tuple_ok t" "bs = EncodeTuple t" "DecodeTuple bs = Inr t" using D(3) [OF k] by blast
    show ?thesis
    proof (cases "?dead t")
      case False
      with Slice t get dr show ?thesis by (intro keep) (simp_all add: kill_def ups)
    next
      case True
      obtain p1 where p1: "DeleteRecord p k = Some p1" "leaf_ok p1" "same_meta p p1" "recs p1 = (recs p)[k := NilSlice]"
        by (rule leaf_ok_delete [OF Suc.prems(2) k]) (rule that)
      have n1: "NumSlots p1 = NumSlots p" using arg_cong [OF p1(4), of length] by simp
      obtain p' where p': "vacuumLoop p1 status oldest True [Suc k..<NumSlots p1] =
          Some (True \<or> (\<exists>t \<in> set (tuples_of (drop (Suc k) (recs p1))). ?dead t), p')"
        "leaf_ok p'" "same_meta p1 p'" "recs p' = take (Suc k) (recs p1) @ map (kill ?dead) (drop (Suc k) (recs p1))"
        using Suc.hyps(2) p1(2) k n1 by (rule_tac Suc.hyps(1) [of p1 "Suc k" True]) simp_all
      have "vacuumLoop p status oldest m [k..<NumSlots p] = Some (True, p')"
        using get Slice t True p1(1) p'(1) n1 by (simp add: ups)
      moreover have "recs p' = take k (recs p) @ map (kill ?dead) (drop k (recs p))"
        using p'(4) p1(4) k dr Slice t True by (simp add: kill_def take_Suc_conv_app_nth)
      moreover have "same_meta p p'" using p1(3) p'(3) by (simp add: same_meta_def)
      ultimately show ?thesis using True t Slice dr p'(2) by (intro Suc.prems(1) [of p']) auto
    qed
  qed
qed

lemma countDead_ok:
  assumes "leaf_ok p"
  shows "countDead p status oldest = Some (length (filter (isDead status oldest) (tuples_of (recs p))))"
proof -
  note D = leaf_okD [OF assms]
  have "countDeadLoop p status oldest [k..<NumSlots p] = Some (length (filter (isDead status oldest) (tuples_of (drop k (recs p)))))"
    if "k \<le> NumSlots p" for k
    using that
  proof (induction "NumSlots p - k" arbitrary: k)
    case (Suc n)
    then have k: "k < NumSlots p" by simp
    then have "[k..<NumSlots p] = k # [Suc k..<NumSlots p]" "drop k (recs p) = recs p ! k # drop (Suc k) (recs p)"
      by (simp_all add: upt_conv_Cons Cons_nth_drop_Suc)
    moreover have "countDeadLoop p status oldest [Suc k..<NumSlots p] =
        Some (length (filter (isDead status oldest) (tuples_of (drop (Suc k) (recs p)))))"
      using Suc k by auto
    ultimately show ?case using D(3,4) [OF k] by (cases "recs p ! k") (auto split: sum.splits)
  qed simp
  from this [of 0] show ?thesis by (simp add: countDead_def)
qed

lemma vacuum_pass:
  assumes "leaf_ok p"
  shows "\<exists>n p'. countDead p status oldest = Some n \<and> vacuumLeafPage c status p oldest = Some (0 < n, p') \<and>
    leaf_ok p' \<and> same_meta p p' \<and>
    tuples_of (recs p') = filter (\<lambda>t. \<not> isDead status oldest t) (tuples_of (recs p)) \<and>
    length (tuples_of (recs p')) + n = length (tuples_of (recs p))"
proof -
  let ?n = "length (filter (isDead status oldest) (tuples_of (recs p)))"
  let ?live = "filter (\<lambda>t. \<not> isDead status oldest t) (tuples_of (recs p))"
  obtain p1 where p1: "vacuumLoop p status oldest False [0..<NumSlots p] = Some (0 < ?n, p1)"
    "leaf_ok p1" "same_meta p p1" "tuples_of (recs p1) = ?live"
    by (rule vacuumLoop_ok [OF assms, of 0 status oldest False]) (auto simp: tuples_of_kill filter_empty_conv)
  obtain r where r: "FragmentationRatio p1 = Some r" using FragmentationRatio_total leaf_okD(1) [OF p1(2)] by blast
  obtain p2 where p2: "Compact p1 = Some p2" "leaf_ok p2" "same_meta p1 p2" "recs p2 = map Slice (live (recs p1))"
    by (rule leaf_ok_compact [OF p1(2)]) (rule that)
  have "\<exists>p'. vacuumLeafPage c status p oldest = Some (0 < ?n, p') \<and> leaf_ok p' \<and> same_meta p p' \<and> tuples_of (recs p') = ?live"
    using p1 p2 r by (simp add: vacuumLeafPage_def tuples_of_live same_meta_def)
  moreover have "length ?live + ?n = length (tuples_of (recs p))" using sum_length_filter_compl [of "isDead status oldest" "tuples_of (recs p)"] by linarith
  ultimately show ?thesis using countDead_ok [OF assms] by metis
qed

section \<open>Properties\<close>

text \<open>
  C16. A vacuum pass over a leaf removes exactly the dead tuples: the remaining tuples are the live ones
  in their order, the leaf stays well-formed, whether or not it is compacted, and the page is reported
  as modified exactly when \<open>countDead\<close> counts a dead tuple.
\<close>
theorem vacuum_exact:
  assumes "leaf_ok p"
  shows "\<exists>n p'. countDead p status oldest = Some n \<and> vacuumLeafPage c status p oldest = Some (0 < n, p') \<and>
    leaf_ok p' \<and> same_meta p p' \<and>
    tuples_of (recs p') = filter (\<lambda>t. \<not> isDead status oldest t) (tuples_of (recs p)) \<and>
    length (tuples_of (recs p')) + n = length (tuples_of (recs p))"
  using vacuum_pass [OF assms] .

theorem vacuum_exact_witness:
  "\<exists>p p'. vacuumLeafPage DefaultVacuumConfig (\<lambda>_. TxnAborted) p 0 = Some (True, p') \<and> tuples_of (recs p') = []"
proof -
  let ?t = "\<lparr>Xmin = 5, Xmax = 0, TFlags = 0, Key = [1], Value = [2]\<rparr>"
  have t: "tuple_ok ?t" "length (EncodeTuple ?t) \<le> 4060" by (simp_all add: tuple_ok_def)
  then obtain p where p: "leaf_ok p" "recs p = [Slice (EncodeTuple ?t)]" by (rule leaf_example)
  have "tuples_of (recs p) = [?t]" using p(2) DecodeTuple_EncodeTuple [OF t(1)] by simp
  with vacuum_exact [OF p(1), of "\<lambda>_. TxnAborted" 0 DefaultVacuumConfig]
  obtain p' where "vacuumLeafPage DefaultVacuumConfig (\<lambda>_. TxnAborted) p 0 = Some (True, p')" "tuples_of (recs p') = []"
    by (auto simp: isDead_def)
  then show ?thesis by blast
qed

text \<open>
  C21. The horizon of the vacuum is too late: a version that a running transaction still sees, because
  its deleter was in progress when the snapshot was taken, is removed as soon as the deleter has
  committed and no transaction older than the deleter runs.
\<close>
theorem vacuum_removes_visible:
  assumes ok: "leaf_ok p" and t: "t \<in> set (tuples_of (recs p))"
    and run: "map_of (activeTxns m) (txID txn) = Some txn" "CreatorTxnID (txSnapshot txn) = txID txn"
    and xmin: "GetStatus m (Xmin t) = TxnCommitted" "Xmin t < XmaxSnapshot (txSnapshot txn)"
      "Xmin t \<notin> set (XipList (txSnapshot txn))"
    and xmax: "Xmax t \<in> set (XipList (txSnapshot txn))" "GetStatus m (Xmax t) = TxnCommitted"
      "Xmax t \<noteq> 0" "Xmax t < OldestActiveTxn m" "Xmax t \<noteq> txID txn"
  shows "IsVisible (txSnapshot txn) t (GetStatus m) \<and>
    (\<exists>p'. vacuumLeafPage c (GetStatus m) p (OldestActiveTxn m) = Some (True, p') \<and> t \<notin> set (tuples_of (recs p')))"
proof -
  have "isDead (GetStatus m) (OldestActiveTxn m) t" using xmax by (simp add: isDead_def)
  moreover from this have "filter (isDead (GetStatus m) (OldestActiveTxn m)) (tuples_of (recs p)) \<noteq> []"
    using t by (auto simp: filter_empty_conv)
  moreover obtain n p' where "countDead p (GetStatus m) (OldestActiveTxn m) = Some n"
    "vacuumLeafPage c (GetStatus m) p (OldestActiveTxn m) = Some (0 < n, p')"
    "tuples_of (recs p') = filter (\<lambda>t. \<not> isDead (GetStatus m) (OldestActiveTxn m) t) (tuples_of (recs p))"
    using vacuum_pass [OF ok] by metis
  moreover have "IsVisible (txSnapshot txn) t (GetStatus m)"
    using xmin xmax run(2) by (auto simp: IsVisible_def checkXmax_def list_ex_iff)
  ultimately show ?thesis using countDead_ok [OF ok] by auto
qed


theorem vacuum_removes_visible_witness:
  "\<exists>m txn t p p'. IsVisible (txSnapshot txn) t (GetStatus m) \<and> map_of (activeTxns m) (txID txn) = Some txn \<and>
    t \<in> set (tuples_of (recs p)) \<and>
    vacuumLeafPage DefaultVacuumConfig (GetStatus m) p (OldestActiveTxn m) = Some (True, p') \<and> t \<notin> set (tuples_of (recs p'))"
proof -
  let ?a = "Begin NewTransactionManager SnapshotIsolation"
  let ?b = "Begin (snd (Commit (snd ?a) (fst ?a))) SnapshotIsolation"
  let ?c = "Begin (snd ?b) SnapshotIsolation"
  let ?m = "snd (Commit (snd ?c) (fst ?b))"
  let ?t = "\<lparr>Xmin = 1, Xmax = 2, TFlags = 0, Key = [1], Value = [2]\<rparr>"
  note defs = Begin_def allocTxnID_def registerTxn_def Let_def Commit_def takeSnapshotLocked_def NewTransactionManager_def
  have r: "map_of (activeTxns ?m) (txID (fst ?c)) = Some (fst ?c)" "CreatorTxnID (txSnapshot (fst ?c)) = txID (fst ?c)"
    "XipList (txSnapshot (fst ?c)) = [2]" "XmaxSnapshot (txSnapshot (fst ?c)) = 4" "txID (fst ?c) = 3"
    "GetStatus ?m 1 = TxnCommitted" "GetStatus ?m 2 = TxnCommitted" "OldestActiveTxn ?m = 3"
    by (simp_all add: defs GetStatus_def OldestActiveTxn_def least_id_def)
  have t: "tuple_ok ?t" "length (EncodeTuple ?t) \<le> 4060" by (simp_all add: tuple_ok_def)
  then obtain p where p: "leaf_ok p" "recs p = [Slice (EncodeTuple ?t)]" by (rule leaf_example)
  have m: "?t \<in> set (tuples_of (recs p))" using p(2) DecodeTuple_EncodeTuple [OF t(1)] by simp
  obtain p' where "IsVisible (txSnapshot (fst ?c)) ?t (GetStatus ?m)"
    "vacuumLeafPage DefaultVacuumConfig (GetStatus ?m) p (OldestActiveTxn ?m) = Some (True, p')" "?t \<notin> set (tuples_of (recs p'))"
    using vacuum_removes_visible [OF p(1) m r(1,2), of DefaultVacuumConfig] r(3-8) by auto
  with r(1) m show ?thesis by blast
qed

end
