(* ===== verification/Page_Frame.thy ===== *)
theory Page_Frame
  imports Leaf Internal Split
begin

text \<open>
  The setters of header fields leave the records of a page alone, and with them everything the leaf
  and internal pages promise.
\<close>

section \<open>Header setters\<close>

lemma same_body:
  assumes wf: "page_wf p" and q: "page_ok q" "NumSlots q = NumSlots p" "free_start q = free_start p" "free_end q = free_end p"
    and body: "\<And>off n. HeaderSize \<le> off \<Longrightarrow> get_at (Data q) off n = get_at (Data p) off n"
  shows "page_wf q" and "recs q = recs p" and "room_of q = room_of p"
proof -
  have s: "slots q = slots p" unfolding q(2) by (rule slots_of_cong) (simp add: body)
  show "page_wf q" using wf q s by (simp add: page_wf_def)
  have "HeaderSize \<le> free_end p" "area_ok (free_end p) (slots p)" using wf by (auto simp: page_wf_def)
  then have "rec_of (Data q) t = rec_of (Data p) t" if "t \<in> set (slots p)" for t
    using that by (intro rec_of_cong [of "free_end p"]) (auto simp: area_ok_def intro!: body)
  then show "recs q = recs p" unfolding recs_def s by (intro map_cong refl)
  show "room_of q = room_of p" using q by (simp add: room_of_def)
qed

lemma page_wf_ok: "page_wf p \<Longrightarrow> page_ok p"
  by (simp add: page_wf_def)

lemma SetPageLSN_recs [simp]:
  assumes "page_wf p"
  shows "page_wf (SetPageLSN p l)" and "recs (SetPageLSN p l) = recs p" and "room_of (SetPageLSN p l) = room_of p"
  using page_wf_ok [OF assms] by (intro same_body [OF assms]; simp add: frame_simps free_start_def free_end_def)+

lemma SetPrevSib_recs [simp]:
  assumes "page_wf p"
  shows "page_wf (SetPrevSib p i)" and "recs (SetPrevSib p i) = recs p" and "room_of (SetPrevSib p i) = room_of p"
  using page_wf_ok [OF assms] by (intro same_body [OF assms]; simp add: frame_simps free_start_def free_end_def)+

lemma SetNextSib_recs [simp]:
  assumes "page_wf p"
  shows "page_wf (SetNextSib p i)" and "recs (SetNextSib p i) = recs p" and "room_of (SetNextSib p i) = room_of p"
  using page_wf_ok [OF assms] by (intro same_body [OF assms]; simp add: frame_simps free_start_def free_end_def)+

lemma SetFlag_recs [simp]:
  assumes "page_wf p"
  shows "page_wf (SetFlag p f)" and "recs (SetFlag p f) = recs p" and "room_of (SetFlag p f) = room_of p"
  using page_wf_ok [OF assms] by (intro same_body [OF assms]; simp add: frame_simps free_start_def free_end_def)+

lemma ClearFlag_recs [simp]:
  assumes "page_wf p"
  shows "page_wf (ClearFlag p f)" and "recs (ClearFlag p f) = recs p" and "room_of (ClearFlag p f) = room_of p"
  using page_wf_ok [OF assms] by (intro same_body [OF assms]; simp add: frame_simps free_start_def free_end_def)+

lemma stampLSN_recs [simp]:
  assumes "page_wf p"
  shows "page_wf (stampLSN p l)" and "recs (stampLSN p l) = recs p" and "room_of (stampLSN p l) = room_of p"
  using assms by (simp_all add: stampLSN_def split: option.split)

lemma leaf_ok_wf: "leaf_ok p \<Longrightarrow> page_wf p"
  by (simp add: leaf_ok_def)

lemma leaf_ok_setters [simp]:
  assumes "leaf_ok p"
  shows "leaf_ok (SetPageLSN p l)" and "leaf_ok (SetPrevSib p i)" and "leaf_ok (SetNextSib p i)"
    and "leaf_ok (SetFlag p f)" and "leaf_ok (ClearFlag p f)" and "leaf_ok (stampLSN p s)"
  using assms leaf_ok_wf [OF assms] by (simp_all add: leaf_ok_def)

lemma stampLSN_meta:
  assumes "page_wf p"
  shows "Type (stampLSN p s) = Type p" and "Flags (stampLSN p s) = Flags p" and "PrevSib (stampLSN p s) = PrevSib p"
    and "NextSib (stampLSN p s) = NextSib p" and "ID (stampLSN p s) = ID p"
    and "VerifyChecksum p \<Longrightarrow> VerifyChecksum (stampLSN p s)"
  using page_wf_ok [OF assms] by (simp_all add: stampLSN_def frame_simps VerifyChecksum_setters split: option.split)

end
