(* ===== verification/Tree_Example.thy ===== *)
theory Tree_Example
  imports Page_Frame
begin

text \<open>
  A small tree for the concrete instances of the properties: one leaf with one tuple, as page 1 of a
  disk, behind a pool of two frames without a log.
\<close>

lemma leaf_page_example:
  assumes "tuple_ok t" and "length (EncodeTuple t) \<le> 4060"
  obtains p where "leaf_ok p" and "recs p = [Slice (EncodeTuple t)]" and "Type p = PageTypeLeaf" and "VerifyChecksum p"
    and "ID p = 1" and "NextSib p = 0" and "room_of p = 4060 - length (EncodeTuple t)"
proof -
  let ?p = "Init \<lparr>ID = 1, Data = replicate 4096 0\<rparr> PageTypeLeaf"
  have ok: "page_ok \<lparr>ID = 1, Data = replicate 4096 0\<rparr>" by (rule page_ok_zero)
  note I = page_wf_Init [OF ok, of PageTypeLeaf]
  have srt: "keys_sorted TupleKeyExtract (recs ?p)" using I(2) by (simp add: keys_sorted_def)
  have rm: "room_of ?p = 4064" using I by (simp add: room_of_def)
  obtain pos p' where p': "InsertRecord ?p (EncodeTuple t) TupleKeyExtract = Some (Inr pos, p')" "recs p' = [Slice (EncodeTuple t)]"
    "page_wf p'" "same_meta ?p p'" "room_of p' = 4064 - (length (EncodeTuple t) + 4)"
    using sp.ins_law [OF I(1) srt, of "EncodeTuple t"] assms(2) rm I(2) by (auto simp: insert_at_def)
  have leaf: "leaf_ok p'" using p' assms(1) by (auto simp: leaf_ok_def keys_sorted_def tuple_slice_def)
  have "Type ?p = PageTypeLeaf" "ID ?p = 1" "NextSib ?p = 0" using ok by (simp_all add: Init_sel)
  with p' leaf show thesis
    using page_wf_ok [OF p'(3)]
    by (intro that [of "SetPageLSN p' 0"]) (simp_all add: same_meta_def frame_simps VerifyChecksum_setters)
qed

definition example_disk :: "Page \<Rightarrow> DiskManager" where
  "example_disk p = put_page small_disk 1 (Data p)"

definition example_pool :: "Page \<Rightarrow> BufferPool" where
  "example_pool p = NewPool 2 (example_disk p) None"

lemma example_pool_ok:
  assumes "page_ok p"
  shows "pool_inv (example_pool p)" and "quiet {} (example_pool p)" and "view (example_pool p) 1 = Some (Data p)"
    and "\<not> all_pinned (example_pool p)" and "policy_ok (policy (example_pool p)) (frames (example_pool p))"
    and "wal (example_pool p) = None" and "pageTable (example_pool p) = Map.empty"
proof -
  have d: "dmOpen small_disk" "length (Data p) = PageSize" using assms by (simp_all add: small_disk_def page_ok_def)
  then have "dmOpen (example_disk p)" by (simp add: example_disk_def put_page_def WriteAt_def)
  then have N: "dmOpen (example_disk p)" "wal_ok None" by (simp_all add: wal_ok_def)
  note P = pool_inv_New [OF N, of 2]
  from P(1-3) show "pool_inv (example_pool p)" "quiet {} (example_pool p)"
    "policy_ok (policy (example_pool p)) (frames (example_pool p))" by (simp_all add: example_pool_def)
  show "view (example_pool p) 1 = Some (Data p)"
    using P(4) page_of_put_page_same [OF d, of 1] by (simp add: example_pool_def example_disk_def)
  show "\<not> all_pinned (example_pool p)"
    by (simp add: example_pool_def all_pinned_def NewPool_def emptyFrame_def exI [of _ 0])
qed (simp_all add: example_pool_def NewPool_def)

lemma example_fetch:
  assumes ok: "page_ok p" and v: "VerifyChecksum p" and i: "ID p = 1"
  obtains i bp where "FetchPage (example_pool p) 1 = Some (Inr i, bp)" and "pool_inv bp" and "pinned_at bp i 1"
    and "ReadPageData bp i = p" and "wal bp = None"
proof -
  note E = example_pool_ok [OF ok]
  have one: "(1 :: u32) \<noteq> 0" by simp
  obtain r bp where r: "FetchPage (example_pool p) 1 = Some (r, bp)" "pool_inv bp" "kept (example_pool p) bp" "fetch_result (example_pool p) 1 r bp"
    by (rule FetchPage_ok [OF E(1) one])
  have "good_image (Data p)" using v by (simp add: good_image_def VerifyChecksum_def)
  with r(4) E obtain j where j: "r = Inr j" by (cases r) (auto simp: fetch_result_def)
  note F = pc.fetch_read [OF E(1) one r(1) [unfolded j] E(3)]
  have "wal bp = None" using r(3) E(6) by (simp add: kept_def)
  with r j F i show thesis by (intro that [of j bp]) (simp_all add: )
qed

end
