(* ===== verification/Delete_Props.thy ===== *)
theory Delete_Props
  imports Tree_Example
begin

text \<open>
  The checksum of a page after its bytes change in place: \<open>SetXmax\<close> writes into the record without
  refreshing the checksum, so the image that a delete leaves in the pool is rejected when it is read
  back from the disk.
\<close>

section \<open>A byte changed in place\<close>

lemma stale_byte:
  assumes ok: "page_ok p" and v: "VerifyChecksum p" and k: "32 \<le> k" "k < PageSize" and b: "b \<noteq> Data p ! k"
  shows "\<not> VerifyChecksum (p\<lparr>Data := (Data p)[k := b]\<rparr>)"
proof -
  let ?z = "PutUint32 (Data p) 28 0"
  have l: "length (Data p) = 4096" "k < 4096" using ok k by (simp_all add: page_ok_def page_consts)
  have "PutUint32 ((Data p)[k := b]) 28 0 = ?z[k := b]"
    using l k by (intro nth_equalityI) (auto simp: PutUint32_def nth_put_at nth_list_update)
  moreover have "Uint32 ((Data p)[k := b]) 28 = Uint32 (Data p) 28"
    using k by (simp add: Uint32_def get_at_list_update)
  moreover have "?z ! k = Data p ! k" using l k by (simp add: PutUint32_def nth_put_at)
  ultimately show ?thesis
    using v ChecksumIEEE_one_byte [of k ?z b] l b by (simp add: VerifyChecksum_def Let_def PutUint32_def)
qed

lemma le_bytes_zero: "le_bytes n 0 = replicate n 0"
  by (induction n) simp_all

lemma le_bytes_small:
  assumes "v < 256"
  shows "le_bytes (Suc n) v = (le_bytes (Suc n) 0)[0 := word_of_nat v]"
  using assms by (simp add: le_bytes_zero)

lemma put_at_list_update:
  assumes "off + length xs \<le> length b" and "j < length xs"
  shows "put_at b off (xs[j := y]) = (put_at b off xs)[off + j := y]"
  using assms by (intro nth_equalityI) (auto simp: nth_put_at nth_list_update)

lemma small_word_neq_0:
  assumes "n < 256" and "(word_of_nat n :: 8 word) = 0"
  shows "n = 0"
proof -
  have "unat (word_of_nat n :: 8 word) = n mod 2 ^ LENGTH(8)" by (rule unat_of_nat)
  with assms show ?thesis by simp
qed

lemma SetXmax_stale:
  assumes ok: "leaf_ok p" and v: "VerifyChecksum p" and i: "i < NumSlots p"
    and t: "recs p ! i = Slice (EncodeTuple t)" and x: "Xmax t = 0" "0 < x" "x < 256"
    and s: "SetXmax p i x = Some p'"
  shows "\<not> VerifyChecksum p'"
proof -
  note wf = leaf_ok_wf [OF ok]
  obtain o' l where sl: "slot_at (Data p) i = (o', l)" by fastforce
  have "HeaderSize + i * SlotSize + SlotSize \<le> PageSize"
    using page_wf_bounds [OF wf] i by (simp add: page_consts)
  then obtain sv where sv: "GetSlot p i = Some sv" "slot_at (Data p) i = (unat (Offset sv), unat (Length sv))"
    using GetSlot_slot_at by blast
  have rec: "rec_of (Data p) (o', l) = Slice (EncodeTuple t)" using t i sl by (simp add: recs_def)
  then have e: "l \<noteq> 0" "get_at (Data p) o' l = EncodeTuple t" by (auto simp: rec_of_def split: if_splits)
  have "slots p ! i = (o', l)" using i sl by simp
  then have "in_area (free_end p) (o', l)" using wf i nth_mem [of i "slots p"] by (auto simp: page_wf_def area_ok_def)
  then have area: "32 \<le> o'" "o' + l \<le> 4096" using e(1) page_wf_bounds [OF wf] by (auto simp: in_area_def page_consts)
  have len: "length (Data p) = 4096" using wf by (simp add: page_wf_def page_ok_def page_consts)
  have l: "16 \<le> l" using arg_cong [OF e(2), of length] area len by simp
  have "get_at (Data p) (o' + 8) 8 = get_at (EncodeTuple t) 8 8"
    unfolding e(2) [symmetric] using l by (simp add: get_at_get_at)
  also have "\<dots> = le_bytes 8 0" using x(1) by (simp add: EncodeTuple_append get_at_def)
  finally have old: "get_at (Data p) (o' + 8) 8 = le_bytes 8 0" .
  have u: "unat x < 256" "unat x \<noteq> 0" using x(2,3) unfolding word_less_nat_alt by simp_all
  have D: "put_at (Data p) (o' + 8) (le_bytes 8 0) = Data p"
    using put_at_get_at [of "o' + 8" 8 "Data p"] old area len l by simp
  have "le_bytes 8 (unat x) = (le_bytes 8 0)[0 := word_of_nat (unat x)]" using le_bytes_small [OF u(1), of 7] by simp
  then have "put_at (Data p) (o' + 8) (le_bytes 8 (unat x)) = (Data p)[o' + 8 := word_of_nat (unat x)]"
    using put_at_list_update [of "o' + 8" "le_bytes 8 0" "Data p" 0 "word_of_nat (unat x)"] D area len l by simp
  moreover have "p' = p\<lparr>Data := put_at (Data p) (o' + 8) (le_bytes 8 (unat x))\<rparr>"
    using s leaf_okD(4) [OF ok i] t sv sl by (simp add: SetXmax_def TupleHeaderSize_def PutUint64_def split: if_splits)
  moreover have "Data p ! (o' + 8) = 0"
    using arg_cong [OF old, of "\<lambda>b. b ! 0"] len area l by (simp add: get_at_def le_bytes_zero)
  moreover have "(word_of_nat (unat x) :: 8 word) \<noteq> 0"
    using u(2) small_word_neq_0 [OF u(1)] by metis
  ultimately show ?thesis
    using stale_byte [OF page_wf_ok [OF wf] v, of "o' + 8"] area l by (simp add: page_consts)
qed


section \<open>Deletes through the tree\<close>

lemma putTxn_sel [simp]:
  "bufPool (putTxn bt txn) = bufPool bt" "rootPageID (putTxn bt txn) = rootPageID bt"
  "bloom (putTxn bt txn) = bloom bt" "onRootChange (putTxn bt txn) = onRootChange bt"
  by (simp_all add: putTxn_def split: option.split)

lemma withLog_sel:
  assumes "withLog bt txn f = Some (lsn, txn', bt')"
  shows "frames (bufPool bt') = frames (bufPool bt)" and "pageTable (bufPool bt') = pageTable (bufPool bt)"
    and "disk (bufPool bt') = disk (bufPool bt)" and "rootPageID bt' = rootPageID bt" and "bloom bt' = bloom bt"
    and "txID txn' = txID txn" and "txSnapshot txn' = txSnapshot txn" and "txIsoLevel txn' = txIsoLevel txn"
  using assms by (auto simp: withLog_def Let_def split: option.splits prod.splits bind_splits)

lemma view_write:
  assumes "pageTable (bufPool bt) pid = Some i" and "i < length (frames (bufPool bt))"
  shows "view (bufPool (writeT bt pid p)) pid = Some (Data p)"
  using assms by (simp add: writeT_def WritePageData_def view_def)

lemma markDeleted_page:
  assumes ok: "leaf_ok (readT bt frame)"
    and m: "markDeleted bt txn key frame parents = Some (Inr (slot, old, lsn), txn', bt')"
  obtains s p t bt1 where "slot < NumSlots (readT bt frame)" and "recs (readT bt frame) ! slot = Slice (EncodeTuple t)"
    and "tuple_ok t" and "Xmax t = old" and "Key t = key" and "SetXmax (stampLSN (readT bt frame) s) slot (txID txn) = Some p"
    and "frames (bufPool bt1) = frames (bufPool bt)" and "pageTable (bufPool bt1) = pageTable (bufPool bt)"
    and "bt' = writeT bt1 (framePageID bt frame) p"
proof -
  let ?p = "readT bt frame"
  obtain r where r: "FindVisibleSlot ?p key (txSnapshot txn) (GetStatus (tm bt)) = Some r"
    "first_visible ?p key (txSnapshot txn) (GetStatus (tm bt)) 0 r"
    using FindVisibleSlot_spec [OF ok] by blast
  with m obtain i t where it: "r = (i, Some t)" by (cases r) (auto simp: markDeleted_def Let_def split: option.splits)
  with r(2) have v: "visible_at ?p key (txSnapshot txn) (GetStatus (tm bt)) (nat i) t" by (auto simp: first_visible_def)
  then obtain bs where bs: "nat i < NumSlots ?p" "recs ?p ! nat i = Slice bs" "DecodeTuple bs = Inr t" "Key t = key"
    by (auto simp: visible_at_def)
  then have t: "tuple_ok t" "bs = EncodeTuple t" using leaf_okD(3) [OF ok bs(1,2)] by (auto simp: DecodeTuple_EncodeTuple)
  from m r(1) it obtain s txn1 bt1 p where
    w: "withLog bt txn (\<lambda>w. LogDeleteRecord w (txID txn) (ucast (framePageID bt frame)) (txLastLSN txn) i (Xmax t)) = Some (s, txn1, bt1)"
    and p: "SetXmax (stampLSN ?p s) (nat i) (txID txn1) = Some p" "slot = nat i" "old = Xmax t" "bt' = writeT bt1 (framePageID bt frame) p"
    by (simp add: markDeleted_def Let_def bind_eq_Some_conv split: if_splits) blast+
  show thesis
    using bs t p withLog_sel [OF w] by (intro that [of t s p bt1]) simp_all
qed

section \<open>Properties\<close>




end
