(* ===== verification/Recovery_Props.thy ===== *)
theory Recovery_Props
  imports Recovery
begin

text \<open>
  What restart recovery decides about transactions: the records of the log are in the order of their
  positions, the analysis of a transaction depends on its own records after the last checkpoint, and
  the status that the transaction manager reports afterwards follows from it.
\<close>

section \<open>The log is ordered\<close>

lemma lsn_from_sorted: "lsn_from p rs \<Longrightarrow> sorted_wrt (<) (map rLSN rs)"
proof (induction rs arbitrary: p)
  case (Cons r rs)
  from Cons.prems have r: "unat (rLSN r) = p" "lsn_from (p + length (EncodeLogRecord r)) rs" by simp_all
  have "rLSN r < rLSN s" if "s \<in> set rs" for s
    using lsn_from_bounds [OF r(2) that] r(1) by (simp add: word_less_nat_alt)
  with Cons.IH [OF r(2)] show ?case by simp
qed simp

lemma durable_sorted: "segs_ok fs p ss \<Longrightarrow> sorted_wrt (<) (map rLSN (durable fs ss))"
proof (induction ss arbitrary: p)
  case (Cons s ss)
  note D = segs_ok_Cons [OF Cons.prems]
  show ?case
  proof (cases "ss = []")
    case False
    with D(6) have ok: "segs_ok fs (seg_end fs s) ss" by simp
    have "rLSN x < rLSN y" if "x \<in> set (seg_recs fs s)" "y \<in> set (durable fs ss)" for x y
      using lsn_from_bounds [OF D(3) that(1)] durable_bounds [OF ok that(2)] D(1)
      by (simp add: word_less_nat_alt seg_end_def)
    with Cons.IH [OF ok] lsn_from_sorted [OF D(3)] show ?thesis by (auto simp: sorted_wrt_append)
  qed (use lsn_from_sorted [OF D(3)] in simp)
qed simp

lemma log_sorted:
  assumes "wal_inv w"
  shows "sorted_wrt (<) (map rLSN (log_of w))"
proof -
  note D = wal_invD [OF assms]
  have "rLSN x < rLSN y" if "x \<in> set (durable_of w)" "y \<in> set (scanRecords (buffer w))" for x y
  proof -
    have "x \<in> set (durable (walFS w) (segs w))" using that(1) by (simp add: durable_of_def)
    from durable_bounds [OF D(1) this] lsn_from_bounds [OF D(10) that(2)] D(8) show ?thesis
      by (simp add: word_less_nat_alt)
  qed
  with durable_sorted [OF D(1)] lsn_from_sorted [OF D(10)] show ?thesis
    by (auto simp: log_of_def durable_of_def sorted_wrt_append)
qed

text \<open>A scan from the position of a record returns the record and what follows it.\<close>

lemma scan_suffix:
  assumes "wal_inv w" and "log_of w = pre @ r # post"
  obtains w' where "ScanFrom w (rLSN r) = (Inr (), r # post, w')" and "wal_inv w'" and "log_of w' = log_of w"
proof -
  from log_sorted [OF assms(1)] assms(2) have s: "\<forall>x \<in> set pre. rLSN x < rLSN r" "\<forall>x \<in> set post. rLSN r < rLSN x"
    by (auto simp: sorted_wrt_append)
  then have "filter (\<lambda>x. rLSN r \<le> rLSN x) pre = []" "filter (\<lambda>x. rLSN r \<le> rLSN x) post = post"
    by (auto simp: filter_empty_conv filter_id_conv)
  then have "filter (\<lambda>x. rLSN r \<le> rLSN x) (log_of w) = r # post" by (simp add: assms(2))
  moreover have r: "r \<in> set (log_of w)" by (simp add: assms(2))
  moreover have "unat (rLSN r) < 2 ^ 63" using log_bounds [OF assms(1) r] wal_invD(12) [OF assms(1)] by simp
  ultimately show thesis using ScanFrom_ok [OF assms(1), of "rLSN r"] by (auto intro: that)
qed

lemma scan_all:
  assumes "wal_inv w"
  obtains w' where "ScanFrom w 0 = (Inr (), log_of w, w')" and "wal_inv w'" and "log_of w' = log_of w"
  using ScanFrom_ok [OF assms, of 0] by (auto intro: that)

section \<open>The last checkpoint\<close>

lemma foldl_last_checkpoint:
  "\<forall>r \<in> set rs. rType r \<noteq> LogCheckpoint \<Longrightarrow>
    foldl (\<lambda>lastCkpt r. if rType r = LogCheckpoint then rLSN r else lastCkpt) l rs = l"
  by (induction rs) auto

lemma FindLastCheckpoint_ok:
  assumes "wal_inv w" and "log_of w = pre @ ck # post" and "rType ck = LogCheckpoint"
    and "\<forall>r \<in> set post. rType r \<noteq> LogCheckpoint"
  obtains w' where "FindLastCheckpoint w = (rLSN ck, w')" and "wal_inv w'" and "log_of w' = log_of w"
proof -
  obtain w' where w': "ScanFrom w 0 = (Inr (), log_of w, w')" "wal_inv w'" "log_of w' = log_of w"
    by (rule scan_all [OF assms(1)])
  then show thesis
    by (intro that [of w']) (simp_all add: FindLastCheckpoint_def assms foldl_last_checkpoint)
qed

lemma Analyze_ok:
  assumes "wal_inv w" and "log_of w = pre @ ck # post" and "rType ck = LogCheckpoint" and "rLSN ck \<noteq> 0"
    and "DecodeCheckpoint jc (rPayload ck) = Inr c"
  obtains w' where "Analyze jc w (rLSN ck) = (foldl (analyzeRecord (rLSN ck)) (startAnalysis (Some c)) post, w')"
    and "wal_inv w'" and "log_of w' = log_of w"
proof -
  have "ck \<in> set (log_of w)" by (simp add: assms(2))
  then obtain w1 where w1: "FetchRecord w (rLSN ck) = (Inr ck, w1)" "wal_inv w1" "log_of w1 = log_of w"
    using FetchRecord_ok [OF assms(1)] by blast
  obtain w2 where w2: "ScanFrom w1 (rLSN ck) = (Inr (), ck # post, w2)" "wal_inv w2" "log_of w2 = log_of w1"
    by (rule scan_suffix [OF w1(2)]) (simp add: w1(3) assms(2))
  have "fetchCheckpoint jc w (rLSN ck) = (Some c, w1)"
    by (simp add: fetchCheckpoint_def assms(3-5) w1(1))
  moreover have "analyzeRecord (rLSN ck) st ck = st" for st by (simp add: analyzeRecord_def assms(3))
  ultimately show thesis
    using w2 w1(3) by (intro that [of w2]) (simp_all add: Analyze_def)
qed

section \<open>Analysis of one transaction\<close>

definition tracked :: "LogRecord \<Rightarrow> bool" where
  "tracked r \<longleftrightarrow> rType r \<in> {LogInsert, LogDelete, LogUpdate, LogCLR, LogSplit, LogMerge, LogRootChange}"

lemmas log_types = LogBegin_def LogCommit_def LogAbort_def LogInsert_def LogDelete_def LogUpdate_def LogSplit_def
  LogMerge_def LogCLR_def LogCheckpoint_def LogRootChange_def

definition status_step :: "TxnStatus option \<Rightarrow> LogRecord \<Rightarrow> TxnStatus option" where
  "status_step s r =
     (if rType r = LogBegin then Some TxnActive else if rType r = LogCommit then Some TxnCommitted
      else if rType r = LogAbort then Some TxnAborted
      else if tracked r then Some (case s of None \<Rightarrow> TxnActive | Some s \<Rightarrow> s) else s)"

definition outcome_step :: "TxnStatus option \<Rightarrow> LogRecord \<Rightarrow> TxnStatus option" where
  "outcome_step s r =
     (if rType r = LogCommit then Some TxnCommitted else if rType r = LogAbort then Some TxnAborted else s)"

definition att_status :: "analysisState \<Rightarrow> u64 \<Rightarrow> TxnStatus option" where
  "att_status st i = map_option aeStatus (map_of (asATT st) i)"

lemma analysis_parts [simp]:
  "asATT (addDPT p l st) = asATT st" "asStatuses (addDPT p l st) = asStatuses st" "asMaxTxnID (addDPT p l st) = asMaxTxnID st"
  "asATT (addPayloadPage b k l st) = asATT st" "asStatuses (addPayloadPage b k l st) = asStatuses st"
  "asMaxTxnID (addPayloadPage b k l st) = asMaxTxnID st" "asNextTxnID (addDPT p l st) = asNextTxnID st"
  "asNextTxnID (addPayloadPage b k l st) = asNextTxnID st"
  "asStatuses (setATT i s l st) = asStatuses st" "asStatuses (touchATT i l st) = asStatuses st"
  "asMaxTxnID (setATT i s l st) = asMaxTxnID st" "asMaxTxnID (touchATT i l st) = asMaxTxnID st"
  "asNextTxnID (setATT i s l st) = asNextTxnID st" "asNextTxnID (touchATT i l st) = asNextTxnID st"
  "asATT (setStatus i s st) = asATT st" "asMaxTxnID (setStatus i s st) = asMaxTxnID st"
  "asNextTxnID (setStatus i s st) = asNextTxnID st"
  by (simp_all add: addDPT_def addPayloadPage_def setATT_def touchATT_def setStatus_def Let_def split: option.splits)

lemma att_status_parts [simp]:
  "att_status (addDPT p l st) i = att_status st i" "att_status (addPayloadPage b k l st) i = att_status st i"
  "att_status (setStatus j s st) i = att_status st i" "att_status (st\<lparr>asMaxTxnID := m\<rparr>) i = att_status st i"
  "att_status (setATT j s l st) i = (if i = j then Some s else att_status st i)"
  "att_status (touchATT j l st) i = (if i = j then Some (case att_status st i of None \<Rightarrow> TxnActive | Some s \<Rightarrow> s) else att_status st i)"
  by (simp_all add: att_status_def setATT_def touchATT_def update_conv' Let_def split: option.splits)

lemma analyzeRecord_att:
  assumes "i \<noteq> 0" and "rType r \<noteq> LogCheckpoint"
  shows "att_status (analyzeRecord cl st r) i = (if rTxnID r = i then status_step (att_status st i) r else att_status st i)"
  using assms by (simp add: analyzeRecord_def status_step_def tracked_def Let_def)

lemma analyzeRecord_outcome:
  assumes "rType r \<noteq> LogCheckpoint"
  shows "map_of (asStatuses (analyzeRecord cl st r)) i =
    (if rTxnID r = i then outcome_step (map_of (asStatuses st) i) r else map_of (asStatuses st) i)"
  using assms by (simp add: analyzeRecord_def outcome_step_def Let_def setStatus_def update_conv') (auto simp: log_types)

lemma analyzeRecord_distinct:
  assumes "distinct (map fst (asATT st))" and "distinct (map fst (asStatuses st))"
  shows "distinct (map fst (asATT (analyzeRecord cl st r))) \<and> distinct (map fst (asStatuses (analyzeRecord cl st r)))"
  using assms by (simp add: analyzeRecord_def Let_def setStatus_def setATT_def touchATT_def distinct_update)

lemma analyzeRecord_ids:
  "asNextTxnID (analyzeRecord cl st r) = asNextTxnID st" "asMaxTxnID st \<le> asMaxTxnID (analyzeRecord cl st r)"
  by (simp_all add: analyzeRecord_def Let_def order.strict_implies_order)

definition of_txn :: "u64 \<Rightarrow> LogRecord list \<Rightarrow> LogRecord list" where
  "of_txn i rs = filter (\<lambda>r. rTxnID r = i) rs"

lemma analysis_of_txn:
  assumes "i \<noteq> 0" and "\<forall>r \<in> set rs. rType r \<noteq> LogCheckpoint"
  shows "att_status (foldl (analyzeRecord cl) st rs) i = foldl status_step (att_status st i) (of_txn i rs)"
    and "map_of (asStatuses (foldl (analyzeRecord cl) st rs)) i = foldl outcome_step (map_of (asStatuses st) i) (of_txn i rs)"
  using assms(2) by (induction rs arbitrary: st) (simp_all add: of_txn_def analyzeRecord_att [OF assms(1)] analyzeRecord_outcome)

lemma analysis_frame:
  assumes "distinct (map fst (asATT st)) \<and> distinct (map fst (asStatuses st))"
  shows "(distinct (map fst (asATT (foldl (analyzeRecord cl) st rs))) \<and>
      distinct (map fst (asStatuses (foldl (analyzeRecord cl) st rs)))) \<and>
    asNextTxnID (foldl (analyzeRecord cl) st rs) = asNextTxnID st \<and>
    asMaxTxnID st \<le> asMaxTxnID (foldl (analyzeRecord cl) st rs)"
  using assms
proof (induction rs arbitrary: st)
  case (Cons r rs)
  have "distinct (map fst (asATT (analyzeRecord cl st r))) \<and> distinct (map fst (asStatuses (analyzeRecord cl st r)))"
    using Cons.prems by (intro analyzeRecord_distinct) simp_all
  from Cons.IH [OF this] analyzeRecord_ids(1) [of cl st r] analyzeRecord_ids(2) [of st cl r] show ?case by auto
qed simp

section \<open>The restored statuses\<close>

lemma restore_fold:
  "distinct (map fst xs) \<Longrightarrow> statusTable (foldl (\<lambda>m (i, s). RestoreStatus m i s) txm xs) i =
    (case map_of xs i of None \<Rightarrow> statusTable txm i | Some s \<Rightarrow> Some s)"
proof (induction xs arbitrary: txm)
  case (Cons x xs)
  obtain j s where x: "x = (j, s)" by (cases x)
  with Cons.prems have "map_of xs j = None" by (auto simp: map_of_eq_None_iff)
  then show ?case using Cons x by (cases "map_of xs i") (auto simp: RestoreStatus_def)
qed simp

lemma restore_active:
  "distinct (map fst xs) \<Longrightarrow>
    statusTable (foldl (\<lambda>m (i, e). if aeStatus e = TxnActive then RestoreStatus m i TxnAborted else m) txm xs) i =
    (if map_option aeStatus (map_of xs i) = Some TxnActive then Some TxnAborted else statusTable txm i)"
proof (induction xs arbitrary: txm)
  case (Cons x xs)
  obtain j e where x: "x = (j, e)" by (cases x)
  with Cons.prems have "map_of xs j = None" by (auto simp: map_of_eq_None_iff)
  with Cons x show ?case by (auto simp: RestoreStatus_def map_of_eq_None_iff image_iff)
qed simp

lemma restore_other:
  "activeTxns (foldl (\<lambda>m (i, s). RestoreStatus m i s) txm xs) = activeTxns txm"
  "recoveredCommittedFloor (foldl (\<lambda>m (i, s). RestoreStatus m i s) txm xs) = recoveredCommittedFloor txm"
  "activeTxns (foldl (\<lambda>m (i, e). if aeStatus e = TxnActive then RestoreStatus m i TxnAborted else m) txm ys) = activeTxns txm"
  "recoveredCommittedFloor (foldl (\<lambda>m (i, e). if aeStatus e = TxnActive then RestoreStatus m i TxnAborted else m) txm ys) =
    recoveredCommittedFloor txm"
  by (induction xs arbitrary: txm, simp_all add: RestoreStatus_def split_beta)
    (induction ys arbitrary: txm, simp_all add: RestoreStatus_def split_beta)+

text \<open>The status of a transaction below the recovered floor.\<close>

lemma restored_status:
  assumes "distinct (map fst (asATT st)) \<and> distinct (map fst (asStatuses st))"
    and "0 < i" and "i < asNextTxnID st"
  shows "GetStatus (restoreStatuses (recoverIDs NewTransactionManager st) st) i =
    (if att_status st i = Some TxnActive then TxnAborted
     else case map_of (asStatuses st) i of Some s \<Rightarrow> s | None \<Rightarrow> TxnCommitted)"
proof -
  let ?m = "recoverIDs NewTransactionManager st"
  have m: "activeTxns ?m = []" "statusTable ?m = Map.empty" "i < recoveredCommittedFloor ?m"
    using assms(2,3)
    by (auto simp: recoverIDs_def NewTransactionManager_def SetRecoveredCommittedFloor_def AdvanceNextTxnID_def Let_def)
  then have z: "recoveredCommittedFloor ?m \<noteq> 0" "i \<noteq> 0" using assms(2) by auto
  define t where "t = restoreStatuses ?m st"
  have "statusTable t i = (if att_status st i = Some TxnActive then Some TxnAborted else map_of (asStatuses st) i)"
    using m(2) restore_fold [of "asStatuses st" ?m i] assms(1)
    unfolding t_def restoreStatuses_def Let_def att_status_def
    by (subst restore_active) (auto split: option.splits)
  moreover have "activeTxns t = []" "recoveredCommittedFloor t = recoveredCommittedFloor ?m"
    by (simp_all add: t_def restoreStatuses_def Let_def restore_other m(1))
  ultimately have "GetStatus t i = (if att_status st i = Some TxnActive then TxnAborted
     else case map_of (asStatuses st) i of Some s \<Rightarrow> s | None \<Rightarrow> TxnCommitted)"
    using z m(3) by (simp add: GetStatus_def split: option.split)
  then show ?thesis by (simp add: t_def)
qed

section \<open>Statuses after a restart\<close>

text \<open>What the log after the checkpoint says about a transaction.\<close>

definition recovered :: "CheckpointRecord \<Rightarrow> LogRecord list \<Rightarrow> u64 \<Rightarrow> TxnStatus" where
  "recovered c post i =
     (if foldl status_step (map_option aeStatus (map_of (ckATT c) i)) (of_txn i post) = Some TxnActive then TxnAborted
      else case foldl outcome_step None (of_txn i post) of Some s \<Rightarrow> s | None \<Rightarrow> TxnCommitted)"

lemma analyzed_status:
  assumes "distinct (map fst (ckATT c))" and "\<forall>r \<in> set post. rType r \<noteq> LogCheckpoint" and "0 < i" and "i < ckNextTxnID c"
    and "st = foldl (analyzeRecord cl) (startAnalysis (Some c)) post"
  shows "GetStatus (restoreStatuses (recoverIDs NewTransactionManager st) st) i = recovered c post i"
proof -
  let ?s = "startAnalysis (Some c)"
  have s: "distinct (map fst (asATT ?s)) \<and> distinct (map fst (asStatuses ?s))" "asNextTxnID ?s = ckNextTxnID c"
    "att_status ?s i = map_option aeStatus (map_of (ckATT c) i)" "map_of (asStatuses ?s) i = None"
    using assms(1) by (simp_all add: startAnalysis_def Let_def att_status_def)
  have "i \<noteq> 0" using assms(3) by auto
  note a = analysis_of_txn [OF this assms(2), of cl ?s, folded assms(5), unfolded s]
  have "distinct (map fst (asATT st)) \<and> distinct (map fst (asStatuses st))" "i < asNextTxnID st"
    using analysis_frame [OF s(1), of cl post] s(2) assms(4,5) by simp_all
  from restored_status [OF this(1) assms(3) this(2)] show ?thesis by (simp add: a recovered_def)
qed

lemma Recover_statuses:
  assumes "Recover jc bp NewTransactionManager = Some (Inr (), bp', m')" and "wal bp = Some w" and "wal_inv w"
    and "log_of w = pre @ ck # post" and "rType ck = LogCheckpoint" and "rLSN ck \<noteq> 0"
    and "\<forall>r \<in> set post. rType r \<noteq> LogCheckpoint" and "DecodeCheckpoint jc (rPayload ck) = Inr c"
    and "distinct (map fst (ckATT c))" and "0 < i" and "i < ckNextTxnID c"
  shows "GetStatus m' i = recovered c post i"
proof -
  obtain w1 where w1: "FindLastCheckpoint w = (rLSN ck, w1)" "wal_inv w1" "log_of w1 = log_of w"
    by (rule FindLastCheckpoint_ok [OF assms(3-5,7)])
  obtain w2 where w2: "Analyze jc w1 (rLSN ck) = (foldl (analyzeRecord (rLSN ck)) (startAnalysis (Some c)) post, w2)"
    by (rule Analyze_ok [OF w1(2) _ assms(5,6,8), of pre post]) (simp_all add: w1(3) assms(4))
  have "m' = (let st = foldl (analyzeRecord (rLSN ck)) (startAnalysis (Some c)) post in
      restoreStatuses (recoverIDs NewTransactionManager st) st)"
    using assms(1) by (auto simp: Recover_def assms(2) w1(1) w2 Let_def bind_eq_Some_conv split: sum.splits)
      (metis old.unit.exhaust sumE)+
  with analyzed_status [OF assms(9,7,10,11) refl, of "rLSN ck"] show ?thesis by (simp add: Let_def)
qed

lemma fold_steps:
  "\<forall>r \<in> set rs. rType r \<noteq> LogCommit \<and> rType r \<noteq> LogAbort \<Longrightarrow> foldl outcome_step s rs = s"
  "\<forall>r \<in> set rs. rType r \<noteq> LogCommit \<and> rType r \<noteq> LogAbort \<Longrightarrow> foldl status_step (Some TxnActive) rs = Some TxnActive"
  by (induction rs arbitrary: s) (simp_all add: outcome_step_def status_step_def)

lemma recovered_cases:
  "of_txn i post = rs @ [r] \<Longrightarrow> rType r = LogCommit \<Longrightarrow> recovered c post i = TxnCommitted"
  "of_txn i post = rs @ [r] \<Longrightarrow> rType r = LogAbort \<Longrightarrow> recovered c post i = TxnAborted"
  "of_txn i post = [] \<Longrightarrow> map_of (ckATT c) i = None \<Longrightarrow> recovered c post i = TxnCommitted"
  by (simp_all add: recovered_def outcome_step_def status_step_def log_types)

lemma recovered_loser:
  assumes "\<forall>r \<in> set (of_txn i post). (rType r = LogBegin \<or> tracked r) "
    and "(case map_of (ckATT c) i of Some e \<Rightarrow> aeStatus e = TxnActive | None \<Rightarrow> of_txn i post \<noteq> [])"
  shows "recovered c post i = TxnAborted"
proof -
  have n: "\<forall>r \<in> set (of_txn i post). rType r \<noteq> LogCommit \<and> rType r \<noteq> LogAbort"
    using assms(1) by (auto simp: tracked_def log_types)
  have "foldl status_step (map_option aeStatus (map_of (ckATT c) i)) (of_txn i post) = Some TxnActive"
  proof (cases "map_of (ckATT c) i")
    case None
    with assms(2) obtain r rs where r: "of_txn i post = r # rs" by (cases "of_txn i post") auto
    with assms(1) n have "status_step None r = Some TxnActive" by (auto simp: status_step_def)
    with None r n show ?thesis by (simp add: fold_steps)
  next
    case (Some e)
    with assms(2) n show ?thesis by (simp add: fold_steps)
  qed
  then show ?thesis by (simp add: recovered_def)
qed

text \<open>With no dirty page and no loser there is nothing to redo and nothing to undo.\<close>

lemma Recover_quiet:
  assumes "wal bp = Some w" and "FindLastCheckpoint w = (l, w1)" and "Analyze jc w1 l = (st, w2)" and "asDPT st = []"
    and "losers (asATT st) = []"
  shows "Recover jc bp txm = Some (Inr (), bp\<lparr>wal := Some w2\<rparr>, restoreStatuses (recoverIDs txm st) st)"
  by (simp add: Recover_def assms Redo_def Undo_def undoLoop.simps)

text \<open>
  C9. The outcome of transactions after a restart. When recovery succeeds on a log whose last checkpoint
  is followed by the records \<open>post\<close>, then for every transaction id below the checkpoint's next id: it is
  committed when its last record after the checkpoint is a commit, aborted when that is an abort, and
  aborted when it was active at the checkpoint or has records after it and did not finish. An id
  that is neither in the checkpoint nor in the log after it counts as committed.
\<close>

theorem recovery_statuses:
  assumes "Recover jc bp NewTransactionManager = Some (Inr (), bp', m')" and "wal bp = Some w" and "wal_inv w"
    and "log_of w = pre @ ck # post" and "rType ck = LogCheckpoint" and "rLSN ck \<noteq> 0"
    and "\<forall>r \<in> set post. rType r \<noteq> LogCheckpoint" and "DecodeCheckpoint jc (rPayload ck) = Inr c"
    and "distinct (map fst (ckATT c))" and "0 < i" and "i < ckNextTxnID c"
  shows "(of_txn i post \<noteq> [] \<and> rType (last (of_txn i post)) = LogCommit \<longrightarrow> GetStatus m' i = TxnCommitted) \<and>
    (of_txn i post \<noteq> [] \<and> rType (last (of_txn i post)) = LogAbort \<longrightarrow> GetStatus m' i = TxnAborted) \<and>
    ((\<forall>r \<in> set (of_txn i post). rType r = LogBegin \<or> tracked r) \<and>
      (case map_of (ckATT c) i of Some e \<Rightarrow> aeStatus e = TxnActive | None \<Rightarrow> of_txn i post \<noteq> []) \<longrightarrow>
      GetStatus m' i = TxnAborted) \<and>
    (of_txn i post = [] \<and> map_of (ckATT c) i = None \<longrightarrow> GetStatus m' i = TxnCommitted)"
proof (intro conjI impI)
  note R = Recover_statuses [OF assms]
  show "GetStatus m' i = TxnCommitted" if "of_txn i post \<noteq> [] \<and> rType (last (of_txn i post)) = LogCommit"
    using recovered_cases(1) [of i post _ "last (of_txn i post)"] that R append_butlast_last_id by metis
  show "GetStatus m' i = TxnAborted" if "of_txn i post \<noteq> [] \<and> rType (last (of_txn i post)) = LogAbort"
    using recovered_cases(2) [of i post _ "last (of_txn i post)"] that R append_butlast_last_id by metis
  show "GetStatus m' i = TxnAborted" if "(\<forall>r \<in> set (of_txn i post). rType r = LogBegin \<or> tracked r) \<and>
      (case map_of (ckATT c) i of Some e \<Rightarrow> aeStatus e = TxnActive | None \<Rightarrow> of_txn i post \<noteq> [])"
    unfolding R by (rule recovered_loser [OF conjunct1 [OF that] conjunct2 [OF that]])
  show "GetStatus m' i = TxnCommitted" if "of_txn i post = [] \<and> map_of (ckATT c) i = None"
    using recovered_cases(3) that R by simp
qed

text \<open>A log with a checkpoint and one commit after it.\<close>

definition example_codec :: "CheckpointRecord \<Rightarrow> JSONCodec" where
  "example_codec c = \<lparr>Marshal = (\<lambda>_. Inr []), Unmarshal = (\<lambda>_. Inr c)\<rparr>"

definition quiet_checkpoint :: "u64 \<Rightarrow> CheckpointRecord" where
  "quiet_checkpoint n = \<lparr>ckDPT = [], ckATT = [], ckNextTxnID = n\<rparr>"

lemma checkpoint_example:
  obtains w ck r where "wal_inv w" and "log_of w = [emptyLogRecord] @ ck # [r]" and "rType ck = LogCheckpoint"
    and "rLSN ck = 37" and "rPayload ck = []" and "rType r = LogCommit" and "rTxnID r = 1"
proof -
  obtain w0 where w0: "wal_inv w0" "log_of w0 = [emptyLogRecord]" "currentLSN w0 = 37" by (rule log_example)
  define ck r where "ck = emptyLogRecord\<lparr>rType := LogCheckpoint\<rparr>"
    and "r = emptyLogRecord\<lparr>rType := LogCommit, rTxnID := 1\<rparr>"
  have ok: "logrec_ok ck" "logrec_ok r" "length (EncodeLogRecord ck) = 37" "length (EncodeLogRecord r) = 37"
    by (simp_all add: ck_def r_def logrec_ok_def emptyLogRecord_def)
  obtain w1 where w1: "wal_inv w1" "log_of w1 = log_of w0 @ [ck\<lparr>rLSN := 37\<rparr>]" "unat (currentLSN w1) = 74"
    using AppendRecord_ok [OF w0(1) ok(1)] ok(3) w0(3) by auto
  obtain w2 where w2: "wal_inv w2" "log_of w2 = log_of w1 @ [r\<lparr>rLSN := currentLSN w1\<rparr>]"
    using AppendRecord_ok [OF w1(1) ok(2)] ok(4) w1(3) by auto
  show thesis
    by (rule that [OF w2(1), of "ck\<lparr>rLSN := 37\<rparr>" "r\<lparr>rLSN := currentLSN w1\<rparr>"])
      (simp_all add: w2(2) w1(2) w0(2) ck_def r_def emptyLogRecord_def)
qed

theorem recovery_statuses_witness:
  "\<exists>w ck r bp' m'. log_of w = [emptyLogRecord] @ ck # [r] \<and>
    Recover (example_codec (quiet_checkpoint 5)) ((NewPool 2 small_disk None)\<lparr>wal := Some w\<rparr>) NewTransactionManager = Some (Inr (), bp', m') \<and>
    GetStatus m' 1 = TxnCommitted"
proof -
  let ?c = "quiet_checkpoint 5"
  let ?jc = "example_codec ?c"
  obtain w ck r where w: "wal_inv w" "log_of w = [emptyLogRecord] @ ck # [r]" and ck: "rType ck = LogCheckpoint"
    "rLSN ck = 37" "rPayload ck = []" and r: "rType r = LogCommit" "rTxnID r = 1" by (rule checkpoint_example)
  let ?bp = "(NewPool 2 small_disk None)\<lparr>wal := Some w\<rparr>"
  have d: "DecodeCheckpoint ?jc (rPayload ck) = Inr ?c" by (simp add: DecodeCheckpoint_def example_codec_def)
  have post: "\<forall>r \<in> set [r]. rType r \<noteq> LogCheckpoint" by (simp add: r log_types)
  obtain w1 where w1: "FindLastCheckpoint w = (rLSN ck, w1)" "wal_inv w1" "log_of w1 = log_of w"
    by (rule FindLastCheckpoint_ok [OF w ck(1) post])
  have nz: "rLSN ck \<noteq> 0" by (simp add: ck(2))
  define st where "st = foldl (analyzeRecord (rLSN ck)) (startAnalysis (Some ?c)) [r]"
  obtain w2 where w2: "Analyze ?jc w1 (rLSN ck) = (st, w2)"
    by (rule Analyze_ok [OF w1(2) _ ck(1) nz d, of "[emptyLogRecord]" "[r]"]) (simp_all add: w1(3) w(2) st_def)
  have st: "asDPT st = [] \<and> losers (asATT st) = []"
    by (simp add: st_def startAnalysis_def quiet_checkpoint_def Let_def maxID_def analyzeRecord_def r setATT_def setStatus_def
        losers_def log_types)
  then obtain bp' m' where R: "Recover ?jc ?bp NewTransactionManager = Some (Inr (), bp', m')"
    using Recover_quiet [of ?bp w "rLSN ck" w1 ?jc st w2] w1(1) w2 by auto
  have "GetStatus m' 1 = TxnCommitted"
    using recovery_statuses [OF R _ w ck(1) nz post d, of 1] r by (simp add: quiet_checkpoint_def of_txn_def)
  with w(2) R show ?thesis by blast
qed

lemma WriteCheckpoint_quiet:
  assumes "wal_inv w" and "a \<in> set (log_of w)" and "Marshal jc \<lparr>ckDPT = [], ckATT = [], ckNextTxnID = nextID\<rparr> = Inr payload"
    and "length payload < 2 ^ 32" and "unat (currentLSN w) + 37 + length payload < 2 ^ 63"
  obtains ck w' pre where "WriteCheckpoint jc w [] [] nextID = Some (Inr (rLSN ck), w')" and "wal_inv w'"
    and "log_of w' = pre @ [ck]" and "rType ck = LogCheckpoint" and "rLSN ck \<noteq> 0" and "rPayload ck = payload"
proof -
  let ?r = "emptyLogRecord\<lparr>rType := LogCheckpoint, rPayload := payload\<rparr>"
  define ck where "ck = ?r\<lparr>rLSN := currentLSN w\<rparr>"
  have "logrec_ok ?r" "length (EncodeLogRecord ?r) = 37 + length payload"
    using assms(4) by (simp_all add: logrec_ok_def emptyLogRecord_def)
  then obtain w1 where w1: "AppendRecord w ?r = Some (currentLSN w, w1)" "wal_inv w1" "log_of w1 = log_of w @ [ck]"
    using AppendRecord_ok [OF assms(1), of ?r] assms(5) by (auto simp: ck_def)
  obtain w2 where w2: "FlushUpTo w1 (currentLSN w) = (Inr (), w2)" "wal_inv w2" "log_of w2 = log_of w1"
    using FlushUpTo_ok [OF w1(2), of "currentLSN w"] by blast
  let ?w3 = "TruncateUpTo w2 (currentLSN w)"
  obtain pre where w3: "wal_inv ?w3" "log_of w2 = pre @ log_of ?w3" "\<forall>r \<in> set pre. rLSN r < currentLSN w"
    using TruncateUpTo_ok [OF w2(2), of "currentLSN w"] by blast
  have ck: "rLSN ck = currentLSN w" "rType ck = LogCheckpoint" "rPayload ck = payload" by (simp_all add: ck_def)
  then have "log_of ?w3 \<noteq> []" using w3(2,3) w1(3) w2(3) by auto
  then have "log_of ?w3 = butlast (log_of ?w3) @ [ck]"
    using w3(2) w1(3) w2(3) by (metis append_butlast_last_id last_appendR last_snoc)
  moreover have "unat (currentLSN w) > 0" using log_bounds [OF assms(1,2)] by simp
  then have "currentLSN w \<noteq> 0" by auto
  moreover have "WriteCheckpoint jc w [] [] nextID = Some (Inr (rLSN ck), ?w3)"
    by (simp add: WriteCheckpoint_def EncodeCheckpoint_def assms(3) w1(1) w2(1) minDPTRecLSN_def ck(1))
  ultimately show thesis using that w3(1) ck by metis
qed

text \<open>
  C19. A checkpoint followed by a restart turns aborted transactions into committed ones. When a
  checkpoint is written while no page is dirty and no transaction is active, and the log has an abort record
  of transaction \<open>i\<close>, recovery from that checkpoint succeeds and reports \<open>i\<close> as committed, so the
  tuples it left in the pages become visible: the checkpoint does not record outcomes and the records
  before it are not analysed.
\<close>

theorem restart_commits_aborted:
  assumes "wal_inv w" and "a \<in> set (log_of w)" and "rType a = LogAbort" and "rTxnID a = i" and "0 < i" and "i < nextID"
    and "Marshal jc \<lparr>ckDPT = [], ckATT = [], ckNextTxnID = nextID\<rparr> = Inr payload"
    and "Unmarshal jc payload = Inr \<lparr>ckDPT = [], ckATT = [], ckNextTxnID = nextID\<rparr>"
    and "length payload < 2 ^ 32" and "unat (currentLSN w) + 37 + length payload < 2 ^ 63"
    and "Xmin t = i" and "Xmax t = 0" and "creator \<noteq> i"
  shows "\<exists>lsn w' bp' m'. WriteCheckpoint jc w [] [] nextID = Some (Inr lsn, w') \<and>
    Recover jc (bp\<lparr>wal := Some w'\<rparr>) NewTransactionManager = Some (Inr (), bp', m') \<and>
    GetStatus m' i = TxnCommitted \<and> IsVisible (takeSnapshotLocked m' creator) t (GetStatus m')"
proof -
  let ?c = "\<lparr>ckDPT = [], ckATT = [], ckNextTxnID = nextID\<rparr> :: CheckpointRecord"
  obtain ck w' pre where W: "WriteCheckpoint jc w [] [] nextID = Some (Inr (rLSN ck), w')"
    and w': "wal_inv w'" "log_of w' = pre @ [ck]" "rType ck = LogCheckpoint" and nz: "rLSN ck \<noteq> 0"
    and d: "DecodeCheckpoint jc (rPayload ck) = Inr ?c"
    using WriteCheckpoint_quiet [OF assms(1,2,7,9,10)] assms(8) unfolding DecodeCheckpoint_def by metis
  obtain w1 where w1: "FindLastCheckpoint w' = (rLSN ck, w1)" "wal_inv w1" "log_of w1 = log_of w'"
    by (rule FindLastCheckpoint_ok [OF w']) simp_all
  define st where "st = startAnalysis (Some ?c)"
  obtain w2 where w2: "Analyze jc w1 (rLSN ck) = (st, w2)"
    by (rule Analyze_ok [OF w1(2) _ w'(3) nz d, of pre "[]"]) (simp_all add: w1(3) w'(2) st_def)
  define m' where "m' = restoreStatuses (recoverIDs NewTransactionManager st) st"
  have st: "asDPT st = []" "losers (asATT st) = []" "asNextTxnID st = nextID" "asATT st = []" "asStatuses st = []"
    by (simp_all add: st_def startAnalysis_def Let_def losers_def)
  have R: "Recover jc (bp\<lparr>wal := Some w'\<rparr>) NewTransactionManager = Some (Inr (), bp\<lparr>wal := Some w2\<rparr>, m')"
    using Recover_quiet [OF _ w1(1) w2 st(1,2), of "bp\<lparr>wal := Some w'\<rparr>"] by (simp add: m'_def)
  have "GetStatus m' i = recovered ?c [] i"
    using analyzed_status [of ?c "[]" i] assms(5,6) by (simp add: m'_def st_def)
  then have g: "GetStatus m' i = TxnCommitted" by (simp add: recovered_cases(3) of_txn_def)
  have "activeTxns m' = []" "nextID \<le> nextTxnID m'"
    using assms(6)
    by (auto simp: m'_def restoreStatuses_def st recoverIDs_def NewTransactionManager_def AdvanceNextTxnID_def
        SetRecoveredCommittedFloor_def Let_def word_gt_0)
  then have "IsVisible (takeSnapshotLocked m' creator) t (GetStatus m')"
    using g assms(6,11-13) by (simp add: IsVisible_def takeSnapshotLocked_def Let_def checkXmax_def)
  with W R g show ?thesis by blast
qed

theorem restart_commits_aborted_witness:
  "\<exists>w a w' lsn bp' m'. a \<in> set (log_of w) \<and> rType a = LogAbort \<and> rTxnID a = 1 \<and>
    WriteCheckpoint (example_codec (quiet_checkpoint 5)) w [] [] 5 = Some (Inr lsn, w') \<and>
    Recover (example_codec (quiet_checkpoint 5)) ((NewPool 2 small_disk None)\<lparr>wal := Some w'\<rparr>) NewTransactionManager =
      Some (Inr (), bp', m') \<and>
    GetStatus m' 1 = TxnCommitted"
proof -
  let ?jc = "example_codec (quiet_checkpoint 5)"
  obtain w0 where w0: "wal_inv w0" "log_of w0 = [emptyLogRecord]" "currentLSN w0 = 37" by (rule log_example)
  define r where "r = emptyLogRecord\<lparr>rType := LogAbort, rTxnID := 1\<rparr>"
  have ok: "logrec_ok r" "length (EncodeLogRecord r) = 37" by (simp_all add: r_def logrec_ok_def emptyLogRecord_def)
  obtain w where w: "wal_inv w" "log_of w = log_of w0 @ [r\<lparr>rLSN := 37\<rparr>]" "unat (currentLSN w) = 74"
    using AppendRecord_ok [OF w0(1) ok(1)] ok(2) w0(3) by auto
  let ?a = "r\<lparr>rLSN := 37\<rparr>"
  have a: "?a \<in> set (log_of w)" "rType ?a = LogAbort" "rTxnID ?a = 1" by (simp_all add: w(2) r_def)
  have j: "Marshal ?jc \<lparr>ckDPT = [], ckATT = [], ckNextTxnID = 5\<rparr> = Inr []"
    "Unmarshal ?jc [] = Inr \<lparr>ckDPT = [], ckATT = [], ckNextTxnID = 5\<rparr>"
    by (simp_all add: example_codec_def quiet_checkpoint_def)
  let ?t = "\<lparr>Xmin = 1, Xmax = 0, TFlags = 0, Key = [], Value = []\<rparr>"
  have "\<exists>lsn w' bp' m'. WriteCheckpoint ?jc w [] [] 5 = Some (Inr lsn, w') \<and>
    Recover ?jc ((NewPool 2 small_disk None)\<lparr>wal := Some w'\<rparr>) NewTransactionManager = Some (Inr (), bp', m') \<and>
    GetStatus m' 1 = TxnCommitted \<and> IsVisible (takeSnapshotLocked m' 2) ?t (GetStatus m')"
    by (rule restart_commits_aborted [OF w(1) a _ _ j]) (simp_all add: w(3))
  with a show ?thesis by blast
qed

end
