(* ===== verification/Tree_Pins.thy ===== *)
theory Tree_Pins
  imports Tree "HOL-Library.Multiset"
begin

text \<open>
  Pins of the buffer pool, exactly: a successful fetch adds one pin to the frame it returns, a failed
  one adds none. \<open>held bt0 bt L\<close> says that a read operation that started in \<open>bt0\<close> and is now in \<open>bt\<close>
  owns the pins \<open>L\<close> and has disturbed nothing else.
\<close>

section \<open>Pins of a fetch\<close>

definition clocked :: "BufferPool \<Rightarrow> bool" where
  "clocked bp \<longleftrightarrow> (\<exists>c. policy bp = Clock c)"

lemma clocked_policy_ok: "clocked bp \<Longrightarrow> policy_ok (policy bp) (frames bp)"
  by (auto simp: clocked_def policy_ok_def)

lemma policy_kind:
  "OnAccess p i fs = (p', fs') \<Longrightarrow> (\<exists>c. p = Clock c) \<longleftrightarrow> (\<exists>c. p' = Clock c)"
  "ChooseVictim p fs = (v, p', fs') \<Longrightarrow> (\<exists>c. p = Clock c) \<longleftrightarrow> (\<exists>c. p' = Clock c)"
  by (cases p; auto simp: OnAccess_def ChooseVictim_def split: prod.splits)+

definition pin :: "BufferPool \<Rightarrow> nat \<Rightarrow> int" where
  "pin bp j = fPinCount (frames bp ! j)"

lemma touch_pin: 
  assumes "OnAccess p i fs = (p', fs')" and "i < length fs"
  shows "length fs' = length fs" and "j < length fs \<Longrightarrow> fPinCount (fs' ! j) = fPinCount (fs ! j)"
  using pol.touch_frames [OF assms(2), of p] assms(1) by (auto simp: list_all2_conv_all_nth same_frame_def)

lemma pick_pin: 
  assumes "ChooseVictim p fs = (v, p', fs')"
  shows "length fs' = length fs" and "j < length fs \<Longrightarrow> fPinCount (fs' ! j) = fPinCount (fs ! j)"
  using pol.pick_frames [OF assms] by (auto simp: list_all2_conv_all_nth same_frame_def)

lemma evict_pins:
  assumes inv: "pool_inv bp" and e: "evict bp = Some (r, bp')"
  shows "length (frames bp') = length (frames bp)" and "j < length (frames bp) \<Longrightarrow> pin bp' j = pin bp j"
    and "clocked bp \<Longrightarrow> clocked bp'" and "r = Inr i \<Longrightarrow> i < length (frames bp) \<and> pin bp i = 0"
proof -
  obtain v pol fs where c: "ChooseVictim (policy bp) (frames bp) = (v, pol, fs)" by (metis prod_cases3)
  note P = pick_pin [OF c] and K = policy_kind(2) [OF c]
  have s: "list_all2 same_frame (frames bp) fs" by (rule pol.pick_frames [OF c])
  have "length (frames bp') = length (frames bp) \<and> (j < length (frames bp) \<longrightarrow> pin bp' j = pin bp j) \<and>
    (clocked bp \<longrightarrow> clocked bp') \<and> (\<forall>i. r = Inr i \<longrightarrow> i < length (frames bp) \<and> pin bp i = 0)"
  proof (cases "v < 0")
    case True
    with e c P K show ?thesis by (auto simp: evict_def pin_def clocked_def)
  next
    case False
    have n: "nat v < length fs" "fPinCount (fs ! nat v) \<le> 0" "fPinCount (frames bp ! nat v) = 0" "nat v < length (frames bp)"
      using pol.pick_unpinned [OF c] False P pool_invD(10) [OF inv, of "nat v"] by auto
    obtain W dm where "evict bp = Some (Inr (nat v), bp\<lparr>policy := pol, frames := fs, wal := W, disk := dm,
      dirtyPageTable := AList.delete (fPageID (fs ! nat v)) (dirtyPageTable bp),
      pageTable := (pageTable bp)(fPageID (fs ! nat v) := None), frames := fs[nat v := ResetFrame (fs ! nat v)]\<rparr>)"
      by (rule evict_victim [OF pool_inv_same(1) [OF inv s, of pol] c False refl n(1,2)])
    with e n P K show ?thesis by (auto simp: pin_def clocked_def ResetFrame_def nth_list_update)
  qed
  then show "length (frames bp') = length (frames bp)" "j < length (frames bp) \<Longrightarrow> pin bp' j = pin bp j" "clocked bp \<Longrightarrow> clocked bp'"
    "r = Inr i \<Longrightarrow> i < length (frames bp) \<and> pin bp i = 0" by blast+
qed

lemma FetchPage_pins:
  assumes inv: "pool_inv bp" and f: "FetchPage bp p = Some (r, bp')"
  shows "length (frames bp') = length (frames bp)"
    and "j < length (frames bp) \<Longrightarrow> pin bp' j = pin bp j + (if r = Inr j then 1 else 0)"
    and "clocked bp \<Longrightarrow> clocked bp'"
proof -
  have "length (frames bp') = length (frames bp) \<and> (j < length (frames bp) \<longrightarrow> pin bp' j = pin bp j + (if r = Inr j then 1 else 0)) \<and>
    (clocked bp \<longrightarrow> clocked bp')" for j
  proof (cases "pageTable bp p")
    case (Some i)
    let ?fs = "(frames bp)[i := (frames bp ! i)\<lparr>fPinCount := fPinCount (frames bp ! i) + 1\<rparr>]"
    obtain pol fs where o: "OnAccess (policy bp) i ?fs = (pol, fs)" by force
    have i: "i < length ?fs" using pool_invD(2) [OF inv Some] by simp
    from touch_pin [OF o i] policy_kind(1) [OF o] f Some o show ?thesis
      by (auto simp: FetchPage_def Let_def pin_def clocked_def nth_list_update)
  next
    case None
    obtain s b where e: "evict bp = Some (s, b)" using evict_ok [OF inv] by metis
    note E = evict_pins [OF inv e]
    show ?thesis
    proof (cases s)
      case (Inl err)
      with f None e E show ?thesis by (auto simp: FetchPage_def)
    next
      case (Inr i)
      have i: "i < length (frames b)" "pin b i = 0" using E Inr by auto
      obtain x d where rd: "ReadPage (disk b) p (fData (frames b ! i)) = (x, d)" by force
      let ?g = "(frames b ! i)\<lparr>fData := d, fPageID := p, fPinCount := 1\<rparr>"
      obtain pol fs where o: "OnAccess (policy b) i ((frames b)[i := ?g]) = (pol, fs)" by force
      have il: "i < length ((frames b)[i := ?g])" using i by simp
      from touch_pin [OF o il] policy_kind(1) [OF o] f None e Inr E i rd o show ?thesis
        by (auto simp: FetchPage_def Let_def pin_def clocked_def nth_list_update split: sum.splits if_splits)
    qed
  qed
  then show "length (frames bp') = length (frames bp)" "j < length (frames bp) \<Longrightarrow> pin bp' j = pin bp j + (if r = Inr j then 1 else 0)"
    "clocked bp \<Longrightarrow> clocked bp'" by blast+
qed

section \<open>The pins an operation owns\<close>

definition held :: "BPlusTree \<Rightarrow> BPlusTree \<Rightarrow> nat multiset \<Rightarrow> bool" where
  "held bt0 bt L \<longleftrightarrow> pool_inv (bufPool bt0) \<and> pool_inv (bufPool bt) \<and> quiet {} (bufPool bt) \<and>
     length (frames (bufPool bt)) = length (frames (bufPool bt0)) \<and>
     (\<forall>q d. view (bufPool bt0) q = Some d \<longrightarrow> view (bufPool bt) q = Some d) \<and>
     (\<forall>j < length (frames (bufPool bt)). pin (bufPool bt) j = pin (bufPool bt0) j + int (count L j)) \<and>
     (\<forall>i \<in># L. \<exists>p. pinned_at (bufPool bt) i p) \<and> (clocked (bufPool bt0) \<longrightarrow> clocked (bufPool bt)) \<and>
     map_option log_of (wal (bufPool bt)) = map_option log_of (wal (bufPool bt0)) \<and> bt = bt0\<lparr>bufPool := bufPool bt\<rparr>"

lemma held_start: "pool_inv (bufPool bt) \<Longrightarrow> quiet {} (bufPool bt) \<Longrightarrow> held bt bt {#}"
  by (simp add: held_def)

lemma heldD:
  assumes "held bt0 bt L"
  shows "pool_inv (bufPool bt)" and "view (bufPool bt0) q = Some d \<Longrightarrow> view (bufPool bt) q = Some d"
    and "tm bt = tm bt0" and "bloom bt = bloom bt0" and "rootPageID bt = rootPageID bt0"
proof -
  have e: "bt = bt0\<lparr>bufPool := bufPool bt\<rparr>" using assms by (simp add: held_def)
  show "tm bt = tm bt0" "bloom bt = bloom bt0" "rootPageID bt = rootPageID bt0" by (subst e; simp)+
qed (use assms in \<open>simp_all add: held_def\<close>)

text \<open>A pinned frame shows its page.\<close>

lemma pinned_read:
  assumes "pool_inv (bufPool bt)" and "pinned_at (bufPool bt) i x" and "view (bufPool bt) x = Some d"
  shows "readT bt i = \<lparr>ID = x, Data = d\<rparr>" and "framePageID bt i = x"
  using pc.read_law [OF assms(1,2)] assms(3) pool_invD(2) [OF assms(1), of x i] assms(2)
  by (simp_all add: readT_def framePageID_def pinned_at_def)

lemma held_fetch:
  assumes h: "held bt0 bt L" and x: "x \<noteq> 0"
  obtains r bt' where "fetchT bt x = Some (r, bt')"
    and "case r of Inr i \<Rightarrow> held bt0 bt' (add_mset i L) \<and> pinned_at (bufPool bt') i x
      | Inl e \<Rightarrow> held bt0 bt' L \<and> fetch_result (bufPool bt) x (Inl e) (bufPool bt')"
    and "\<And>j q. pinned_at (bufPool bt) j q \<Longrightarrow> pinned_at (bufPool bt') j q"
proof -
  have H: "pool_inv (bufPool bt)" "quiet {} (bufPool bt)" "length (frames (bufPool bt)) = length (frames (bufPool bt0))"
    "\<forall>q d. view (bufPool bt0) q = Some d \<longrightarrow> view (bufPool bt) q = Some d"
    "\<forall>j < length (frames (bufPool bt)). pin (bufPool bt) j = pin (bufPool bt0) j + int (count L j)"
    "\<forall>i \<in># L. \<exists>p. pinned_at (bufPool bt) i p" "clocked (bufPool bt0) \<longrightarrow> clocked (bufPool bt)"
    "map_option log_of (wal (bufPool bt)) = map_option log_of (wal (bufPool bt0))" "bt = bt0\<lparr>bufPool := bufPool bt\<rparr>"
    "pool_inv (bufPool bt0)"
    using h unfolding held_def by blast+
  obtain r bp' where f: "FetchPage (bufPool bt) x = Some (r, bp')" "pool_inv bp'" "kept (bufPool bt) bp'"
    "fetch_result (bufPool bt) x r bp'" by (rule FetchPage_ok [OF H(1) x])
  note P = FetchPage_pins [OF H(1) f(1)]
  let ?b = "bt\<lparr>bufPool := bp'\<rparr>"
  have keep: "pinned_at bp' j q" if "pinned_at (bufPool bt) j q" for j q
    using f(3) that unfolding kept_def pinned_at_def by (meson order_less_le_trans)
  have view: "view (bufPool bt0) q = Some d \<Longrightarrow> view bp' q = Some d" for q d using f(3) H(4) by (simp add: kept_def)
  have log: "map_option log_of (wal bp') = map_option log_of (wal (bufPool bt0))" and q: "quiet {} bp'"
    using f(3) H(2,8) by (simp_all add: kept_def)
  have eq: "?b = bt0\<lparr>bufPool := bp'\<rparr>" by (subst H(9)) simp
  have pl: "\<forall>i \<in># L. \<exists>p. pinned_at bp' i p" using H(6) keep by blast
  have "case r of Inr i \<Rightarrow> held bt0 ?b (add_mset i L) \<and> pinned_at bp' i x
      | Inl e \<Rightarrow> held bt0 ?b L \<and> fetch_result (bufPool bt) x (Inl e) bp'"
  proof (cases r)
    case (Inl e)
    then show ?thesis
      unfolding held_def using f(2,4) q P H(3,5,7,10) pl view log eq by auto
  next
    case (Inr i)
    then have i: "pinned_at bp' i x" using f(4) by (simp add: fetch_result_def pinned_at_def)
    then show ?thesis
      unfolding held_def using Inr f(2) q P H(3,5,7,10) pl view log eq by auto
  qed
  with f(1) keep show thesis by (intro that [of r ?b]) (simp_all add: fetchT_def split: sum.splits)
qed

lemma held_unpin:
  assumes h: "held bt0 bt (add_mset i L)" and p: "pinned_at (bufPool bt) i x"
  shows "held bt0 (unpinT bt x False) L"
    and "pinned_at (bufPool bt) j y \<Longrightarrow> j \<in># L \<Longrightarrow> pinned_at (bufPool (unpinT bt x False)) j y"
proof -
  have H: "pool_inv (bufPool bt)" "quiet {} (bufPool bt)" "length (frames (bufPool bt)) = length (frames (bufPool bt0))"
    "\<forall>q d. view (bufPool bt0) q = Some d \<longrightarrow> view (bufPool bt) q = Some d"
    "\<forall>j < length (frames (bufPool bt)). pin (bufPool bt) j = pin (bufPool bt0) j + int (count (add_mset i L) j)"
    "\<forall>i \<in># L. \<exists>p. pinned_at (bufPool bt) i p" "clocked (bufPool bt0) \<longrightarrow> clocked (bufPool bt)"
    "map_option log_of (wal (bufPool bt)) = map_option log_of (wal (bufPool bt0))" "bt = bt0\<lparr>bufPool := bufPool bt\<rparr>"
    "pool_inv (bufPool bt0)"
    using h unfolding held_def by auto
  have i: "pageTable (bufPool bt) x = Some i" "0 < fPinCount (frames (bufPool bt) ! i)" using p by (simp_all add: pinned_at_def)
  note U = UnpinPage_ok [OF H(1) i H(2), of False, simplified]
  let ?u = "UnpinPage (bufPool bt) x False"
  have il: "i < length (frames (bufPool bt))" using pool_invD(2) [OF H(1) i(1)] by simp
  have pin: "pin ?u j = pin (bufPool bt) j - (if j = i then 1 else 0)" for j by (simp add: pin_def U(6))
  have count: "pin ?u j = pin (bufPool bt0) j + int (count L j)" if "j < length (frames (bufPool bt))" for j
    using H(5) that pin [of j] by simp
  have still: "pinned_at ?u j y" if "pinned_at (bufPool bt) j y" "j \<in># L" for j y
  proof -
    have j: "j < length (frames (bufPool bt))" "pageTable (bufPool bt) y = Some j"
      using pool_invD(2) [OF H(1)] that(1) by (auto simp: pinned_at_def)
    have "0 < pin ?u j"
      using count [OF j(1)] pool_invD(10) [OF H(10)] j(1) H(3) that(2) by (simp add: pin_def add_nonneg_pos)
    with j(2) show ?thesis by (simp add: pinned_at_def pin_def U(3))
  qed
  then show "pinned_at (bufPool bt) j y \<Longrightarrow> j \<in># L \<Longrightarrow> pinned_at (bufPool (unpinT bt x False)) j y" by (simp add: unpinT_def)
  have "policy ?u = policy (bufPool bt)" using i(1) by (simp add: UnpinPage_def Let_def)
  then have "clocked (bufPool bt0) \<longrightarrow> clocked ?u" using H(7) by (simp add: clocked_def)
  moreover have "bt\<lparr>bufPool := ?u\<rparr> = bt0\<lparr>bufPool := ?u\<rparr>" by (subst H(9)) simp
  moreover have "\<forall>i \<in># L. \<exists>p. pinned_at ?u i p" using H(6) still by blast
  ultimately show "held bt0 (unpinT bt x False) L"
    unfolding held_def unpinT_def using U(1,2,4,7,8) H(3,4,8,10) count by simp
qed

lemma held_unpinFrames:
  assumes "held bt0 bt (mset fs + L)"
  shows "held bt0 (unpinFrames bt fs False) L"
  using assms
proof (induction fs arbitrary: bt)
  case (Cons i fs)
  then have h: "held bt0 bt (add_mset i (mset fs + L))" by simp
  then obtain x where x: "pinned_at (bufPool bt) i x" by (auto simp: held_def)
  have "framePageID bt i = x"
    using pool_invD(2) [OF heldD(1) [OF h], of x i] x by (simp add: framePageID_def pinned_at_def)
  with Cons.IH [OF held_unpin(1) [OF h x]] show ?case by simp
qed simp

lemma held_release:
  assumes h: "held bt0 bt (add_mset i (mset fs + L))"
  shows "held bt0 (releaseLeaf bt i fs False) L"
proof -
  from h obtain x where x: "pinned_at (bufPool bt) i x" by (auto simp: held_def)
  have "framePageID bt i = x"
    using pool_invD(2) [OF heldD(1) [OF h], of x i] x by (simp add: framePageID_def pinned_at_def)
  with held_unpinFrames [OF held_unpin(1) [OF h x]] show ?thesis by (simp add: releaseLeaf_def)
qed

text \<open>When every frame is pinned, the operation itself owns the frames that were free.\<close>

definition free_frames :: "BufferPool \<Rightarrow> nat" where
  "free_frames bp = card {j. j < length (frames bp) \<and> pin bp j \<le> 0}"

lemma held_full:
  assumes h: "held bt0 bt L" and f: "all_pinned (bufPool bt)"
  shows "free_frames (bufPool bt0) \<le> size L"
proof -
  have "{j. j < length (frames (bufPool bt0)) \<and> pin (bufPool bt0) j \<le> 0} \<subseteq> set_mset L"
  proof
    fix j assume j: "j \<in> {j. j < length (frames (bufPool bt0)) \<and> pin (bufPool bt0) j \<le> 0}"
    with h have "pin (bufPool bt) j = pin (bufPool bt0) j + int (count L j)" "j < length (frames (bufPool bt))"
      by (simp_all add: held_def)
    moreover from this(2) f have "0 < pin (bufPool bt) j" by (simp add: all_pinned_def pin_def)
    ultimately have "0 < int (count L j)" using j unfolding mem_Collect_eq by linarith
    then show "j \<in># L" by simp
  qed
  then have "free_frames (bufPool bt0) \<le> card (set_mset L)" unfolding free_frames_def by (intro card_mono) simp_all
  also have "\<dots> \<le> size L" by (induction L) (auto simp: card_insert_if)
  finally show ?thesis .
qed

text \<open>With every pin released, the pin counts are the old ones.\<close>

lemma held_end: "held bt0 bt {#} \<Longrightarrow> j < length (frames (bufPool bt)) \<Longrightarrow> pin (bufPool bt) j = pin (bufPool bt0) j"
  by (simp add: held_def)

end
