(* ===== verification/Tree_Props.thy ===== *)
theory Tree_Props
  imports Tree_Pins Tree_Example
begin

text \<open>
  Point reads on a search tree of pages. \<open>btree V K h x f\<close> describes the subtree of height \<open>h\<close>
  under page \<open>x\<close> in the page contents \<open>V\<close>: it is responsible for the keys of \<open>K\<close>, and \<open>f\<close> gives the versions of
  each key.
\<close>

section \<open>Trees of pages\<close>

abbreviation page_at :: "u32 \<Rightarrow> bytes \<Rightarrow> Page" where
  "page_at x d \<equiv> \<lparr>ID = x, Data = d\<rparr>"

definition versions_in :: "Page \<Rightarrow> bytes \<Rightarrow> MVCCTuple list" where
  "versions_in p k = filter (\<lambda>t. Key t = k) (tuples_of (recs p))"

inductive btree :: "(u32 \<Rightarrow> bytes option) \<Rightarrow> bytes set \<Rightarrow> nat \<Rightarrow> u32 \<Rightarrow> (bytes \<Rightarrow> MVCCTuple list) \<Rightarrow> bool" for V where
  leaf: "x \<noteq> 0 \<Longrightarrow> V x = Some d \<Longrightarrow> good_image d \<Longrightarrow> Type (page_at x d) = PageTypeLeaf \<Longrightarrow> leaf_ok (page_at x d) \<Longrightarrow>
    \<forall>t \<in> set (tuples_of (recs (page_at x d))). Key t \<in> K \<Longrightarrow> btree V K 0 x (versions_in (page_at x d))"
| node: "x \<noteq> 0 \<Longrightarrow> V x = Some d \<Longrightarrow> good_image d \<Longrightarrow> Type (page_at x d) = PageTypeInternal \<Longrightarrow> internal_ok (page_at x d) \<Longrightarrow>
    (\<And>k. btree V (K \<inter> {k'. child_for (page_at x d) k' = child_for (page_at x d) k}) h (child_for (page_at x d) k)
       (g (child_for (page_at x d) k))) \<Longrightarrow>
    btree V K (Suc h) x (\<lambda>k. g (child_for (page_at x d) k) k)"

inductive_cases btree_0E: "btree V K 0 x f"
inductive_cases btree_SucE: "btree V K (Suc h) x f"

text \<open>The leaves under a page.\<close>

inductive leaf_below :: "(u32 \<Rightarrow> bytes option) \<Rightarrow> nat \<Rightarrow> u32 \<Rightarrow> u32 \<Rightarrow> bool" for V where
  here: "leaf_below V 0 x x"
| down: "V x = Some d \<Longrightarrow> leaf_below V h (child_for (page_at x d) k) y \<Longrightarrow> leaf_below V (Suc h) x y"

inductive_cases leaf_below_0E: "leaf_below V 0 x y"
inductive_cases leaf_below_SucE: "leaf_below V (Suc h) x y"

lemma btree_page: "btree V K h x f \<Longrightarrow> x \<noteq> 0 \<and> (\<exists>d. V x = Some d \<and> good_image d)"
  by (auto elim: btree.cases)

text \<open>Every tuple of every leaf lies where a search for its key ends.\<close>

lemma tuple_located:
  assumes "btree V K h x f" and "leaf_below V h x y" and "V y = Some d" and "t \<in> set (tuples_of (recs (page_at y d)))"
  shows "Key t \<in> K \<and> t \<in> set (f (Key t))"
  using assms
proof (induction arbitrary: y rule: btree.induct)
  case (leaf x e K)
  from leaf.prems(1) have "y = x" by (rule leaf_below_0E) simp
  with leaf show ?case by (auto simp: versions_in_def)
next
  case (node x e K h g)
  from node.prems(1) obtain k where k: "leaf_below V h (child_for (page_at x e) k) y"
    by (rule leaf_below_SucE) (use node.hyps(2) in auto)
  from node.IH [OF k node.prems(2,3)] show ?case by auto
qed

text \<open>A key outside the responsibility of a subtree has no version there.\<close>

lemma btree_outside: "btree V K h x f \<Longrightarrow> k \<notin> K \<Longrightarrow> f k = []"
  by (induction rule: btree.induct) (auto simp: versions_in_def filter_empty_conv)

text \<open>The leaf where the search for a key ends.\<close>

primrec leaf_for :: "(u32 \<Rightarrow> bytes option) \<Rightarrow> nat \<Rightarrow> u32 \<Rightarrow> bytes \<Rightarrow> u32" where
  "leaf_for V 0 x k = x"
| "leaf_for V (Suc h) x k = (case V x of None \<Rightarrow> 0 | Some d \<Rightarrow> leaf_for V h (child_for (page_at x d) k) k)"

lemma leaf_for_page:
  assumes "btree V K h x f"
  shows "\<exists>d. leaf_below V h x (leaf_for V h x k) \<and> leaf_for V h x k \<noteq> 0 \<and> V (leaf_for V h x k) = Some d \<and> good_image d \<and>
    Type (page_at (leaf_for V h x k) d) = PageTypeLeaf \<and> leaf_ok (page_at (leaf_for V h x k) d) \<and>
    f k = versions_in (page_at (leaf_for V h x k) d) k"
  using assms
proof (induction rule: btree.induct)
  case (leaf x d K)
  then show ?case by (auto intro: leaf_below.here)
next
  case (node x d K h g)
  then show ?case using leaf_below.down [of V x d, OF node.hyps(2)] by fastforce
qed

section \<open>The descent\<close>

lemma not_full:
  assumes "held bt0 bt L" and "fetch_result (bufPool bt) x (Inl e) b'" and "view (bufPool bt) x = Some d" and "good_image d"
  shows "e = ErrBufferPoolFull \<and> (clocked (bufPool bt0) \<longrightarrow> free_frames (bufPool bt0) \<le> size L)"
proof -
  have "clocked (bufPool bt0) \<longrightarrow> clocked (bufPool bt)" using assms(1) by (simp add: held_def)
  with assms clocked_policy_ok held_full [OF assms(1)] show ?thesis by (auto simp: fetch_result_def)
qed

lemma findLeafLoop_ok:
  assumes "btree V K h x f" and "held bt0 bt (add_mset frame (mset parents))" and "pinned_at (bufPool bt) frame x"
    and "\<forall>q d. V q = Some d \<longrightarrow> view (bufPool bt0) q = Some d"
  shows "\<exists>r bt'. findLeafLoop bt key frame parents = Some (r, bt') \<and>
    (case r of
       Inl e \<Rightarrow> held bt0 bt' {#} \<and> e = ErrBufferPoolFull \<and>
         (clocked (bufPool bt0) \<longrightarrow> free_frames (bufPool bt0) \<le> length parents + h)
     | Inr (leaf, ps) \<Rightarrow> held bt0 bt' (add_mset leaf (mset ps)) \<and> pinned_at (bufPool bt') leaf (leaf_for V h x key))"
  using assms
proof (induction arbitrary: bt frame parents rule: btree.induct)
  case (leaf x d K)
  have "readT bt frame = page_at x d"
    using pinned_read(1) [OF heldD(1) [OF leaf.prems(1)] leaf.prems(2)] heldD(2) [OF leaf.prems(1) leaf.prems(3) [rule_format, OF leaf.hyps(2)]] by simp
  then have "findLeafLoop bt key frame parents = Some (Inr (frame, parents), bt)"
    using leaf.hyps(4) by (subst findLeafLoop.simps) (simp add: PageTypeLeaf_def PageTypeInternal_def)
  with leaf.prems(1,2) show ?case by fastforce
next
  case (node x d K h g)
  let ?p = "page_at x d" and ?c = "child_for (page_at x d) key"
  have p: "readT bt frame = ?p"
    using pinned_read(1) [OF heldD(1) [OF node.prems(1)] node.prems(2)] heldD(2) [OF node.prems(1) node.prems(3) [rule_format, OF node.hyps(2)]] by simp
  note C = btree_page [OF node.hyps(6) [of key]]
  then obtain e where e: "V ?c = Some e" "good_image e" and c0: "?c \<noteq> 0" by blast
  obtain r bt1 where r: "fetchT bt ?c = Some (r, bt1)"
    "case r of Inr i \<Rightarrow> held bt0 bt1 (add_mset i (add_mset frame (mset parents))) \<and> pinned_at (bufPool bt1) i ?c
      | Inl e \<Rightarrow> held bt0 bt1 (add_mset frame (mset parents)) \<and> fetch_result (bufPool bt) ?c (Inl e) (bufPool bt1)"
    by (rule held_fetch [OF node.prems(1) c0]) (rule that)
  have step: "findLeafLoop bt key frame parents = (case r of
      Inl e \<Rightarrow> Some (Inl e, unpinFrames bt1 (parents @ [frame]) False) | Inr i \<Rightarrow> findLeafLoop bt1 key i (parents @ [frame]))"
    using p node.hyps(4) FindChild_child_for [OF node.hyps(5), of key] c0 r(1)
    by (subst findLeafLoop.simps) (simp add: Let_def)
  have lf: "leaf_for V (Suc h) x key = leaf_for V h ?c key" using node.hyps(2) by simp
  show ?case
  proof (cases r)
    case (Inl err)
    with r(2) have h: "held bt0 bt1 (mset (parents @ [frame]) + {#})" "fetch_result (bufPool bt) ?c (Inl err) (bufPool bt1)" by simp_all
    from held_unpinFrames [OF h(1)] not_full [OF node.prems(1) h(2) heldD(2) [OF node.prems(1) node.prems(3) [rule_format, OF e(1)]] e(2)]
    show ?thesis using step Inl by auto
  next
    case (Inr i)
    with r(2) have h: "held bt0 bt1 (add_mset i (mset (parents @ [frame])))" "pinned_at (bufPool bt1) i ?c" by simp_all
    have n: "length (parents @ [frame]) + h = length parents + Suc h" by simp
    from node.IH [OF h node.prems(3), unfolded n] show ?thesis unfolding step Inr lf sum.case .
  qed
qed

abbreviation pages :: "BPlusTree \<Rightarrow> u32 \<Rightarrow> bytes option" where
  "pages bt \<equiv> view (bufPool bt)"

lemma findLeafWithParents_leaf:
  assumes inv: "pool_inv (bufPool bt)" "quiet {} (bufPool bt)" and t: "btree (pages bt) K h (rootPageID bt) f"
  shows "\<exists>r bt'. findLeafWithParents bt key = Some (r, bt') \<and>
    (case r of
       Inl e \<Rightarrow> held bt bt' {#} \<and> e = ErrBufferPoolFull \<and> (clocked (bufPool bt) \<longrightarrow> free_frames (bufPool bt) \<le> h)
     | Inr (leaf, ps) \<Rightarrow> held bt bt' (add_mset leaf (mset ps)) \<and>
         pinned_at (bufPool bt') leaf (leaf_for (pages bt) h (rootPageID bt) key))"
proof -
  obtain d where x: "rootPageID bt \<noteq> 0" and d: "pages bt (rootPageID bt) = Some d" "good_image d" using btree_page [OF t] by blast
  note h0 = held_start [OF inv]
  obtain r bt1 where r: "fetchT bt (rootPageID bt) = Some (r, bt1)"
    "case r of Inr i \<Rightarrow> held bt bt1 (add_mset i {#}) \<and> pinned_at (bufPool bt1) i (rootPageID bt)
      | Inl e \<Rightarrow> held bt bt1 {#} \<and> fetch_result (bufPool bt) (rootPageID bt) (Inl e) (bufPool bt1)"
    by (rule held_fetch [OF h0 x]) (rule that)
  show ?thesis
  proof (cases r)
    case (Inl e)
    with r(2) have h: "held bt bt1 {#}" "fetch_result (bufPool bt) (rootPageID bt) (Inl e) (bufPool bt1)" by simp_all
    from not_full [OF h0 h(2) d] h(1) r(1) Inl show ?thesis by (auto simp: findLeafWithParents_def)
  next
    case (Inr i)
    with r(2) have h: "held bt bt1 (add_mset i (mset []))" "pinned_at (bufPool bt1) i (rootPageID bt)" by simp_all
    from findLeafLoop_ok [OF t h, of key, unfolded list.size add_0_left] r(1) Inr show ?thesis by (simp add: findLeafWithParents_def)
  qed
qed

lemma findLeafWithParents_ok:
  assumes "pool_inv (bufPool bt)" and "quiet {} (bufPool bt)" and t: "btree (pages bt) K h (rootPageID bt) f"
  shows "\<exists>r bt'. findLeafWithParents bt key = Some (r, bt') \<and>
    (case r of
       Inl e \<Rightarrow> held bt bt' {#} \<and> e = ErrBufferPoolFull \<and> (clocked (bufPool bt) \<longrightarrow> free_frames (bufPool bt) \<le> h)
     | Inr (leaf, ps) \<Rightarrow> held bt bt' (add_mset leaf (mset ps)) \<and> (\<exists>y d. leaf_below (pages bt) h (rootPageID bt) y \<and>
         pages bt y = Some d \<and> pinned_at (bufPool bt') leaf y \<and> leaf_ok (page_at y d) \<and>
         f key = versions_in (page_at y d) key))"
  using findLeafWithParents_leaf [OF assms, of key] leaf_for_page [OF t, of key] by (fastforce split: sum.splits)

text \<open>With more free frames than the height, the descent succeeds.\<close>

lemma descent_leaf:
  assumes T: "pool_inv (bufPool bt)" "quiet {} (bufPool bt)" "btree (pages bt) UNIV h (rootPageID bt) f"
    and F: "clocked (bufPool bt)" "h < free_frames (bufPool bt)"
  obtains leaf ps b where "findLeafWithParents bt key = Some (Inr (leaf, ps), b)" and "held bt b (add_mset leaf (mset ps))"
    and "pinned_at (bufPool b) leaf (leaf_for (pages bt) h (rootPageID bt) key)"
proof -
  obtain r b where r: "findLeafWithParents bt key = Some (r, b)" and R: "case r of
       Inl e \<Rightarrow> held bt b {#} \<and> e = ErrBufferPoolFull \<and> (clocked (bufPool bt) \<longrightarrow> free_frames (bufPool bt) \<le> h)
     | Inr (leaf, ps) \<Rightarrow> held bt b (add_mset leaf (mset ps)) \<and> pinned_at (bufPool b) leaf (leaf_for (pages bt) h (rootPageID bt) key)"
    using findLeafWithParents_leaf [OF T] by blast
  with F that show thesis by (cases r) auto
qed

lemma releaseLeaf_tm: "releaseLeaf (bt\<lparr>tm := m\<rparr>) i fs dirty = (releaseLeaf bt i fs dirty)\<lparr>tm := m\<rparr>"
proof -
  have u: "unpinT (b\<lparr>tm := m\<rparr>) x dirty' = (unpinT b x dirty')\<lparr>tm := m\<rparr>" for b x dirty' by (cases b) (simp add: unpinT_def)
  have "unpinFrames (b\<lparr>tm := m\<rparr>) fs dirty' = (unpinFrames b fs dirty')\<lparr>tm := m\<rparr>" for b dirty'
    by (induction fs arbitrary: b) (simp_all add: u framePageID_def)
  then show ?thesis by (simp add: releaseLeaf_def u framePageID_def)
qed

text \<open>The first visible version of a key in a list of versions.\<close>

definition visible_version :: "BPlusTree \<Rightarrow> Transaction \<Rightarrow> MVCCTuple list \<Rightarrow> MVCCTuple option" where
  "visible_version bt txn vs = find (\<lambda>t. IsVisible (txSnapshot txn) t (GetStatus (tm bt))) vs"

definition get_result :: "MVCCTuple option \<Rightarrow> (error, bytes) result" where
  "get_result v = (case v of None \<Rightarrow> Inl ErrKeyNotFound | Some t \<Rightarrow> Inr (Value t))"

definition read_lock :: "Transaction \<Rightarrow> bytes \<Rightarrow> MVCCTuple option \<Rightarrow> TransactionManager \<Rightarrow> TransactionManager" where
  "read_lock txn key v m =
     (if v \<noteq> None \<and> txIsoLevel txn = Serializable then m\<lparr>SIREADMgr := AcquireRead (SIREADMgr m) (txID txn) key\<rparr> else m)"

definition bloom_covers :: "BPlusTree \<Rightarrow> nat \<Rightarrow> bool" where
  "bloom_covers bt h \<longleftrightarrow> (\<forall>y d t. leaf_below (pages bt) h (rootPageID bt) y \<and> pages bt y = Some d \<and>
     t \<in> set (tuples_of (recs (page_at y d))) \<longrightarrow> BloomMayContain (bloom bt) y (Key t))"

lemma Get_on_leaf:
  assumes L: "findLeafWithParents bt key = Some (Inr (leaf, ps), bt1)" and h: "held bt bt1 (add_mset leaf (mset ps))"
    and y: "leaf_below (pages bt) h (rootPageID bt) y" "pages bt y = Some d" "pinned_at (bufPool bt1) leaf y" "leaf_ok (page_at y d)"
    and bl: "bloom_covers bt h" and v: "v = visible_version bt txn (versions_in (page_at y d) key)"
  shows "\<exists>bt'. Get bt txn key = Some (get_result v, bt'\<lparr>tm := read_lock txn key v (tm bt)\<rparr>) \<and> held bt bt' {#}"
proof -
  let ?p = "page_at y d" and ?b = "releaseLeaf bt1 leaf ps False"
  note P = pinned_read [OF heldD(1) [OF h] y(3) heldD(2) [OF h y(2)]] and T = heldD(3-5) [OF h]
  have rel: "held bt ?b {#}" using held_release [of bt bt1 leaf ps "{#}"] h by simp
  have tm: "?b\<lparr>tm := tm bt\<rparr> = ?b" using heldD(3) [OF rel] by simp
  show ?thesis
  proof (cases "BloomMayContain (bloom bt) y key")
    case False
    then have "versions_in ?p key = []"
      using bl y(1,2) unfolding bloom_covers_def versions_in_def filter_empty_conv by blast
    then have "v = None" by (simp add: v visible_version_def)
    with False L P T rel tm show ?thesis by (intro exI [of _ ?b]) (simp add: Get_def get_result_def read_lock_def)
  next
    case True
    obtain r where r: "FindVisibleSlot ?p key (txSnapshot txn) (GetStatus (tm bt)) = Some r"
      "first_visible ?p key (txSnapshot txn) (GetStatus (tm bt)) 0 r" using FindVisibleSlot_spec [OF y(4)] by blast
    have "snd r = v" using first_visible_find [OF r(2)] by (simp add: v visible_version_def versions_in_def find_filter)
    then obtain i where i: "r = (i, v)" by (cases r) simp
    with True L P T r(1) have "Get bt txn key = (case v of
        None \<Rightarrow> Some (Inl ErrKeyNotFound, ?b)
      | Some t \<Rightarrow> Some (Inr (Value t), releaseLeaf (if txIsoLevel txn = Serializable
           then bt1\<lparr>tm := (tm bt)\<lparr>SIREADMgr := AcquireRead (SIREADMgr (tm bt)) (txID txn) key\<rparr>\<rparr> else bt1) leaf ps False))"
      by (simp add: Get_def Let_def split: option.split)
    with rel tm show ?thesis
      by (intro exI [of _ ?b]) (auto simp: get_result_def read_lock_def releaseLeaf_tm split: option.split)
  qed
qed

section \<open>Properties\<close>

text \<open>A tree of one leaf with one tuple, and its reader.\<close>

definition example_tuple :: MVCCTuple where
  "example_tuple = \<lparr>Xmin = 7, Xmax = 0, TFlags = 0, Key = [1], Value = [9]\<rparr>"

definition example_txn :: Transaction where
  "example_txn = \<lparr>txID = 7, txStatus = TxnActive, txIsoLevel = SnapshotIsolation,
     txSnapshot = emptySnapshot\<lparr>CreatorTxnID := 7\<rparr>, txLastLSN = 0, txUndoLog = [], txSavepoints = []\<rparr>"

lemma tree_example_page:
  obtains bt d where "pool_inv (bufPool bt)" and "quiet {} (bufPool bt)" and "rootPageID bt = 1"
    and "btree (pages bt) UNIV 0 1 (\<lambda>k. if k = [1] then [example_tuple] else [])" and "pages bt 1 = Some d"
    and "room_of (page_at 1 d) = 4037" and "tuples_of (recs (page_at 1 d)) = [example_tuple]" and "bloom bt = NewBloomIndex"
    and "wal (bufPool bt) = None" and "clocked (bufPool bt)" and "free_frames (bufPool bt) = 2"
proof -
  have t: "tuple_ok example_tuple" "length (EncodeTuple example_tuple) = 23" by (simp_all add: example_tuple_def tuple_ok_def)
  then have "length (EncodeTuple example_tuple) \<le> 4060" by simp
  then obtain p where p: "leaf_ok p" "recs p = [Slice (EncodeTuple example_tuple)]" "Type p = PageTypeLeaf" "VerifyChecksum p" "ID p = 1"
    "room_of p = 4060 - length (EncodeTuple example_tuple)"
    by (rule leaf_page_example [OF t(1)]) (rule that)
  let ?bt = "NewTree 1 (example_pool p) NewTransactionManager"
  have eq: "page_at 1 (Data p) = p" using p(5) by (cases p) simp
  note E = example_pool_ok [OF page_wf_ok [OF leaf_ok_wf [OF p(1)]]]
  have tu: "tuples_of (recs p) = [example_tuple]" by (simp add: p(2) DecodeTuple_EncodeTuple t(1))
  then have v: "versions_in p = (\<lambda>k. if k = [1] then [example_tuple] else [])" by (auto simp: versions_in_def example_tuple_def)
  have "good_image (Data p)" using p(4) by (simp add: good_image_def VerifyChecksum_def)
  then have "btree (pages ?bt) UNIV 0 1 (versions_in (page_at 1 (Data p)))"
    using E(3) p(1,3) by (intro btree.leaf) (simp_all add: NewTree_def eq)
  moreover have "{j. j < length (frames (example_pool p)) \<and> pin (example_pool p) j \<le> 0} = {0, 1}"
    by (auto simp: example_pool_def NewPool_def pin_def emptyFrame_def)
  then have "free_frames (bufPool ?bt) = 2" by (simp add: free_frames_def NewTree_def)
  ultimately show thesis
    using E v p(6) t(2) tu by (intro that [of ?bt "Data p"])
      (simp_all add: NewTree_def eq clocked_def example_pool_def NewPool_def NewClockPolicy_def)
qed

lemma tree_example:
  obtains bt where "pool_inv (bufPool bt)" and "quiet {} (bufPool bt)" and "rootPageID bt = 1" and "bloom_covers bt 0"
    and "btree (pages bt) UNIV 0 1 (\<lambda>k. if k = [1] then [example_tuple] else [])"
    and "clocked (bufPool bt)" and "free_frames (bufPool bt) = 2"
proof -
  obtain bt d where b: "pool_inv (bufPool bt)" "quiet {} (bufPool bt)" "rootPageID bt = 1"
    "btree (pages bt) UNIV 0 1 (\<lambda>k. if k = [1] then [example_tuple] else [])" "bloom bt = NewBloomIndex"
    "clocked (bufPool bt)" "free_frames (bufPool bt) = 2"
    by (rule tree_example_page)
  then have "bloom_covers bt 0" by (simp add: bloom_covers_def NewBloomIndex_def BloomMayContain_def)
  with b show thesis by (intro that [of bt])
qed



text \<open>
  C1. Point reads are reads of an abstract map. On a search tree whose Bloom filters cover its leaves,
  \<open>Get\<close> returns the value of the first version of the key, among all versions anywhere in the tree, that the snapshot of
  the transaction sees, and \<open>ErrKeyNotFound\<close> when there is none; the only other
  result is a full pool, and not with more than \<open>h\<close> free frames. Every pin is released, no page changes, and a
  serializable transaction that found the key holds a read lock on it.
\<close>

theorem Get_correct:
  assumes "pool_inv (bufPool bt)" and "quiet {} (bufPool bt)" and "btree (pages bt) UNIV h (rootPageID bt) f" and "bloom_covers bt h"
    and "v = visible_version bt txn (f key)"
  shows "\<exists>r bt'. Get bt txn key = Some (r, bt') \<and> pool_inv (bufPool bt') \<and>
    (\<forall>q d. pages bt q = Some d \<longrightarrow> pages bt' q = Some d) \<and>
    (\<forall>j < length (frames (bufPool bt')). pin (bufPool bt') j = pin (bufPool bt) j) \<and>
    (r = get_result v \<and> tm bt' = read_lock txn key v (tm bt) \<or>
     r = Inl ErrBufferPoolFull \<and> (clocked (bufPool bt) \<longrightarrow> free_frames (bufPool bt) \<le> h)) \<and>
    (\<forall>y d t. leaf_below (pages bt) h (rootPageID bt) y \<and> pages bt y = Some d \<and> t \<in> set (tuples_of (recs (page_at y d))) \<and>
       Key t = key \<longrightarrow> t \<in> set (f key))"
proof -
  have loc: "\<forall>y d t. leaf_below (pages bt) h (rootPageID bt) y \<and> pages bt y = Some d \<and> t \<in> set (tuples_of (recs (page_at y d))) \<and>
       Key t = key \<longrightarrow> t \<in> set (f key)" using tuple_located [OF assms(3)] by blast
  obtain r bt1 where r: "findLeafWithParents bt key = Some (r, bt1)" and R: "case r of
       Inl e \<Rightarrow> held bt bt1 {#} \<and> e = ErrBufferPoolFull \<and> (clocked (bufPool bt) \<longrightarrow> free_frames (bufPool bt) \<le> h)
     | Inr (leaf, ps) \<Rightarrow> held bt bt1 (add_mset leaf (mset ps)) \<and> (\<exists>y d. leaf_below (pages bt) h (rootPageID bt) y \<and>
         pages bt y = Some d \<and> pinned_at (bufPool bt1) leaf y \<and> leaf_ok (page_at y d) \<and>
         f key = versions_in (page_at y d) key)"
    using findLeafWithParents_ok [OF assms(1-3)] by blast
  show ?thesis
  proof (cases r)
    case (Inl e)
    with r R have "Get bt txn key = Some (Inl ErrBufferPoolFull, bt1)" "held bt bt1 {#}"
      "clocked (bufPool bt) \<longrightarrow> free_frames (bufPool bt) \<le> h" by (simp_all add: Get_def)
    with loc show ?thesis unfolding held_def by auto
  next
    case (Inr x)
    obtain leaf ps where x: "x = (leaf, ps)" by (cases x)
    with Inr R obtain y d where h: "held bt bt1 (add_mset leaf (mset ps))" and y: "leaf_below (pages bt) h (rootPageID bt) y"
      "pages bt y = Some d" "pinned_at (bufPool bt1) leaf y" "leaf_ok (page_at y d)" "f key = versions_in (page_at y d) key" by auto
    from Get_on_leaf [OF _ h y(1-4) assms(4), of key v txn] r Inr x assms(5) y(5)
    obtain bt' where "Get bt txn key = Some (get_result v, bt'\<lparr>tm := read_lock txn key v (tm bt)\<rparr>)" "held bt bt' {#}" by auto
    with loc show ?thesis unfolding held_def by auto
  qed
qed

theorem Get_correct_witness:
  "\<exists>bt bt'. pool_inv (bufPool bt) \<and> Get bt example_txn [1] = Some (Inr [9], bt')"
proof -
  obtain bt where bt: "pool_inv (bufPool bt)" "quiet {} (bufPool bt)" "rootPageID bt = 1" "bloom_covers bt 0"
    "btree (pages bt) UNIV 0 1 (\<lambda>k. if k = [1] then [example_tuple] else [])" "clocked (bufPool bt)" "free_frames (bufPool bt) = 2"
    by (rule tree_example)
  from bt(3,5) have t: "btree (pages bt) UNIV 0 (rootPageID bt) (\<lambda>k. if k = [1] then [example_tuple] else [])" by simp
  have v: "visible_version bt example_txn [example_tuple] = Some example_tuple"
    by (simp add: visible_version_def example_txn_def example_tuple_def IsVisible_def checkXmax_def)
  from Get_correct [OF bt(1,2) t bt(4) refl, of example_txn "[1]"] obtain r bt' where "Get bt example_txn [1] = Some (r, bt')"
    "r = get_result (visible_version bt example_txn [example_tuple])" using bt(6,7) by auto
  with bt(1) v show ?thesis by (auto simp: get_result_def example_tuple_def)
qed

end
