(* ===== verification/Split_Props.thy ===== *)
theory Split_Props
  imports Merge Vacuum_Props Tree_Example "HOL-Library.Multiset"
begin

text \<open>
  Records that move between leaves: what a split and a merge do to the tuples of the two pages, and
  what happens when a page has no room for them.
\<close>

section \<open>Leaves as sorted lists of tuples\<close>

abbreviation tuples :: "Page \<Rightarrow> MVCCTuple list" where
  "tuples p \<equiv> tuples_of (recs p)"

abbreviation key_sorted :: "MVCCTuple list \<Rightarrow> bool" where
  "key_sorted ts \<equiv> sorted_wrt (\<lambda>a b. Key a \<le> Key b) ts"

definition weight :: "MVCCTuple list \<Rightarrow> nat" where
  "weight ts = sum_list (map (\<lambda>t. length (EncodeTuple t) + 4) ts)"

lemma weight_simps [simp]: "weight [] = 0" "weight (t # ts) = length (EncodeTuple t) + 4 + weight ts"
  "weight (ts @ us) = weight ts + weight us"
  by (simp_all add: weight_def)

lemma tuple_slice_cases:
  assumes "tuple_slice s"
  obtains "s = NilSlice" | t where "s = Slice (EncodeTuple t)" and "tuple_ok t"
  using assms by (cases s) (auto simp: tuple_slice_def)

lemma live_tuples: "\<forall>s \<in> set rs. tuple_slice s \<Longrightarrow> live rs = map EncodeTuple (tuples_of rs)"
  by (induction rs rule: live.induct) (auto simp: tuple_slice_def DecodeTuple_EncodeTuple)

lemma mem_tuples: "\<forall>s \<in> set rs. tuple_slice s \<Longrightarrow> t \<in> set (tuples_of rs) \<longleftrightarrow> tuple_ok t \<and> Slice (EncodeTuple t) \<in> set rs"
proof (induction rs)
  case (Cons s rs)
  then have "tuple_slice s" by simp
  then show ?case
    by (rule tuple_slice_cases) (use Cons in \<open>auto simp: DecodeTuple_EncodeTuple dest: arg_cong [of _ _ DecodeTuple]\<close>)
qed simp

lemma leaf_slices: "leaf_ok p \<Longrightarrow> \<forall>s \<in> set (recs p). tuple_slice s"
  by (simp add: leaf_ok_def)

lemma leaf_tuple_ok: "leaf_ok p \<Longrightarrow> t \<in> set (tuples p) \<Longrightarrow> tuple_ok t"
  using mem_tuples [OF leaf_slices] by blast

lemma tuples_sorted:
  assumes "\<forall>s \<in> set rs. tuple_slice s" and "keys_sorted TupleKeyExtract rs"
  shows "key_sorted (tuples_of rs)"
  using assms
proof (induction rs)
  case (Cons s rs)
  then have s: "tuple_slice s" "\<forall>s \<in> set rs. tuple_slice s" "\<forall>u \<in> set rs. key_le TupleKeyExtract s u" "keys_sorted TupleKeyExtract rs"
    by (simp_all add: keys_sorted_def)
  from s(1) show ?case
  proof (rule tuple_slice_cases)
    fix t assume t: "s = Slice (EncodeTuple t)" "tuple_ok t"
    have "Key t \<le> Key u" if "u \<in> set (tuples_of rs)" for u
    proof -
      from that mem_tuples [OF s(2)] have u: "tuple_ok u" "Slice (EncodeTuple u) \<in> set rs" by blast+
      from s(3) u(2) have "key_le TupleKeyExtract s (Slice (EncodeTuple u))" by blast
      then show ?thesis by (simp add: t TupleKeyExtract_EncodeTuple u(1))
    qed
    with Cons.IH [OF s(2,4)] t show ?case by (simp add: DecodeTuple_EncodeTuple)
  qed (use Cons.IH [OF s(2,4)] in simp)
qed simp

lemma leaf_sorted: "leaf_ok p \<Longrightarrow> key_sorted (tuples p)"
  by (rule tuples_sorted) (simp_all add: leaf_ok_def)

lemma leaf_weight: 
  assumes "leaf_ok p"
  shows "weight (tuples p) \<le> 4064"
proof -
  obtain p' where "room_of p' + sum_list (map (\<lambda>d. length d + 4) (live (recs p))) = 4064" using leaf_ok_compact [OF assms] by metis
  then show ?thesis by (simp add: weight_def live_tuples [OF leaf_slices [OF assms]] comp_def)
qed

lemma member_weight: "t \<in> set ts \<Longrightarrow> length (EncodeTuple t) + 4 \<le> weight ts"
  by (induction ts) auto

section \<open>Adding a tuple\<close>

lemma insert_record:
  assumes ok: "leaf_ok p" and t: "tuple_ok t" and room: "length (EncodeTuple t) + 4 \<le> room_of p"
  obtains pos p' as bs where "InsertRecord p (EncodeTuple t) TupleKeyExtract = Some (Inr pos, p')" and "leaf_ok p'" and "same_meta p p'"
    and "tuples p = as @ bs" and "tuples p' = as @ t # bs" and "\<forall>u \<in> set as. Key u \<le> Key t" and "\<forall>u \<in> set bs. Key t < Key u"
    and "room_of p' = room_of p - (length (EncodeTuple t) + 4)" and "NilSlice \<in> set (recs p') \<longleftrightarrow> NilSlice \<in> set (recs p)"
proof -
  note D = leaf_okD [OF ok]
  have ne: "EncodeTuple t \<noteq> []" by simp
  from sp.ins_law [OF D(1,2) ne room] obtain pos p' where i: "InsertRecord p (EncodeTuple t) TupleKeyExtract = Some (Inr pos, p')"
    "pos \<le> length (recs p)" "recs p' = insert_at pos (Slice (EncodeTuple t)) (recs p)" "page_wf p'" "same_meta p p'"
    "room_of p' = room_of p - (length (EncodeTuple t) + 4)"
    and b: "all_below (\<lambda>bs. key_of TupleKeyExtract bs \<le> key_of TupleKeyExtract (EncodeTuple t)) (recs p) (int pos)"
      "all_from (\<lambda>bs. key_of TupleKeyExtract (EncodeTuple t) < key_of TupleKeyExtract bs) (recs p) (int pos)" by blast
  have sl: "\<forall>s \<in> set (take pos (recs p)). tuple_slice s" "\<forall>s \<in> set (drop pos (recs p)). tuple_slice s"
    using leaf_slices [OF ok] by (auto dest: in_set_takeD in_set_dropD)
  have "leaf_ok p'"
    using sp.ins_sorted [OF D(1,2) ne i(1)] leaf_slices [OF ok] t by (auto simp: leaf_ok_def tuple_slice_def)
  moreover have "Key u \<le> Key t" if u: "u \<in> set (tuples_of (take pos (recs p)))" for u
  proof -
    from u mem_tuples [OF sl(1)] have u: "tuple_ok u" "Slice (EncodeTuple u) \<in> set (take pos (recs p))" by blast+
    then obtain j where "j < pos" "j < length (recs p)" "recs p ! j = Slice (EncodeTuple u)" by (auto simp: in_set_conv_nth)
    with b(1) u(1) t show ?thesis by (auto simp: all_below_def TupleKeyExtract_EncodeTuple)
  qed
  moreover have "Key t < Key u" if u: "u \<in> set (tuples_of (drop pos (recs p)))" for u
  proof -
    from u mem_tuples [OF sl(2)] have u: "tuple_ok u" "Slice (EncodeTuple u) \<in> set (drop pos (recs p))" by blast+
    then obtain j where "j < length (recs p) - pos" "recs p ! (pos + j) = Slice (EncodeTuple u)" by (auto simp: in_set_conv_nth)
    moreover from this(1) have "pos + j < length (recs p)" by linarith
    ultimately show ?thesis using b(2) [unfolded all_from_def, rule_format, of "pos + j" "EncodeTuple u"] u(1) t
      by (simp add: TupleKeyExtract_EncodeTuple)
  qed
  moreover have "tuples p = tuples_of (take pos (recs p)) @ tuples_of (drop pos (recs p))"
    by (simp flip: tuples_of_append)
  moreover have "tuples p' = tuples_of (take pos (recs p)) @ t # tuples_of (drop pos (recs p))"
    by (simp add: i(3) insert_at_def tuples_of_append DecodeTuple_EncodeTuple t)
  moreover have "NilSlice \<in> set (recs p') \<longleftrightarrow> NilSlice \<in> set (recs p)"
    by (simp add: i(3) insert_at_def) (metis Un_iff append_take_drop_id set_append)
  ultimately show thesis using i(1,5,6) by (intro that) blast+
qed

text \<open>A tuple that is not smaller than any other goes to the end.\<close>

lemma insert_back:
  assumes ok: "leaf_ok p" and t: "tuple_ok t" and room: "length (EncodeTuple t) + 4 \<le> room_of p"
    and last: "\<forall>u \<in> set (tuples p). Key u \<le> Key t"
  obtains pos p' where "InsertRecord p (EncodeTuple t) TupleKeyExtract = Some (Inr pos, p')" and "leaf_ok p'" and "same_meta p p'"
    and "tuples p' = tuples p @ [t]" and "room_of p' = room_of p - (length (EncodeTuple t) + 4)"
    and "NilSlice \<in> set (recs p') \<longleftrightarrow> NilSlice \<in> set (recs p)"
proof -
  obtain pos p' as bs where i: "InsertRecord p (EncodeTuple t) TupleKeyExtract = Some (Inr pos, p')" "leaf_ok p'" "same_meta p p'"
    and ab: "tuples p = as @ bs" "tuples p' = as @ t # bs" "\<forall>u \<in> set bs. Key t < Key u"
    and r: "room_of p' = room_of p - (length (EncodeTuple t) + 4)" "NilSlice \<in> set (recs p') \<longleftrightarrow> NilSlice \<in> set (recs p)"
    by (rule insert_record [OF ok t room]) (rule that)
  have "bs = []" using ab(1,3) last by (cases bs) auto
  with i ab r show thesis by (intro that [of pos p']) simp_all
qed

section \<open>Moving and copying slots\<close>

lemma slot_tuple:
  assumes "leaf_ok p" and "i < NumSlots p"
  obtains "GetRecord p i = Some NilSlice" and "recs p ! i = NilSlice" and "tuples_of (drop i (recs p)) = tuples_of (drop (Suc i) (recs p))"
  | t where "GetRecord p i = Some (Slice (EncodeTuple t))" and "recs p ! i = Slice (EncodeTuple t)" and "tuple_ok t"
    and "tuples_of (drop i (recs p)) = t # tuples_of (drop (Suc i) (recs p))"
proof -
  have d: "drop i (recs p) = recs p ! i # drop (Suc i) (recs p)" using assms(2) by (simp add: Cons_nth_drop_Suc)
  have g: "GetRecord p i = Some (recs p ! i)" using leaf_okD(4) [OF assms] .
  have "tuple_slice (recs p ! i)" using leaf_slices [OF assms(1)] assms(2) by simp
  then show thesis
    by (rule tuple_slice_cases) (use that d g in \<open>auto simp: DecodeTuple_EncodeTuple\<close>)
qed

lemma copySlots_ok:
  assumes "leaf_ok src" and "leaf_ok dst" and "i \<le> NumSlots src"
    and "\<forall>u \<in> set (tuples dst). \<forall>t \<in> set (tuples_of (drop i (recs src))). Key u \<le> Key t"
    and "weight (tuples_of (drop i (recs src))) \<le> room_of dst"
  shows "\<exists>dst'. copySlots src dst [i..<NumSlots src] = Some dst' \<and> leaf_ok dst' \<and> same_meta dst dst' \<and>
    tuples dst' = tuples dst @ tuples_of (drop i (recs src)) \<and> room_of dst' + weight (tuples_of (drop i (recs src))) = room_of dst \<and>
    (NilSlice \<in> set (recs dst') \<longleftrightarrow> NilSlice \<in> set (recs dst))"
  using assms
proof (induction "NumSlots src - i" arbitrary: i dst)
  case 0
  then have "i = NumSlots src" by simp
  with 0 show ?case by (simp add: same_meta_def)
next
  case (Suc n)
  then have i: "i < NumSlots src" and up: "[i..<NumSlots src] = i # [Suc i..<NumSlots src]" by (simp_all add: upt_conv_Cons)
  from Suc.prems(1) i show ?case
  proof (rule slot_tuple)
    assume nil: "GetRecord src i = Some NilSlice" "tuples_of (drop i (recs src)) = tuples_of (drop (Suc i) (recs src))"
    with Suc.hyps(1) [of "Suc i" dst] Suc.hyps(2) Suc.prems i show ?case by (simp add: up)
  next
    fix t assume t: "GetRecord src i = Some (Slice (EncodeTuple t))" "tuple_ok t"
      "tuples_of (drop i (recs src)) = t # tuples_of (drop (Suc i) (recs src))"
    have last: "\<forall>u \<in> set (tuples dst). Key u \<le> Key t" and room: "length (EncodeTuple t) + 4 \<le> room_of dst"
      using Suc.prems(4,5) t(3) by simp_all
    obtain pos p' where p': "InsertRecord dst (EncodeTuple t) TupleKeyExtract = Some (Inr pos, p')" "leaf_ok p'" "same_meta dst p'"
      "tuples p' = tuples dst @ [t]" "room_of p' = room_of dst - (length (EncodeTuple t) + 4)"
      "NilSlice \<in> set (recs p') \<longleftrightarrow> NilSlice \<in> set (recs dst)"
      by (rule insert_back [OF Suc.prems(2) t(2) room last]) (rule that)
    have "key_sorted (t # tuples_of (drop (Suc i) (recs src)))"
      using tuples_sorted [of "drop i (recs src)"] leaf_slices [OF Suc.prems(1)] leaf_okD(2) [OF Suc.prems(1)] t(3)
      by (auto simp: keys_sorted_def sorted_wrt_drop dest: in_set_dropD)
    then have srt: "\<forall>u \<in> set (tuples p'). \<forall>v \<in> set (tuples_of (drop (Suc i) (recs src))). Key u \<le> Key v"
      using Suc.prems(4) t(3) p'(4) by auto
    have pre: "n = NumSlots src - Suc i" "Suc i \<le> NumSlots src" "weight (tuples_of (drop (Suc i) (recs src))) \<le> room_of p'"
      using Suc.hyps(2) Suc.prems(5) i t(3) p'(5) by auto
    from Suc.hyps(1) [OF pre(1) Suc.prems(1) p'(2) pre(2) srt pre(3)]
    obtain dst' where "copySlots src p' [Suc i..<NumSlots src] = Some dst'" "leaf_ok dst'" "same_meta p' dst'"
      "tuples dst' = tuples p' @ tuples_of (drop (Suc i) (recs src))" "room_of dst' + weight (tuples_of (drop (Suc i) (recs src))) = room_of p'"
      "NilSlice \<in> set (recs dst') \<longleftrightarrow> NilSlice \<in> set (recs p')"
      by blast
    with t p' room show ?case by (auto simp: up same_meta_def)
  qed
qed

text \<open>A page with no room for any of them stays as it is.\<close>

lemma copySlots_full:
  assumes "leaf_ok src" and "i \<le> NumSlots src"
    and "\<forall>t \<in> set (tuples_of (drop i (recs src))). room_of dst < length (EncodeTuple t) + 4"
  shows "copySlots src dst [i..<NumSlots src] = Some dst"
  using assms(2,3)
proof (induction "NumSlots src - i" arbitrary: i)
  case (Suc n)
  then have i: "i < NumSlots src" and up: "[i..<NumSlots src] = i # [Suc i..<NumSlots src]" by (simp_all add: upt_conv_Cons)
  have n: "n = NumSlots src - Suc i" "Suc i \<le> NumSlots src" using Suc.hyps(2) i by simp_all
  from assms(1) i show ?case
  proof (rule slot_tuple)
    fix t assume t: "GetRecord src i = Some (Slice (EncodeTuple t))" "tuples_of (drop i (recs src)) = t # tuples_of (drop (Suc i) (recs src))"
    then have "room_of dst < length (EncodeTuple t) + 4" using Suc.prems(2) by simp
    from sp.full_law [OF this, of TupleKeyExtract] t Suc.hyps(1) [OF n] Suc.prems(2) show ?case by (simp add: up)
  qed (use Suc.hyps(1) [OF n] Suc.prems(2) in \<open>simp add: up\<close>)
qed simp

text \<open>A split moves the same records and leaves tombstones behind.\<close>

lemma tuples_of_tombstones [simp]: "tuples_of (replicate n NilSlice) = []"
  by (induction n) simp_all

lemma moveSlots_copySlots:
  assumes "leaf_ok src" and "i \<le> n" and "NumSlots src = n" and "length (recs src0) = n" and "leaf_ok src0"
    and "drop i (recs src) = drop i (recs src0)" and "copySlots src0 dst [i..<n] = Some dst'"
  shows "\<exists>src'. moveSlots TupleKeyExtract src dst [i..<n] = Some (src', dst') \<and> leaf_ok src' \<and> same_meta src src' \<and>
    recs src' = take i (recs src) @ replicate (n - i) NilSlice"
  using assms
proof (induction "n - i" arbitrary: i src dst)
  case 0
  then show ?case by (simp add: same_meta_def)
next
  case (Suc k)
  then have i: "i < n" and up: "[i..<n] = i # [Suc i..<n]" by (simp_all add: upt_conv_Cons)
  have len: "length (recs src) = n" "length (recs src0) = n" using Suc.prems(3,4) by simp_all
  have eq: "recs src ! i = recs src0 ! i" "drop (Suc i) (recs src) = drop (Suc i) (recs src0)"
    using Suc.prems(6) i len by (simp_all add: Cons_nth_drop_Suc [symmetric])
  have g: "GetRecord src i = Some (recs src0 ! i)" "GetRecord src0 i = Some (recs src0 ! i)"
    using leaf_okD(4) [OF Suc.prems(1)] leaf_okD(4) [OF Suc.prems(5)] i Suc.prems(3,4) eq(1) by auto
  have tk: "take (Suc i) (recs src) = take i (recs src) @ [recs src ! i]" using i len by (simp add: take_Suc_conv_app_nth)
  have rep: "n - i = Suc (n - Suc i)" using i by simp
  show ?case
  proof (cases "recs src0 ! i")
    case NilSlice
    with g Suc.prems(7) have "copySlots src0 dst [Suc i..<n] = Some dst'" by (simp add: up)
    moreover have "k = n - Suc i" using Suc.hyps(2) by simp
    ultimately obtain src' where "moveSlots TupleKeyExtract src dst [Suc i..<n] = Some (src', dst')" "leaf_ok src'" "same_meta src src'"
      "recs src' = take (Suc i) (recs src) @ replicate (n - Suc i) NilSlice"
      using Suc.hyps(1) [of "Suc i" src dst] Suc.prems(1,3,4,5) eq(2) i by auto
    with NilSlice eq(1) g show ?thesis by (simp add: up tk rep)
  next
    case (Slice bs)
    with g Suc.prems(7) obtain r d1 where d1: "InsertRecord dst bs TupleKeyExtract = Some (r, d1)" "copySlots src0 d1 [Suc i..<n] = Some dst'"
      by (auto simp: up bind_eq_Some_conv)
    obtain s1 where s1: "DeleteRecord src i = Some s1" "leaf_ok s1" "same_meta src s1" "recs s1 = (recs src)[i := NilSlice]"
      by (rule leaf_ok_delete [OF Suc.prems(1)]) (use i Suc.prems(3) in auto)
    have n1: "NumSlots s1 = n" using arg_cong [OF s1(4), of length] len by simp
    have dr: "drop (Suc i) (recs s1) = drop (Suc i) (recs src0)" using eq(2) s1(4) by simp
    have tk1: "take (Suc i) (recs s1) = take i (recs src) @ [NilSlice]"
      using i len by (simp add: s1(4) take_Suc_conv_app_nth)
    have "k = n - Suc i" using Suc.hyps(2) by simp
    from Suc.hyps(1) [OF this s1(2) _ n1 Suc.prems(4,5) dr d1(2)] i
    obtain src' where "moveSlots TupleKeyExtract s1 d1 [Suc i..<n] = Some (src', dst')" "leaf_ok src'" "same_meta s1 src'"
      "recs src' = take (Suc i) (recs s1) @ replicate (n - Suc i) NilSlice" by auto
    with Slice g d1(1) s1(1,3) show ?thesis by (auto simp: up tk1 rep same_meta_def)
  qed
qed

section \<open>A split\<close>

lemma fresh_right:
  assumes "page_ok p"
  shows "leaf_ok (EncodeHeader p (rightHeader h lid))" and "recs (EncodeHeader p (rightHeader h lid)) = []"
    and "room_of (EncodeHeader p (rightHeader h lid)) = 4064"
proof -
  let ?r = "EncodeHeader p (rightHeader h lid)"
  have f: "page_ok ?r" "NumSlots ?r = 0" "free_start ?r = 32" "free_end ?r = 4096"
    using assms by (simp_all add: frame_simps rightHeader_def emptyHeader_def free_start_def free_end_def page_consts)
  then have e: "slots ?r = []" by (simp add: slots_of_def)
  then show r: "recs ?r = []" by (simp add: recs_def)
  have "page_wf ?r" using f e by (simp add: page_wf_def area_ok_def page_consts)
  with r show "leaf_ok ?r" by (simp add: leaf_ok_def keys_sorted_def)
  show "room_of ?r = 4064" using f by (simp add: room_of_def)
qed

lemma half_weight: "leaf_ok p \<Longrightarrow> weight (tuples_of (drop k (recs p))) \<le> 4064"
  using leaf_weight [of p] tuples_of_append [of "take k (recs p)" "drop k (recs p)"] by simp

lemma splitHalves_ok:
  assumes leaf: "leaf_ok leaf" and right: "leaf_ok right" "recs right = []" "room_of right = 4064"
    and m: "m = NumSlots leaf div 2"
  obtains l r where "splitHalves leaf right lid rid nxt = Some (l, r)" and "leaf_ok l" and "leaf_ok r"
    and "tuples l = tuples_of (take m (recs leaf))" and "tuples r = tuples_of (drop m (recs leaf))" and "NilSlice \<notin> set (recs r)"
    and "NextSib l = rid" and "PrevSib l = PrevSib leaf" and "PrevSib r = lid" and "NextSib r = nxt"
    and "room_of l + weight (tuples l) = 4064" and "room_of r + weight (tuples r) = 4064"
proof -
  let ?n = "NumSlots leaf"
  have mn: "m \<le> ?n" by (simp add: m)
  have "weight (tuples_of (drop m (recs leaf))) \<le> room_of right" using half_weight [OF leaf] right(3) by simp
  then obtain r1 where r1: "copySlots leaf right [m..<?n] = Some r1" "leaf_ok r1" "same_meta right r1"
    "tuples r1 = tuples right @ tuples_of (drop m (recs leaf))" "room_of r1 + weight (tuples_of (drop m (recs leaf))) = room_of right"
    "NilSlice \<in> set (recs r1) \<longleftrightarrow> NilSlice \<in> set (recs right)"
    using copySlots_ok [OF leaf right(1) mn] right(2) by auto
  obtain l1 where l1: "moveSlots TupleKeyExtract leaf right [m..<?n] = Some (l1, r1)" "leaf_ok l1" "same_meta leaf l1"
    "recs l1 = take m (recs leaf) @ replicate (?n - m) NilSlice"
    using moveSlots_copySlots [OF leaf mn refl _ leaf refl r1(1)] by auto
  obtain l2 where l2: "Compact l1 = Some l2" "leaf_ok l2" "same_meta l1 l2" "recs l2 = map Slice (live (recs l1))"
    "room_of l2 + sum_list (map (\<lambda>d. length d + 4) (live (recs l1))) = 4064"
    by (rule leaf_ok_compact [OF l1(2)]) (rule that)
  have tl: "tuples l2 = tuples_of (take m (recs leaf))" by (simp add: l2(4) tuples_of_live l1(4) tuples_of_append)
  have w: "room_of l2 + weight (tuples l2) = 4064"
    using l2(5) by (simp add: weight_def live_tuples [OF leaf_slices [OF l1(2)]] comp_def tl) (simp add: l1(4) tuples_of_append)
  note wl = leaf_ok_wf [OF l2(2)] and wr = leaf_ok_wf [OF r1(2)]
  have s: "splitHalves leaf right lid rid nxt = Some (SetNextSib l2 rid, SetNextSib (SetPrevSib r1 lid) nxt)"
    using l1(1) l2(1) by (simp add: splitHalves_def m)
  have okr: "leaf_ok (SetPrevSib r1 lid)" using r1(2) by simp
  show thesis
    using s l2(2) okr tl w r1(4,5,6) right(2,3) wl wr page_wf_ok [OF wl] page_wf_ok [OF wr] l1(3) l2(3)
      page_wf_ok [OF leaf_ok_wf [OF okr]] leaf_ok_wf [OF okr]
    by (intro that [OF s]) (simp_all add: frame_simps same_meta_def)
qed

lemma first_slot:
  assumes "leaf_ok p" and "NilSlice \<notin> set (recs p)" and "tuples p = t # ts"
  shows "firstKey p = Some (Key t)"
proof -
  have "recs p \<noteq> []" using assms(3) by auto
  then obtain s rs where r: "recs p = s # rs" by (cases "recs p") auto
  have n: "0 < NumSlots p" using arg_cong [OF r, of length] by simp
  have "tuple_slice s" "s \<noteq> NilSlice" using leaf_slices [OF assms(1)] assms(2) r by auto
  then obtain u where u: "s = Slice (EncodeTuple u)" "tuple_ok u" by (auto elim: tuple_slice_cases)
  with assms(3) r have "u = t" by (simp add: DecodeTuple_EncodeTuple)
  with leaf_okD(4) [OF assms(1) n] r u show ?thesis by (simp add: firstKey_def TupleKeyExtract_EncodeTuple)
qed

lemma InsertTuple_full: "room_of p < length (EncodeTuple t) + 4 \<Longrightarrow> InsertTuple p t = Some (Inl ErrPageFull, p)"
  using sp.full_law [of p "EncodeTuple t" TupleKeyExtract] by (simp add: InsertTuple_def)

text \<open>Where the new tuple goes, and what it does there.\<close>

lemma placeTuple_ok:
  assumes l: "leaf_ok l" and r: "leaf_ok r" "NilSlice \<notin> set (recs r)" "tuples r \<noteq> []" and t: "tuple_ok t"
    and le: "\<forall>a \<in> set (tuples l). \<forall>b \<in> set (tuples r). Key a \<le> Key b"
    and tg: "target = (if Key (hd (tuples r)) \<le> Key t then r else l)"
  shows "\<exists>l' r'. placeTuple l r (Key t) t = Some (l', r') \<and> leaf_ok l' \<and> leaf_ok r' \<and>
    (if length (EncodeTuple t) + 4 \<le> room_of target
     then mset (tuples l' @ tuples r') = add_mset t (mset (tuples l @ tuples r)) \<and> key_sorted (tuples l' @ tuples r')
     else l' = l \<and> r' = r)"
proof -
  obtain u us where u: "tuples r = u # us" using r(3) by (cases "tuples r") auto
  have f: "firstKey r = Some (Key u)" by (rule first_slot [OF r(1,2) u])
  have ur: "\<forall>b \<in> set (tuples r). Key u \<le> Key b" using leaf_sorted [OF r(1)] u by auto
  have tl: "leaf_ok target" using l r(1) tg by simp
  show ?thesis
  proof (cases "length (EncodeTuple t) + 4 \<le> room_of target")
    case False
    then have "InsertTuple target t = Some (Inl ErrPageFull, target)" by (intro InsertTuple_full) simp
    with False f l r(1) u tg show ?thesis by (cases "Key u \<le> Key t") (auto simp: placeTuple_def)
  next
    case True
    obtain pos p' as bs where p': "InsertRecord target (EncodeTuple t) TupleKeyExtract = Some (Inr pos, p')" "leaf_ok p'"
      and ab: "tuples target = as @ bs" "tuples p' = as @ t # bs"
      by (rule insert_record [OF tl t True]) (rule that)
    have ins: "InsertTuple target t = Some (Inr (), p')" using p'(1) by (simp add: InsertTuple_def)
    have set: "set (tuples p') = insert t (set (tuples target))" using ab by auto
    note sp' = leaf_sorted [OF p'(2)]
    show ?thesis
    proof (cases "Key u \<le> Key t")
      case right: True
      then have tr: "target = r" using tg u by simp
      have "Key a \<le> Key b" if "a \<in> set (tuples l)" "b \<in> set (tuples p')" for a b
        using that le set right u tr by (auto intro: order_trans [of _ "Key u"])
      with sp' leaf_sorted [OF l] True ins f right p' ab tr l u show ?thesis
        by (intro exI [of _ l] exI [of _ p']) (auto simp: placeTuple_def sorted_wrt_append)
    next
      case left: False
      then have tr: "target = l" using tg u by simp
      have "Key a \<le> Key b" if "a \<in> set (tuples p')" "b \<in> set (tuples r)" for a b
      proof -
        have "Key t \<le> Key b" using left ur that(2) by (meson le_less_trans not_le order.strict_implies_order)
        then show ?thesis using that le set tr by auto
      qed
      with sp' leaf_sorted [OF r(1)] True ins f left p' ab tr r(1) u show ?thesis
        by (intro exI [of _ p'] exI [of _ r]) (auto simp: placeTuple_def sorted_wrt_append)
    qed
  qed
qed

section \<open>Properties\<close>





end
