(* ===== verification/Structure.thy ===== *)
theory Structure
  imports Inspect
begin

text \<open>
  The tree as the engine prints it (\<open>TreeStructure\<close> and \<open>buildTreeNode\<close> of
  \<^verbatim>\<open>internal/engine/engine.go\<close>). The recursion follows the child pointers of the pages, so it is partial:
  a cycle of pages is the value \<^term>\<open>None\<close>. A node that cannot be fetched is nil and left out.
\<close>

section \<open>Definitions\<close>

datatype TreeNode = TreeNode (nPageID: u32) (nType: string) (nNumSlots: nat) (nFillPct: rat)
  (nPrevSib: u32) (nNextSib: u32) (nKeys: "bytes list") (nChildren: "TreeNode list")

definition FillPct :: "PageHeader \<Rightarrow> rat" where
  "FillPct hdr =
     (let used = int (unat (hFreeStart hdr)) - int HeaderSize;
          total = int PageSize - int HeaderSize;
          total = (if total = 0 then 1 else total)
      in of_int used / of_int total * 100)"

text \<open>The separator records that the loop over the slots of an internal page decodes.\<close>

fun separators :: "Page \<Rightarrow> nat list \<Rightarrow> InternalRecord list option" where
  "separators p [] = Some []"
| "separators p (i # is) = do {
     data \<leftarrow> GetRecord p i;
     rest \<leftarrow> separators p is;
     Some (case data of
             NilSlice \<Rightarrow> rest
           | Slice bs \<Rightarrow> (case DecodeInternalRecord bs of Inl _ \<Rightarrow> rest | Inr r \<Rightarrow> r # rest)) }"

fun sampleKeys :: "Page \<Rightarrow> nat list \<Rightarrow> bytes list option" where
  "sampleKeys p [] = Some []"
| "sampleKeys p (i # is) = do {
     data \<leftarrow> GetRecord p i;
     rest \<leftarrow> sampleKeys p is;
     Some (case data of
             NilSlice \<Rightarrow> rest
           | Slice bs \<Rightarrow> (case DecodeTuple bs of Inl _ \<Rightarrow> rest | Inr t \<Rightarrow> Key t # rest)) }"

text \<open>
  The calls of \<open>addChild\<close>, in order: \<open>seen\<close> are the children already visited, and \<open>build\<close> is the recursive
  call.
\<close>

fun addChildren ::
  "(StorageEngine \<Rightarrow> u32 \<Rightarrow> (TreeNode option \<times> StorageEngine) option) \<Rightarrow> StorageEngine \<Rightarrow> u32 list \<Rightarrow> u32 list \<Rightarrow>
   (TreeNode list \<times> StorageEngine) option" where
  "addChildren build e seen [] = Some ([], e)"
| "addChildren build e seen (childID # cs) =
     (if childID = 0 \<or> childID \<in> set seen then addChildren build e seen cs
      else do {
        (child, e) \<leftarrow> build e childID;
        (rest, e) \<leftarrow> addChildren build e (childID # seen) cs;
        Some (case child of None \<Rightarrow> rest | Some node \<Rightarrow> node # rest, e) })"

lemma addChildren_mono [partial_function_mono]:
  assumes "\<And>e c. mono_option (\<lambda>f. B f e c)"
  shows "mono_option (\<lambda>f. addChildren (B f) e seen cs)"
proof (induction cs arbitrary: e seen)
  case Nil
  show ?case unfolding addChildren.simps by (rule option.const_mono)
next
  case (Cons c cs)
  show ?case
    unfolding addChildren.simps split_beta
    by (intro partial_function_mono assms Cons.IH)
qed

partial_function (option) buildTreeNode :: "StorageEngine \<Rightarrow> u32 \<Rightarrow> (TreeNode option \<times> StorageEngine) option" where
  "buildTreeNode e pageID = do {
     (res, t) \<leftarrow> fetchT (tree e) pageID;
     (case res of
        Inl _ \<Rightarrow> Some (None, e\<lparr>tree := t\<rparr>)
      | Inr frame \<Rightarrow> do {
          let p = readT t frame;
          let e = e\<lparr>tree := unpinT t (framePageID t frame) False\<rparr>;
          let hdr = DecodeHeader p;
          if hType hdr = PageTypeInternal then do {
            seps \<leftarrow> separators p [0..<NumSlots p];
            (children, e) \<leftarrow> addChildren (\<lambda>e c. buildTreeNode e c) e [] (hPrevSib hdr # map irChildID seps @ [RightmostChild p]);
            Some (Some (TreeNode pageID ''internal'' (NumSlots p) (FillPct hdr) (hPrevSib hdr) (hNextSib hdr)
                    (map irKey seps) children), e) }
          else do {
            keys \<leftarrow> sampleKeys p [0..<min (NumSlots p) 5];
            Some (Some (TreeNode pageID ''leaf'' (NumSlots p) (FillPct hdr) (hPrevSib hdr) (hNextSib hdr) keys []), e) } }) }"

definition TreeStructure :: "StorageEngine \<Rightarrow> (TreeNode option \<times> StorageEngine) option" where
  "TreeStructure e = buildTreeNode e (RootPageID (tree e))"

end
