(* ===== verification/Structure_Props.thy ===== *)
theory Structure_Props
  imports Structure Tree_Props
begin

text \<open>
  The printed tree is the tree of the pages. \<open>depicts V x node\<close> says that the pages below \<open>x\<close> form a finite tree
  and \<open>node\<close> shows it; \<open>buildTreeNode\<close> returns that node, with one free frame for the whole walk.
\<close>

section \<open>The shown tree\<close>

fun new_children :: "u32 list \<Rightarrow> u32 list \<Rightarrow> u32 list" where
  "new_children seen [] = []"
| "new_children seen (c # cs) = (if c = 0 \<or> c \<in> set seen then new_children seen cs else c # new_children (c # seen) cs)"

lemma new_children_set: "set (new_children seen cs) = set cs - set seen - {0}"
  by (induction cs arbitrary: seen) auto

lemma new_children_distinct: "distinct (new_children seen cs)"
  by (induction cs arbitrary: seen) (auto simp: new_children_set)

definition child_pointers :: "Page \<Rightarrow> u32 list" where
  "child_pointers p = new_children [] (PrevSib p # map irChildID (seps p) @ [NextSib p])"

definition slot_fill :: "Page \<Rightarrow> rat" where
  "slot_fill p = of_nat (4 * NumSlots p) / 4064 * 100"

inductive depicts :: "(u32 \<Rightarrow> bytes option) \<Rightarrow> u32 \<Rightarrow> TreeNode \<Rightarrow> bool" for V where
  leaf: "x \<noteq> 0 \<Longrightarrow> V x = Some d \<Longrightarrow> good_image d \<Longrightarrow> p = page_at x d \<Longrightarrow> Type p = PageTypeLeaf \<Longrightarrow> leaf_ok p \<Longrightarrow>
    depicts V x (TreeNode x ''leaf'' (NumSlots p) (slot_fill p) (PrevSib p) (NextSib p) (map Key (tuples_of (take 5 (recs p)))) [])"
| node: "x \<noteq> 0 \<Longrightarrow> V x = Some d \<Longrightarrow> good_image d \<Longrightarrow> p = page_at x d \<Longrightarrow> Type p = PageTypeInternal \<Longrightarrow> internal_ok p \<Longrightarrow>
    list_all2 (depicts V) (child_pointers p) nodes \<Longrightarrow>
    depicts V x (TreeNode x ''internal'' (NumSlots p) (slot_fill p) (PrevSib p) (NextSib p) (map irKey (seps p)) nodes)"

lemma separators_seps:
  assumes "internal_ok p"
  shows "separators p [0..<NumSlots p] = Some (seps p)"
proof -
  have "separators p is = Some (map ((!) (seps p)) is)" if "\<forall>i \<in> set is. i < NumSlots p" for "is"
    using that internal_okD(3) [OF assms]
    by (induction "is") (simp_all add: GetRecord_recs [OF internal_okD(1) [OF assms]] DecodeInternalRecord_Encode)
  then show ?thesis using map_nth [of "seps p"] by simp
qed

lemma sampleKeys_tuples:
  assumes "leaf_ok p"
  shows "sampleKeys p [0..<min (NumSlots p) 5] = Some (map Key (tuples_of (take 5 (recs p))))"
proof -
  have "sampleKeys p is = Some (map Key (tuples_of (map ((!) (recs p)) is)))" if "\<forall>i \<in> set is. i < NumSlots p" for "is"
    using that by (induction "is") (auto simp: GetRecord_recs [OF leaf_ok_wf [OF assms]] split: slice.split sum.split)
  moreover have "map ((!) (recs p)) [0..<min (NumSlots p) 5] = take 5 (recs p)"
    by (rule nth_equalityI) simp_all
  ultimately show ?thesis by simp
qed

lemma FillPct_slots: "page_wf p \<Longrightarrow> FillPct (DecodeHeader p) = slot_fill p"
  by (simp add: FillPct_def slot_fill_def page_wf_def free_start_def page_consts Let_def algebra_simps)

lemma addChildren_ok:
  assumes "list_all2 (\<lambda>c n. \<forall>e. H (tree e) \<longrightarrow> (\<exists>bt'. B e c = Some (Some n, e\<lparr>tree := bt'\<rparr>) \<and> H bt')) (new_children seen cs) nodes"
    and "H (tree e)"
  shows "\<exists>bt'. addChildren B e seen cs = Some (nodes, e\<lparr>tree := bt'\<rparr>) \<and> H bt'"
  using assms
proof (induction cs arbitrary: e seen nodes)
  case Nil
  then show ?case by (intro exI [of _ "tree e"]) simp
next
  case (Cons c cs)
  show ?case
  proof (cases "c = 0 \<or> c \<in> set seen")
    case True
    with Cons show ?thesis by auto
  next
    case False
    with Cons.prems(1) obtain n ns where n: "nodes = n # ns"
      "\<forall>e. H (tree e) \<longrightarrow> (\<exists>bt'. B e c = Some (Some n, e\<lparr>tree := bt'\<rparr>) \<and> H bt')"
      "list_all2 (\<lambda>c n. \<forall>e. H (tree e) \<longrightarrow> (\<exists>bt'. B e c = Some (Some n, e\<lparr>tree := bt'\<rparr>) \<and> H bt')) (new_children (c # seen) cs) ns"
      by (auto simp: list_all2_Cons1)
    from n(2) Cons.prems(2) obtain b1 where b1: "B e c = Some (Some n, e\<lparr>tree := b1\<rparr>)" "H b1" by blast
    from Cons.IH [OF n(3), of "e\<lparr>tree := b1\<rparr>"] b1 False n(1) show ?thesis by auto
  qed
qed

text \<open>One page: fetched, read and released before its children are visited.\<close>

lemma fetch_release:
  assumes h: "held bt0 bt {#}" and c: "clocked (bufPool bt0)" "0 < free_frames (bufPool bt0)"
    and x: "x \<noteq> 0" "view (bufPool bt0) x = Some d" "good_image d"
  obtains i bt1 where "fetchT bt x = Some (Inr i, bt1)" and "readT bt1 i = page_at x d" and "framePageID bt1 i = x"
    and "held bt0 (unpinT bt1 x False) {#}"
proof -
  obtain r bt1 where r: "fetchT bt x = Some (r, bt1)"
    "case r of Inr i \<Rightarrow> held bt0 bt1 (add_mset i {#}) \<and> pinned_at (bufPool bt1) i x
      | Inl e \<Rightarrow> held bt0 bt1 {#} \<and> fetch_result (bufPool bt) x (Inl e) (bufPool bt1)"
    by (rule held_fetch [OF h x(1)]) (rule that)
  show thesis
  proof (cases r)
    case (Inl e)
    with r(2) not_full [OF h _ heldD(2) [OF h x(2)] x(3)] c show thesis by auto
  next
    case (Inr i)
    with r(2) have i: "held bt0 bt1 (add_mset i {#})" "pinned_at (bufPool bt1) i x" by simp_all
    from pinned_read [OF heldD(1) [OF i(1)] i(2) heldD(2) [OF i(1) x(2)]] held_unpin(1) [OF i] r(1) Inr
    show thesis by (intro that) simp_all
  qed
qed

lemma buildTreeNode_ok:
  assumes "depicts V x node" and "\<forall>q d. V q = Some d \<longrightarrow> view (bufPool bt0) q = Some d"
    and "clocked (bufPool bt0)" and "0 < free_frames (bufPool bt0)" and "held bt0 (tree e) {#}"
  shows "\<exists>bt'. buildTreeNode e x = Some (Some node, e\<lparr>tree := bt'\<rparr>) \<and> held bt0 bt' {#}"
  using assms(1,5)
proof (induction arbitrary: e rule: depicts.induct)
  case (leaf x d p)
  obtain i bt1 where F: "fetchT (tree e) x = Some (Inr i, bt1)" "readT bt1 i = page_at x d" "framePageID bt1 i = x"
    "held bt0 (unpinT bt1 x False) {#}"
    by (rule fetch_release [OF leaf.prems assms(3,4) leaf.hyps(1) assms(2) [rule_format, OF leaf.hyps(2)] leaf.hyps(3)])
  with leaf.hyps(4-6) sampleKeys_tuples [OF leaf.hyps(6)] FillPct_slots [OF leaf_ok_wf [OF leaf.hyps(6)]] show ?case
    by (subst buildTreeNode.simps) (auto simp: PageTypeLeaf_def PageTypeInternal_def Let_def)
next
  case (node x d p nodes)
  obtain i bt1 where F: "fetchT (tree e) x = Some (Inr i, bt1)" "readT bt1 i = page_at x d" "framePageID bt1 i = x"
    "held bt0 (unpinT bt1 x False) {#}"
    by (rule fetch_release [OF node.prems assms(3,4) node.hyps(1) assms(2) [rule_format, OF node.hyps(2)] node.hyps(3)])
  let ?e = "e\<lparr>tree := unpinT bt1 x False\<rparr>"
  have "list_all2 (\<lambda>c n. \<forall>e. held bt0 (tree e) {#} \<longrightarrow> (\<exists>bt'. buildTreeNode e c = Some (Some n, e\<lparr>tree := bt'\<rparr>) \<and> held bt0 bt' {#}))
      (new_children [] (PrevSib p # map irChildID (seps p) @ [NextSib p])) nodes"
    using node.IH unfolding child_pointers_def by (rule list_all2_mono) blast
  from addChildren_ok [where H = "\<lambda>bt. held bt0 bt {#}", OF this, of ?e] F(4)
  obtain bt' where "addChildren buildTreeNode ?e [] (PrevSib p # map irChildID (seps p) @ [NextSib p]) = Some (nodes, e\<lparr>tree := bt'\<rparr>)"
    "held bt0 bt' {#}" by auto
  with F node.hyps(4-6) separators_seps [OF node.hyps(6)] FillPct_slots [OF internal_okD(1) [OF node.hyps(6)]] show ?case
    by (subst buildTreeNode.simps) (auto simp: RightmostChild_def Let_def)
qed

section \<open>Properties\<close>

text \<open>
  C28. The printed tree is the tree on the pages. When the pages below the root form a finite tree and
  one frame is free, \<open>TreeStructure\<close> returns: its result has a node for each page, in the order of the child
  pointers and each child once, with the separators of an internal page and the first keys of a
  leaf. The fill percentage of a node counts its slot entries and not its records. No pin is kept and no page is changed.
\<close>

theorem TreeStructure_exact:
  assumes "pool_inv (bufPool (tree e))" and "quiet {} (bufPool (tree e))" and "clocked (bufPool (tree e))"
    and "0 < free_frames (bufPool (tree e))" and "depicts (pages (tree e)) (rootPageID (tree e)) node"
  shows "\<exists>e'. TreeStructure e = Some (Some node, e') \<and> pool_inv (bufPool (tree e')) \<and>
    (\<forall>q d. pages (tree e) q = Some d \<longrightarrow> pages (tree e') q = Some d) \<and>
    (\<forall>j < length (frames (bufPool (tree e'))). pin (bufPool (tree e')) j = pin (bufPool (tree e)) j) \<and>
    e' = e\<lparr>tree := (tree e)\<lparr>bufPool := bufPool (tree e')\<rparr>\<rparr>"
proof -
  obtain bt' where b: "buildTreeNode e (rootPageID (tree e)) = Some (Some node, e\<lparr>tree := bt'\<rparr>)" "held (tree e) bt' {#}"
    using buildTreeNode_ok [OF assms(5) _ assms(3,4) held_start [OF assms(1,2)]] by blast
  have eq: "bt' = (tree e)\<lparr>bufPool := bufPool bt'\<rparr>" using b(2) by (simp add: held_def)
  have "e\<lparr>tree := bt'\<rparr> = e\<lparr>tree := (tree e)\<lparr>bufPool := bufPool bt'\<rparr>\<rparr>" by (subst eq) simp
  with b show ?thesis
    by (intro exI [of _ "e\<lparr>tree := bt'\<rparr>"]) (simp add: TreeStructure_def RootPageID_def held_def)
qed

theorem TreeStructure_exact_witness:
  "\<exists>e node e'. TreeStructure e = Some (Some node, e') \<and> nPageID node = 1 \<and> nType node = ''leaf'' \<and> nChildren node = []"
proof -
  obtain bt where bt: "pool_inv (bufPool bt)" "quiet {} (bufPool bt)" "rootPageID bt = 1"
    "btree (pages bt) UNIV 0 1 (\<lambda>k. if k = [1] then [example_tuple] else [])" "clocked (bufPool bt)" "free_frames (bufPool bt) = 2"
    by (rule tree_example)
  define e where "e = \<lparr>cfg = DefaultConfig [], tree = bt, crashed = False, checkpointTicker = False, checkpointDone = False, lastCheckpointLSN = 0,
    lastCheckpointAt = 0\<rparr>"
  from bt(4) obtain d where "pages bt 1 = Some d" "good_image d" "Type (page_at 1 d) = PageTypeLeaf" "leaf_ok (page_at 1 d)"
    by (rule btree_0E) blast
  then have "depicts (pages (tree e)) (rootPageID (tree e)) (TreeNode 1 ''leaf'' (NumSlots (page_at 1 d)) (slot_fill (page_at 1 d))
      (PrevSib (page_at 1 d)) (NextSib (page_at 1 d)) (map Key (tuples_of (take 5 (recs (page_at 1 d))))) [])"
    using bt(3) by (auto simp: e_def intro: depicts.leaf)
  from TreeStructure_exact [OF _ _ _ _ this] bt show ?thesis by (fastforce simp: e_def)
qed

end
