(* ===== verification/Tree_Update.thy ===== *)
theory Tree_Update
  imports Split_Props Tree_Props Delete_Props
begin

text \<open>
  One leaf of a search tree changes: what this means for the map that the tree represents, and how
  a page that the caller has pinned is stored and released.
\<close>

section \<open>Changing one leaf of a tree\<close>

lemma leaf_internal: "PageTypeLeaf \<noteq> PageTypeInternal"
  by (simp add: PageTypeLeaf_def PageTypeInternal_def)

text \<open>A change of another leaf does not touch a tree.\<close>

lemma btree_frame:
  assumes "btree V K h x f" and "\<not> leaf_below V h x y" and "V y = Some d" and "Type (page_at y d) = PageTypeLeaf"
  shows "btree (V(y \<mapsto> d')) K h x f"
  using assms
proof (induction rule: btree.induct)
  case (leaf x e K)
  then have "x \<noteq> y" by (auto intro: leaf_below.here)
  with leaf show ?case by (intro btree.leaf) simp_all
next
  case (node x e K h g)
  then have "x \<noteq> y" using leaf_internal by auto
  then have e: "(V(y \<mapsto> d')) x = Some e" using node.hyps(2) by simp
  have "btree (V(y \<mapsto> d')) (K \<inter> {k'. child_for (page_at x e) k' = child_for (page_at x e) k}) h (child_for (page_at x e) k)
      (g (child_for (page_at x e) k))" for k
    using node.IH node.prems leaf_below.down [of V x e, OF node.hyps(2)] by blast
  then show ?case by (rule btree.node [where V = "V(y \<mapsto> d')", OF node.hyps(1) e node.hyps(3-5)])
qed

text \<open>The shape of a tree is in its internal pages.\<close>

abbreviation same_nodes :: "(u32 \<Rightarrow> bytes option) \<Rightarrow> (u32 \<Rightarrow> bytes option) \<Rightarrow> bool" where
  "same_nodes V V' \<equiv> \<forall>q e. V q = Some e \<and> Type (page_at q e) = PageTypeInternal \<longrightarrow> V' q = Some e"

lemma leaf_below_cong:
  assumes "btree V K h x f" and "same_nodes V V'"
  shows "leaf_below V' h x z = leaf_below V h x z"
  using assms
proof (induction arbitrary: z rule: btree.induct)
  case (leaf x e K)
  show ?case by (auto elim: leaf_below_0E intro: leaf_below.here)
next
  case (node x e K h g)
  then have "V' x = Some e" by blast
  with node show ?case by (auto elim!: leaf_below_SucE intro: leaf_below.down)
qed

lemma leaf_below_page: "btree V K h x f \<Longrightarrow> leaf_below V h x y \<Longrightarrow> \<exists>d. V y = Some d"
  by (induction arbitrary: y rule: btree.induct) (auto elim!: leaf_below_0E leaf_below_SucE)

lemma btree_mono:
  assumes "btree V K h x f" and "\<And>q e. V q = Some e \<Longrightarrow> V' q = Some e"
  shows "btree V' K h x f"
  using assms(1)
proof (induction rule: btree.induct)
  case (node x d K h g)
  show ?case by (rule btree.node [OF node.hyps(1) assms(2) [OF node.hyps(2)] node.hyps(3-5) node.IH])
qed (auto intro: btree.leaf assms(2))

text \<open>No leaf is below two children of a page.\<close>

primrec unshared :: "(u32 \<Rightarrow> bytes option) \<Rightarrow> nat \<Rightarrow> u32 \<Rightarrow> bool" where
  "unshared V 0 x \<longleftrightarrow> True"
| "unshared V (Suc h) x \<longleftrightarrow> (\<forall>d k. V x = Some d \<longrightarrow> unshared V h (child_for (page_at x d) k) \<and>
     (\<forall>k' y. leaf_below V h (child_for (page_at x d) k) y \<and> leaf_below V h (child_for (page_at x d) k') y \<longrightarrow>
        child_for (page_at x d) k = child_for (page_at x d) k'))"

lemma unshared_cong:
  assumes "btree V K h x f" and "same_nodes V V'" and "unshared V h x"
  shows "unshared V' h x"
  using assms
proof (induction rule: btree.induct)
  case (node x e K h g)
  then have "V' x = Some e" by blast
  with node leaf_below_cong [OF node.hyps(6) node.prems(1)] show ?case by simp
qed simp

lemma btree_insert:
  assumes "btree V K h x f" and "unshared V h x" and "key \<in> K" and "V (leaf_for V h x key) = Some d"
    and "good_image d'" and "Type (page_at (leaf_for V h x key) d') = PageTypeLeaf" and "leaf_ok (page_at (leaf_for V h x key) d')"
    and "versions_in (page_at (leaf_for V h x key) d') = (versions_in (page_at (leaf_for V h x key) d))(key := versions_in (page_at (leaf_for V h x key) d) key @ [t])"
    and "Key t = key"
  shows "btree (V(leaf_for V h x key \<mapsto> d')) K h x (f(key := f key @ [t]))"
  using assms
proof (induction rule: btree.induct)
  case (leaf x e K)
  let ?V = "V(x \<mapsto> d')"
  have "Key u \<in> K" if "u \<in> set (tuples_of (recs (page_at x d')))" for u
  proof -
    from that have "u \<in> set (versions_in (page_at x d') (Key u))" by (simp add: versions_in_def)
    with leaf.prems(7,8) have "u \<in> set (versions_in (page_at x d) (Key u)) \<or> Key u = key" by (auto split: if_splits)
    with leaf.hyps(2,6) leaf.prems(2,3) show ?thesis by (auto simp: versions_in_def)
  qed
  with leaf have "btree ?V K 0 x (versions_in (page_at x d'))" by (intro btree.leaf) simp_all
  with leaf show ?case by (simp del: fun_upd_apply)
next
  case (node x e K h g)
  let ?c = "\<lambda>k. child_for (page_at x e) k" and ?y = "leaf_for V (Suc h) x key"
  have y: "?y = leaf_for V h (?c key) key" using node.hyps(2) by simp
  have ty: "leaf_below V h (?c key) ?y" "Type (page_at ?y d) = PageTypeLeaf"
    using leaf_for_page [OF node.hyps(6) [of key], of key] node.prems(3) unfolding y by auto
  have xy: "x \<noteq> ?y" using node.hyps(2,4) ty(2) node.prems(3) leaf_internal by auto
  define g' where "g' = g(?c key := (g (?c key))(key := g (?c key) key @ [t]))"
  have sub: "btree (V(?y \<mapsto> d')) (K \<inter> {k'. ?c k' = ?c k}) h (?c k) (g' (?c k))" for k
  proof (cases "?c k = ?c key")
    case True
    have "btree (V(?y \<mapsto> d')) (K \<inter> {k'. ?c k' = ?c key}) h (?c key) ((g (?c key))(key := g (?c key) key @ [t]))"
      unfolding y by (rule node.IH [OF _ _ node.prems(3-8) [unfolded y]]) (use node.prems(1,2) node.hyps(2) in auto)
    with True show ?thesis by (simp add: g'_def)
  next
    case False
    then have "\<not> leaf_below V h (?c k) ?y" using node.prems(1) node.hyps(2) ty(1) by auto
    from btree_frame [OF node.hyps(6) this node.prems(3) ty(2)] False show ?thesis by (simp add: g'_def)
  qed
  have "btree (V(?y \<mapsto> d')) K (Suc h) x (\<lambda>k. g' (?c k) k)"
    by (rule btree.node [OF node.hyps(1) _ node.hyps(3-5) sub]) (use xy node.hyps(2) in simp)
  moreover have "(\<lambda>k. g' (?c k) k) = (\<lambda>k. g (?c k) k)(key := g (?c key) key @ [t])"
    by (auto simp: g'_def)
  ultimately show ?case by (simp only:)
qed

section \<open>The page and the pool\<close>

lemma leaf_insert:
  assumes ok: "leaf_ok p" and room: "length (EncodeTuple t) + 4 \<le> room_of p"
  obtains pos p' where "InsertRecord (if l \<noteq> 0 then SetPageLSN p l else p) (EncodeTuple t) TupleKeyExtract = Some (Inr pos, p')"
    and "leaf_ok p'" and "VerifyChecksum p'" and "Type p' = Type p" and "ID p' = ID p"
    and "versions_in p' = (versions_in p)(Key t := versions_in p (Key t) @ [t])" and "set (tuples p') = insert t (set (tuples p))"
proof -
  let ?q = "if l \<noteq> 0 then SetPageLSN p l else p"
  note wf = leaf_ok_wf [OF ok]
  have q: "leaf_ok ?q" "recs ?q = recs p" "room_of ?q = room_of p" "Type ?q = Type p" "ID ?q = ID p"
    using ok wf page_wf_ok [OF wf] by (simp_all add: frame_simps)
  have bd: "room_of p \<le> 4064" using page_wf_bounds [OF wf] by (auto simp: room_of_def page_consts)
  then have t: "tuple_ok t" using room by (simp add: tuple_ok_def)
  have r: "length (EncodeTuple t) + 4 \<le> room_of ?q" using room q(3) by simp
  obtain pos p' as bs where i: "InsertRecord ?q (EncodeTuple t) TupleKeyExtract = Some (Inr pos, p')" "leaf_ok p'" "same_meta ?q p'"
    and s: "tuples ?q = as @ bs" "tuples p' = as @ t # bs" "\<forall>u \<in> set as. Key u \<le> Key t" "\<forall>u \<in> set bs. Key t < Key u"
    by (rule insert_record [OF q(1) t r]) (rule that)
  have fit: "free_start ?q + length (EncodeTuple t) + 4 \<le> free_end ?q" using r by (simp add: room_of_def)
  have ne: "EncodeTuple t \<noteq> []" by simp
  obtain pos' p'' where "InsertRecord ?q (EncodeTuple t) TupleKeyExtract = Some (Inr pos', p'')" "VerifyChecksum p''"
    by (rule InsertRecord_ok [OF leaf_okD(1,2) [OF q(1)] ne fit])
  then have "VerifyChecksum p'" using i(1) by simp
  moreover have "filter (\<lambda>u. Key u = Key t) bs = []" using s(4) by (auto simp: filter_empty_conv)
  then have "versions_in p' = (versions_in p)(Key t := versions_in p (Key t) @ [t])"
    using s(1,2) unfolding q(2) by (auto simp: versions_in_def)
  ultimately show thesis
    using i q s(1,2) by (intro that [of pos p']) (auto simp: same_meta_def)
qed

lemma same_policy [simp]: "policy (UnpinPage bp x d) = policy bp" "policy (WritePageData bp x p) = policy bp"
  by (simp_all add: UnpinPage_def WritePageData_def Let_def split: option.split)

lemma unpinFrames_ok:
  assumes "pool_inv (bufPool b)" and "quiet {} (bufPool b)" and "\<forall>i \<in> set fs. \<exists>x. pageTable (bufPool b) x = Some i"
    and "\<forall>i \<in> set fs. int (count_list fs i) \<le> pin (bufPool b) i"
  shows "\<exists>bp. unpinFrames b fs False = b\<lparr>bufPool := bp\<rparr> \<and> pool_inv bp \<and> quiet {} bp \<and> view bp = view (bufPool b) \<and>
    length (frames bp) = length (frames (bufPool b)) \<and> wal bp = wal (bufPool b) \<and> policy bp = policy (bufPool b) \<and>
    (\<forall>j. pin bp j = pin (bufPool b) j - int (count_list fs j))"
  using assms
proof (induction fs arbitrary: b)
  case Nil
  then show ?case by (intro exI [of _ "bufPool b"]) simp
next
  case (Cons i fs)
  then obtain x where x: "pageTable (bufPool b) x = Some i" by auto
  have "int (count_list (i # fs) i) \<le> pin (bufPool b) i" using Cons.prems(4) by (meson list.set_intros(1))
  then have p: "0 < fPinCount (frames (bufPool b) ! i)" by (simp add: pin_def)
  have id: "framePageID b i = x" using pool_invD(2) [OF Cons.prems(1) x] by (simp add: framePageID_def)
  note U = UnpinPage_ok [OF Cons.prems(1) x p Cons.prems(2), of False, simplified]
  let ?b = "unpinT b x False"
  have "\<exists>bp. unpinFrames ?b fs False = ?b\<lparr>bufPool := bp\<rparr> \<and> pool_inv bp \<and> quiet {} bp \<and> view bp = view (bufPool ?b) \<and>
    length (frames bp) = length (frames (bufPool ?b)) \<and> wal bp = wal (bufPool ?b) \<and> policy bp = policy (bufPool ?b) \<and>
    (\<forall>j. pin bp j = pin (bufPool ?b) j - int (count_list fs j))"
    using U Cons.prems(3,4) by (intro Cons.IH) (auto simp: unpinT_def pin_def split: if_splits)
  with U id show ?case by (auto simp: unpinT_def pin_def)
qed

lemma store_leaf:
  assumes inv: "pool_inv (bufPool b)" and q: "quiet {} (bufPool b)" and y: "pinned_at (bufPool b) leaf y" and p: "page_ok p"
    and ps: "\<forall>i \<in> set ps. \<exists>x. pageTable (bufPool b) x = Some i"
    and pins: "\<forall>j \<in> set (leaf # ps). int (count_list (leaf # ps) j) \<le> pin (bufPool b) j"
  shows "\<exists>bp. releaseLeaf (writeT b y p) leaf ps True = b\<lparr>bufPool := bp\<rparr> \<and> pool_inv bp \<and> quiet {} bp \<and>
    view bp = (view (bufPool b))(y \<mapsto> Data p) \<and> length (frames bp) = length (frames (bufPool b)) \<and> wal bp = wal (bufPool b) \<and>
    policy bp = policy (bufPool b) \<and>
    (\<forall>j. pin bp j = pin (bufPool b) j - int (count_list (leaf # ps) j))"
proof -
  have i: "pageTable (bufPool b) y = Some leaf" "0 < fPinCount (frames (bufPool b) ! leaf)" using y by (simp_all add: pinned_at_def)
  note W = WritePageData_ok [OF inv i p]
  let ?w = "writeT b y p"
  have i': "pageTable (bufPool ?w) y = Some leaf" "0 < fPinCount (frames (bufPool ?w) ! leaf)" "pool_inv (bufPool ?w)" "quiet {y} (bufPool ?w)"
    using W i q by (simp_all add: writeT_def)
  have id: "framePageID ?w leaf = y" using pool_invD(2) [OF i'(3,1)] by (simp add: framePageID_def)
  note U = UnpinPage_ok [OF i'(3,1,2,4), of True, simplified]
  let ?u = "unpinT ?w y True"
  have "\<exists>bp. unpinFrames ?u ps False = ?u\<lparr>bufPool := bp\<rparr> \<and> pool_inv bp \<and> quiet {} bp \<and> view bp = view (bufPool ?u) \<and>
    length (frames bp) = length (frames (bufPool ?u)) \<and> wal bp = wal (bufPool ?u) \<and> policy bp = policy (bufPool ?u) \<and>
    (\<forall>j. pin bp j = pin (bufPool ?u) j - int (count_list ps j))"
    using U W(3,6) ps pins by (intro unpinFrames_ok) (auto simp: unpinT_def writeT_def pin_def split: if_splits)
  with U W id show ?thesis by (auto simp: releaseLeaf_def unpinT_def writeT_def pin_def)
qed

text \<open>The state in which an operation leaves the pool: consistent, with the pins that were there before.\<close>

definition settled :: "BPlusTree \<Rightarrow> BPlusTree \<Rightarrow> bool" where
  "settled bt bt' \<longleftrightarrow> pool_inv (bufPool bt') \<and> quiet {} (bufPool bt') \<and> length (frames (bufPool bt')) = length (frames (bufPool bt)) \<and>
     (\<forall>j < length (frames (bufPool bt')). pin (bufPool bt') j = pin (bufPool bt) j) \<and> (clocked (bufPool bt) \<longrightarrow> clocked (bufPool bt'))"

lemma pool_inv_wal: "pool_inv bp \<Longrightarrow> wal_ok W \<Longrightarrow> pool_inv (bp\<lparr>wal := W\<rparr>)"
  by (rule pool_invI) (auto dest: pool_invD simp del: map_of_eq_None_iff)

lemma view_wal [simp]: "view (bp\<lparr>wal := W\<rparr>) = view bp"
  by (auto simp: view_def split: option.split)

lemma held_store:
  assumes h: "held bt0 bt1 (add_mset leaf (mset ps))" and y: "pinned_at (bufPool bt1) leaf y" and p: "page_ok p"
    and W: "wal_ok W" "bufPool bt2 = (bufPool bt1)\<lparr>wal := W\<rparr>"
  shows "\<exists>bp. releaseLeaf (writeT bt2 y p) leaf ps True = bt2\<lparr>bufPool := bp\<rparr> \<and> settled bt0 (bt2\<lparr>bufPool := bp\<rparr>) \<and>
    view bp = (pages bt1)(y \<mapsto> Data p) \<and> wal bp = W"
proof -
  have inv: "pool_inv (bufPool bt0)" "pool_inv (bufPool bt1)" "pool_inv (bufPool bt2)"
    using h pool_inv_wal [OF _ W(1)] by (simp_all add: held_def W(2))
  have q: "quiet {} (bufPool bt2)" using h by (simp add: W(2) quiet_def held_def)
  have y2: "pinned_at (bufPool bt2) leaf y" using y by (simp add: W(2) pinned_at_def)
  have ps: "\<forall>i \<in> set ps. \<exists>x. pageTable (bufPool bt2) x = Some i" using h by (auto simp: W(2) held_def pinned_at_def)
  have pin: "pin (bufPool bt2) j = pin (bufPool bt0) j + int (count_list (leaf # ps) j)" if "j < length (frames (bufPool bt0))" for j
    using h that by (simp add: W(2) held_def pin_def count_mset)
  have "j < length (frames (bufPool bt0))" if "j \<in> set (leaf # ps)" for j
    using h y that pool_invD(2) [OF inv(2)] by (fastforce simp: held_def pinned_at_def)
  moreover have "0 \<le> pin (bufPool bt0) j" if "j < length (frames (bufPool bt0))" for j
    using that pool_invD(10) [OF inv(1)] by (simp add: pin_def)
  ultimately have "\<forall>j \<in> set (leaf # ps). int (count_list (leaf # ps) j) \<le> pin (bufPool bt2) j" using pin by auto
  from store_leaf [OF inv(3) q y2 p ps this] obtain bp where
    "releaseLeaf (writeT bt2 y p) leaf ps True = bt2\<lparr>bufPool := bp\<rparr>" "pool_inv bp" "quiet {} bp" "view bp = (pages bt2)(y \<mapsto> Data p)"
    "length (frames bp) = length (frames (bufPool bt2))" "wal bp = wal (bufPool bt2)" "policy bp = policy (bufPool bt2)"
    "\<forall>j. pin bp j = pin (bufPool bt2) j - int (count_list (leaf # ps) j)"
    by blast
  with h pin show ?thesis by (auto simp: settled_def W(2) held_def clocked_def)
qed

end
