(* ===== verification/Txn_Objects.thy ===== *)
theory Txn_Objects
  imports Structure
begin

text \<open>
  A transaction is one object that the caller and the table of active transactions share. In the
  model each operation returns the changed object and puts it into the table; here it is shown that every
  operation of the tree and of the engine does so: \<open>synced m txn m' txn'\<close> says that the step from \<open>txn\<close> to \<open>txn'\<close> keeps the identity of the
  transaction, that the table has the new object where it had the old one, and that no other entry
  changes.
\<close>

section \<open>Shared objects\<close>

definition synced :: "TransactionManager \<Rightarrow> Transaction \<Rightarrow> TransactionManager \<Rightarrow> Transaction \<Rightarrow> bool" where
  "synced m txn m' txn' \<longleftrightarrow> txID txn' = txID txn \<and> txIsoLevel txn' = txIsoLevel txn \<and> txStatus txn' = txStatus txn \<and>
     (\<forall>j. j \<noteq> txID txn \<longrightarrow> map_of (activeTxns m') j = map_of (activeTxns m) j) \<and>
     (map_of (activeTxns m) (txID txn) = Some txn \<longrightarrow> map_of (activeTxns m') (txID txn) = Some txn') \<and>
     (map_of (activeTxns m) (txID txn) = None \<longrightarrow> map_of (activeTxns m') (txID txn) = None)"

lemma synced_refl [simp, intro]: "synced m txn m txn"
  by (simp add: synced_def)

lemma synced_trans: "synced m txn m1 txn1 \<Longrightarrow> synced m1 txn1 m2 txn2 \<Longrightarrow> synced m txn m2 txn2"
  by (simp add: synced_def)

lemma synced_locks [simp]: "synced (m\<lparr>SIREADMgr := x\<rparr>) txn m' txn' = synced m txn m' txn'" "synced m txn (m'\<lparr>SIREADMgr := x\<rparr>) txn' = synced m txn m' txn'"
  by (simp_all add: synced_def)

lemma synced_putTxn:
  "txID txn' = txID txn \<Longrightarrow> txIsoLevel txn' = txIsoLevel txn \<Longrightarrow> txStatus txn' = txStatus txn \<Longrightarrow>
   synced (tm bt) txn (tm (putTxn bt txn')) txn'"
  by (auto simp: synced_def putTxn_def update_conv' split: option.splits)

lemma synced_putTxn_from:
  "synced m t0 (tm bt) txn \<Longrightarrow> txID txn' = txID txn \<Longrightarrow> txIsoLevel txn' = txIsoLevel txn \<Longrightarrow> txStatus txn' = txStatus txn \<Longrightarrow>
   synced m t0 (tm (putTxn bt txn')) txn'"
  by (erule synced_trans) (rule synced_putTxn)

lemma putTxn_pool: "tm (putTxn (bt\<lparr>bufPool := b\<rparr>) txn) = tm (putTxn bt txn)"
  by (simp add: putTxn_def split: option.split)

lemma synced_appendUndo: "synced m txn (tm bt) t \<Longrightarrow> synced m txn (tm (snd (appendUndo bt t rec))) (fst (appendUndo bt t rec))"
  by (rule synced_trans, assumption) (auto simp: appendUndo_def Let_def intro!: synced_putTxn)

lemma refreshSnapshot_synced: "refreshSnapshot bt txn = (txn', bt') \<Longrightarrow> synced (tm bt) txn (tm bt') txn'"
  by (auto simp: refreshSnapshot_def Let_def intro!: synced_putTxn split: if_splits)

lemma checkWrite_synced [simp]:
  "synced (tm (snd (checkWrite bt txn key))) t m' t' = synced (tm bt) t m' t'" "synced m t (tm (snd (checkWrite bt txn key))) t' = synced m t (tm bt) t'"
  by (simp_all add: checkWrite_def Let_def split_beta)

section \<open>What holds of a result\<close>

text \<open>\<open>whenever x Q\<close>: if the computation returns, its result satisfies \<open>Q\<close>.\<close>

definition whenever :: "'a option \<Rightarrow> ('a \<Rightarrow> bool) \<Rightarrow> bool" where
  "whenever x Q \<longleftrightarrow> (\<forall>y. x = Some y \<longrightarrow> Q y)"

lemma whenever_simps [simp]:
  "whenever (Some y) Q = Q y" "whenever None Q" "whenever (x \<bind> f) Q = whenever x (\<lambda>y. whenever (f y) Q)"
  "whenever (Let v f) Q = whenever (f v) Q"
  by (auto simp: whenever_def bind_eq_Some_conv)

lemma whenever_any: "(\<And>y. Q y) \<Longrightarrow> whenever x Q"
  by (simp add: whenever_def)

lemma wheneverD: "whenever x Q \<Longrightarrow> x = Some y \<Longrightarrow> Q y"
  by (simp add: whenever_def)

lemma whenever_mono: "whenever x P \<Longrightarrow> (\<And>y. P y \<Longrightarrow> Q y) \<Longrightarrow> whenever x Q"
  by (simp add: whenever_def)

lemma whenever_if [simp]: "whenever (if b then x else y) Q \<longleftrightarrow> (b \<longrightarrow> whenever x Q) \<and> (\<not> b \<longrightarrow> whenever y Q)"
  by simp

lemma whenever_prod [simp]: "whenever (case p of (a, b) \<Rightarrow> f a b) Q = (case p of (a, b) \<Rightarrow> whenever (f a b) Q)"
  by (cases p) simp

lemmas whenever_splits = sum.split option.split slice.split prod.split

text \<open>A step that keeps the transactions, and one that changes a transaction and the table together.\<close>

abbreviation keeps :: "BPlusTree \<Rightarrow> ('a \<times> BPlusTree) option \<Rightarrow> bool" where
  "keeps bt x \<equiv> whenever x (\<lambda>y. tm (snd y) = tm bt)"

abbreviation syncs :: "BPlusTree \<Rightarrow> Transaction \<Rightarrow> ('a \<times> Transaction \<times> BPlusTree) option \<Rightarrow> bool" where
  "syncs bt txn x \<equiv> whenever x (\<lambda>y. synced (tm bt) txn (tm (snd (snd y))) (fst (snd y)))"

lemma keeps_rule: "keeps bt x \<Longrightarrow> (\<And>r b. tm b = tm bt \<Longrightarrow> Q (r, b)) \<Longrightarrow> whenever x Q"
  by (auto intro: whenever_mono)

lemma syncs_rule: "syncs bt txn x \<Longrightarrow> (\<And>r t b. synced (tm bt) txn (tm b) t \<Longrightarrow> Q (r, t, b)) \<Longrightarrow> whenever x Q"
  by (auto intro: whenever_mono)

section \<open>Operations that leave the transactions alone\<close>

lemma tm_simps [simp]:
  "tm (unpinT bt x d) = tm bt" "tm (writeT bt x p) = tm bt" "tm (setDisk bt dm) = tm bt"
  by (simp_all add: unpinT_def writeT_def setDisk_def)

lemma tm_unpinFrames [simp]: "tm (unpinFrames bt fs d) = tm bt"
  by (induction fs arbitrary: bt) simp_all

lemma tm_releaseLeaf [simp]: "tm (releaseLeaf bt f ps d) = tm bt"
  by (simp add: releaseLeaf_def)

lemma tm_CursorClose [simp]: "tm (snd (CursorClose bt c)) = tm bt"
  by (simp add: CursorClose_def split: option.split)

lemma keeps_fetchT: "keeps bt (fetchT bt x)"
  by (auto simp: fetchT_def intro: whenever_any)

lemma keeps_allocT: "keeps bt (allocT bt)"
  by (auto simp: allocT_def intro: whenever_any)

lemma keeps_changeRoot: "whenever (changeRoot bt x) (\<lambda>b. tm b = tm bt)"
  by (auto simp: changeRoot_def intro: whenever_any split: whenever_splits)

lemma keeps_freeT: "whenever (freeT bt x) (\<lambda>b. tm b = tm bt)"
  by (auto simp: freeT_def intro: whenever_any)

lemma keeps_rebuildPageBloom: "whenever (rebuildPageBloom bt x p) (\<lambda>b. tm b = tm bt)"
  by (auto simp: rebuildPageBloom_def intro: whenever_any)

lemma keeps_relinkPrev: "whenever (relinkPrev bt x y) (\<lambda>b. tm b = tm bt)"
  by (auto simp: relinkPrev_def intro!: keeps_rule [OF keeps_fetchT] split: whenever_splits)

lemma keeps_findLeafLoop: "keeps bt (findLeafLoop bt key f ps)"
proof -
  have "tm (snd y) = tm bt" if "findLeafLoop bt key f ps = Some y" for y
  proof (rule findLeafLoop.raw_induct [where P = "\<lambda>bt key f ps y. tm (snd y) = tm bt", OF _ that], goal_cases)
    case (1 loop bt key f ps y)
    have rec: "keeps b (loop b key f ps)" for b f ps using 1(1) by (auto simp: whenever_def)
    have "keeps bt (Some y)" unfolding 1(2) [symmetric]
      by (auto intro!: whenever_any keeps_rule [OF keeps_fetchT] keeps_rule [OF rec] split: whenever_splits)
    then show ?case by simp
  qed
  then show ?thesis by (simp add: whenever_def)
qed

lemma keeps_findLeafWithParents: "keeps bt (findLeafWithParents bt key)"
  by (auto simp: findLeafWithParents_def intro!: keeps_rule [OF keeps_fetchT] keeps_rule [OF keeps_findLeafLoop] split: whenever_splits)

lemma syncs_withLog: "syncs bt txn (withLog bt txn f)"
  by (auto simp: withLog_def putTxn_pool synced_putTxn intro!: whenever_any split: whenever_splits)

section \<open>Operations of the tree\<close>

lemma syncs_rule_from:
  "syncs b t x \<Longrightarrow> synced m txn (tm b) t \<Longrightarrow> (\<And>r t' b'. synced m txn (tm b') t' \<Longrightarrow> Q (r, t', b')) \<Longrightarrow> whenever x Q"
  by (rule whenever_mono, assumption) (metis prod.collapse synced_trans)

text \<open>Calls on pages alone.\<close>

lemmas any_rules = whenever_any [where x = "InsertKey p k c" for p k c] whenever_any [where x = "InsertRecord p d ke" for p d ke]
  whenever_any [where x = "GetRecord p i" for p i] whenever_any [where x = "DeleteRecord p i" for p i] whenever_any [where x = "Compact p" for p]
  whenever_any [where x = "splitHalves a b c d e" for a b c d e] whenever_any [where x = "placeTuple a b c d" for a b c d]
  whenever_any [where x = "firstKey p" for p] whenever_any [where x = "splitInternalPages a b c d" for a b c d]
  whenever_any [where x = "countLiveSlots p" for p] whenever_any [where x = "findSiblingInfo p i" for p i] whenever_any [where x = "canLend p" for p]
  whenever_any [where x = "doborrowFromRight a b c d e" for a b c d e] whenever_any [where x = "doborrowFromLeft a b c d e" for a b c d e]
  whenever_any [where x = "copySlots a b c" for a b c] whenever_any [where x = "dropChild p i" for p i]
  whenever_any [where x = "FindVisibleSlot a b c d" for a b c d] whenever_any [where x = "SetXmax a b c" for a b c]

lemmas keeps_rules = any_rules keeps_rule [OF keeps_fetchT] keeps_rule [OF keeps_allocT] keeps_rule [OF keeps_findLeafWithParents]
  whenever_mono [OF keeps_changeRoot] whenever_mono [OF keeps_freeT] whenever_mono [OF keeps_rebuildPageBloom]
  whenever_mono [OF keeps_relinkPrev]

lemma syncs_createNewRoot: "syncs bt txn (createNewRoot bt txn l k r)"
  unfolding createNewRoot_def
  by (auto intro!: keeps_rules syncs_rule_from [OF syncs_withLog] split: whenever_splits)

lemma syncs_parents:
  "(\<forall>bt txn l k r. syncs bt txn (insertIntoParent bt txn ps l k r)) \<and> (\<forall>bt txn i k c. syncs bt txn (splitInternal bt txn i ps k c))"
proof (induction ps rule: length_induct)
  case (1 ps)
  have shorter: "syncs b t (splitInternal b t i (butlast ps) k c)" if "ps \<noteq> []" for b t i k c using 1 that by simp
  have ins: "syncs b t (insertIntoParent b t ps l k r)" for b t l k r
  proof (cases "ps = []")
    case True
    then show ?thesis by (simp add: insertIntoParent.simps syncs_createNewRoot)
  next
    case False
    then show ?thesis
      by (subst insertIntoParent.simps)
        (auto intro!: keeps_rules syncs_rule_from [OF syncs_withLog] syncs_rule_from [OF shorter]
          intro: synced_trans split: whenever_splits)
  qed
  moreover have "syncs b t (splitInternal b t i ps k c)" for b t i k c
    by (subst splitInternal.simps) (auto intro!: keeps_rules syncs_rule_from [OF ins] split: whenever_splits)
  ultimately show ?case by blast
qed

lemma syncs_splitLeaf: "syncs bt txn (splitLeaf bt txn i ps k t)"
  unfolding splitLeaf_def
  by (auto intro!: keeps_rules syncs_rule_from [OF syncs_withLog] syncs_rule_from [OF syncs_parents [THEN conjunct1, rule_format]]
      intro: synced_trans split: whenever_splits)

lemma syncs_Insert: "syncs bt txn (Insert bt txn k v)"
  unfolding Insert_def
  by (auto simp: split_beta intro!: keeps_rules syncs_rule_from [OF syncs_withLog] syncs_rule_from [OF syncs_splitLeaf]
      synced_appendUndo intro: synced_trans split: whenever_splits)

lemma syncs_markDeleted: "syncs bt txn (markDeleted bt txn k f ps)"
  unfolding markDeleted_def
  by (auto simp: split_beta intro!: keeps_rules syncs_rule_from [OF syncs_withLog] intro: synced_trans split: whenever_splits)

lemma syncs_Update: "syncs bt txn (Update bt txn k v)"
  unfolding Update_def
  by (auto simp: split_beta intro!: keeps_rules syncs_rule_from [OF syncs_markDeleted] syncs_rule_from [OF syncs_Insert] synced_appendUndo
      intro: synced_trans split: whenever_splits)

lemma syncs_promoteChild: "syncs bt txn (promoteChild bt txn c f ps)"
  unfolding promoteChild_def
  by (auto simp: split_beta intro!: keeps_rules syncs_rule_from [OF syncs_withLog] intro: synced_trans split: whenever_splits)

lemma keeps_internalMergeRight: "whenever (internalMergeRight bt gp u c uf gf r a b) (\<lambda>y. tm (snd (snd y)) = tm bt)"
  unfolding internalMergeRight_def
  by (auto simp: split_beta intro!: keeps_rules split: whenever_splits)

lemma keeps_internalMergeLeft: "whenever (internalMergeLeft bt gp u c uf gf l b) (\<lambda>y. tm (snd (snd y)) = tm bt)"
  unfolding internalMergeLeft_def
  by (auto simp: split_beta intro!: keeps_rules split: whenever_splits)

lemma keeps_internalMerge: "whenever (internalMerge bt u c uf gf) (\<lambda>y. tm (snd (snd y)) = tm bt)"
  unfolding internalMerge_def
  by (auto simp: split_beta intro!: keeps_rules whenever_mono [OF keeps_internalMergeRight] whenever_mono [OF keeps_internalMergeLeft] split: whenever_splits)

lemma syncs_shrink:
  "(\<forall>bt txn c f. syncs bt txn (handleRootShrink bt txn c f ps)) \<and> (\<forall>bt txn u c uf gf. syncs bt txn (handleInternalUnderflow bt txn u c uf gf ps))"
proof (induction ps rule: length_induct)
  case (1 ps)
  have shorter: "syncs b t (handleInternalUnderflow b t u c uf gf (butlast ps))" if "ps \<noteq> []" for b t u c uf gf using 1 that by simp
  have root: "syncs b t (handleRootShrink b t c f ps)" for b t c f
    by (subst handleRootShrink.simps) (auto intro: shorter syncs_promoteChild)
  moreover have "syncs b t (handleInternalUnderflow b t u c uf gf ps)" for b t u c uf gf
    by (subst handleInternalUnderflow.simps)
      (auto simp: split_beta intro!: whenever_mono [OF keeps_internalMerge] syncs_rule_from [OF root] split: whenever_splits)
  ultimately show ?case by blast
qed

lemma syncs_finishMerge: "syncs bt txn (finishMerge bt txn a b c d e f)"
  unfolding finishMerge_def
  by (auto simp: split_beta intro!: keeps_rules syncs_rule_from [OF syncs_withLog] syncs_rule_from [OF syncs_shrink [THEN conjunct1, rule_format]]
      intro: synced_trans split: whenever_splits)

lemma syncs_doMerge: "syncs bt txn (doMergeWithRight bt txn a b c d e f g)" "syncs bt txn (doMergeIntoLeft bt txn a b c d e f g h)"
  unfolding doMergeWithRight_def doMergeIntoLeft_def
  by (auto simp: split_beta intro!: keeps_rules syncs_rule_from [OF syncs_finishMerge] split: whenever_splits)

lemma keeps_tryBorrow: "keeps bt (tryBorrowRight bt a b c d e f)" "keeps bt (tryBorrowLeft bt a b c d e f)"
  unfolding tryBorrowRight_def tryBorrowLeft_def
  by (auto simp: split_beta intro!: keeps_rules split: whenever_splits)

lemma syncs_tryMergeLeft: "syncs bt txn (tryMergeLeft bt txn a b c d e f)"
  unfolding tryMergeLeft_def
  by (auto simp: split_beta intro!: keeps_rules syncs_rule_from [OF syncs_doMerge(2)] split: whenever_splits)

lemma syncs_tryMerge: "syncs bt txn (tryMerge bt txn a b c d e f g h)"
  unfolding tryMerge_def
  by (auto simp: split_beta intro!: keeps_rules syncs_rule_from [OF syncs_doMerge(1)] syncs_rule_from [OF syncs_tryMergeLeft] split: whenever_splits)

lemma syncs_handleUnderflow: "syncs bt txn (handleUnderflow bt txn i ps)"
  unfolding handleUnderflow_def
  by (auto simp: split_beta intro!: keeps_rules keeps_rule [OF keeps_tryBorrow(1)] keeps_rule [OF keeps_tryBorrow(2)]
      syncs_rule_from [OF syncs_tryMerge] split: whenever_splits)

lemma syncs_Delete: "syncs bt txn (Delete bt txn k)"
  unfolding Delete_def
  by (auto simp: split_beta intro!: keeps_rules syncs_rule_from [OF syncs_markDeleted] syncs_rule_from [OF syncs_handleUnderflow] synced_appendUndo
      intro: synced_trans [OF synced_appendUndo] split: whenever_splits)

lemma keeps_ApplyUndoRecord: "keeps bt (ApplyUndoRecord bt txn rec l)"
  unfolding ApplyUndoRecord_def
  by (auto simp: split_beta intro!: keeps_rules split: whenever_splits UndoOpType.split)

section \<open>Operations of the engine\<close>

abbreviation esyncs :: "StorageEngine \<Rightarrow> Transaction \<Rightarrow> ('a \<times> Transaction \<times> StorageEngine) option \<Rightarrow> bool" where
  "esyncs e txn x \<equiv> whenever x (\<lambda>y. synced (tm (tree e)) txn (tm (tree (snd (snd y)))) (fst (snd y)))"

lemma synced_refresh: "synced (tm bt) txn (tm (snd (refreshSnapshot bt txn))) (fst (refreshSnapshot bt txn))"
  using refreshSnapshot_synced [of bt txn] by (metis prod.collapse)

lemma keeps_Get: "whenever (Get bt txn k) (\<lambda>y. synced (tm bt) t (tm (snd y)) t)"
  unfolding Get_def
  by (auto simp: split_beta intro!: keeps_rules split: whenever_splits)

lemma keeps_Scan: "keeps bt (Scan bt a b)"
  unfolding Scan_def
  by (auto simp: split_beta intro!: keeps_rules whenever_any [where x = "BinarySearch p k ke" for p k ke] split: whenever_splits)

lemma esyncs_Put: "esyncs e txn (Put e txn k v)"
  unfolding Put_def
  by (auto simp: split_beta intro!: syncs_rule_from [OF syncs_Update] syncs_rule_from [OF syncs_Insert] synced_refresh intro: synced_trans [OF synced_refresh] synced_trans split: whenever_splits)

lemma esyncs_Delete: "esyncs e txn (EngDelete e txn k)"
  unfolding EngDelete_def
  by (auto simp: split_beta intro!: syncs_rule_from [OF syncs_Delete] synced_refresh intro: synced_trans [OF synced_refresh] split: whenever_splits)

lemma esyncs_Get: "esyncs e txn (EngGet e txn k)"
  unfolding EngGet_def
  by (auto simp: split_beta intro!: whenever_mono [OF keeps_Get] intro: synced_trans [OF synced_refresh])

lemma esyncs_Scan: "esyncs e txn (EngScan e txn a b)"
  unfolding EngScan_def
  by (auto simp: split_beta intro!: keeps_rule [OF keeps_Scan] intro: synced_refresh)

lemma esyncs_Savepoint: "synced (tm (tree e)) txn (tm (tree (snd (snd (Savepoint e txn n))))) (fst (snd (Savepoint e txn n)))"
  by (auto simp: Savepoint_def Let_def intro!: synced_putTxn)

lemma esyncs_rollbackCLR: "esyncs e txn (rollbackCLR e txn rec)"
  unfolding rollbackCLR_def
  by (auto simp: split_beta putTxn_pool intro!: whenever_any [where x = "AppendRecord w r" for w r] synced_putTxn split: whenever_splits)

lemma esyncs_rollbackLoop: "synced m0 t0 (tm (tree e)) txn \<Longrightarrow>
  whenever (rollbackLoop e txn us) (\<lambda>y. synced m0 t0 (tm (tree (snd (snd y)))) (fst (snd y)))"
proof (induction us arbitrary: e txn)
  case (Cons u us)
  then show ?case
    by (auto simp: split_beta intro!: whenever_mono [OF esyncs_rollbackCLR] keeps_rule [OF keeps_ApplyUndoRecord] Cons.IH
        intro: synced_trans split: whenever_splits)
qed simp

lemma esyncs_Rollback: "esyncs e txn (RollbackToSavepoint e txn n)"
  unfolding RollbackToSavepoint_def
  by (auto simp: split_beta intro!: whenever_mono [OF esyncs_rollbackLoop] synced_putTxn_from split: whenever_splits)

lemma active_Checkpoint: "whenever (Checkpoint jc e) (\<lambda>y. tm (tree (snd y)) = tm (tree e))"
  by (auto simp: Checkpoint_def split_beta intro!: whenever_any)

lemma active_WALTail: "whenever (WALTail e n) (\<lambda>y. tm (tree (snd y)) = tm (tree e))"
  by (auto simp: WALTail_def split_beta intro!: whenever_any)

lemma active_PageContents: "whenever (PageContents e i) (\<lambda>y. tm (tree (snd y)) = tm (tree e))"
  by (auto simp: PageContents_def split_beta intro!: keeps_rules whenever_any [where x = "leafSlots a b c" for a b c]
      whenever_any [where x = "internalSlots a b" for a b] split: whenever_splits)

lemma active_leafVersions: "whenever (leafVersions e k) (\<lambda>y. tm (tree (snd y)) = tm (tree e))"
  by (auto simp: leafVersions_def FindLeafForInspection_def split_beta intro!: keeps_rules whenever_any [where x = "FindAllVersions p k" for p k]
      split: whenever_splits)

lemma active_versions:
  "whenever (MVCCVersions e k) (\<lambda>y. tm (tree (snd y)) = tm (tree e))"
  "whenever (MVCCVisibilityForTxn e k txn) (\<lambda>y. tm (tree (snd y)) = tm (tree e))"
  by (auto simp: MVCCVersions_def MVCCVisibilityForTxn_def split_beta intro!: whenever_mono [OF active_leafVersions])

lemma active_addChildren:
  assumes B: "\<And>e c. whenever (B e c) (\<lambda>y. tm (tree (snd y)) = tm (tree e))"
  shows "whenever (addChildren B e seen cs) (\<lambda>y. tm (tree (snd y)) = tm (tree e))"
proof (induction cs arbitrary: e seen)
  case (Cons c cs)
  have IH: "whenever (addChildren B e' s cs) (\<lambda>y. tm (tree (snd y)) = tm (tree e))" if "tm (tree e') = tm (tree e)" for e' s
    using Cons [of e' s] that by simp
  show ?case by (auto simp: split_beta intro!: Cons whenever_mono [OF B] whenever_mono [OF IH])
qed simp

lemma active_buildTreeNode: "whenever (buildTreeNode e x) (\<lambda>y. tm (tree (snd y)) = tm (tree e))"
proof -
  have "tm (tree (snd y)) = tm (tree e)" if "buildTreeNode e x = Some y" for y
  proof (rule buildTreeNode.raw_induct [where P = "\<lambda>e x y. tm (tree (snd y)) = tm (tree e)", OF _ that], goal_cases)
    case (1 build e x y)
    have rec: "whenever (build e x) (\<lambda>y. tm (tree (snd y)) = tm (tree e))" for e x using 1(1) by (auto simp: whenever_def)
    have "whenever (Some y) (\<lambda>y. tm (tree (snd y)) = tm (tree e))" unfolding 1(2) [symmetric]
      by (auto simp: split_beta simp del: addChildren.simps intro!: keeps_rules whenever_any [where x = "separators a b" for a b] whenever_any [where x = "sampleKeys a b" for a b]
          whenever_mono [OF active_addChildren [OF rec]] split: whenever_splits)
    then show ?case by simp
  qed
  then show ?thesis by (simp add: whenever_def)
qed

lemma keeps_CursorNext: "whenever (CursorNext bt txn c) (\<lambda>y. tm (snd (snd y)) = tm bt)"
proof -
  have "tm (snd (snd y)) = tm bt" if "CursorNext bt txn c = Some y" for y
  proof (rule CursorNext.raw_induct [where P = "\<lambda>bt txn c y. tm (snd (snd y)) = tm bt", OF _ that], goal_cases)
    case (1 nxt bt txn c y)
    have rec: "whenever (nxt b t c) (\<lambda>y. tm (snd (snd y)) = tm b)" for b t c using 1(1) by (auto simp: whenever_def)
    have "whenever (Some y) (\<lambda>y. tm (snd (snd y)) = tm bt)" unfolding 1(2) [symmetric]
      by (auto simp: split_beta intro!: keeps_rules whenever_any [where x = "current c" for c] whenever_mono [OF rec] split: whenever_splits)
    then show ?case by simp
  qed
  then show ?thesis by (simp add: whenever_def)
qed

end
