(* ===== verification/Insert_Props.thy ===== *)
theory Insert_Props
  imports Tree_Update Txn_Objects
begin

text \<open>
  Inserts into a leaf with room: they refine the update of a map from keys to lists of versions. And the Bloom filters
  that an insert leaves behind, with and without earlier ones.
\<close>

section \<open>The position of the log\<close>

definition next_lsn :: "BufferPool \<Rightarrow> u64 option" where
  "next_lsn bp = map_option currentLSN (wal bp)"

lemma flushFor_lsn: "map_option currentLSN (snd (flushFor W r d)) = map_option currentLSN W"
  by (simp add: flushFor_def FlushUpTo_def flushLocked_def Let_def split: option.split)

lemma evict_lsn: "whenever (evict bp) (\<lambda>x. next_lsn (snd x) = next_lsn bp)"
proof -
  have "map_option currentLSN W' = map_option currentLSN W" if "flushFor W r d = (e, W')" for W r d e W'
    using flushFor_lsn [of W r d] that by simp
  then show ?thesis
    by (auto simp: evict_def next_lsn_def intro!: whenever_any split: prod.split sum.split)
qed

lemma FetchPage_lsn: "whenever (FetchPage bp x) (\<lambda>y. next_lsn (snd y) = next_lsn bp)"
proof (cases "pageTable bp x")
  case None
  then show ?thesis
    by (auto simp: FetchPage_def intro!: whenever_mono [OF evict_lsn] split: prod.split sum.split) (simp_all add: next_lsn_def)
next
  case (Some i)
  then show ?thesis by (simp add: FetchPage_def next_lsn_def Let_def split: prod.split)
qed

lemma UnpinPage_lsn [simp]: "next_lsn (UnpinPage bp x d) = next_lsn bp"
  by (simp add: next_lsn_def UnpinPage_def Let_def split: option.split)

lemma unpinFrames_lsn [simp]: "next_lsn (bufPool (unpinFrames bt fs d)) = next_lsn (bufPool bt)"
  by (induction fs arbitrary: bt) (simp_all add: unpinT_def)

abbreviation same_lsn :: "BPlusTree \<Rightarrow> ('a \<times> BPlusTree) option \<Rightarrow> bool" where
  "same_lsn bt x \<equiv> whenever x (\<lambda>y. next_lsn (bufPool (snd y)) = next_lsn (bufPool bt))"

lemma same_lsn_rule: "same_lsn bt x \<Longrightarrow> (\<And>r b. next_lsn (bufPool b) = next_lsn (bufPool bt) \<Longrightarrow> Q (r, b)) \<Longrightarrow> whenever x Q"
  by (auto intro: whenever_mono)

lemma fetchT_lsn: "same_lsn bt (fetchT bt x)"
  by (auto simp: fetchT_def intro!: whenever_mono [OF FetchPage_lsn])

lemma findLeafLoop_lsn: "same_lsn bt (findLeafLoop bt key f ps)"
proof -
  have "next_lsn (bufPool (snd y)) = next_lsn (bufPool bt)" if "findLeafLoop bt key f ps = Some y" for y
  proof (rule findLeafLoop.raw_induct [where P = "\<lambda>bt key f ps y. next_lsn (bufPool (snd y)) = next_lsn (bufPool bt)", OF _ that], goal_cases)
    case (1 loop bt key f ps y)
    have rec: "same_lsn b (loop b key f ps)" for b f ps using 1(1) by (auto simp: whenever_def)
    have "same_lsn bt (Some y)" unfolding 1(2) [symmetric]
      by (auto intro!: whenever_any same_lsn_rule [OF fetchT_lsn] same_lsn_rule [OF rec] split: whenever_splits)
    then show ?case by simp
  qed
  then show ?thesis by (simp add: whenever_def)
qed

lemma findLeafWithParents_lsn: "same_lsn bt (findLeafWithParents bt key)"
  by (auto simp: findLeafWithParents_def intro!: same_lsn_rule [OF fetchT_lsn] same_lsn_rule [OF findLeafLoop_lsn] split: whenever_splits)

section \<open>Insert\<close>

definition insert_rec :: "Transaction \<Rightarrow> u32 \<Rightarrow> MVCCTuple \<Rightarrow> u64 \<Rightarrow> LogRecord" where
  "insert_rec txn pid t lsn = emptyLogRecord\<lparr>rLSN := lsn, rType := LogInsert, rTxnID := txID txn, rPageID := pid,
     rPrevLSN := txLastLSN txn, rPayload := EncodeTuple t\<rparr>"

lemma ucast_page: "ucast (ucast (pid :: u32) :: u64) = pid"
  by (rule bit_word_eqI) (auto simp: bit_simps)

lemma withLog_insert:
  assumes inv: "pool_inv (bufPool b)" and len: "length (EncodeTuple t) \<le> 4060"
    and lsn: "\<forall>l. next_lsn (bufPool b) = Some l \<longrightarrow> unat l < 2 ^ 62"
  shows "\<exists>l txn' b' W. withLog b txn (\<lambda>w. LogInsertRecord w (txID txn) (ucast (pid :: u32)) (txLastLSN txn) (EncodeTuple t)) = Some (l, txn', b') \<and>
    bufPool b' = (bufPool b)\<lparr>wal := W\<rparr> \<and> wal_ok W \<and> txUndoLog txn' = txUndoLog txn \<and> rootPageID b' = rootPageID b \<and> bloom b' = bloom b \<and>
    map_option log_of W = map_option (\<lambda>w. log_of w @ [insert_rec txn pid t (currentLSN w)]) (wal (bufPool b))"
proof (cases "wal (bufPool b)")
  case None
  then show ?thesis by (auto simp: withLog_def wal_ok_def intro: exI [of _ "bufPool b"])
next
  case (Some w)
  let ?r = "emptyLogRecord\<lparr>rType := LogInsert, rTxnID := txID txn, rPageID := pid, rPrevLSN := txLastLSN txn, rPayload := EncodeTuple t\<rparr>"
  have w: "wal_inv w" using pool_invD(9) [OF inv] Some by (simp add: wal_ok_def)
  have ok: "logrec_ok ?r" using len by (simp add: logrec_ok_def)
  have "unat (currentLSN w) < 2 ^ 62" using lsn Some by (simp add: next_lsn_def)
  then have "unat (currentLSN w) + length (EncodeLogRecord ?r) < 2 ^ 63" using len by simp
  from AppendRecord_ok [OF w ok this] obtain w' where w': "AppendRecord w ?r = Some (currentLSN w, w')" "wal_inv w'"
    "log_of w' = log_of w @ [?r\<lparr>rLSN := currentLSN w\<rparr>]" by blast
  have "LogInsertRecord w (txID txn) (ucast pid) (txLastLSN txn) (EncodeTuple t) = Some (currentLSN w, w')"
    using w'(1) by (simp add: LogInsertRecord_def ucast_page)
  with Some w' show ?thesis
    by (intro exI [of _ "Some (currentLSN w)"] exI [of _ "txn\<lparr>txLastLSN := currentLSN w\<rparr>"]
        exI [of _ "putTxn (b\<lparr>bufPool := (bufPool b)\<lparr>wal := Some w'\<rparr>\<rparr>) (txn\<lparr>txLastLSN := currentLSN w\<rparr>)"] exI [of _ "Some w'"])
      (simp add: withLog_def Let_def wal_ok_def insert_rec_def)
qed

lemma checkWrite_sel:
  assumes "checkWrite bt txn key = (e, bt0)"
  shows "bufPool bt0 = bufPool bt" and "rootPageID bt0 = rootPageID bt" and "bloom bt0 = bloom bt"
  using assms by (auto simp: checkWrite_def Let_def split: if_splits prod.splits)

text \<open>What an insert changes when the leaf of the key has room.\<close>

definition insert_undo :: "u32 \<Rightarrow> nat \<Rightarrow> u64 \<Rightarrow> UndoRecord" where
  "insert_undo pid slot lsn = \<lparr>urPageID = pid, urSlotIdx = slot, urOldData = [], urOldXmax = 0, urOp = UndoInsert, urWALSN = lsn\<rparr>"

definition inserted :: "BPlusTree \<Rightarrow> Transaction \<Rightarrow> u32 \<Rightarrow> bytes \<Rightarrow> MVCCTuple \<Rightarrow> Transaction \<Rightarrow> BPlusTree \<Rightarrow> bool" where
  "inserted bt txn y d t txn' bt' \<longleftrightarrow>
     (\<forall>q e. q \<noteq> y \<and> pages bt q = Some e \<longrightarrow> pages bt' q = Some e) \<and>
     (\<exists>d'. pages bt' y = Some d' \<and> good_image d' \<and> Type (page_at y d') = Type (page_at y d) \<and> leaf_ok (page_at y d') \<and>
        versions_in (page_at y d') = (versions_in (page_at y d))(Key t := versions_in (page_at y d) (Key t) @ [t]) \<and>
        set (tuples (page_at y d')) = insert t (set (tuples (page_at y d)))) \<and>
     rootPageID bt' = rootPageID bt \<and> bloom bt' = BloomAdd (bloom bt) y (Key t) \<and>
     (\<exists>slot lsn. txUndoLog txn' = txUndoLog txn @ [insert_undo y slot lsn]) \<and>
     map_option log_of (wal (bufPool bt')) = map_option (\<lambda>w. log_of w @ [insert_rec txn y t (currentLSN w)]) (wal (bufPool bt))"

lemma Insert_on_leaf:
  assumes C: "checkWrite bt txn key = (None, bt0)" and L: "findLeafWithParents bt0 key = Some (Inr (leaf, ps), bt1)"
    and h: "held bt0 bt1 (add_mset leaf (mset ps))" and y: "pages bt y = Some d" "pinned_at (bufPool bt1) leaf y"
    and ok: "leaf_ok (page_at y d)" and t: "t = newTuple txn key value"
    and room: "length (EncodeTuple t) + 4 \<le> room_of (page_at y d)"
    and lsn: "\<forall>w. wal (bufPool bt) = Some w \<longrightarrow> unat (currentLSN w) < 2 ^ 62"
  shows "\<exists>txn' bt'. Insert bt txn key value = Some (Inr (), txn', bt') \<and> settled bt bt' \<and> inserted bt txn y d t txn' bt'"
proof -
  note S = checkWrite_sel [OF C] and H = heldD [OF h]
  have v: "pages bt1 q = Some e" if "pages bt q = Some e" for q e using H(2) that S(1) by simp
  note P = pinned_read [OF H(1) y(2) v [OF y(1)]]
  have nl: "next_lsn (bufPool bt1) = next_lsn (bufPool bt)" using wheneverD [OF findLeafWithParents_lsn L] S(1) by simp
  have len: "length (EncodeTuple t) \<le> 4060"
    using room page_wf_bounds [OF leaf_ok_wf [OF ok]] by (auto simp: room_of_def page_consts)
  have "\<forall>l. next_lsn (bufPool bt1) = Some l \<longrightarrow> unat l < 2 ^ 62" using lsn unfolding nl by (auto simp: next_lsn_def)
  from withLog_insert [OF H(1) len this] obtain l txn2 bt2 W where
    wl: "withLog bt1 txn (\<lambda>w. LogInsertRecord w (txID txn) (ucast y) (txLastLSN txn) (EncodeTuple t)) = Some (l, txn2, bt2)"
    and b2: "bufPool bt2 = (bufPool bt1)\<lparr>wal := W\<rparr>" "wal_ok W" "txUndoLog txn2 = txUndoLog txn" "rootPageID bt2 = rootPageID bt1" "bloom bt2 = bloom bt1"
    and log: "map_option log_of W = map_option (\<lambda>w. log_of w @ [insert_rec txn y t (currentLSN w)]) (wal (bufPool bt1))"
    by blast
  obtain pos p' where p': "InsertRecord (if lsnOrZero l \<noteq> 0 then SetPageLSN (page_at y d) (lsnOrZero l) else page_at y d) (EncodeTuple t) TupleKeyExtract = Some (Inr pos, p')"
    "leaf_ok p'" "VerifyChecksum p'" "Type p' = Type (page_at y d)" "ID p' = y"
    "versions_in p' = (versions_in (page_at y d))(Key t := versions_in (page_at y d) (Key t) @ [t])" "set (tuples p') = insert t (set (tuples (page_at y d)))"
    by (rule leaf_insert [OF ok room, of "lsnOrZero l"]) (rule that; simp)
  from held_store [OF h y(2) page_wf_ok [OF leaf_ok_wf [OF p'(2)]] b2(2,1)] obtain bp where
    rel: "releaseLeaf (writeT bt2 y p') leaf ps True = bt2\<lparr>bufPool := bp\<rparr>"
    and bp: "settled bt0 (bt2\<lparr>bufPool := bp\<rparr>)" "view bp = (pages bt1)(y \<mapsto> Data p')" "wal bp = W"
    by blast
  let ?b = "bt2\<lparr>bufPool := bp, bloom := BloomAdd (bloom bt2) y key\<rparr>"
  let ?txn = "txn2\<lparr>txUndoLog := txUndoLog txn2 @ [insert_undo y pos (lsnOrZero l)]\<rparr>"
  have rd: "readT bt2 leaf = page_at y d" using P(1) by (simp add: readT_def b2(1) ReadPageData_def)
  have I: "Insert bt txn key value = Some (Inr (), ?txn, putTxn ?b ?txn)"
    by (simp add: Insert_def C L P(2) wl p'(1) [folded rd] rel appendUndo_def insert_undo_def Let_def flip: t split del: if_split)
  have T: "Key t = key" using t by (simp add: newTuple_def)
  have "settled bt (putTxn ?b ?txn)"
    using bp(1) S(1) by (simp add: settled_def)
  moreover have "map_option log_of W = map_option (\<lambda>w. log_of w @ [insert_rec txn y t (currentLSN w)]) (wal (bufPool bt))"
    using log nl h S(1) by (cases "wal (bufPool bt1)"; cases "wal (bufPool bt)") (auto simp: held_def next_lsn_def)
  moreover have "\<exists>d'. pages (putTxn ?b ?txn) y = Some d' \<and> good_image d' \<and> Type (page_at y d') = Type (page_at y d) \<and> leaf_ok (page_at y d') \<and>
        versions_in (page_at y d') = (versions_in (page_at y d))(Key t := versions_in (page_at y d) (Key t) @ [t]) \<and>
        set (tuples (page_at y d')) = insert t (set (tuples (page_at y d)))"
  proof -
    have e: "page_at y (Data p') = p'" using p'(5) by (cases p') simp
    have "good_image (Data p')" using p'(3) by (simp add: good_image_def VerifyChecksum_def)
    with bp(2) p' show ?thesis by (intro exI [of _ "Data p'"]) (simp add: e)
  qed
  moreover have "pages (putTxn ?b ?txn) q = Some e" if "q \<noteq> y" "pages bt q = Some e" for q e
    using that v bp(2) by simp
  ultimately show ?thesis
    using I S(2,3) H(4,5) T b2(3-5) bp(3) unfolding inserted_def by (intro exI [of _ ?txn] exI [of _ "putTxn ?b ?txn"]) auto
qed

section \<open>The tree as a map\<close>

definition tree_ok :: "BPlusTree \<Rightarrow> nat \<Rightarrow> (bytes \<Rightarrow> MVCCTuple list) \<Rightarrow> bool" where
  "tree_ok bt h f \<longleftrightarrow> pool_inv (bufPool bt) \<and> quiet {} (bufPool bt) \<and> btree (pages bt) UNIV h (rootPageID bt) f \<and>
     unshared (pages bt) h (rootPageID bt)"

text \<open>The keys of a leaf are in its filter; a leaf without a filter is empty.\<close>

definition covered :: "BloomIndex \<Rightarrow> u32 \<Rightarrow> MVCCTuple list \<Rightarrow> bool" where
  "covered bi y ts = (case filters bi y of None \<Rightarrow> ts = [] | Some g \<Rightarrow> filter_ok g \<and> (\<forall>t \<in> set ts. MayContainFilter g (Key t)))"

lemma covered_BloomAdd:
  "z \<noteq> y \<Longrightarrow> covered (BloomAdd bi y k) z ts = covered bi z ts"
  "covered bi y ts \<Longrightarrow> set us = insert t (set ts) \<Longrightarrow> covered (BloomAdd bi y (Key t)) y us"
  using MayContain_AddFilter fbit_AddFilter(2) filter_ok_empty
  by (auto simp: covered_def BloomAdd_def Let_def split: option.splits)

definition bloom_complete :: "BPlusTree \<Rightarrow> nat \<Rightarrow> bool" where
  "bloom_complete bt h \<longleftrightarrow> (\<forall>y d. leaf_below (pages bt) h (rootPageID bt) y \<and> pages bt y = Some d \<longrightarrow>
     covered (bloom bt) y (tuples (page_at y d)))"

lemma bloom_complete_covers: "bloom_complete bt h \<Longrightarrow> bloom_covers bt h"
  by (fastforce simp: bloom_complete_def bloom_covers_def covered_def BloomMayContain_def split: option.splits)

lemma inserted_nodes:
  assumes "tree_ok bt h f" and y: "y = leaf_for (pages bt) h (rootPageID bt) key" and d: "pages bt y = Some d"
    and I: "inserted bt txn y d t txn' bt'"
  shows "same_nodes (pages bt) (pages bt')" and "Type (page_at y d) = PageTypeLeaf"
proof -
  have "btree (pages bt) UNIV h (rootPageID bt) f" using assms(1) by (simp add: tree_ok_def)
  from leaf_for_page [OF this, of key] d show ty: "Type (page_at y d) = PageTypeLeaf" unfolding y by auto
  have "\<And>q e. q \<noteq> y \<Longrightarrow> pages bt q = Some e \<Longrightarrow> pages bt' q = Some e" using I by (auto simp: inserted_def)
  with d ty leaf_internal show "same_nodes (pages bt) (pages bt')" by (metis option.inject)
qed

lemma inserted_tree:
  assumes ok: "tree_ok bt h f" and y: "y = leaf_for (pages bt) h (rootPageID bt) key" and d: "pages bt y = Some d"
    and S: "settled bt bt'" and I: "inserted bt txn y d t txn' bt'" and t: "Key t = key"
  shows "tree_ok bt' h (f(key := f key @ [t]))" and "bloom_complete bt h \<Longrightarrow> bloom_complete bt' h"
    and "leaf_below (pages bt') h (rootPageID bt') z = leaf_below (pages bt) h (rootPageID bt) z"
proof -
  let ?V = "pages bt" and ?x = "rootPageID bt"
  have T: "btree ?V UNIV h ?x f" "unshared ?V h ?x" using ok by (simp_all add: tree_ok_def)
  obtain d' where d': "pages bt' y = Some d'" "good_image d'" "Type (page_at y d') = Type (page_at y d)" "leaf_ok (page_at y d')"
      "versions_in (page_at y d') = (versions_in (page_at y d))(key := versions_in (page_at y d) key @ [t])"
      "set (tuples (page_at y d')) = insert t (set (tuples (page_at y d)))"
    using I t by (auto simp: inserted_def)
  have K: "\<And>q e. q \<noteq> y \<Longrightarrow> ?V q = Some e \<Longrightarrow> pages bt' q = Some e" and R: "rootPageID bt' = ?x" "bloom bt' = BloomAdd (bloom bt) y key"
    using I t by (auto simp: inserted_def)
  note nodes = inserted_nodes(1) [OF ok y d I] and ty = inserted_nodes(2) [OF ok y d I]
  note B = leaf_below_cong [OF T(1) nodes]
  show L: "leaf_below (pages bt') h (rootPageID bt') z = leaf_below ?V h ?x z" for z using B R(1) by simp
  have "btree (?V(y \<mapsto> d')) UNIV h ?x (f(key := f key @ [t]))"
    unfolding y by (rule btree_insert [OF T UNIV_I]) (use d d' ty t in \<open>simp_all add: y\<close>)
  then have "btree (pages bt') UNIV h ?x (f(key := f key @ [t]))"
    by (rule btree_mono) (use K d'(1) in \<open>auto split: if_splits\<close>)
  with unshared_cong [OF T(1) nodes T(2)] S R(1) show "tree_ok bt' h (f(key := f key @ [t]))"
    by (simp add: tree_ok_def settled_def)
  show "bloom_complete bt' h" if c: "bloom_complete bt h"
    unfolding bloom_complete_def
  proof (intro allI impI, elim conjE)
    fix z e assume z: "leaf_below (pages bt') h (rootPageID bt') z" "pages bt' z = Some e"
    then obtain e0 where e0: "?V z = Some e0" using L leaf_below_page [OF T(1)] by blast
    have old: "covered (bloom bt) z (tuples (page_at z e0))"
      using c z(1) L e0 by (auto simp: bloom_complete_def)
    show "covered (bloom bt') z (tuples (page_at z e))"
    proof (cases "z = y")
      case True
      with old d e0 have "covered (bloom bt) y (tuples (page_at y d))" by simp
      from covered_BloomAdd(2) [OF this d'(6)] True z(2) d'(1) t R(2) show ?thesis by simp
    next
      case False
      with K [OF False e0] z(2) have "e = e0" by simp
      with old False R(2) show ?thesis by (simp add: covered_BloomAdd(1))
    qed
  qed
qed

lemma leaf_for_cong:
  assumes "btree V K h x f" and "same_nodes V V'"
  shows "leaf_for V' h x k = leaf_for V h x k"
  using assms
proof (induction rule: btree.induct)
  case (node x e K h g)
  then have "V' x = Some e" by blast
  with node show ?case by simp
qed simp

lemma held_tree:
  assumes "tree_ok bt h f" and h: "held bt bt' {#}"
  shows "tree_ok bt' h f" and "bloom_complete bt h \<Longrightarrow> bloom_complete bt' h" and "settled bt bt'"
proof -
  note H = heldD [OF h]
  have T: "btree (pages bt) UNIV h (rootPageID bt) f" "unshared (pages bt) h (rootPageID bt)" using assms(1) by (simp_all add: tree_ok_def)
  have n: "same_nodes (pages bt) (pages bt')" using H(2) by blast
  have q: "quiet {} (bufPool bt')" using h by (simp add: held_def)
  show "tree_ok bt' h f" using btree_mono [OF T(1) H(2)] unshared_cong [OF T(1) n T(2)] q H(1,5) by (simp add: tree_ok_def)
  show "settled bt bt'" using h by (simp add: held_def settled_def)
  show "bloom_complete bt' h" if c: "bloom_complete bt h"
    unfolding bloom_complete_def
  proof (intro allI impI, elim conjE)
    fix z e assume z: "leaf_below (pages bt') h (rootPageID bt') z" "pages bt' z = Some e"
    then have b: "leaf_below (pages bt) h (rootPageID bt) z" using leaf_below_cong [OF T(1) n] H(5) by simp
    then obtain e0 where "pages bt z = Some e0" using leaf_below_page [OF T(1)] by blast
    with H(2) z(2) have "pages bt z = Some e" by fastforce
    with c b show "covered (bloom bt') z (tuples (page_at z e))" by (simp add: bloom_complete_def H(4))
  qed
qed

lemma Insert_cases:
  assumes ok: "tree_ok bt h f" and y: "y = leaf_for (pages bt) h (rootPageID bt) key" and d: "pages bt y = Some d"
    and t: "t = newTuple txn key value" and room: "length (EncodeTuple t) + 4 \<le> room_of (page_at y d)"
    and lsn: "\<forall>w. wal (bufPool bt) = Some w \<longrightarrow> unat (currentLSN w) < 2 ^ 62" and C: "checkWrite bt txn key = (None, bt0)"
  shows "(\<exists>bt'. Insert bt txn key value = Some (Inl ErrBufferPoolFull, txn, bt') \<and> held bt0 bt' {#} \<and>
      (clocked (bufPool bt) \<longrightarrow> free_frames (bufPool bt) \<le> h)) \<or>
    (\<exists>txn' bt'. Insert bt txn key value = Some (Inr (), txn', bt') \<and> settled bt bt' \<and> inserted bt txn y d t txn' bt')"
proof -
  note S = checkWrite_sel [OF C]
  have T: "pool_inv (bufPool bt0)" "quiet {} (bufPool bt0)" "btree (pages bt0) UNIV h (rootPageID bt0) f" using ok S by (simp_all add: tree_ok_def)
  obtain r bt1 where r: "findLeafWithParents bt0 key = Some (r, bt1)" and R: "case r of
       Inl e \<Rightarrow> held bt0 bt1 {#} \<and> e = ErrBufferPoolFull \<and> (clocked (bufPool bt0) \<longrightarrow> free_frames (bufPool bt0) \<le> h)
     | Inr (leaf, ps) \<Rightarrow> held bt0 bt1 (add_mset leaf (mset ps)) \<and> pinned_at (bufPool bt1) leaf (leaf_for (pages bt0) h (rootPageID bt0) key)"
    using findLeafWithParents_leaf [OF T] by blast
  show ?thesis
  proof (cases r)
    case (Inl e)
    with r R C S(1) show ?thesis by (auto simp: Insert_def)
  next
    case (Inr x)
    obtain leaf ps where x: "x = (leaf, ps)" by (cases x)
    have lo: "leaf_ok (page_at y d)" using leaf_for_page [OF T(3), of key] d S unfolding y by auto
    from Inr x R S y have "held bt0 bt1 (add_mset leaf (mset ps))" "pinned_at (bufPool bt1) leaf y" by simp_all
    from Insert_on_leaf [OF C r [unfolded Inr x] this(1) d this(2) lo t room lsn] show ?thesis by blast
  qed
qed

section \<open>Properties\<close>

lemma settled_free: "settled bt bt' \<Longrightarrow> free_frames (bufPool bt') = free_frames (bufPool bt)"
  unfolding settled_def free_frames_def by (intro arg_cong [of _ _ card]) auto

lemma insert_example:
  obtains bt d where "tree_ok bt 0 (\<lambda>k. if k = [1] then [example_tuple] else [])" and "rootPageID bt = 1" and "pages bt 1 = Some d"
    and "room_of (page_at 1 d) = 4037" and "tuples (page_at 1 d) = [example_tuple]" and "bloom bt = NewBloomIndex"
    and "wal (bufPool bt) = None" and "clocked (bufPool bt)" and "free_frames (bufPool bt) = 2"
  by (rule tree_example_page) (rule that; simp add: tree_ok_def)

lemma Get_returns:
  assumes T: "pool_inv (bufPool bt)" "quiet {} (bufPool bt)" "btree (pages bt) UNIV h (rootPageID bt) f" and b: "bloom_covers bt h"
    and F: "clocked (bufPool bt)" "h < free_frames (bufPool bt)"
  shows "\<exists>bt'. Get bt txn key = Some (get_result (visible_version bt txn (f key)), bt')"
proof -
  let ?y = "leaf_for (pages bt) h (rootPageID bt) key"
  obtain leaf ps b where L: "findLeafWithParents bt key = Some (Inr (leaf, ps), b)" "held bt b (add_mset leaf (mset ps))"
    "pinned_at (bufPool b) leaf ?y"
    by (rule descent_leaf [OF T F])
  obtain d where d: "leaf_below (pages bt) h (rootPageID bt) ?y" "pages bt ?y = Some d" "leaf_ok (page_at ?y d)"
    "f key = versions_in (page_at ?y d) key"
    using leaf_for_page [OF T(3), of key] by blast
  from Get_on_leaf [OF L(1,2) d(1,2) L(3) d(3) b refl, of txn] d(4) show ?thesis by auto
qed

text \<open>
  C2. Inserts are updates of the abstract map. On a search tree whose leaf for the key has room, and while LSNs
  are below \<open>2^62\<close>, \<open>Insert\<close> returns. A conflict that the serializability check reports is the result and
  changes nothing on the pages. Otherwise the map gets the new version at the
  end of the versions of the key and no other change, the Bloom filters cover the leaves again, one undo record is appended, and
  the log gets exactly the record of the insert, chained to the last one of the transaction; or the
  pool is full, at most \<open>h\<close> frames were free and the tree is unchanged. In every case all pins are released.
\<close>

theorem Insert_correct:
  assumes "tree_ok bt h f" and "bloom_complete bt h" and "y = leaf_for (pages bt) h (rootPageID bt) key" and "pages bt y = Some d"
    and "length key + length value + 25 \<le> room_of (page_at y d)"
    and "\<forall>w. wal (bufPool bt) = Some w \<longrightarrow> unat (currentLSN w) < 2 ^ 62"
    and "checkWrite bt txn key = (conflict, bt0)"
  shows "\<exists>r txn' bt'. Insert bt txn key value = Some (r, txn', bt') \<and> settled bt bt' \<and> bloom_complete bt' h \<and>
    (case conflict of
       Some e \<Rightarrow> r = Inl e \<and> txn' = txn \<and> bt' = bt0 \<and> tree_ok bt' h f
     | None \<Rightarrow> r = Inl ErrBufferPoolFull \<and> txn' = txn \<and> (clocked (bufPool bt) \<longrightarrow> free_frames (bufPool bt) \<le> h) \<and> tree_ok bt' h f \<or>
         r = Inr () \<and> tree_ok bt' h (f(key := f key @ [newTuple txn key value])) \<and>
         (\<exists>slot lsn. txUndoLog txn' = txUndoLog txn @ [insert_undo y slot lsn]) \<and>
         map_option log_of (wal (bufPool bt')) =
           map_option (\<lambda>w. log_of w @ [insert_rec txn y (newTuple txn key value) (currentLSN w)]) (wal (bufPool bt)))"
proof -
  let ?t = "newTuple txn key value"
  note S = checkWrite_sel [OF assms(7)]
  have t0: "tree_ok bt0 h f" "bloom_complete bt0 h" using assms(1,2) S by (simp_all add: tree_ok_def bloom_complete_def)
  have len: "length (EncodeTuple ?t) + 4 \<le> room_of (page_at y d)" and key: "Key ?t = key" using assms(5) by (simp_all add: newTuple_def)
  show ?thesis
  proof (cases conflict)
    case (Some e)
    with assms(7) t0 S(1) show ?thesis by (simp add: Insert_def settled_def tree_ok_def)
  next
    case None
    from Insert_cases [OF assms(1,3,4) refl len assms(6) assms(7) [unfolded None]] show ?thesis
    proof (elim disjE exE conjE)
      fix bt' assume "Insert bt txn key value = Some (Inl ErrBufferPoolFull, txn, bt')" "held bt0 bt' {#}"
        "clocked (bufPool bt) \<longrightarrow> free_frames (bufPool bt) \<le> h"
      with held_tree [OF t0(1)] t0(2) None S(1) show ?thesis by (auto simp: settled_def)
    next
      fix txn' bt' assume I: "Insert bt txn key value = Some (Inr (), txn', bt')" "settled bt bt'" "inserted bt txn y d ?t txn' bt'"
      note T = inserted_tree(1,2) [OF assms(1,3,4) I(2,3) key]
      from I(3) have "\<exists>slot lsn. txUndoLog txn' = txUndoLog txn @ [insert_undo y slot lsn]"
        "map_option log_of (wal (bufPool bt')) = map_option (\<lambda>w. log_of w @ [insert_rec txn y ?t (currentLSN w)]) (wal (bufPool bt))"
        by (simp_all add: inserted_def)
      with I(1,2) T(1) T(2) [OF assms(2)] None show ?thesis by simp
    qed
  qed
qed

theorem Insert_correct_witness:
  "\<exists>bt txn' bt' b. Insert bt example_txn [2] [8] = Some (Inr (), txn', bt') \<and> Get bt' example_txn [2] = Some (Inr [8], b)"
proof -
  let ?f = "\<lambda>k. if k = [1] then [example_tuple] else []"
  obtain b d where b: "tree_ok b 0 ?f" "rootPageID b = 1" "pages b 1 = Some d" "room_of (page_at 1 d) = 4037"
    "tuples (page_at 1 d) = [example_tuple]" "bloom b = NewBloomIndex" "wal (bufPool b) = None" "clocked (bufPool b)" "free_frames (bufPool b) = 2"
    by (rule insert_example)
  let ?b = "b\<lparr>bloom := BloomAdd NewBloomIndex 1 [1]\<rparr>"
  have "covered NewBloomIndex 1 []" by (simp add: covered_def NewBloomIndex_def)
  from covered_BloomAdd(2) [OF this, of "[example_tuple]" example_tuple] have "covered (bloom ?b) 1 [example_tuple]"
    by (simp add: example_tuple_def)
  with b have c: "tree_ok ?b 0 ?f" "bloom_complete ?b 0" "checkWrite ?b example_txn [2] = (None, ?b)"
    by (auto simp: tree_ok_def bloom_complete_def checkWrite_def example_txn_def elim: leaf_below_0E)
  from Insert_correct [OF c(1,2) refl _ _ _ c(3), of d "[8]"] b obtain txn' bt' where
    i: "Insert ?b example_txn [2] [8] = Some (Inr (), txn', bt')" "settled ?b bt'" "bloom_complete bt' 0"
      "tree_ok bt' 0 (?f([2] := [newTuple example_txn [2] [8]]))"
    by auto
  have T: "pool_inv (bufPool bt')" "quiet {} (bufPool bt')" "btree (pages bt') UNIV 0 (rootPageID bt') (?f([2] := [newTuple example_txn [2] [8]]))"
    using i(4) by (simp_all add: tree_ok_def)
  have F: "clocked (bufPool bt')" "free_frames (bufPool bt') = 2" using i(2) settled_free [OF i(2)] b(8,9) by (simp_all add: settled_def)
  have "visible_version bt' example_txn [newTuple example_txn [2] [8]] = Some (newTuple example_txn [2] [8])"
    by (simp add: visible_version_def example_txn_def newTuple_def IsVisible_def checkXmax_def)
  moreover have "(?f([2] := [newTuple example_txn [2] [8]])) [2] = [newTuple example_txn [2] [8]]" by simp
  ultimately obtain g where "Get bt' example_txn [2] = Some (Inr [8], g)"
    using Get_returns [OF T bloom_complete_covers [OF i(3)], of example_txn "[2]"] F by (auto simp: get_result_def newTuple_def)
  with i(1) show ?thesis by blast
qed

text \<open>
  C18. The first insert after a restart hides other keys of its leaf. \<open>Open\<close> builds the tree with
  no Bloom filters, and a page without a filter counts as possibly holding every key; but \<open>BloomAdd\<close> starts
  an empty filter for such a page. So after one \<open>Insert\<close> into a leaf, \<open>Get\<close> reports
  \<open>ErrKeyNotFound\<close> for every other key of this leaf whose bits differ from those of the inserted key, although it
  found them before, and although the tree still holds their versions.
\<close>

theorem insert_hides_keys:
  assumes ok: "tree_ok bt h f" and fresh: "bloom bt = NewBloomIndex"
    and y: "y = leaf_for (pages bt) h (rootPageID bt) key" "y = leaf_for (pages bt) h (rootPageID bt) k" and d: "pages bt y = Some d"
    and room: "length key + length value + 25 \<le> room_of (page_at y d)"
    and lsn: "\<forall>w. wal (bufPool bt) = Some w \<longrightarrow> unat (currentLSN w) < 2 ^ 62" and C: "checkWrite bt txn key = (None, bt0)"
    and F: "clocked (bufPool bt)" "h < free_frames (bufPool bt)"
    and v: "visible_version bt reader (f k) = Some v" and bits: "\<not> MayContainFilter (AddFilter emptyBloomFilter key) k"
  shows "\<exists>txn' bt' g g'. Insert bt txn key value = Some (Inr (), txn', bt') \<and> Get bt reader k = Some (Inr (Value v), g) \<and>
    tree_ok bt' h (f(key := f key @ [newTuple txn key value])) \<and> k \<noteq> key \<and> Get bt' reader k = Some (Inl ErrKeyNotFound, g')"
proof -
  let ?t = "newTuple txn key value"
  have T: "pool_inv (bufPool bt)" "quiet {} (bufPool bt)" "btree (pages bt) UNIV h (rootPageID bt) f" using ok by (simp_all add: tree_ok_def)
  have len: "length (EncodeTuple ?t) + 4 \<le> room_of (page_at y d)" and key: "Key ?t = key" using room by (simp_all add: newTuple_def)
  have "bloom_covers bt h" by (simp add: bloom_covers_def fresh NewBloomIndex_def BloomMayContain_def)
  from Get_returns [OF T this F] v have before: "\<exists>g. Get bt reader k = Some (Inr (Value v), g)" by (metis get_result_def option.simps(5))
  have ne: "k \<noteq> key" using bits MayContain_AddFilter(1) [OF filter_ok_empty] by auto
  from Insert_cases [OF ok y(1) d refl len lsn C] F obtain txn' bt' where
    I: "Insert bt txn key value = Some (Inr (), txn', bt')" "settled bt bt'" "inserted bt txn y d ?t txn' bt'" by auto
  note U = inserted_tree(1) [OF ok y(1) d I(2,3) key] inserted_nodes [OF ok y(1) d I(3)]
  have R: "rootPageID bt' = rootPageID bt" "bloom bt' = BloomAdd NewBloomIndex y key" using I(3) fresh key by (simp_all add: inserted_def)
  have T': "pool_inv (bufPool bt')" "quiet {} (bufPool bt')" "btree (pages bt') UNIV h (rootPageID bt') (f(key := f key @ [?t]))"
    using U(1) by (simp_all add: tree_ok_def)
  have F': "clocked (bufPool bt')" "h < free_frames (bufPool bt')" using I(2) settled_free [OF I(2)] F by (simp_all add: settled_def)
  have y': "leaf_for (pages bt') h (rootPageID bt') k = y" using leaf_for_cong [OF T(3) U(2)] R(1) y(2) by simp
  obtain leaf ps b where L: "findLeafWithParents bt' k = Some (Inr (leaf, ps), b)" "held bt' b (add_mset leaf (mset ps))"
    "pinned_at (bufPool b) leaf y"
    unfolding y' [symmetric] by (rule descent_leaf [OF T' F'])
  have "framePageID b leaf = y" using pool_invD(2) [OF heldD(1) [OF L(2)]] L(3) by (simp add: framePageID_def pinned_at_def)
  moreover have "\<not> BloomMayContain (bloom b) y k"
    using bits by (simp add: heldD(4) [OF L(2)] R(2) BloomMayContain_def BloomAdd_def NewBloomIndex_def Let_def)
  ultimately have "\<exists>g. Get bt' reader k = Some (Inl ErrKeyNotFound, g)" using L(1) by (simp add: Get_def)
  with I(1) before U(1) ne show ?thesis by blast
qed

theorem insert_hides_keys_witness:
  "\<exists>bt txn' bt' g g'. Insert bt example_txn [2] [8] = Some (Inr (), txn', bt') \<and> Get bt example_txn [1] = Some (Inr [9], g) \<and>
    Get bt' example_txn [1] = Some (Inl ErrKeyNotFound, g')"
proof -
  let ?f = "\<lambda>k. if k = [1] then [example_tuple] else []"
  obtain b d where b: "tree_ok b 0 ?f" "rootPageID b = 1" "pages b 1 = Some d" "room_of (page_at 1 d) = 4037"
    "tuples (page_at 1 d) = [example_tuple]" "bloom b = NewBloomIndex" "wal (bufPool b) = None" "clocked (bufPool b)" "free_frames (bufPool b) = 2"
    by (rule insert_example)
  have bits: "\<not> MayContainFilter (AddFilter emptyBloomFilter [2]) [1]" by code_simp
  have v: "visible_version b example_txn (?f [1]) = Some example_tuple"
    by (simp add: visible_version_def example_txn_def example_tuple_def IsVisible_def checkXmax_def)
  have c: "checkWrite b example_txn [2] = (None, b)" by (simp add: checkWrite_def example_txn_def)
  have "Value example_tuple = [9]" by (simp add: example_tuple_def)
  with insert_hides_keys [OF b(1,6) refl _ _ _ _ c b(8) _ v bits, of d "[8]"] b show ?thesis by auto
qed

end
