(* ===== verification/Simulation.thy ===== *)
theory Simulation
  imports Structure
begin

text \<open>
  The demonstration scenarios (\<^verbatim>\<open>internal/simulation/scenarios.go\<close>): fixed sequences of engine calls whose
  steps report what they saw. Texts that contain stored bytes are byte lists; a detail keeps the values that are
  printed in it. Errors of calls that the code ignores are dropped here too.
\<close>

section \<open>Definitions\<close>

datatype detail = NoDetail | DetailText string | DetailErr "error option" | DetailVal bytes "error option"

record StepResult =
  srStep :: string
  srDescription :: bytes
  srOK :: bool
  srDetail :: detail

datatype stat = StatInt nat | StatBool bool | StatStr bytes

record ScenarioResult =
  scName :: string
  scSteps :: "StepResult list"
  scStats :: "(string \<times> stat) list"

definition newResult :: "string \<Rightarrow> ScenarioResult" where
  "newResult name = \<lparr>scName = name, scSteps = [], scStats = []\<rparr>"

definition step :: "ScenarioResult \<Rightarrow> string \<Rightarrow> bytes \<Rightarrow> bool \<Rightarrow> detail \<Rightarrow> ScenarioResult" where
  "step res name desc ok detail =
     res\<lparr>scSteps := scSteps res @ [\<lparr>srStep = name, srDescription = desc, srOK = ok, srDetail = detail\<rparr>]\<rparr>"

definition setStat :: "ScenarioResult \<Rightarrow> string \<Rightarrow> stat \<Rightarrow> ScenarioResult" where
  "setStat res k v = res\<lparr>scStats := AList.update k v (scStats res)\<rparr>"

definition ScenarioNames :: "string list" where
  "ScenarioNames = [''insert-and-search'', ''split-visual'', ''mvcc-basic'', ''read-committed'', ''snapshot-iso'',
     ''write-skew'', ''crash-recovery'', ''concurrent-txns'', ''vacuum'']"

text \<open>\<open>fmt.Sprintf\<close> with the verbs \<open>%04d\<close> and \<open>%d\<close>.\<close>

definition pad4 :: "string \<Rightarrow> string" where
  "pad4 s = replicate (4 - length s) (CHR ''0'') @ s"

definition key4 :: "string \<Rightarrow> nat \<Rightarrow> bytes" where
  "key4 pre i = asciiBytes (pre @ pad4 (decimal i))"

definition textOf :: "string \<Rightarrow> bytes" where
  "textOf s = asciiBytes s"

definition apostrophe :: string where "apostrophe = [CHR 0x27]"
definition emDash :: bytes where "emDash = [0xE2, 0x80, 0x94]"

text \<open>The error of a call, if any; \<open>string(v)\<close> of the value it returns with an error is the empty string.\<close>

definition errOf :: "(error, 'a) result \<Rightarrow> error option" where
  "errOf r = (case r of Inl err \<Rightarrow> Some err | Inr _ \<Rightarrow> None)"

definition valOf :: "(error, bytes) result \<Rightarrow> bytes" where
  "valOf r = (case r of Inl _ \<Rightarrow> [] | Inr v \<Rightarrow> v)"

text \<open>Writes in a loop: until the first error, which is returned with its position, or all of them.\<close>

fun putUntil ::
  "StorageEngine \<Rightarrow> Transaction \<Rightarrow> (nat \<Rightarrow> bytes \<times> bytes) \<Rightarrow> nat list \<Rightarrow> ((nat \<times> error) option \<times> Transaction \<times> StorageEngine) option" where
  "putUntil e txn kv [] = Some (None, txn, e)"
| "putUntil e txn kv (i # is) = do {
     (r, txn, e) \<leftarrow> Put e txn (fst (kv i)) (snd (kv i));
     (case r of
        Inl err \<Rightarrow> Some (Some (i, err), txn, e)
      | Inr _ \<Rightarrow> putUntil e txn kv is) }"

fun putAll ::
  "StorageEngine \<Rightarrow> Transaction \<Rightarrow> (nat \<Rightarrow> bytes \<times> bytes) \<Rightarrow> nat list \<Rightarrow> (Transaction \<times> StorageEngine) option" where
  "putAll e txn kv [] = Some (txn, e)"
| "putAll e txn kv (i # is) = do {
     (_, txn, e) \<leftarrow> Put e txn (fst (kv i)) (snd (kv i));
     putAll e txn kv is }"

text \<open>Reads in a loop: how many of the keys have the expected value.\<close>

fun countReads ::
  "StorageEngine \<Rightarrow> Transaction \<Rightarrow> (nat \<Rightarrow> bytes \<times> bytes) \<Rightarrow> nat list \<Rightarrow> (nat \<times> Transaction \<times> StorageEngine) option" where
  "countReads e txn kv [] = Some (0, txn, e)"
| "countReads e txn kv (i # is) = do {
     (r, txn, e) \<leftarrow> EngGet e txn (fst (kv i));
     (n, txn, e) \<leftarrow> countReads e txn kv is;
     Some (if r = Inr (snd (kv i)) then n + 1 else n, txn, e) }"

definition scenarioInsertAndSearch :: "StorageEngine \<Rightarrow> (ScenarioResult \<times> StorageEngine) option" where
  "scenarioInsertAndSearch e = do {
     let res = newResult ''insert-and-search'';
     (txn, e) \<leftarrow> EngBegin e SnapshotIsolation;
     let kv = (\<lambda>i. (key4 ''key'' i, key4 ''val'' i));
     (bad, txn, e) \<leftarrow> putUntil e txn kv [0..<1000];
     (case bad of
        Some (i, err) \<Rightarrow> do {
          let res = step res ''insert'' (key4 ''insert key'' i) False (DetailErr (Some err));
          (_, _, e) \<leftarrow> EngAbort e txn;
          Some (res, e) }
      | None \<Rightarrow> do {
          (r, _, e) \<leftarrow> EngCommit e txn;
          (case r of
             Inl err \<Rightarrow> Some (step res ''commit'' (textOf ''commit 1000 inserts'') False (DetailErr (Some err)), e)
           | Inr _ \<Rightarrow> do {
               let res = step res ''insert'' (textOf ''inserted 1000 keys'') True NoDetail;
               (read, e) \<leftarrow> EngBegin e SnapshotIsolation;
               (hits, read, e) \<leftarrow> countReads e read kv (map (\<lambda>i. 10 * i) [0..<100]);
               let misses = 100 - hits;
               (_, _, e) \<leftarrow> EngCommit e read;
               let res = step res ''search'' (textOf (''searched 100 keys, '' @ decimal misses @ '' misses'')) (misses = 0) NoDetail;
               let res = setStat (setStat (setStat res ''inserted'' (StatInt 1000)) ''searched'' (StatInt 100)) ''misses'' (StatInt misses);
               Some (res, e) }) }) }"

definition scenarioSplitVisual :: "StorageEngine \<Rightarrow> (ScenarioResult \<times> StorageEngine) option" where
  "scenarioSplitVisual e = do {
     let res = newResult ''split-visual'';
     (txn, e) \<leftarrow> EngBegin e SnapshotIsolation;
     (bad, txn, e) \<leftarrow> putUntil e txn (\<lambda>i. (key4 ''sv'' i, textOf ''value'')) [0..<150];
     (case bad of
        Some (i, err) \<Rightarrow> do {
          let res = step res ''insert'' (key4 ''insert sv'' i) False (DetailErr (Some err));
          (_, _, e) \<leftarrow> EngAbort e txn;
          Some (res, e) }
      | None \<Rightarrow> do {
          (_, _, e) \<leftarrow> EngCommit e txn;
          let res = step res ''fill-leaf'' (textOf ''filled leaf page past split threshold (150 keys)'') True NoDetail;
          (node, e) \<leftarrow> TreeStructure e;
          let res = step res ''tree-structure'' (textOf ''tree structure captured after split'') (node \<noteq> None) NoDetail;
          Some (case node of
                  None \<Rightarrow> res
                | Some n \<Rightarrow> setStat (setStat res ''root_type'' (StatStr (textOf (nType n)))) ''children'' (StatInt (length (nChildren n))), e) }) }"

definition scenarioMVCCBasic :: "StorageEngine \<Rightarrow> (ScenarioResult \<times> StorageEngine) option" where
  "scenarioMVCCBasic e = do {
     let res = newResult ''mvcc-basic'';
     let k = textOf ''mvcc-key'';
     (t1, e) \<leftarrow> EngBegin e SnapshotIsolation;
     (_, t1, e) \<leftarrow> Put e t1 k (textOf ''secret'');
     let res = step res ''t1-insert'' (textOf ''T1 inserts mvcc-key=secret (uncommitted)'') True NoDetail;
     (t2, e) \<leftarrow> EngBegin e SnapshotIsolation;
     (r, t2, e) \<leftarrow> EngGet e t2 k;
     let hidden = (errOf r \<noteq> None);
     let res = step res ''t2-read-before-commit'' (textOf (''T2 cannot see T1'' @ apostrophe @ ''s uncommitted write'')) hidden (DetailErr (errOf r));
     (_, _, e) \<leftarrow> EngCommit e t1;
     let res = step res ''t1-commit'' (textOf ''T1 commits'') True NoDetail;
     (t3, e) \<leftarrow> EngBegin e SnapshotIsolation;
     (r2, t3, e) \<leftarrow> EngGet e t3 k;
     let visible = (r2 = Inr (textOf ''secret''));
     let res = step res ''t3-read-after-commit'' (textOf (''T3 sees T1'' @ apostrophe @ ''s committed write'')) visible (DetailVal (valOf r2) (errOf r2));
     (_, _, e) \<leftarrow> EngCommit e t3;
     (r3, t2, e) \<leftarrow> EngGet e t2 k;
     let stillHidden = (errOf r3 \<noteq> None);
     let res = step res ''t2-read-snapshot-isolation'' (textOf ''T2 snapshot predates T1 commit '' @ emDash @ textOf '' still invisible'') stillHidden (DetailErr (errOf r3));
     (_, _, e) \<leftarrow> EngCommit e t2;
     Some (setStat res ''mvcc_isolation'' (StatBool (hidden \<and> visible \<and> stillHidden)), e) }"

definition scenarioReadCommitted :: "StorageEngine \<Rightarrow> (ScenarioResult \<times> StorageEngine) option" where
  "scenarioReadCommitted e = do {
     let res = newResult ''read-committed'';
     let k = textOf ''rc-balance'';
     (setup, e) \<leftarrow> EngBegin e SnapshotIsolation;
     (_, setup, e) \<leftarrow> Put e setup k (textOf ''100'');
     (_, _, e) \<leftarrow> EngCommit e setup;
     let res = step res ''setup'' (textOf ''inserted rc-balance=100'') True NoDetail;
     (t2, e) \<leftarrow> EngBegin e SnapshotIsolation;
     (_, t2, e) \<leftarrow> Put e t2 k (textOf ''200'');
     (_, _, e) \<leftarrow> EngCommit e t2;
     let res = step res ''t2-update'' (textOf ''T2 updated rc-balance to 200 and committed'') True NoDetail;
     (t3, e) \<leftarrow> EngBegin e ReadCommitted;
     (r, t3, e) \<leftarrow> EngGet e t3 k;
     (_, _, e) \<leftarrow> EngCommit e t3;
     let ok = (r = Inr (textOf ''200''));
     let res = step res ''read-after-commit'' (textOf ''new reader sees updated value: '' @ valOf r) ok NoDetail;
     Some (setStat res ''final_value'' (StatStr (valOf r)), e) }"

definition scenarioSnapshotIso :: "StorageEngine \<Rightarrow> (ScenarioResult \<times> StorageEngine) option" where
  "scenarioSnapshotIso e = do {
     let res = newResult ''snapshot-iso'';
     let k = textOf ''si-x'';
     (setup, e) \<leftarrow> EngBegin e SnapshotIsolation;
     (_, setup, e) \<leftarrow> Put e setup k (textOf ''v1'');
     (_, _, e) \<leftarrow> EngCommit e setup;
     let res = step res ''setup'' (textOf ''inserted si-x=v1'') True NoDetail;
     (siTxn, e) \<leftarrow> EngBegin e SnapshotIsolation;
     (r1, siTxn, e) \<leftarrow> EngGet e siTxn k;
     let res = step res ''si-first-read'' (textOf ''SI first read: '' @ valOf r1) (valOf r1 = textOf ''v1'') NoDetail;
     (upd, e) \<leftarrow> EngBegin e SnapshotIsolation;
     (_, upd, e) \<leftarrow> Put e upd k (textOf ''v2'');
     (_, _, e) \<leftarrow> EngCommit e upd;
     let res = step res ''concurrent-update'' (textOf ''concurrent txn updated si-x to v2 and committed'') True NoDetail;
     (r2, siTxn, e) \<leftarrow> EngGet e siTxn k;
     let repeatable = (valOf r2 = textOf ''v1'');
     let res = step res ''si-second-read''
       (textOf ''SI second read: '' @ valOf r2 @ textOf ('' (repeatable='' @ (if repeatable then ''true'' else ''false'') @ '')''))
       repeatable (DetailText ''snapshot isolation provides repeatable reads'');
     (_, _, e) \<leftarrow> EngCommit e siTxn;
     Some (setStat res ''repeatable_read'' (StatBool repeatable), e) }"

definition scenarioWriteSkew :: "StorageEngine \<Rightarrow> (ScenarioResult \<times> StorageEngine) option" where
  "scenarioWriteSkew e = do {
     let res = newResult ''write-skew'';
     (setup, e) \<leftarrow> EngBegin e SnapshotIsolation;
     (_, setup, e) \<leftarrow> Put e setup (textOf ''ws-alice'') (textOf ''true'');
     (_, setup, e) \<leftarrow> Put e setup (textOf ''ws-bob'') (textOf ''true'');
     (_, _, e) \<leftarrow> EngCommit e setup;
     let res = step res ''setup'' (textOf ''both alice and bob are on-call'') True NoDetail;
     (t1, e) \<leftarrow> EngBegin e SnapshotIsolation;
     (t2, e) \<leftarrow> EngBegin e SnapshotIsolation;
     let res = step res ''concurrent-reads'' (textOf ''T1 and T2 both see two doctors on-call'') True NoDetail;
     (_, t1, e) \<leftarrow> Put e t1 (textOf ''ws-alice'') (textOf ''false'');
     (_, _, e) \<leftarrow> EngCommit e t1;
     let res = step res ''t1-commit'' (textOf ''T1 clocked out alice and committed (no conflict)'') True NoDetail;
     (_, t2, e) \<leftarrow> Put e t2 (textOf ''ws-bob'') (textOf ''false'');
     (_, _, e) \<leftarrow> EngCommit e t2;
     let res = step res ''t2-commit'' (textOf ''T2 clocked out bob and committed (no write-write conflict with T1)'') True NoDetail;
     (t3, e) \<leftarrow> EngBegin e SnapshotIsolation;
     (alice, t3, e) \<leftarrow> EngGet e t3 (textOf ''ws-alice'');
     (bob, t3, e) \<leftarrow> EngGet e t3 (textOf ''ws-bob'');
     (_, _, e) \<leftarrow> EngCommit e t3;
     let bothOut = (valOf alice = textOf ''false'' \<and> valOf bob = textOf ''false'');
     let res = step res ''write-skew-detected''
       (textOf ''WRITE SKEW: alice='' @ valOf alice @ textOf '' bob='' @ valOf bob @ textOf '' '' @ emDash @ textOf '' invariant violated!'')
       bothOut (DetailText ''SI allows this because T1 and T2 modified disjoint keys'');
     let res = setStat res ''write_skew_occurred'' (StatBool bothOut);
     Some (setStat (setStat res ''alice_on_call'' (StatStr (valOf alice))) ''bob_on_call'' (StatStr (valOf bob)), e) }"

definition scenarioCrashRecovery :: "StorageEngine \<Rightarrow> (ScenarioResult \<times> StorageEngine) option" where
  "scenarioCrashRecovery e = do {
     let res = newResult ''crash-recovery'';
     let kv = (\<lambda>i. (key4 ''cr'' i, key4 ''v'' i));
     (committed, e) \<leftarrow> EngBegin e SnapshotIsolation;
     (committed, e) \<leftarrow> putAll e committed kv [0..<300];
     (_, _, e) \<leftarrow> EngCommit e committed;
     let res = step res ''committed-300'' (textOf ''committed 300 keys'') True NoDetail;
     (read, e) \<leftarrow> EngBegin e SnapshotIsolation;
     (found, read, e) \<leftarrow> countReads e read kv [0..<300];
     (_, _, e) \<leftarrow> EngCommit e read;
     let res = step res ''verify-committed'' (textOf (decimal found @ ''/300 committed keys readable'')) (found = 300) NoDetail;
     Some (setStat (setStat res ''committed'' (StatInt 300)) ''readable'' (StatInt found), e) }"

subsection \<open>Concurrent transactions and vacuum\<close>

fun beginAll :: "StorageEngine \<Rightarrow> nat \<Rightarrow> (Transaction list \<times> StorageEngine) option" where
  "beginAll e 0 = Some ([], e)"
| "beginAll e (Suc n) = do {
     (txn, e) \<leftarrow> EngBegin e SnapshotIsolation;
     (txns, e) \<leftarrow> beginAll e n;
     Some (txn # txns, e) }"

definition ctKey :: "nat \<Rightarrow> nat \<Rightarrow> bytes" where
  "ctKey i j = textOf (''ct-t'' @ decimal i @ ''-k'' @ decimal j)"

definition ctValue :: "nat \<Rightarrow> nat \<Rightarrow> bytes" where
  "ctValue i j = textOf (''v'' @ decimal i @ ''-'' @ decimal j)"

text \<open>The loops over the transactions; \<open>i\<close> is the index of the first one of the rest.\<close>

fun writeOwn :: "StorageEngine \<Rightarrow> nat \<Rightarrow> Transaction list \<Rightarrow> (Transaction list \<times> StorageEngine) option" where
  "writeOwn e i [] = Some ([], e)"
| "writeOwn e i (txn # txns) = do {
     (txn, e) \<leftarrow> putAll e txn (\<lambda>j. (ctKey i j, ctValue i j)) [0..<10];
     (txns, e) \<leftarrow> writeOwn e (i + 1) txns;
     Some (txn # txns, e) }"

fun readOther :: "StorageEngine \<Rightarrow> Transaction \<Rightarrow> nat \<Rightarrow> nat list \<Rightarrow> (nat \<times> Transaction \<times> StorageEngine) option" where
  "readOther e txn other [] = Some (0, txn, e)"
| "readOther e txn other (j # js) = do {
     (r, txn, e) \<leftarrow> EngGet e txn (ctKey other j);
     (n, txn, e) \<leftarrow> readOther e txn other js;
     Some (if errOf r = None then n + 1 else n, txn, e) }"

fun readOthers :: "StorageEngine \<Rightarrow> nat \<Rightarrow> Transaction list \<Rightarrow> (nat \<times> Transaction list \<times> StorageEngine) option" where
  "readOthers e i [] = Some (0, [], e)"
| "readOthers e i (txn # txns) = do {
     (n, txn, e) \<leftarrow> readOther e txn ((i + 1) mod 10) [0..<10];
     (m, txns, e) \<leftarrow> readOthers e (i + 1) txns;
     Some (n + m, txn # txns, e) }"

fun commitAll :: "StorageEngine \<Rightarrow> Transaction list \<Rightarrow> StorageEngine option" where
  "commitAll e [] = Some e"
| "commitAll e (txn # txns) = do {
     (_, _, e) \<leftarrow> EngCommit e txn;
     commitAll e txns }"

definition scenarioConcurrentTxns :: "StorageEngine \<Rightarrow> (ScenarioResult \<times> StorageEngine) option" where
  "scenarioConcurrentTxns e = do {
     let res = newResult ''concurrent-txns'';
     (txns, e) \<leftarrow> beginAll e 10;
     let res = step res ''begin-10-txns'' (textOf ''started 10 concurrent transactions'') True NoDetail;
     (txns, e) \<leftarrow> writeOwn e 0 txns;
     let res = step res ''write-100-keys'' (textOf ''each txn wrote 10 keys (100 total, no dirty reads possible)'') True NoDetail;
     (dirtyReads, txns, e) \<leftarrow> readOthers e 0 txns;
     let res = step res ''no-dirty-reads'' (textOf (''dirty reads detected: '' @ decimal dirtyReads)) (dirtyReads = 0) NoDetail;
     e \<leftarrow> commitAll e txns;
     let res = step res ''commit-all'' (textOf ''all 10 transactions committed'') True NoDetail;
     Some (setStat (setStat res ''txn_count'' (StatInt 10)) ''dirty_reads'' (StatInt dirtyReads), e) }"

fun updateRounds :: "StorageEngine \<Rightarrow> nat list \<Rightarrow> StorageEngine option" where
  "updateRounds e [] = Some e"
| "updateRounds e (i # is) = do {
     (upd, e) \<leftarrow> EngBegin e SnapshotIsolation;
     (upd, e) \<leftarrow> putAll e upd (\<lambda>j. (key4 ''vac'' j, textOf (''v'' @ decimal i))) [0..<1000];
     (_, _, e) \<leftarrow> EngCommit e upd;
     updateRounds e is }"

text \<open>The loop over the cursor, which ends at the end of the scan only.\<close>

partial_function (option) countLive ::
  "StorageEngine \<Rightarrow> Transaction \<Rightarrow> BTreeCursor \<Rightarrow> nat \<Rightarrow> (nat \<times> BTreeCursor \<times> StorageEngine) option" where
  "countLive e txn c n = do {
     (r, c, t) \<leftarrow> CursorNext (tree e) txn c;
     let e = e\<lparr>tree := t\<rparr>;
     (case r of
        Inl err \<Rightarrow> if err = ErrEOF then Some (n, c, e) else countLive e txn c n
      | Inr _ \<Rightarrow> countLive e txn c (n + 1)) }"

definition scenarioVacuum :: "StorageEngine \<Rightarrow> (ScenarioResult \<times> StorageEngine) option" where
  "scenarioVacuum e = do {
     let res = newResult ''vacuum'';
     (ins, e) \<leftarrow> EngBegin e SnapshotIsolation;
     (ins, e) \<leftarrow> putAll e ins (\<lambda>i. (key4 ''vac'' i, textOf ''initial'')) [0..<1000];
     (_, _, e) \<leftarrow> EngCommit e ins;
     let res = step res ''insert-1000'' (textOf ''inserted 1000 keys'') True NoDetail;
     e \<leftarrow> updateRounds e [0..<10];
     let res = step res ''update-10000'' (textOf ''performed 10 rounds of 1000 updates (10000 dead versions created)'') True NoDetail;
     (read, e) \<leftarrow> EngBegin e SnapshotIsolation;
     (cursor, read, e) \<leftarrow> EngScan e read [] NilSlice;
     (count, e) \<leftarrow>
       (case cursor of
          Inl _ \<Rightarrow> Some (0, e)
        | Inr c \<Rightarrow> do {
            (count, c, e) \<leftarrow> countLive e read c 0;
            Some (count, e\<lparr>tree := snd (CursorClose (tree e) c)\<rparr>) });
     (_, _, e) \<leftarrow> EngCommit e read;
     let res = step res ''count-live'' (textOf (''live (visible) keys: '' @ decimal count)) True NoDetail;
     Some (setStat (setStat res ''live_keys'' (StatInt count)) ''dead_versions_created'' (StatInt 10000), e) }"

definition scenarios :: "(string \<times> (StorageEngine \<Rightarrow> (ScenarioResult \<times> StorageEngine) option)) list" where
  "scenarios = [(''insert-and-search'', scenarioInsertAndSearch), (''split-visual'', scenarioSplitVisual),
     (''mvcc-basic'', scenarioMVCCBasic), (''read-committed'', scenarioReadCommitted), (''snapshot-iso'', scenarioSnapshotIso),
     (''write-skew'', scenarioWriteSkew), (''crash-recovery'', scenarioCrashRecovery),
     (''concurrent-txns'', scenarioConcurrentTxns), (''vacuum'', scenarioVacuum)]"

text \<open>\<^term>\<open>Inl\<close> is the error for a name that is no scenario.\<close>

definition RunScenario :: "string \<Rightarrow> StorageEngine \<Rightarrow> ((string, ScenarioResult) result \<times> StorageEngine) option" where
  "RunScenario name e =
     (case map_of scenarios name of
        None \<Rightarrow> Some (Inl name, e)
      | Some fn \<Rightarrow> do { (res, e) \<leftarrow> fn e; Some (Inr res, e) })"

lemma scenarios_listed: "map fst scenarios = ScenarioNames"
  by (simp add: scenarios_def ScenarioNames_def)

end
