(* ===== verification/Events.thy ===== *)
theory Events
  imports Prelude Complex_Main "HOL-Library.Multiset"
begin

text \<open>
  The event bus (\<^verbatim>\<open>internal/events/bus.go\<close>) and the metrics collector that listens on it
  (\<^verbatim>\<open>internal/metrics/collector.go\<close>). A handler is a value of a type parameter; a published event is the list of
  handlers that are started, each in a goroutine of its own, so they run in any order. The
  collector is modelled by the calls it makes on the metrics of the Prometheus library. An
  unsubscribe function is the pair of the list it was made for (\<^term>\<open>None\<close> for the list of the global
  subscribers) and the index it has captured.
\<close>

section \<open>Definitions\<close>

datatype EventType =
    EvtPageRead | EvtPageWrite | EvtPageEvict | EvtPageDirty | EvtPageSplit | EvtPageMerge
  | EvtPageAlloc | EvtPageFree | EvtPageCompact
  | EvtTreeInsert | EvtTreeSearch | EvtTreeDelete | EvtTreeSplit | EvtTreeMerge
  | EvtTxnBegin | EvtTxnCommit | EvtTxnAbort | EvtTupleInsert | EvtTupleDelete | EvtTupleVisible
  | EvtTupleHidden | EvtSnapshotTaken | EvtWriteSkew
  | EvtWALAppend | EvtWALFlush | EvtWALCheckpoint | EvtWALRotated | EvtWALTruncated
  | EvtRecoveryStart | EvtRecoveryAnalysis | EvtRecoveryRedo | EvtRecoveryUndo | EvtRecoveryDone
  | EvtBufferHit | EvtBufferMiss
  | EvtVacuumStart | EvtVacuumTuple | EvtVacuumPage | EvtVacuumDone
  | EvtAuthFailure | EvtWriteConflict | EvtCheckpointDone | EvtDeadlock

text \<open>The text of an event type, which is its value in the source.\<close>

definition eventName :: "EventType \<Rightarrow> string" where
  "eventName t =
     (case t of
        EvtPageRead \<Rightarrow> ''page_read''
      | EvtPageWrite \<Rightarrow> ''page_write''
      | EvtPageEvict \<Rightarrow> ''page_evict''
      | EvtPageDirty \<Rightarrow> ''page_dirty''
      | EvtPageSplit \<Rightarrow> ''page_split''
      | EvtPageMerge \<Rightarrow> ''page_merge''
      | EvtPageAlloc \<Rightarrow> ''page_alloc''
      | EvtPageFree \<Rightarrow> ''page_free''
      | EvtPageCompact \<Rightarrow> ''page_compact''
      | EvtTreeInsert \<Rightarrow> ''tree_insert''
      | EvtTreeSearch \<Rightarrow> ''tree_search''
      | EvtTreeDelete \<Rightarrow> ''tree_delete''
      | EvtTreeSplit \<Rightarrow> ''tree_split''
      | EvtTreeMerge \<Rightarrow> ''tree_merge''
      | EvtTxnBegin \<Rightarrow> ''txn_begin''
      | EvtTxnCommit \<Rightarrow> ''txn_commit''
      | EvtTxnAbort \<Rightarrow> ''txn_abort''
      | EvtTupleInsert \<Rightarrow> ''tuple_insert''
      | EvtTupleDelete \<Rightarrow> ''tuple_delete''
      | EvtTupleVisible \<Rightarrow> ''tuple_visible''
      | EvtTupleHidden \<Rightarrow> ''tuple_hidden''
      | EvtSnapshotTaken \<Rightarrow> ''snapshot_taken''
      | EvtWriteSkew \<Rightarrow> ''write_skew''
      | EvtWALAppend \<Rightarrow> ''wal_append''
      | EvtWALFlush \<Rightarrow> ''wal_flush''
      | EvtWALCheckpoint \<Rightarrow> ''wal_checkpoint''
      | EvtWALRotated \<Rightarrow> ''wal_rotated''
      | EvtWALTruncated \<Rightarrow> ''wal_truncated''
      | EvtRecoveryStart \<Rightarrow> ''recovery_start''
      | EvtRecoveryAnalysis \<Rightarrow> ''recovery_analysis''
      | EvtRecoveryRedo \<Rightarrow> ''recovery_redo''
      | EvtRecoveryUndo \<Rightarrow> ''recovery_undo''
      | EvtRecoveryDone \<Rightarrow> ''recovery_done''
      | EvtBufferHit \<Rightarrow> ''buffer_hit''
      | EvtBufferMiss \<Rightarrow> ''buffer_miss''
      | EvtVacuumStart \<Rightarrow> ''vacuum_start''
      | EvtVacuumTuple \<Rightarrow> ''vacuum_tuple''
      | EvtVacuumPage \<Rightarrow> ''vacuum_page''
      | EvtVacuumDone \<Rightarrow> ''vacuum_done''
      | EvtAuthFailure \<Rightarrow> ''auth_failure''
      | EvtWriteConflict \<Rightarrow> ''write_conflict''
      | EvtCheckpointDone \<Rightarrow> ''checkpoint_done''
      | EvtDeadlock \<Rightarrow> ''deadlock_detected'')"

text \<open>The values of the \<open>interface{}\<close> map of an event, by their dynamic type.\<close>

datatype anyval = AnyInt int | AnyInt64 int | AnyUint64 u64 | AnyUint32 u32 | AnyString string | AnyBool bool

record Event =
  evType :: EventType
  evExtra :: "string \<rightharpoonup> anyval"

record 'h EventBus =
  subscribers :: "EventType \<Rightarrow> 'h option list"
  global :: "'h option list"

type_synonym Unsub = "EventType option \<times> nat"

definition NewEventBus :: "'h EventBus" where
  "NewEventBus = \<lparr>subscribers = (\<lambda>_. []), global = []\<rparr>"

definition Subscribe :: "'h EventBus \<Rightarrow> EventType \<Rightarrow> 'h \<Rightarrow> Unsub \<times> 'h EventBus" where
  "Subscribe b t h =
     (let b = b\<lparr>subscribers := (subscribers b)(t := subscribers b t @ [Some h])\<rparr>;
          idx = length (subscribers b t) - 1
      in ((Some t, idx), b))"

definition SubscribeAll :: "'h EventBus \<Rightarrow> 'h \<Rightarrow> Unsub \<times> 'h EventBus" where
  "SubscribeAll b h =
     (let b = b\<lparr>global := global b @ [Some h]\<rparr>;
          idx = length (global b) - 1
      in ((None, idx), b))"

definition unsubscribe :: "'h EventBus \<Rightarrow> Unsub \<Rightarrow> 'h EventBus" where
  "unsubscribe b u =
     (case u of
        (Some t, idx) \<Rightarrow>
          if idx < length (subscribers b t)
          then b\<lparr>subscribers := (subscribers b)(t := (subscribers b t)[idx := None])\<rparr> else b
      | (None, idx) \<Rightarrow> if idx < length (global b) then b\<lparr>global := (global b)[idx := None]\<rparr> else b)"

definition liveHandlers :: "'h option list \<Rightarrow> 'h list" where
  "liveHandlers hs = map the (filter (\<lambda>h. h \<noteq> None) hs)"

definition Publish :: "'h EventBus \<Rightarrow> Event \<Rightarrow> 'h list" where
  "Publish b evt = liveHandlers (subscribers b (evType evt)) @ liveHandlers (global b)"

subsection \<open>Metrics\<close>

datatype metric =
    bufferHits | bufferMisses | bufferDirty | walFlushes | walFlushDuration | walCheckpoints
  | txnsBegun | txnsCommitted | txnsAborted | txnsActive | txnsWriteConflicts | treeSplits | treeMerges
  | vacuumRuns | vacuumDeadReclaimed | vacuumPagesCompacted | recoveryRedoRecords | recoveryUndoRecords
  | recoveryDuration | authFailures | deadlocksDetected

datatype metric_kind = CounterKind | GaugeKind | HistogramKind

definition metricOpts :: "metric \<Rightarrow> metric_kind \<times> string" where
  "metricOpts m =
     (case m of
        bufferHits \<Rightarrow> (CounterKind, ''btree_buffer_hits_total'')
      | bufferMisses \<Rightarrow> (CounterKind, ''btree_buffer_misses_total'')
      | bufferDirty \<Rightarrow> (GaugeKind, ''btree_buffer_dirty_pages'')
      | walFlushes \<Rightarrow> (CounterKind, ''btree_wal_flushes_total'')
      | walFlushDuration \<Rightarrow> (HistogramKind, ''btree_wal_flush_duration_seconds'')
      | walCheckpoints \<Rightarrow> (CounterKind, ''btree_wal_checkpoints_total'')
      | txnsBegun \<Rightarrow> (CounterKind, ''btree_txns_begun_total'')
      | txnsCommitted \<Rightarrow> (CounterKind, ''btree_txns_committed_total'')
      | txnsAborted \<Rightarrow> (CounterKind, ''btree_txns_aborted_total'')
      | txnsActive \<Rightarrow> (GaugeKind, ''btree_txns_active'')
      | txnsWriteConflicts \<Rightarrow> (CounterKind, ''btree_txns_write_conflicts_total'')
      | treeSplits \<Rightarrow> (CounterKind, ''btree_page_splits_total'')
      | treeMerges \<Rightarrow> (CounterKind, ''btree_page_merges_total'')
      | vacuumRuns \<Rightarrow> (CounterKind, ''btree_vacuum_runs_total'')
      | vacuumDeadReclaimed \<Rightarrow> (CounterKind, ''btree_vacuum_dead_tuples_reclaimed_total'')
      | vacuumPagesCompacted \<Rightarrow> (CounterKind, ''btree_vacuum_pages_compacted_total'')
      | recoveryRedoRecords \<Rightarrow> (CounterKind, ''btree_recovery_redo_records_total'')
      | recoveryUndoRecords \<Rightarrow> (CounterKind, ''btree_recovery_undo_records_total'')
      | recoveryDuration \<Rightarrow> (HistogramKind, ''btree_recovery_duration_seconds'')
      | authFailures \<Rightarrow> (CounterKind, ''btree_auth_failures_total'')
      | deadlocksDetected \<Rightarrow> (CounterKind, ''btree_deadlocks_detected_total''))"

definition walFlushBuckets :: "rat list" where
  "walFlushBuckets = [1/10000, 5/10000, 1/1000, 5/1000, 1/100, 5/100, 1/10, 5/10, 1]"

definition recoveryBuckets :: "rat list" where
  "recoveryBuckets = [1/100, 1/10, 1, 10, 60, 300]"

text \<open>\<open>MustRegister\<close> panics when two metrics have the same name.\<close>

definition collectorMetrics :: "metric list" where
  "collectorMetrics = [bufferHits, bufferMisses, bufferDirty, walFlushes, walFlushDuration, walCheckpoints, txnsBegun, txnsCommitted, txnsAborted, txnsActive, txnsWriteConflicts, treeSplits, treeMerges, vacuumRuns, vacuumDeadReclaimed, vacuumPagesCompacted, recoveryRedoRecords, recoveryUndoRecords, recoveryDuration, authFailures, deadlocksDetected]"

definition NewCollector :: "metric list option" where
  "NewCollector = (if distinct (map (snd \<circ> metricOpts) collectorMetrics) then Some collectorMetrics else None)"

datatype metric_call = Inc metric | Dec metric | Add metric rat | Observe metric rat

definition addInt :: "Event \<Rightarrow> string \<Rightarrow> metric \<Rightarrow> metric_call list" where
  "addInt e field m = (case evExtra e field of Some (AnyInt n) \<Rightarrow> [Add m (of_int n)] | _ \<Rightarrow> [])"

definition addCount :: "Event \<Rightarrow> metric \<Rightarrow> metric_call list" where
  "addCount e m = (case evExtra e ''count'' of Some (AnyInt n) \<Rightarrow> [Add m (of_int n)] | _ \<Rightarrow> [Inc m])"

definition observeDuration :: "Event \<Rightarrow> metric \<Rightarrow> metric_call list" where
  "observeDuration e m =
     (case evExtra e ''duration_ns'' of Some (AnyInt64 dur) \<Rightarrow> [Observe m (of_int dur / 1000000000)] | _ \<Rightarrow> [])"

text \<open>The handler that \<open>Collector.Subscribe\<close> registers.\<close>

definition collect :: "Event \<Rightarrow> metric_call list" where
  "collect e =
     (case evType e of
        EvtBufferHit \<Rightarrow> [Inc bufferHits]
      | EvtBufferMiss \<Rightarrow> [Inc bufferMisses]
      | EvtPageDirty \<Rightarrow> [Inc bufferDirty]
      | EvtWALFlush \<Rightarrow> Inc walFlushes # observeDuration e walFlushDuration
      | EvtWALCheckpoint \<Rightarrow> [Inc walCheckpoints]
      | EvtTxnBegin \<Rightarrow> [Inc txnsBegun, Inc txnsActive]
      | EvtTxnCommit \<Rightarrow> [Inc txnsCommitted, Dec txnsActive]
      | EvtTxnAbort \<Rightarrow> [Inc txnsAborted, Dec txnsActive]
      | EvtWriteConflict \<Rightarrow> [Inc txnsWriteConflicts]
      | EvtPageSplit \<Rightarrow> [Inc treeSplits]
      | EvtTreeSplit \<Rightarrow> [Inc treeSplits]
      | EvtPageMerge \<Rightarrow> [Inc treeMerges]
      | EvtTreeMerge \<Rightarrow> [Inc treeMerges]
      | EvtVacuumDone \<Rightarrow> Inc vacuumRuns # addInt e ''dead_removed'' vacuumDeadReclaimed @
                          addInt e ''pages_compacted'' vacuumPagesCompacted
      | EvtRecoveryRedo \<Rightarrow> addCount e recoveryRedoRecords
      | EvtRecoveryUndo \<Rightarrow> addCount e recoveryUndoRecords
      | EvtRecoveryDone \<Rightarrow> observeDuration e recoveryDuration
      | EvtAuthFailure \<Rightarrow> [Inc authFailures]
      | EvtDeadlock \<Rightarrow> [Inc deadlocksDetected]
      | _ \<Rightarrow> [])"

record 'h Collector =
  cUnsubscribe :: "Unsub option"
  cHandler :: 'h

text \<open>
  \<open>Collector.Subscribe\<close>: \<open>old\<close> is the bus of the current subscription, \<open>new\<close> the one to listen on; either
  may be missing.
\<close>

definition CollectorSubscribe ::
  "'h Collector \<Rightarrow> 'h EventBus \<Rightarrow> 'h EventBus option \<Rightarrow> 'h Collector \<times> 'h EventBus \<times> 'h EventBus option" where
  "CollectorSubscribe c old new =
     (let (c, old) = (case cUnsubscribe c of
                        None \<Rightarrow> (c, old)
                      | Some u \<Rightarrow> (c\<lparr>cUnsubscribe := None\<rparr>, unsubscribe old u))
      in case new of
           None \<Rightarrow> (c, old, None)
         | Some bus \<Rightarrow>
             let (u, bus) = SubscribeAll bus (cHandler c)
             in (c\<lparr>cUnsubscribe := Some u\<rparr>, old, Some bus))"

section \<open>Delivery\<close>

text \<open>
  The specification: the bus is the list of all subscriptions ever made, each with the type it asks for
  (\<^term>\<open>None\<close> for all), its handler and whether it is still in force.
\<close>

type_synonym 'h subscription = "EventType option \<times> 'h \<times> bool"

datatype 'h bus_op = OnType EventType 'h | OnAll 'h | Cancel nat

text \<open>\<open>Cancel k\<close> calls the function that the \<open>k\<close>th subscription returned.\<close>

fun bus_step :: "'h bus_op \<Rightarrow> 'h EventBus \<times> Unsub list \<Rightarrow> 'h EventBus \<times> Unsub list" where
  "bus_step (OnType t h) (b, us) = (let (u, b) = Subscribe b t h in (b, us @ [u]))"
| "bus_step (OnAll h) (b, us) = (let (u, b) = SubscribeAll b h in (b, us @ [u]))"
| "bus_step (Cancel k) (b, us) = (if k < length us then unsubscribe b (us ! k) else b, us)"

fun spec_step :: "'h bus_op \<Rightarrow> 'h subscription list \<Rightarrow> 'h subscription list" where
  "spec_step (OnType t h) A = A @ [(Some t, h, True)]"
| "spec_step (OnAll h) A = A @ [(None, h, True)]"
| "spec_step (Cancel k) A = (if k < length A then A[k := (fst (A ! k), fst (snd (A ! k)), False)] else A)"

definition in_force :: "EventType option \<Rightarrow> 'h subscription list \<Rightarrow> 'h list" where
  "in_force c A = map (fst \<circ> snd) (filter (\<lambda>a. fst a = c \<and> snd (snd a)) A)"

text \<open>The lists of the bus, by the subscriptions they hold.\<close>

definition chan :: "'h EventBus \<Rightarrow> EventType option \<Rightarrow> 'h option list" where
  "chan b c = (case c of None \<Rightarrow> global b | Some t \<Rightarrow> subscribers b t)"

definition slot_of :: "'h subscription \<Rightarrow> 'h option" where
  "slot_of a = (if snd (snd a) then Some (fst (snd a)) else None)"

definition nth_slot :: "'h subscription list \<Rightarrow> nat \<Rightarrow> Unsub" where
  "nth_slot A k = (fst (A ! k), length (filter (\<lambda>a. fst a = fst (A ! k)) (take k A)))"

definition bus_refines :: "'h EventBus \<times> Unsub list \<Rightarrow> 'h subscription list \<Rightarrow> bool" where
  "bus_refines s A \<longleftrightarrow> (\<forall>c. chan (fst s) c = map slot_of (filter (\<lambda>a. fst a = c) A)) \<and> snd s = map (nth_slot A) [0..<length A]"

lemma chan_unsubscribe:
  "chan (unsubscribe b (c', i)) c = (if c = c' \<and> i < length (chan b c) then (chan b c)[i := None] else chan b c)"
  by (auto simp: chan_def unsubscribe_def split: option.splits)

lemma chan_Subscribe: "chan (snd (Subscribe b t h)) c = chan b c @ (if c = Some t then [Some h] else [])"
  and chan_SubscribeAll: "chan (snd (SubscribeAll b h)) c = chan b c @ (if c = None then [Some h] else [])"
  by (auto simp: chan_def Subscribe_def SubscribeAll_def Let_def split: option.splits)

lemma filter_update:
  assumes "k < length A" and "P x = P (A ! k)"
  shows "filter P (A[k := x]) = (if P (A ! k) then (filter P A)[length (filter P (take k A)) := x] else filter P A)"
proof -
  have A: "A = take k A @ A ! k # drop (Suc k) A" by (rule id_take_nth_drop [OF assms(1)])
  have "A[k := x] = take k A @ x # drop (Suc k) A" by (rule upd_conv_take_nth_drop [OF assms(1)])
  then have l: "filter P (A[k := x]) = filter P (take k A) @ (if P x then [x] else []) @ filter P (drop (Suc k) A)" by simp
  have "filter P A = filter P (take k A) @ (if P (A ! k) then [A ! k] else []) @ filter P (drop (Suc k) A)"
    by (subst A) simp
  with l assms(2) show ?thesis by auto
qed

lemma nth_slot_append: "k < length A \<Longrightarrow> nth_slot (A @ [a]) k = nth_slot A k"
  and nth_slot_update: "k < length A \<Longrightarrow> j < length A \<Longrightarrow> fst x = fst (A ! k) \<Longrightarrow> nth_slot (A[k := x]) j = nth_slot A j"
proof -
  show "nth_slot (A @ [a]) k = nth_slot A k" if "k < length A" using that by (simp add: nth_slot_def nth_append)
  assume k: "k < length A" "j < length A" "fst x = fst (A ! k)"
  then have f: "fst (A[k := x] ! j) = fst (A ! j)" by (cases "j = k") simp_all
  have "length (filter (\<lambda>a. fst a = c) (take j (A[k := x]))) = length (filter (\<lambda>a. fst a = c) (take j A))" for c
  proof (cases "k < j")
    case True
    with k have "length (filter (\<lambda>a. fst a = c) ((take j A)[k := x])) = length (filter (\<lambda>a. fst a = c) (take j A))"
      by (subst filter_update) auto
    then show ?thesis by (simp add: take_update_swap)
  qed simp
  with f show "nth_slot (A[k := x]) j = nth_slot A j" by (simp add: nth_slot_def)
qed

lemma bus_step_refines:
  assumes "bus_refines s A"
  shows "bus_refines (bus_step op s) (spec_step op A)"
proof -
  obtain b us where s: "s = (b, us)" by (cases s)
  have C: "chan b c = map slot_of (filter (\<lambda>a. fst a = c) A)" and U: "us = map (nth_slot A) [0..<length A]" for c
    using assms by (simp_all add: bus_refines_def s)
  have grow: "map (nth_slot (A @ [a])) [0..<length A] = us" for a by (simp add: U nth_slot_append)
  show ?thesis
  proof (cases op)
    case (OnType t h)
    have "fst (Subscribe b t h) = nth_slot (A @ [(Some t, h, True)]) (length A)"
      using arg_cong [OF C [of "Some t"], of length] by (simp add: Subscribe_def Let_def nth_slot_def chan_def)
    with grow C chan_Subscribe [of b t h] OnType show ?thesis
      by (simp add: s bus_refines_def split_beta slot_of_def)
  next
    case (OnAll h)
    have "fst (SubscribeAll b h) = nth_slot (A @ [(None, h, True)]) (length A)"
      using arg_cong [OF C [of None], of length] by (simp add: SubscribeAll_def Let_def nth_slot_def chan_def)
    with grow C chan_SubscribeAll [of b h] OnAll show ?thesis
      by (simp add: s bus_refines_def split_beta slot_of_def)
  next
    case (Cancel k)
    show ?thesis
    proof (cases "k < length A")
      case True
      let ?x = "(fst (A ! k), fst (snd (A ! k)), False)"
      have "map (nth_slot (A[k := ?x])) [0..<length A] = us" using True by (simp add: U nth_slot_update)
      moreover have "chan (unsubscribe b (nth_slot A k)) c = map slot_of (filter (\<lambda>a. fst a = c) (A[k := ?x]))" for c
      proof (cases "c = fst (A ! k)")
        case c: True
        have "length (filter (\<lambda>a. fst a = c) (take k A)) < length (filter (\<lambda>a. fst a = c) A)"
          using True c by (subst (2) id_take_nth_drop [OF True]) simp
        with True c show ?thesis
          by (simp add: nth_slot_def chan_unsubscribe C filter_update map_update slot_of_def [of ?x, simplified])
      next
        case False
        with True show ?thesis by (simp add: nth_slot_def chan_unsubscribe C filter_update)
      qed
      ultimately show ?thesis using True by (simp add: Cancel s bus_refines_def U)
    next
      case False
      with assms Cancel show ?thesis by (simp add: s U)
    qed
  qed
qed

lemma liveHandlers_in_force: "liveHandlers (map slot_of (filter (\<lambda>a. fst a = c) A)) = in_force c A"
  by (induction A) (auto simp: liveHandlers_def in_force_def slot_of_def)

section \<open>Metrics\<close>

lemma NewCollector_returns: "NewCollector = Some collectorMetrics"
  by (simp add: NewCollector_def collectorMetrics_def metricOpts_def)

lemma collector_complete: "m \<in> set collectorMetrics"
  by (cases m) (simp_all add: collectorMetrics_def)

text \<open>The value of a counter or gauge after a sequence of calls.\<close>

fun call_value :: "metric \<Rightarrow> metric_call \<Rightarrow> rat" where
  "call_value m (Inc m') = (if m' = m then 1 else 0)"
| "call_value m (Dec m') = (if m' = m then -1 else 0)"
| "call_value m (Add m' v) = (if m' = m then v else 0)"
| "call_value m (Observe m' v) = 0"

definition metric_value :: "metric \<Rightarrow> metric_call list \<Rightarrow> rat" where
  "metric_value m cs = sum_list (map (call_value m) cs)"

definition number :: "EventType \<Rightarrow> Event list \<Rightarrow> rat" where
  "number t evs = of_nat (length (filter (\<lambda>e. evType e = t) evs))"

lemma metric_value_perm: "mset cs = mset cs' \<Longrightarrow> metric_value m cs = metric_value m cs'"
  unfolding metric_value_def by (metis mset_map sum_mset_sum_list)

lemma metric_value_simps:
  "metric_value m [] = 0" "metric_value m (c # cs) = call_value m c + metric_value m cs"
  "metric_value m (cs @ ds) = metric_value m cs + metric_value m ds"
  by (simp_all add: metric_value_def)

lemma number_simps: "number t [] = 0" "number t (e # evs) = (if evType e = t then 1 else 0) + number t evs"
  by (simp_all add: number_def)

lemma metric_value_other:
  "m \<noteq> m' \<Longrightarrow> metric_value m (addInt e field m') = 0" "m \<noteq> m' \<Longrightarrow> metric_value m (addCount e m') = 0"
  "metric_value m (observeDuration e m') = 0"
  by (simp_all add: addInt_def addCount_def observeDuration_def metric_value_simps split: option.split anyval.split)

text \<open>The calls of the handlers may interleave in any way: \<open>cs\<close> is any order of them.\<close>

lemma transaction_metrics:
  assumes "mset cs = mset (concat (map collect evs))"
  shows "metric_value txnsBegun cs = number EvtTxnBegin evs" and "metric_value txnsCommitted cs = number EvtTxnCommit evs"
    and "metric_value txnsAborted cs = number EvtTxnAbort evs"
    and "metric_value txnsActive cs = number EvtTxnBegin evs - number EvtTxnCommit evs - number EvtTxnAbort evs"
proof -
  note V = metric_value_simps metric_value_other number_simps
  have c: "metric_value m (collect e) = (if evType e = t then 1 else 0)"
    if "(m, t) \<in> {(txnsBegun, EvtTxnBegin), (txnsCommitted, EvtTxnCommit), (txnsAborted, EvtTxnAbort)}" for m t e
    using that by (cases "evType e") (auto simp: collect_def V)
  have a: "metric_value txnsActive (collect e) =
      (if evType e = EvtTxnBegin then 1 else if evType e \<in> {EvtTxnCommit, EvtTxnAbort} then -1 else 0)" for e
    by (cases "evType e") (simp_all add: collect_def V)
  have "metric_value txnsBegun (concat (map collect evs)) = number EvtTxnBegin evs"
    "metric_value txnsCommitted (concat (map collect evs)) = number EvtTxnCommit evs"
    "metric_value txnsAborted (concat (map collect evs)) = number EvtTxnAbort evs"
    "metric_value txnsActive (concat (map collect evs)) = number EvtTxnBegin evs - number EvtTxnCommit evs - number EvtTxnAbort evs"
    by (induction evs) (simp_all add: V c a)
  then show "metric_value txnsBegun cs = number EvtTxnBegin evs" "metric_value txnsCommitted cs = number EvtTxnCommit evs"
    "metric_value txnsAborted cs = number EvtTxnAbort evs"
    "metric_value txnsActive cs = number EvtTxnBegin evs - number EvtTxnCommit evs - number EvtTxnAbort evs"
    by (simp_all add: metric_value_perm [OF assms])
qed

section \<open>Properties\<close>

text \<open>
  C29. Events reach exactly the subscribers in force. After any history of subscriptions and
  cancellations (in any order, repeated ones included), \<open>Publish\<close> starts the handlers of the subscriptions
  to the type of the event that were not cancelled, then those of the global ones, each once and in the order of
  subscription; the index that an unsubscribe function captured stays the index of its own handler.
\<close>

theorem publish_exact:
  "Publish (fst (fold bus_step ops (NewEventBus, []))) evt =
     (let A = fold spec_step ops [] in in_force (Some (evType evt)) A @ in_force None A)"
proof -
  have "bus_refines (fold bus_step ops s) (fold spec_step ops A)" if "bus_refines s A" for s and A :: "'a subscription list"
    using that by (induction ops arbitrary: s A) (simp_all add: bus_step_refines)
  moreover have "bus_refines (NewEventBus, []) ([] :: 'a subscription list)"
    by (simp add: bus_refines_def chan_def NewEventBus_def split: option.split)
  ultimately have "bus_refines (fold bus_step ops (NewEventBus, [])) (fold spec_step ops ([] :: 'a subscription list))" by blast
  then have C: "chan (fst (fold bus_step ops (NewEventBus, []))) c = map slot_of (filter (\<lambda>a. fst a = c) (fold spec_step ops []))" for c
    by (simp add: bus_refines_def)
  from C [of None] C [of "Some (evType evt)"] show ?thesis
    by (simp add: Publish_def chan_def Let_def liveHandlers_in_force)
qed

end
