(* ===== verification/Http.thy ===== *)
theory Http
  imports Simulation Events
begin

text \<open>
  The parts of the gateway around its handlers: API keys (\<^verbatim>\<open>gateway/auth.go\<close>), the rate limiter
  (\<^verbatim>\<open>gateway/ratelimit.go\<close>) and the WebSocket hub (\<^verbatim>\<open>gateway/websocket.go\<close>), with what they use of the
  packages \<open>strings\<close> and \<open>strconv\<close>. A request holds what \<^verbatim>\<open>net/http\<close> and \<^verbatim>\<open>encoding/json\<close> read from the connection: the
  first value of each query parameter and header (\<open>[]\<close> when missing), and the fields that decoding the
  body leaves in the struct, with the error it reports. Strings are byte strings; white space and upper case are those of
  ASCII. Times are integers in nanoseconds, floats are rational numbers. Addresses are parsed by the package \<open>net\<close>,
  which is a parameter.
\<close>

section \<open>Definitions\<close>

subsection \<open>Strings\<close>

definition isSpace :: "char \<Rightarrow> bool" where
  "isSpace c \<longleftrightarrow> of_char c \<in> {9, 10, 11, 12, 13, 32 :: nat}"

definition TrimSpace :: "string \<Rightarrow> string" where
  "TrimSpace s = rev (dropWhile isSpace (rev (dropWhile isSpace s)))"

definition HasPrefix :: "string \<Rightarrow> string \<Rightarrow> bool" where
  "HasPrefix s pre \<longleftrightarrow> take (length pre) s = pre"

definition TrimPrefix :: "string \<Rightarrow> string \<Rightarrow> string" where
  "TrimPrefix s pre = (if HasPrefix s pre then drop (length pre) s else s)"

definition TrimSuffix :: "string \<Rightarrow> string \<Rightarrow> string" where
  "TrimSuffix s suf = (if HasPrefix (rev s) (rev suf) then take (length s - length suf) s else s)"

text \<open>\<open>strings.Split\<close> at a separator of one character.\<close>

fun SplitAt :: "string \<Rightarrow> char \<Rightarrow> string list" where
  "SplitAt [] sep = [[]]"
| "SplitAt (c # cs) sep =
     (if c = sep then [] # SplitAt cs sep
      else (case SplitAt cs sep of [] \<Rightarrow> [[c]] | p # ps \<Rightarrow> (c # p) # ps))"

definition toLower :: "char \<Rightarrow> char" where
  "toLower c = (let n = of_char c :: nat in if 65 \<le> n \<and> n \<le> 90 then char_of (n + 32) else c)"

definition ToLower :: "string \<Rightarrow> string" where
  "ToLower s = map toLower s"

definition isDigit :: "char \<Rightarrow> bool" where
  "isDigit c \<longleftrightarrow> 48 \<le> (of_char c :: nat) \<and> of_char c \<le> (57 :: nat)"

definition digitsVal :: "string \<Rightarrow> nat" where
  "digitsVal s = foldl (\<lambda>n c. 10 * n + (of_char c - 48)) 0 s"

text \<open>\<open>strconv.ParseUint(s, 10, bits)\<close> and \<open>strconv.Atoi\<close>; \<^term>\<open>None\<close> is a syntax or range error.\<close>

definition ParseUint :: "string \<Rightarrow> nat \<Rightarrow> nat option" where
  "ParseUint s bits =
     (if s = [] \<or> \<not> list_all isDigit s \<or> digitsVal s \<ge> 2 ^ bits then None else Some (digitsVal s))"

definition Atoi :: "string \<Rightarrow> int option" where
  "Atoi s =
     (let neg = HasPrefix s ''-'';
          ds = (if neg \<or> HasPrefix s ''+'' then tl s else s);
          n = int (digitsVal ds)
      in if ds = [] \<or> \<not> list_all isDigit ds then None
         else if neg then (if n > 2 ^ 63 then None else Some (- n))
         else if n \<ge> 2 ^ 63 then None else Some n)"

subsection \<open>Requests and responses\<close>

record Request =
  Method :: string
  Path :: string
  Query :: "string \<Rightarrow> string"
  Header :: "string \<Rightarrow> string"
  RemoteAddr :: string
  Host :: string
  Field :: "string \<Rightarrow> string"
  DecodeErr :: "string option"
  Now :: int

datatype ReplyBody =
    RError string
  | RErr error
  | RStatus string
  | RReady nat nat u64 rat
  | REngineStats EngineStats
  | RTxn u64 string
  | RValue string bytes
  | RScan "(bytes \<times> bytes) list"
  | RSavepoint string string
  | RTree "TreeNode option"
  | RPage PageContentsResult
  | RPageErr nat error
  | RVersions string "VersionInfo list"
  | RVisibility string u64 "VersionVisibilityInfo list"
  | RFrames "FrameInfo list"
  | RWAL "WALRecordInfo list"
  | RCheckpoint u64
  | RScenarioNames "string list"
  | RScenario ScenarioResult
  | RUnknownScenario string
  | RRedirect string
  | RPageNotFound

record Response =
  Status :: nat
  Body :: ReplyBody

definition writeJSON :: "nat \<Rightarrow> ReplyBody \<Rightarrow> Response" where
  "writeJSON status v = \<lparr>Status = status, Body = v\<rparr>"

definition writeError :: "nat \<Rightarrow> string \<Rightarrow> Response" where
  "writeError status msg = writeJSON status (RError msg)"

type_synonym 's handler = "'s \<Rightarrow> Request \<Rightarrow> (Response \<times> 's) option"

subsection \<open>API keys\<close>

type_synonym APIKeySet = "string list"

fun NewAPIKeySet :: "string list \<Rightarrow> APIKeySet" where
  "NewAPIKeySet [] = []"
| "NewAPIKeySet (k # ks) =
     (let k = TrimSpace k; m = NewAPIKeySet ks in if k \<noteq> [] then List.insert k m else m)"

definition bearerToken :: "Request \<Rightarrow> string" where
  "bearerToken r =
     (let v = Header r ''Authorization''
      in if \<not> HasPrefix v ''Bearer '' then [] else TrimPrefix v ''Bearer '')"

definition Valid :: "APIKeySet \<Rightarrow> string \<Rightarrow> bool" where
  "Valid s key = (if key = [] then False else foldl (\<lambda>ok k. if k = key then True else ok) False s)"

definition AuthMiddleware :: "APIKeySet \<Rightarrow> string list \<Rightarrow> 's handler \<Rightarrow> 's handler" where
  "AuthMiddleware keys exempt h s r =
     (if Path r \<in> set exempt then h s r
      else if \<not> Valid keys (bearerToken r) then Some (writeError 401 ''unauthorized'', s)
      else h s r)"

subsection \<open>Rate limiter\<close>

record ipBucket =
  tokens :: rat
  lastSeen :: int

record RateLimiter =
  buckets :: "(string \<times> ipBucket) list"
  rate :: rat
  burst :: rat

definition NewRateLimiter :: "rat \<Rightarrow> rat \<Rightarrow> RateLimiter" where
  "NewRateLimiter ratePerSec b = \<lparr>buckets = [], rate = ratePerSec, burst = b\<rparr>"

definition Allow :: "RateLimiter \<Rightarrow> int \<Rightarrow> string \<Rightarrow> bool \<times> RateLimiter" where
  "Allow rl now ip =
     (let b = (case map_of (buckets rl) ip of None \<Rightarrow> \<lparr>tokens = burst rl, lastSeen = now\<rparr> | Some b \<Rightarrow> b);
          elapsed = of_int (now - lastSeen b) / of_int Second;
          b = b\<lparr>tokens := tokens b + elapsed * rate rl\<rparr>;
          b = (if tokens b > burst rl then b\<lparr>tokens := burst rl\<rparr> else b);
          b = b\<lparr>lastSeen := now\<rparr>
      in if tokens b \<ge> 1
         then (True, rl\<lparr>buckets := AList.update ip (b\<lparr>tokens := tokens b - 1\<rparr>) (buckets rl)\<rparr>)
         else (False, rl\<lparr>buckets := AList.update ip b (buckets rl)\<rparr>))"

text \<open>One tick of the loop of \<open>cleanup\<close>.\<close>

definition cleanupTick :: "RateLimiter \<Rightarrow> int \<Rightarrow> RateLimiter" where
  "cleanupTick rl now =
     (let cutoff = now - 5 * 60 * Second
      in rl\<lparr>buckets := filter (\<lambda>(ip, b). \<not> lastSeen b < cutoff) (buckets rl)\<rparr>)"

text \<open>
  What the package \<open>net\<close> and \<open>net/url\<close> answer: the host of a host with a port, the canonical text of
  an IP address, whether an address is a loopback address, the host of a URL; \<^term>\<open>None\<close> is an error or nil.
\<close>

record NetLib =
  SplitHostPort :: "string \<Rightarrow> string option"
  ParseIP :: "string \<Rightarrow> string option"
  IsLoopback :: "string \<Rightarrow> bool"
  URLHost :: "string \<Rightarrow> string option"

definition normalizeIPCandidate :: "NetLib \<Rightarrow> string \<Rightarrow> string" where
  "normalizeIPCandidate net candidate =
     (let candidate = TrimSpace candidate
      in if candidate = [] then []
         else let candidate = (case SplitHostPort net candidate of Some host \<Rightarrow> host | None \<Rightarrow> candidate)
              in (case ParseIP net candidate of Some ip \<Rightarrow> ip | None \<Rightarrow> []))"

definition extractIP :: "NetLib \<Rightarrow> Request \<Rightarrow> string" where
  "extractIP net r =
     (let forwarded = Header r ''X-Forwarded-For'';
          ips = (if forwarded \<noteq> []
                 then filter (\<lambda>ip. ip \<noteq> []) (map (normalizeIPCandidate net) (SplitAt forwarded (CHR '',''))) else [])
      in case ips of
           ip # _ \<Rightarrow> ip
         | [] \<Rightarrow>
             let ip = normalizeIPCandidate net (Header r ''X-Real-IP'')
             in if ip \<noteq> [] then ip else normalizeIPCandidate net (RemoteAddr r))"

definition RateLimitMiddleware :: "NetLib \<Rightarrow> 's handler \<Rightarrow> (RateLimiter \<times> 's) handler" where
  "RateLimitMiddleware net h s r =
     (let (allowed, rl) = Allow (fst s) (Now r) (extractIP net r)
      in if \<not> allowed then Some (writeError 429 ''rate limit exceeded'', rl, snd s)
         else do { (resp, s') \<leftarrow> h (snd s) r; Some (resp, rl, s') })"

subsection \<open>WebSockets\<close>

text \<open>A client: its queue, the capacity of the queue, and whether the \<open>done\<close> channel is closed.\<close>

record wsClient =
  send :: "bytes list"
  sendCap :: nat
  wsDone :: bool

definition newClient :: "nat \<Rightarrow> wsClient" where
  "newClient n = \<lparr>send = [], sendCap = n, wsDone = False\<rparr>"

text \<open>The hub: its clients by their identity, and its subscription. A removed client is no longer in the table.\<close>

record wsHub =
  clients :: "(nat \<times> wsClient) list"
  unsub :: "Unsub option"

text \<open>\<open>h\<close> is the handler that broadcasts the event.\<close>

definition newWSHub :: "'h \<Rightarrow> 'h EventBus option \<Rightarrow> wsHub \<times> 'h EventBus option" where
  "newWSHub h bus =
     (case bus of
        None \<Rightarrow> (\<lparr>clients = [], unsub = None\<rparr>, None)
      | Some b \<Rightarrow> let (u, b) = SubscribeAll b h in (\<lparr>clients = [], unsub = Some u\<rparr>, Some b))"

text \<open>\<open>old\<close> is the bus of the current subscription. Without a new bus the old subscription stays in the field.\<close>

definition updateBus ::
  "'h \<Rightarrow> wsHub \<Rightarrow> 'h EventBus \<Rightarrow> 'h EventBus option \<Rightarrow> wsHub \<times> 'h EventBus \<times> 'h EventBus option" where
  "updateBus h hub old new =
     (let old = (case unsub hub of None \<Rightarrow> old | Some u \<Rightarrow> unsubscribe old u)
      in case new of
           None \<Rightarrow> (hub, old, None)
         | Some b \<Rightarrow> let (u, b) = SubscribeAll b h in (hub\<lparr>unsub := Some u\<rparr>, old, Some b))"

definition hubAdd :: "wsHub \<Rightarrow> nat \<Rightarrow> wsClient \<Rightarrow> wsHub" where
  "hubAdd h i c = h\<lparr>clients := AList.update i c (clients h)\<rparr>"

definition hubRemove :: "wsHub \<Rightarrow> nat \<Rightarrow> wsHub" where
  "hubRemove h i = h\<lparr>clients := AList.delete i (clients h)\<rparr>"

definition offer :: "bytes \<Rightarrow> wsClient \<Rightarrow> wsClient" where
  "offer data c =
     (if wsDone c then c
      else if length (send c) < sendCap c then c\<lparr>send := send c @ [data]\<rparr> else c)"

definition broadcast :: "wsHub \<Rightarrow> bytes \<Rightarrow> wsHub" where
  "broadcast h data = h\<lparr>clients := map (\<lambda>(i, c). (i, offer data c)) (clients h)\<rparr>"

definition canonicalHost :: "NetLib \<Rightarrow> string \<Rightarrow> string" where
  "canonicalHost net hostport =
     (if hostport = [] then []
      else (case SplitHostPort net hostport of Some host \<Rightarrow> ToLower host | None \<Rightarrow> ToLower hostport))"

definition isLoopbackHost :: "NetLib \<Rightarrow> string \<Rightarrow> bool" where
  "isLoopbackHost net host =
     (let host = ToLower (TrimSpace host)
      in host \<in> {''localhost'', ''127.0.0.1'', ''::1''} \<or>
         (case ParseIP net host of None \<Rightarrow> False | Some ip \<Rightarrow> IsLoopback net ip))"

definition allowWebSocketOrigin :: "NetLib \<Rightarrow> Request \<Rightarrow> bool" where
  "allowWebSocketOrigin net r =
     (let origin = TrimSpace (Header r ''Origin'')
      in if origin = [] then True
         else (case URLHost net origin of
                 None \<Rightarrow> False
               | Some uHost \<Rightarrow>
                   let host = canonicalHost net (Host r);
                       originHost = canonicalHost net uHost
                   in if host \<noteq> [] \<and> originHost = host then True else isLoopbackHost net originHost))"

end
