(* ===== verification/Gateway.thy ===== *)
theory Gateway
  imports Http
begin

text \<open>
  The server (\<^verbatim>\<open>gateway/server.go\<close>) and its handlers (\<^verbatim>\<open>gateway/rest.go\<close>). Each handler is one step: a request and the state of
  the server give a response and a new state. The table of transactions holds the transaction objects; the
  engine mutates the object it is given, so the handlers put the changed object back. A Go map that the code ranges
  over is an association list, in any order. \<open>Run\<close> keeps the engine it was called with: \<open>runEng\<close> is that engine once
  \<open>handleRecover\<close> has replaced it as the engine of the server, and \<^term>\<open>None\<close> while they are the same object. The engines that \<open>handleRecover\<close> has open at the same time share the files on disk. The
  handlers of \<^verbatim>\<open>/metrics\<close> and \<^verbatim>\<open>/ws\<close> belong to packages outside of the repository and are a parameter of the
  router; request paths are clean.
\<close>

section \<open>Definitions\<close>

definition maxKeySize :: nat where "maxKeySize = 512"
definition maxValueSize :: nat where "maxValueSize = 65535"

record Server =
  eng :: StorageEngine
  srvCfg :: Config
  txns :: "(u64 \<times> Transaction) list"
  txnLastUsed :: "(u64 \<times> int) list"
  isShuttingDown :: bool
  runEng :: "StorageEngine option"

definition NewServer :: "StorageEngine \<Rightarrow> Config \<Rightarrow> Server" where
  "NewServer e c = \<lparr>eng = e, srvCfg = c, txns = [], txnLastUsed = [], isShuttingDown = False, runEng = None\<rparr>"

definition wsBufferSize :: "Server \<Rightarrow> int" where
  "wsBufferSize s = (if WSBuffer (srvCfg s) > 0 then WSBuffer (srvCfg s) else 256)"

definition GETonly :: Response where "GETonly = writeError 405 ''GET only''"
definition POSTonly :: Response where "POSTonly = writeError 405 ''POST only''"

subsection \<open>Health and engine\<close>

definition handleHealth :: "Server handler" where
  "handleHealth s r = Some (if Method r \<noteq> ''GET'' then GETonly else writeJSON 200 (RStatus ''ok''), s)"

definition handleHealthLive :: "Server handler" where
  "handleHealthLive s r = Some (if Method r \<noteq> ''GET'' then GETonly else writeJSON 200 (RStatus ''live''), s)"

definition handleHealthReady :: "Server handler" where
  "handleHealthReady s r =
     (if Method r \<noteq> ''GET'' then Some (GETonly, s)
      else if isShuttingDown s then Some (writeJSON 503 (RStatus ''shutting_down''), s)
      else do {
        stats \<leftarrow> Stats (eng s);
        let lastCkptNano = LastCheckpointAt (eng s);
        let ckptAgo = (if lastCkptNano > 0 then of_int (Now r - lastCkptNano) / of_int Second else 0);
        Some (writeJSON 200 (RReady (DirtyPages stats) (ActiveTxns stats) (LastCheckpointLSN (eng s)) ckptAgo), s) })"

definition handleEngineStats :: "Server handler" where
  "handleEngineStats s r =
     (if Method r \<noteq> ''GET'' then Some (GETonly, s)
      else do { stats \<leftarrow> Stats (eng s); Some (writeJSON 200 (REngineStats stats), s) })"

definition handleCrash :: "Server handler" where
  "handleCrash s r =
     (if Method r \<noteq> ''POST'' then Some (POSTonly, s)
      else do {
        e \<leftarrow> CrashCloseEngine (eng s);
        Some (writeJSON 200 (RStatus ''crashed''), s\<lparr>txns := [], eng := e\<rparr>) })"

text \<open>The engine, on the files as another engine has left them.\<close>

definition shareFiles :: "StorageEngine \<Rightarrow> bytes \<Rightarrow> FS \<Rightarrow> StorageEngine" where
  "shareFiles e file fs =
     (let bp = bufPool (tree e)
      in e\<lparr>tree := (tree e)\<lparr>bufPool := bp\<lparr>disk := (disk bp)\<lparr>dmFile := file\<rparr>, wal := map_option (walFS_update (\<lambda>_. fs)) (wal bp)\<rparr>\<rparr>\<rparr>)"

definition handleRecover :: "JSONCodec \<Rightarrow> Server handler" where
  "handleRecover jc s r =
     (if Method r \<noteq> ''POST'' then Some (POSTonly, s)
      else do {
        let old = eng s;
        oldWAL \<leftarrow> wal (bufPool (tree old));
        (res, dm, w) \<leftarrow> OpenEngine jc (dmFile (disk (bufPool (tree old)))) (walFS oldWAL) (srvCfg s);
        let old = shareFiles old (dmFile dm) (case w of None \<Rightarrow> walFS oldWAL | Some w \<Rightarrow> walFS w);
        (case res of
           Inl err \<Rightarrow> Some (writeJSON 500 (RErr err), s\<lparr>eng := old\<rparr>)
         | Inr e \<Rightarrow> do {
             (_, old) \<leftarrow> CloseEngine jc old;
             oldWAL \<leftarrow> wal (bufPool (tree old));
             let e = shareFiles e (dmFile (disk (bufPool (tree old)))) (walFS oldWAL);
             Some (writeJSON 200 (RStatus ''recovered''), s\<lparr>eng := e, txns := [], txnLastUsed := [], runEng := Some (case runEng s of None \<Rightarrow> old | Some e0 \<Rightarrow> e0)\<rparr>) }) })"

subsection \<open>Transactions\<close>

definition defaultIsolationName :: "Server \<Rightarrow> string" where
  "defaultIsolationName s =
     (let name = TrimSpace (DefaultIsolation (srvCfg s))
      in if name \<in> {''read_committed'', ''serializable'', ''snapshot''} then name else ''snapshot'')"

definition isoOf :: "string \<Rightarrow> IsolationLevel \<times> string" where
  "isoOf isoName =
     (if isoName = ''read_committed'' then (ReadCommitted, isoName)
      else if isoName = ''serializable'' then (Serializable, isoName)
      else if isoName = ''snapshot'' then (SnapshotIsolation, isoName)
      else (SnapshotIsolation, ''snapshot''))"

definition handleTxnBegin :: "Server handler" where
  "handleTxnBegin s r =
     (if Method r \<noteq> ''POST'' then Some (POSTonly, s)
      else do {
        let isoName = TrimSpace (Field r ''iso_level'');
        let isoName = (if isoName = [] then defaultIsolationName s else isoName);
        let (isoLevel, isoName) = isoOf isoName;
        (txn, e) \<leftarrow> EngBegin (eng s) isoLevel;
        let i = txID txn;
        Some (writeJSON 200 (RTxn i isoName),
          s\<lparr>eng := e, txns := AList.update i txn (txns s), txnLastUsed := AList.update i (Now r) (txnLastUsed s)\<rparr>) })"

text \<open>The server after an engine call: the new engine and the changed transaction object.\<close>

definition putBack :: "Server \<Rightarrow> StorageEngine \<Rightarrow> u64 \<Rightarrow> Transaction \<Rightarrow> Server" where
  "putBack s e i txn = s\<lparr>eng := e, txns := AList.update i txn (txns s)\<rparr>"

definition forget :: "Server \<Rightarrow> u64 \<Rightarrow> Server" where
  "forget s i = s\<lparr>txns := AList.delete i (txns s), txnLastUsed := AList.delete i (txnLastUsed s)\<rparr>"

definition txnCommit :: "u64 \<Rightarrow> Transaction \<Rightarrow> Server handler" where
  "txnCommit i txn s r =
     (if Method r \<noteq> ''POST'' then Some (POSTonly, s)
      else do {
        (res, txn, e) \<leftarrow> EngCommit (eng s) txn;
        let s = putBack s e i txn;
        Some (case res of
                Inl err \<Rightarrow> (writeJSON (if err = ErrSerializationFailure then 409 else 500) (RErr err), s)
              | Inr _ \<Rightarrow> (writeJSON 200 (RStatus ''committed''), forget s i)) })"

definition txnAbort :: "u64 \<Rightarrow> Transaction \<Rightarrow> Server handler" where
  "txnAbort i txn s r =
     (if Method r \<noteq> ''POST'' then Some (POSTonly, s)
      else do {
        (res, txn, e) \<leftarrow> EngAbort (eng s) txn;
        let s = putBack s e i txn;
        Some (case res of
                Inl err \<Rightarrow> (writeJSON 500 (RErr err), s)
              | Inr _ \<Rightarrow> (writeJSON 200 (RStatus ''aborted''), forget s i)) })"

definition keyTooLong :: Response where
  "keyTooLong = writeError 400 (''key exceeds max size of '' @ decimal maxKeySize @ '' bytes'')"

definition txnPut :: "u64 \<Rightarrow> Transaction \<Rightarrow> Server handler" where
  "txnPut i txn s r =
     (if Method r \<noteq> ''POST'' then Some (POSTonly, s)
      else case DecodeErr r of
        Some msg \<Rightarrow> Some (writeError 400 msg, s)
      | None \<Rightarrow>
          let key = Field r ''key''; value = Field r ''value''
          in if key = [] then Some (writeError 400 ''key must not be empty'', s)
             else if length key > maxKeySize then Some (keyTooLong, s)
             else if length value > maxValueSize
             then Some (writeError 400 (''value exceeds max size of '' @ decimal maxValueSize @ '' bytes''), s)
             else do {
               (res, txn, e) \<leftarrow> Put (eng s) txn (asciiBytes key) (asciiBytes value);
               Some (case res of
                       Inl err \<Rightarrow> writeJSON (if err = ErrWriteConflict then 409 else 500) (RErr err)
                     | Inr _ \<Rightarrow> writeJSON 200 (RStatus ''ok''), putBack s e i txn) })"

definition txnGet :: "u64 \<Rightarrow> Transaction \<Rightarrow> Server handler" where
  "txnGet i txn s r =
     (if Method r \<noteq> ''GET'' then Some (GETonly, s)
      else
        let key = Query r ''key''
        in if key = [] then Some (writeError 400 ''key query param required'', s)
           else if length key > maxKeySize then Some (keyTooLong, s)
           else do {
             (res, txn, e) \<leftarrow> EngGet (eng s) txn (asciiBytes key);
             Some (case res of
                     Inl err \<Rightarrow> writeJSON 404 (RErr err)
                   | Inr val \<Rightarrow> writeJSON 200 (RValue key val), putBack s e i txn) })"

definition txnDelete :: "u64 \<Rightarrow> Transaction \<Rightarrow> Server handler" where
  "txnDelete i txn s r =
     (if Method r \<noteq> ''DELETE'' \<and> Method r \<noteq> ''POST'' then Some (writeError 405 ''DELETE or POST only'', s)
      else
        let key = (if Method r = ''DELETE'' then Query r ''key'' else Field r ''key'')
        in if key = [] then Some (writeError 400 ''key must not be empty'', s)
           else if length key > maxKeySize then Some (keyTooLong, s)
           else do {
             (res, txn, e) \<leftarrow> EngDelete (eng s) txn (asciiBytes key);
             Some (case res of
                     Inl err \<Rightarrow> writeJSON (if err = ErrWriteConflict then 409 else 404) (RErr err)
                   | Inr _ \<Rightarrow> writeJSON 200 (RStatus ''deleted''), putBack s e i txn) })"

text \<open>The loop over the cursor ends at the first error, whichever it is.\<close>

partial_function (option) scanResults ::
  "BPlusTree \<Rightarrow> Transaction \<Rightarrow> BTreeCursor \<Rightarrow> ((bytes \<times> bytes) list \<times> BTreeCursor \<times> BPlusTree) option" where
  "scanResults bt txn c = do {
     (res, c, bt) \<leftarrow> CursorNext bt txn c;
     (case res of
        Inl _ \<Rightarrow> Some ([], c, bt)
      | Inr t \<Rightarrow> do {
          (rest, c, bt) \<leftarrow> scanResults bt txn c;
          Some ((Key t, Value t) # rest, c, bt) }) }"

definition txnScan :: "u64 \<Rightarrow> Transaction \<Rightarrow> Server handler" where
  "txnScan i txn s r =
     (if Method r \<noteq> ''GET'' then Some (GETonly, s)
      else do {
        let start = Query r ''start'';
        let end' = Query r ''end'';
        (res, txn, e) \<leftarrow> EngScan (eng s) txn (asciiBytes start) (if end' \<noteq> [] then Slice (asciiBytes end') else NilSlice);
        (case res of
           Inl err \<Rightarrow> Some (writeJSON 500 (RErr err), putBack s e i txn)
         | Inr cursor \<Rightarrow> do {
             (results, cursor, bt) \<leftarrow> scanResults (tree e) txn cursor;
             let bt = snd (CursorClose bt cursor);
             Some (writeJSON 200 (RScan results), putBack s (e\<lparr>tree := bt\<rparr>) i txn) }) })"

definition savepointUsage :: Response where
  "savepointUsage = writeError 400 ''body: {\"name\": \"<savepoint_name>\"}''"

definition txnSavepoint :: "u64 \<Rightarrow> Transaction \<Rightarrow> Server handler" where
  "txnSavepoint i txn s r =
     (if Method r \<noteq> ''POST'' then Some (POSTonly, s)
      else if DecodeErr r \<noteq> None \<or> Field r ''name'' = [] then Some (savepointUsage, s)
      else
        let (res, txn, e) = Savepoint (eng s) txn (Field r ''name'')
        in Some (case res of
                   Inl err \<Rightarrow> writeJSON 409 (RErr err)
                 | Inr _ \<Rightarrow> writeJSON 200 (RSavepoint ''savepoint_created'' (Field r ''name'')), putBack s e i txn))"

definition txnRollback :: "u64 \<Rightarrow> Transaction \<Rightarrow> Server handler" where
  "txnRollback i txn s r =
     (if Method r \<noteq> ''POST'' then Some (POSTonly, s)
      else if DecodeErr r \<noteq> None \<or> Field r ''name'' = [] then Some (savepointUsage, s)
      else do {
        (res, txn, e) \<leftarrow> RollbackToSavepoint (eng s) txn (Field r ''name'');
        Some (case res of
                Inl err \<Rightarrow> writeJSON 404 (RErr err)
              | Inr _ \<Rightarrow> writeJSON 200 (RSavepoint ''rolled_back'' (Field r ''name'')), putBack s e i txn) })"

definition txnOps :: "(string \<times> (u64 \<Rightarrow> Transaction \<Rightarrow> Server handler)) list" where
  "txnOps = [(''commit'', txnCommit), (''abort'', txnAbort), (''put'', txnPut), (''get'', txnGet), (''delete'', txnDelete),
     (''scan'', txnScan), (''savepoint'', txnSavepoint), (''rollback_to_savepoint'', txnRollback)]"

definition handleTxnRouter :: "Server handler" where
  "handleTxnRouter s r =
     (case SplitAt (TrimPrefix (Path r) ''/api/v1/txn/'') (CHR ''/'') of
        idStr # op # _ \<Rightarrow>
          (case ParseUint idStr 64 of
             None \<Rightarrow> Some (writeError 400 ''invalid txn id'', s)
           | Some n \<Rightarrow>
               let i = word_of_nat n
               in (case map_of (txns s) i of
                     None \<Rightarrow> Some (writeError 404 ''transaction not found'', s)
                   | Some txn \<Rightarrow>
                       let s = s\<lparr>txnLastUsed := AList.update i (Now r) (txnLastUsed s)\<rparr>
                       in (case map_of txnOps op of
                             Some h \<Rightarrow> h i txn s r
                           | None \<Rightarrow> Some (writeError 404 ''unknown operation'', s))))
      | _ \<Rightarrow> Some (writeError 400 ''path: /api/v1/txn/<id>/<op>'', s))"

subsection \<open>Inspection\<close>

definition handleTreeStructure :: "Server handler" where
  "handleTreeStructure s r =
     (if Method r \<noteq> ''GET'' then Some (GETonly, s)
      else do { (node, e) \<leftarrow> TreeStructure (eng s); Some (writeJSON 200 (RTree node), s\<lparr>eng := e\<rparr>) })"

definition handleTreePage :: "Server handler" where
  "handleTreePage s r =
     (if Method r \<noteq> ''GET'' then Some (GETonly, s)
      else case ParseUint (TrimPrefix (Path r) ''/api/v1/tree/page/'') 32 of
        None \<Rightarrow> Some (writeError 400 ''invalid page id'', s)
      | Some i \<Rightarrow> do {
          (res, e) \<leftarrow> PageContents (eng s) (word_of_nat i);
          Some (case res of
                  Inl err \<Rightarrow> writeJSON 404 (RPageErr i err)
                | Inr result \<Rightarrow> writeJSON 200 (RPage result), s\<lparr>eng := e\<rparr>) })"

definition handleMVCCVersions :: "Server handler" where
  "handleMVCCVersions s r =
     (if Method r \<noteq> ''GET'' then Some (GETonly, s)
      else
        let key = Query r ''key''
        in if key = [] then Some (writeError 400 ''key query param required'', s)
           else do {
             (versions, e) \<leftarrow> MVCCVersions (eng s) (asciiBytes key);
             Some (writeJSON 200 (RVersions key versions), s\<lparr>eng := e\<rparr>) })"

definition handleMVCCVisibility :: "Server handler" where
  "handleMVCCVisibility s r =
     (if Method r \<noteq> ''GET'' then Some (GETonly, s)
      else
        let key = Query r ''key''; txnIDStr = Query r ''txnID''
        in if key = [] \<or> txnIDStr = [] then Some (writeError 400 ''key and txnID query params required'', s)
           else (case ParseUint txnIDStr 64 of
                   None \<Rightarrow> Some (writeError 400 ''invalid txn id'', s)
                 | Some n \<Rightarrow>
                     let i = word_of_nat n
                     in (case map_of (txns s) i of
                           None \<Rightarrow> Some (writeError 404 ''transaction not found'', s)
                         | Some txn \<Rightarrow> do {
                             let (txn, t) = refreshSnapshot (tree (eng s)) txn;
                             let s = putBack s ((eng s)\<lparr>tree := t\<rparr>) i txn;
                             let s = s\<lparr>txnLastUsed := AList.update i (Now r) (txnLastUsed s)\<rparr>;
                             (annotated, e) \<leftarrow> MVCCVisibilityForTxn (eng s) (asciiBytes key) txn;
                             Some (writeJSON 200 (RVisibility key i annotated), s\<lparr>eng := e\<rparr>) })))"

definition handleBufferStats :: "Server handler" where
  "handleBufferStats s r =
     (if Method r \<noteq> ''GET'' then Some (GETonly, s)
      else do { stats \<leftarrow> Stats (eng s); Some (writeJSON 200 (REngineStats stats), s) })"

definition handleBufferFrames :: "Server handler" where
  "handleBufferFrames s r =
     (if Method r \<noteq> ''GET'' then Some (GETonly, s) else Some (writeJSON 200 (RFrames (Frames (eng s))), s))"

definition handleWALTail :: "Server handler" where
  "handleWALTail s r =
     (if Method r \<noteq> ''GET'' then Some (GETonly, s)
      else do {
        let nStr = Query r ''n'';
        let n = (if nStr \<noteq> [] then (case Atoi nStr of Some v \<Rightarrow> if v > 0 then v else 50 | None \<Rightarrow> 50) else 50);
        (records, e) \<leftarrow> WALTail (eng s) n;
        Some (writeJSON 200 (RWAL records), s\<lparr>eng := e\<rparr>) })"

definition handleCheckpoint :: "JSONCodec \<Rightarrow> Server handler" where
  "handleCheckpoint jc s r =
     (if Method r \<noteq> ''POST'' then Some (POSTonly, s)
      else do {
        (res, e) \<leftarrow> Checkpoint jc (eng s);
        Some (case res of
                Inl err \<Rightarrow> writeJSON 500 (RErr err)
              | Inr lsn \<Rightarrow> writeJSON 200 (RCheckpoint lsn), s\<lparr>eng := e\<rparr>) })"

definition handleListScenarios :: "Server handler" where
  "handleListScenarios s r =
     Some (if Method r \<noteq> ''GET'' then GETonly else writeJSON 200 (RScenarioNames ScenarioNames), s)"

definition handleRunScenario :: "Server handler" where
  "handleRunScenario s r =
     (if Method r \<noteq> ''POST'' then Some (POSTonly, s)
      else do {
        let name = TrimSuffix (TrimPrefix (Path r) ''/api/v1/scenarios/'') ''/run'';
        (res, e) \<leftarrow> RunScenario name (eng s);
        Some (case res of
                Inl name \<Rightarrow> writeJSON 400 (RUnknownScenario name)
              | Inr result \<Rightarrow> writeJSON 200 (RScenario result), s\<lparr>eng := e\<rparr>) })"

subsection \<open>Routes\<close>

text \<open>\<open>other\<close> handles \<^verbatim>\<open>/metrics\<close> and \<^verbatim>\<open>/ws\<close>.\<close>

definition registerRoutes :: "JSONCodec \<Rightarrow> Server handler \<Rightarrow> (string \<times> Server handler) list" where
  "registerRoutes jc other =
     [(''/health'', handleHealth), (''/health/live'', handleHealthLive), (''/health/ready'', handleHealthReady),
      (''/metrics'', other),
      (''/api/v1/engine/stats'', handleEngineStats), (''/api/v1/engine/crash'', handleCrash),
      (''/api/v1/engine/recover'', handleRecover jc),
      (''/api/v1/txn/begin'', handleTxnBegin), (''/api/v1/txn/'', handleTxnRouter),
      (''/api/v1/tree/structure'', handleTreeStructure), (''/api/v1/tree/page/'', handleTreePage),
      (''/api/v1/mvcc/versions'', handleMVCCVersions), (''/api/v1/mvcc/visibility'', handleMVCCVisibility),
      (''/api/v1/buffer/stats'', handleBufferStats), (''/api/v1/buffer/frames'', handleBufferFrames),
      (''/api/v1/wal/tail'', handleWALTail), (''/api/v1/wal/checkpoint'', handleCheckpoint jc),
      (''/api/v1/scenarios'', handleListScenarios), (''/api/v1/scenarios/'', handleRunScenario),
      (''/ws'', other)]"

text \<open>
  \<open>http.ServeMux\<close>: the pattern that is the path, or the longest one that ends in a slash and is a prefix of
  it; a path that lacks the final slash of a pattern is redirected.
\<close>

definition longest :: "string \<Rightarrow> (string \<times> 'a) list \<Rightarrow> (string \<times> 'a) option" where
  "longest path pats =
     foldl (\<lambda>best x. if last (fst x) = CHR ''/'' \<and> HasPrefix path (fst x) \<and>
                        (case best of None \<Rightarrow> True | Some b \<Rightarrow> length (fst b) < length (fst x))
                     then Some x else best) None pats"

definition serveMux :: "(string \<times> 's handler) list \<Rightarrow> 's handler" where
  "serveMux pats s r =
     (case map_of pats (Path r) of
        Some h \<Rightarrow> h s r
      | None \<Rightarrow>
          if map_of pats (Path r @ ''/'') \<noteq> None then Some (writeJSON 301 (RRedirect (Path r @ ''/'')), s)
          else (case longest (Path r) pats of
                  Some (_, h) \<Rightarrow> h s r
                | None \<Rightarrow> Some (writeJSON 404 RPageNotFound, s)))"

text \<open>
  The handler that \<open>Run\<close> installs. The rate limiter is made first and the authentication is wrapped
  around it.
\<close>

definition exemptPaths :: "string list" where
  "exemptPaths = [''/health'', ''/health/live'', ''/health/ready'', ''/metrics'']"

definition limited :: "NetLib \<Rightarrow> Config \<Rightarrow> Server handler \<Rightarrow> (RateLimiter \<times> Server) handler" where
  "limited net c mux =
     (if RateLimitPerSec c > 0 then RateLimitMiddleware net mux
      else (\<lambda>s r. do { (resp, s') \<leftarrow> mux (snd s) r; Some (resp, fst s, s') }))"

definition serve :: "NetLib \<Rightarrow> JSONCodec \<Rightarrow> Config \<Rightarrow> Server handler \<Rightarrow> (RateLimiter \<times> Server) handler" where
  "serve net jc c other =
     (let handler = limited net c (serveMux (registerRoutes jc other))
      in if length (APIKeys c) > 0 then AuthMiddleware (NewAPIKeySet (APIKeys c)) exemptPaths handler
         else handler)"

subsection \<open>Idle transactions and shutdown\<close>

fun pruneLoop :: "Server \<Rightarrow> int \<Rightarrow> (u64 \<times> int) list \<Rightarrow> Server option" where
  "pruneLoop s cutoff [] = Some s"
| "pruneLoop s cutoff ((i, lastUsed) # rest) =
     (if lastUsed < cutoff then do {
        s \<leftarrow> (case map_of (txns s) i of
                None \<Rightarrow> Some s
              | Some txn \<Rightarrow> do {
                  (_, _, e) \<leftarrow> EngAbort (eng s) txn;
                  Some (s\<lparr>eng := e, txns := AList.delete i (txns s)\<rparr>) });
        pruneLoop (s\<lparr>txnLastUsed := AList.delete i (txnLastUsed s)\<rparr>) cutoff rest }
      else pruneLoop s cutoff rest)"

definition pruneIdleTxns :: "Server \<Rightarrow> int \<Rightarrow> Server option" where
  "pruneIdleTxns s now =
     (if IdleTxnTimeout (srvCfg s) \<le> 0 then Some s
      else pruneLoop s (now - IdleTxnTimeout (srvCfg s)) (txnLastUsed s))"

fun abortOpen :: "StorageEngine \<Rightarrow> (u64 \<times> Transaction) list \<Rightarrow> StorageEngine option" where
  "abortOpen e [] = Some e"
| "abortOpen e ((i, txn) # rest) = do {
     (_, _, e) \<leftarrow> EngAbort e txn;
     abortOpen e rest }"

text \<open>
  What \<open>Run\<close> does when a signal arrives; the requests in between are steps of their own. It aborts the open
  transactions on the engine that it was called with, and closes that one.
\<close>

definition beginShutdown :: "Server \<Rightarrow> Server" where
  "beginShutdown s = s\<lparr>isShuttingDown := True\<rparr>"

definition finishShutdown :: "JSONCodec \<Rightarrow> Server \<Rightarrow> ((error, unit) result \<times> Server) option" where
  "finishShutdown jc s = do {
     e \<leftarrow> abortOpen (case runEng s of None \<Rightarrow> eng s | Some e0 \<Rightarrow> e0) (txns s);
     let s = s\<lparr>txns := [], txnLastUsed := []\<rparr>;
     (err, e) \<leftarrow> CloseEngine jc e;
     Some (err, case runEng s of None \<Rightarrow> s\<lparr>eng := e\<rparr> | Some _ \<Rightarrow> s\<lparr>runEng := Some e\<rparr>) }"

end
