(* ===== verification/Http_Props.thy ===== *)
theory Http_Props
  imports Http
begin

text \<open>
  The token bucket bound of the rate limiter, the ids in paths, and the queues of the WebSocket
  clients.
\<close>

section \<open>Rate limiter\<close>

datatype rl_event = Req int string | Tick int

fun time_of :: "rl_event \<Rightarrow> int" where
  "time_of (Req t ip) = t"
| "time_of (Tick t) = t"

fun rl_step :: "rl_event \<Rightarrow> RateLimiter \<Rightarrow> RateLimiter" where
  "rl_step (Req t ip) rl = snd (Allow rl t ip)"
| "rl_step (Tick t) rl = cleanupTick rl t"

fun passes :: "string \<Rightarrow> RateLimiter \<Rightarrow> rl_event \<Rightarrow> bool" where
  "passes ip rl (Req t i) \<longleftrightarrow> i = ip \<and> fst (Allow rl t i)"
| "passes ip rl (Tick t) \<longleftrightarrow> False"

text \<open>The number of requests of an address that are let through.\<close>

fun allowed :: "string \<Rightarrow> RateLimiter \<Rightarrow> rl_event list \<Rightarrow> nat" where
  "allowed ip rl [] = 0"
| "allowed ip rl (e # es) = (if passes ip rl e then 1 else 0) + allowed ip (rl_step e rl) es"

definition seconds :: "int \<Rightarrow> rat" where
  "seconds d = of_int d / of_int Second"

definition level :: "RateLimiter \<Rightarrow> string \<Rightarrow> int \<Rightarrow> rat" where
  "level rl ip now =
     (case map_of (buckets rl) ip of
        None \<Rightarrow> burst rl | Some b \<Rightarrow> min (burst rl) (tokens b + seconds (now - lastSeen b) * rate rl))"

definition rl_ok :: "RateLimiter \<Rightarrow> int \<Rightarrow> bool" where
  "rl_ok rl t \<longleftrightarrow> 0 \<le> rate rl \<and> 0 \<le> burst rl \<and> burst rl \<le> 300 * rate rl \<and> distinct (map fst (buckets rl)) \<and>
     (\<forall>ip b. map_of (buckets rl) ip = Some b \<longrightarrow> 0 \<le> tokens b \<and> lastSeen b \<le> t)"

lemma seconds_mono: "a \<le> b \<Longrightarrow> seconds a \<le> seconds b"
  by (simp add: seconds_def Second_def divide_right_mono)

lemma seconds_add: "seconds (a + b) = seconds a + seconds b"
  by (simp add: seconds_def add_divide_distrib)

lemma seconds_nonneg: "0 \<le> a \<Longrightarrow> 0 \<le> seconds a"
  by (simp add: seconds_def Second_def)

lemma bucket_update: "b\<lparr>tokens := c, lastSeen := n\<rparr> = \<lparr>tokens = c, lastSeen = n\<rparr>"
  by (cases b) simp

lemma refill_nonneg:
  assumes "rl_ok rl t" and "t \<le> t'" and "map_of (buckets rl) ip = Some b"
  shows "0 \<le> tokens b" and "0 \<le> seconds (t' - lastSeen b) * rate rl"
  using assms by (force simp: rl_ok_def seconds_nonneg)+

lemma level_bounds: "level rl ip t' \<le> burst rl"
  by (simp add: level_def split: option.split)

lemma level_nonneg: "rl_ok rl t \<Longrightarrow> t \<le> t' \<Longrightarrow> 0 \<le> level rl ip t'"
  using refill_nonneg [of rl t t' ip] by (fastforce simp: level_def rl_ok_def split: option.split)

lemma level_later:
  assumes "rl_ok rl t" and "t \<le> t'"
  shows "level rl ip t' \<le> level rl ip t + seconds (t' - t) * rate rl"
proof (cases "map_of (buckets rl) ip")
  case None
  with assms show ?thesis by (simp add: level_def rl_ok_def seconds_nonneg)
next
  case (Some b)
  have r: "0 \<le> seconds (t' - t) * rate rl" using assms by (simp add: rl_ok_def seconds_nonneg)
  have "seconds (t' - lastSeen b) = seconds (t - lastSeen b) + seconds (t' - t)"
    using seconds_add [of "t - lastSeen b" "t' - t"] by simp
  then have e: "tokens b + seconds (t' - lastSeen b) * rate rl = (tokens b + seconds (t - lastSeen b) * rate rl) + seconds (t' - t) * rate rl"
    by (simp add: distrib_right)
  have "min B (x + y) \<le> min B x + y" if "0 \<le> y" for B x y :: rat using that by (simp add: min_def)
  from this [OF r] show ?thesis unfolding level_def Some option.case e .
qed

lemma map_of_filter_val:
  "distinct (map fst xs) \<Longrightarrow>
   map_of (filter (\<lambda>(k, v). P v) xs) k = (case map_of xs k of None \<Rightarrow> None | Some v \<Rightarrow> if P v then Some v else None)"
proof (induction xs)
  case (Cons x xs)
  have "map_of xs (fst x) = None" using Cons.prems by (simp add: map_of_eq_None_iff)
  with Cons show ?case by (cases x) auto
qed simp

text \<open>What \<open>Allow\<close> does to the level: an admitted request takes a token.\<close>

lemma Allow_level:
  assumes "rl_ok rl t" and "t \<le> now"
  shows "fst (Allow rl now ip) \<longleftrightarrow> 1 \<le> level rl ip now"
    and "level (snd (Allow rl now ip)) i now = level rl i now - (if i = ip \<and> fst (Allow rl now ip) then 1 else 0)"
    and "rl_ok (snd (Allow rl now ip)) now"
    and "rate (snd (Allow rl now ip)) = rate rl" and "burst (snd (Allow rl now ip)) = burst rl"
proof -
  let ?l = "level rl ip now"
  define c where "c = (if 1 \<le> ?l then ?l - 1 else ?l)"
  have A: "Allow rl now ip = (1 \<le> ?l, rl\<lparr>buckets := AList.update ip \<lparr>tokens = c, lastSeen = now\<rparr> (buckets rl)\<rparr>)"
    by (auto simp: Allow_def level_def c_def seconds_def Let_def min_def bucket_update split: option.split)
  have b: "level rl ip now \<le> burst rl" "0 \<le> level rl ip now" using level_bounds level_nonneg [OF assms] by blast+
  from A show "fst (Allow rl now ip) \<longleftrightarrow> 1 \<le> level rl ip now" "rate (snd (Allow rl now ip)) = rate rl" "burst (snd (Allow rl now ip)) = burst rl"
    by simp_all
  show "level (snd (Allow rl now ip)) i now = level rl i now - (if i = ip \<and> fst (Allow rl now ip) then 1 else 0)"
  proof (cases "i = ip")
    case True
    with b show ?thesis by (simp add: A level_def [of "rl\<lparr>buckets := _\<rparr>"] update_conv' c_def seconds_def)
  next
    case False
    then show ?thesis by (simp add: A level_def update_conv' split: option.split)
  qed
  show "rl_ok (snd (Allow rl now ip)) now"
    using assms b by (force simp: A rl_ok_def update_conv' distinct_update c_def split: if_splits)
qed

lemma cleanup_level:
  assumes ok: "rl_ok rl t" and t: "t \<le> now"
  shows "level (cleanupTick rl now) ip now = level rl ip now" and "rl_ok (cleanupTick rl now) now"
    and "rate (cleanupTick rl now) = rate rl" and "burst (cleanupTick rl now) = burst rl"
proof -
  let ?P = "\<lambda>b. \<not> lastSeen b < now - 300 * Second"
  have d: "distinct (map fst (buckets rl))" using ok by (simp add: rl_ok_def)
  have m: "map_of (buckets (cleanupTick rl now)) i = (case map_of (buckets rl) i of None \<Rightarrow> None | Some b \<Rightarrow> if ?P b then Some b else None)" for i
    by (simp add: cleanupTick_def Let_def map_of_filter_val [OF d])
  show k: "rate (cleanupTick rl now) = rate rl" "burst (cleanupTick rl now) = burst rl" by (simp_all add: cleanupTick_def Let_def)
  have full: "burst rl \<le> tokens b + seconds (now - lastSeen b) * rate rl" if b: "map_of (buckets rl) ip = Some b" "\<not> ?P b" for b
  proof -
    have "seconds (300 * Second) \<le> seconds (now - lastSeen b)" using b(2) by (intro seconds_mono) simp
    then have "300 \<le> seconds (now - lastSeen b)" by (simp add: seconds_def Second_def)
    then have "300 * rate rl \<le> seconds (now - lastSeen b) * rate rl" using ok by (intro mult_right_mono) (simp_all add: rl_ok_def)
    moreover have "0 \<le> tokens b" "burst rl \<le> 300 * rate rl" using refill_nonneg(1) [OF ok t b(1)] ok by (simp_all add: rl_ok_def)
    ultimately show ?thesis by linarith
  qed
  then show "level (cleanupTick rl now) ip now = level rl ip now"
    by (auto simp: level_def m k min_absorb1 split: option.split)
  have "distinct (map fst (buckets (cleanupTick rl now)))"
    using d by (simp add: cleanupTick_def Let_def distinct_map_filter)
  with ok t m k show "rl_ok (cleanupTick rl now) now" by (force simp: rl_ok_def split: option.splits if_splits)
qed

text \<open>Requests and ticks at non-decreasing times, not before \<open>t\<close>.\<close>

definition timed :: "int \<Rightarrow> rl_event list \<Rightarrow> bool" where
  "timed t es \<longleftrightarrow> sorted (t # map time_of es)"

lemma rl_step_level:
  assumes "rl_ok rl t" and "t \<le> time_of e"
  shows "level (rl_step e rl) ip (time_of e) = level rl ip (time_of e) - (if passes ip rl e then 1 else 0)"
    and "rl_ok (rl_step e rl) (time_of e)" and "rate (rl_step e rl) = rate rl" and "burst (rl_step e rl) = burst rl"
proof -
  have "level (rl_step e rl) ip (time_of e) = level rl ip (time_of e) - (if passes ip rl e then 1 else 0) \<and>
    rl_ok (rl_step e rl) (time_of e) \<and> rate (rl_step e rl) = rate rl \<and> burst (rl_step e rl) = burst rl"
  proof (cases e)
    case (Req now i)
    with Allow_level [OF assms(1), of now i] assms(2) show ?thesis by auto
  next
    case (Tick now)
    with cleanup_level(1) [OF assms(1), of now ip] cleanup_level(2-4) [OF assms(1), of now] assms(2) show ?thesis by simp
  qed
  then show "level (rl_step e rl) ip (time_of e) = level rl ip (time_of e) - (if passes ip rl e then 1 else 0)"
    "rl_ok (rl_step e rl) (time_of e)" "rate (rl_step e rl) = rate rl" "burst (rl_step e rl) = burst rl" by blast+
qed

lemma allowed_level:
  assumes "rl_ok rl t" and "timed t es"
  shows "of_nat (allowed ip rl es) \<le> level rl ip t + seconds (last (t # map time_of es) - t) * rate rl"
  using assms
proof (induction es arbitrary: rl t)
  case Nil
  then show ?case using level_nonneg [OF Nil.prems(1), of t ip] by (simp add: seconds_def)
next
  case (Cons e es)
  let ?n = "time_of e" and ?z = "last (time_of e # map time_of es)"
  have n: "t \<le> ?n" and te: "timed ?n es" using Cons.prems(2) by (simp_all add: timed_def)
  note S = rl_step_level [OF Cons.prems(1) n]
  have "of_nat (allowed ip (rl_step e rl) es) \<le> level (rl_step e rl) ip ?n + seconds (?z - ?n) * rate rl"
    using Cons.IH [OF S(2) te] by (simp add: S(3))
  moreover have "level rl ip ?n \<le> level rl ip t + seconds (?n - t) * rate rl" by (rule level_later [OF Cons.prems(1) n])
  moreover have "seconds (?z - t) * rate rl = seconds (?z - ?n) * rate rl + seconds (?n - t) * rate rl"
    using seconds_add [of "?z - ?n" "?n - t"] by (simp only: distrib_right [symmetric]) simp
  moreover have "of_nat (allowed ip rl (e # es)) = (if passes ip rl e then 1 else 0) + (of_nat (allowed ip (rl_step e rl) es) :: rat)"
    by simp
  moreover have z: "last (t # map time_of (e # es)) = ?z" by simp
  ultimately show ?case unfolding S(1) z by linarith
qed

lemma rl_ok_after: "rl_ok rl t \<Longrightarrow> timed t es \<Longrightarrow>
  rl_ok (fold rl_step es rl) (last (t # map time_of es)) \<and> rate (fold rl_step es rl) = rate rl \<and> burst (fold rl_step es rl) = burst rl"
proof (induction es arbitrary: rl t)
  case (Cons e es)
  have n: "t \<le> time_of e" "timed (time_of e) es" using Cons.prems(2) by (simp_all add: timed_def)
  from Cons.IH [OF rl_step_level(2) [OF Cons.prems(1) n(1)] n(2)] rl_step_level(3,4) [OF Cons.prems(1) n(1)] show ?case by simp
qed simp

section \<open>WebSocket queues\<close>

text \<open>
  Without a reader, a client that is not done gets the first messages up to the capacity of its queue, in
  order, and the rest are dropped; a client that is done gets none.
\<close>

lemma offer_all:
  "fold offer ds c = (if wsDone c then c else c\<lparr>send := send c @ take (sendCap c - length (send c)) ds\<rparr>)"
proof (induction ds arbitrary: c)
  case (Cons d ds)
  have "take (sendCap c - length (send c)) (d # ds) = d # take (sendCap c - Suc (length (send c))) ds"
    if "length (send c) < sendCap c"
    using Suc_diff_Suc [OF that] by (metis take_Suc_Cons)
  with Cons show ?case by (auto simp: offer_def)
qed simp

lemma broadcast_all:
  "map_of (clients (fold (\<lambda>d h. broadcast h d) ds h)) i = map_option (fold offer ds) (map_of (clients h) i)"
proof (induction ds arbitrary: h)
  case (Cons d ds)
  have "map_of (clients (broadcast h d)) i = map_option (offer d) (map_of (clients h) i)" by (simp add: broadcast_def map_of_map)
  with Cons show ?case by (simp add: option.map_comp comp_def)
qed (simp add: option.map_id0)

section \<open>Ids in paths\<close>

lemma digitsVal_decimal: "digitsVal (decimal n) = n"
  using dec_val_decimal [of n] by (simp add: digitsVal_def dec_val_def)

lemma decimal_digits: "list_all isDigit (decimal n) \<and> decimal n \<noteq> []"
proof (induction n rule: decimal.induct)
  case (1 n)
  have "isDigit (digit n)" by (simp add: isDigit_def)
  with 1 show ?case by (simp add: decimal.simps [of n])
qed

lemma ParseUint_decimal: "n < 2 ^ bits \<Longrightarrow> ParseUint (decimal n) bits = Some n"
  using decimal_digits [of n] by (simp add: ParseUint_def digitsVal_decimal)

lemma ParseUint_bound: "ParseUint s bits = Some n \<Longrightarrow> n < 2 ^ bits"
  by (simp add: ParseUint_def split: if_splits)

section \<open>Properties\<close>

text \<open>
  C26. The rate limiter admits a burst and then the rate. From a new limiter, after any
  history \<open>past\<close> of requests and clean-up ticks, at most \<open>burst + rate * d\<close> requests of one address pass in any
  window of \<open>d\<close> seconds, whatever other addresses do. The condition \<open>burst \<le> 300 * rate\<close> is what the clean-up needs: a
  bucket that has been idle for five minutes is full, so forgetting it gives nothing away.
\<close>

theorem rate_limit_bound:
  assumes "timed t0 (past @ es)" and "es \<noteq> []" and "0 \<le> r" and "0 \<le> b" and "b \<le> 300 * r"
  shows "of_nat (allowed ip (fold rl_step past (NewRateLimiter r b)) es) \<le> b + seconds (time_of (last es) - time_of (hd es)) * r"
proof -
  let ?rl = "fold rl_step past (NewRateLimiter r b)"
  have ok: "rl_ok (NewRateLimiter r b) t0" using assms(3-5) by (simp add: rl_ok_def NewRateLimiter_def)
  have p: "timed t0 past" "timed (last (t0 # map time_of past)) es" "timed (time_of (hd es)) es" "last (t0 # map time_of past) \<le> time_of (hd es)"
    using assms(1,2) by (cases es; cases past rule: rev_cases; auto simp: timed_def sorted_append)+
  note A = rl_ok_after [OF ok p(1)]
  then have "rl_ok ?rl (time_of (hd es))" using p(4) unfolding rl_ok_def by (meson order_trans)
  from allowed_level [OF this p(3), of ip] level_bounds [of ?rl ip "time_of (hd es)"] A assms(2)
  show ?thesis by (simp add: NewRateLimiter_def last_map)
qed

theorem rate_limit_bound_witness:
  "allowed ''a'' (NewRateLimiter 1 2) [Req 0 ''a'', Req 0 ''b'', Req 0 ''a'', Req 0 ''a'', Req Second ''a''] \<le> 3"
proof -
  let ?es = "[Req 0 ''a'', Req 0 ''b'', Req 0 ''a'', Req 0 ''a'', Req Second ''a'']"
  have "of_nat (allowed ''a'' (fold rl_step [] (NewRateLimiter 1 2)) ?es) \<le> (2 :: rat) + seconds (time_of (last ?es) - time_of (hd ?es)) * 1"
    by (rule rate_limit_bound [of 0]) (simp_all add: timed_def Second_def)
  then have "of_nat (allowed ''a'' (NewRateLimiter 1 2) ?es) \<le> (of_nat 3 :: rat)" by (simp add: seconds_def Second_def)
  then show ?thesis by (simp only: of_nat_le_iff)
qed

end
