(* ===== verification/Gateway_Props.thy ===== *)
theory Gateway_Props
  imports Gateway Http_Props Txn_Objects Structure_Props
begin

text \<open>
  The gateway over the engine: what the transaction handlers do to the table of transactions.
\<close>

section \<open>Commit and abort of the engine\<close>

lemma FlushUpTo_leader: "gcLeader (snd (FlushUpTo w t)) = gcLeader w"
  by (simp add: FlushUpTo_def flushLocked_def Let_def)

lemma EngAbort_ok:
  assumes w: "wal (bufPool (tree e)) = Some w" "wal_inv w" "unat (currentLSN w) + 37 < 2 ^ 63"
  obtains w' e' where "EngAbort e txn = Some (Inr (), fst (Abort (tm (tree e)) txn), e')"
    and "tm (tree e') = snd (Abort (tm (tree e)) txn)" and "wal (bufPool (tree e')) = Some w'" and "wal_inv w'"
    and "unat (currentLSN w') = unat (currentLSN w) + 37" and "gcLeader w' = gcLeader w" and "cfg e' = cfg e"
proof -
  let ?r = "emptyLogRecord\<lparr>rType := LogAbort, rTxnID := txID txn, rPrevLSN := txLastLSN txn\<rparr>"
  have ok: "logrec_ok ?r" and len: "length (EncodeLogRecord ?r) = 37" by (simp_all add: logrec_ok_def emptyLogRecord_def)
  obtain w1 where w1: "AppendRecord w ?r = Some (currentLSN w, w1)" "wal_inv w1" "gcLeader w1 = gcLeader w"
    "unat (currentLSN w1) = unat (currentLSN w) + 37"
    using AppendRecord_ok [OF w(2) ok] w(3) len by auto
  obtain w2 where w2: "FlushUpTo w1 (currentLSN w) = (Inr (), w2)" "wal_inv w2" "currentLSN w2 = currentLSN w1"
    using FlushUpTo_ok [OF w1(2)] by blast
  have "gcLeader w2 = gcLeader w" using FlushUpTo_leader [of w1 "currentLSN w"] w1(3) w2(1) by simp
  with w w1 w2 show thesis
    by (intro that [of "e\<lparr>tree := (tree e)\<lparr>bufPool := (bufPool (tree e))\<lparr>wal := Some w2\<rparr>, tm := snd (Abort (tm (tree e)) txn)\<rparr>\<rparr>" w2])
      (simp_all add: EngAbort_def withWAL_def WALAbort_def split_beta)
qed

lemma EngCommit_ok:
  assumes w: "wal (bufPool (tree e)) = Some w" "wal_inv w" "unat (currentLSN w) + 37 < 2 ^ 63" "\<not> gcLeader w"
    and c: "txIsoLevel txn = Serializable \<longrightarrow> CheckCommit (SIREADMgr (tm (tree e))) (txID txn) = None"
  obtains lsn e' where "EngCommit e txn = Some (Inr (), fst (Commit (tm (tree e)) (txn\<lparr>txLastLSN := lsn\<rparr>)), e')"
    and "tm (tree e') = snd (Commit (tm (tree e)) (txn\<lparr>txLastLSN := lsn\<rparr>))"
proof -
  obtain w' where "CommitGrouped w (txID txn) (txLastLSN txn) (GroupCommitDelay (cfg e)) = Some (currentLSN w, w')"
    using CommitGrouped_ok [OF w(2-4)] by blast
  with w(1) c show thesis
    by (intro that [of "currentLSN w" "e\<lparr>tree := (tree e)\<lparr>bufPool := (bufPool (tree e))\<lparr>wal := Some w'\<rparr>,
      tm := snd (Commit (tm (tree e)) (txn\<lparr>txLastLSN := currentLSN w\<rparr>))\<rparr>\<rparr>"])
      (auto simp: EngCommit_def withWAL_def split_beta)
qed

section \<open>Paths of transactions\<close>

definition txn_path :: "u64 \<Rightarrow> string \<Rightarrow> string" where
  "txn_path i op = ''/api/v1/txn/'' @ decimal (unat i) @ ''/'' @ op"

lemma SplitAt_single: "sep \<notin> set s \<Longrightarrow> SplitAt s sep = [s]"
  by (induction s) auto

lemma SplitAt_append: "sep \<notin> set a \<Longrightarrow> SplitAt (a @ sep # b) sep = a # SplitAt b sep"
  by (induction a) auto

lemma router_dispatch:
  assumes "Path r = txn_path i op" and "map_of (txns s) i = Some txn" and "map_of txnOps op = Some h"
  shows "handleTxnRouter s r = h i txn (s\<lparr>txnLastUsed := AList.update i (Now r) (txnLastUsed s)\<rparr>) r"
proof -
  have d: "CHR ''/'' \<notin> set (decimal n)" for n
  proof
    assume "CHR ''/'' \<in> set (decimal n)"
    with decimal_digits [of n] have "isDigit (CHR ''/'')" by (auto simp: list_all_iff)
    then show False by (simp add: isDigit_def)
  qed
  have "CHR ''/'' \<notin> set op" using map_of_SomeD [OF assms(3)] by (auto simp: txnOps_def)
  with d have "SplitAt (TrimPrefix (Path r) ''/api/v1/txn/'') (CHR ''/'') = [decimal (unat i), op]"
    by (simp add: assms(1) txn_path_def TrimPrefix_def HasPrefix_def SplitAt_append SplitAt_single)
  moreover have "ParseUint (decimal (unat i)) 64 = Some (unat i)" using ParseUint_decimal [of "unat i" 64] unsigned_less [of i] by simp
  ultimately show ?thesis using assms(2,3) by (simp add: handleTxnRouter_def)
qed

section \<open>The table of transactions\<close>

text \<open>
  Each entry of the table of the gateway has its own id, and it is the object that the engine holds as
  active under this id, as long as it is active.
\<close>

definition sessions_ok :: "Server \<Rightarrow> bool" where
  "sessions_ok s \<longleftrightarrow> (\<forall>i txn. map_of (txns s) i = Some txn \<longrightarrow>
     txID txn = i \<and> map_of (activeTxns (tm (tree (eng s)))) i = (if txStatus txn = TxnActive then Some txn else None))"

definition statuses :: "nat set" where
  "statuses = {200, 400, 404, 405, 409, 500, 503}"

abbreviation served_well :: "(Response \<times> Server) option \<Rightarrow> bool" where
  "served_well x \<equiv> whenever x (\<lambda>y. sessions_ok (snd y) \<and> Status (fst y) \<in> statuses)"

lemma replies [simp]: "Status (writeJSON n b) = n" "Status (writeError n m) = n" "Status GETonly = 405" "Status POSTonly = 405"
  "Status keyTooLong = 400" "Status savepointUsage = 400"
  by (simp_all add: writeJSON_def writeError_def GETonly_def POSTonly_def keyTooLong_def savepointUsage_def)

lemma statuses_simps [simp]: "200 \<in> statuses" "400 \<in> statuses" "404 \<in> statuses" "405 \<in> statuses" "409 \<in> statuses" "500 \<in> statuses" "503 \<in> statuses"
  by (simp_all add: statuses_def)

lemma sessions_ok_same:
  "sessions_ok s \<Longrightarrow> txns s' = txns s \<Longrightarrow> activeTxns (tm (tree (eng s'))) = activeTxns (tm (tree (eng s))) \<Longrightarrow> sessions_ok s'"
  by (simp add: sessions_ok_def)

lemma sessions_ok_used [simp]: "sessions_ok (s\<lparr>txnLastUsed := u\<rparr>) = sessions_ok s"
  by (simp add: sessions_ok_def)

lemma sessions_ok_putBack:
  assumes "sessions_ok s" and "map_of (txns s) i = Some txn" and "synced (tm (tree (eng s))) txn (tm (tree e)) t"
  shows "sessions_ok (putBack s e i t)"
  using assms by (auto simp: sessions_ok_def synced_def putBack_def update_conv' split: if_splits)

definition ended :: "TransactionManager \<Rightarrow> Transaction \<Rightarrow> TransactionManager \<Rightarrow> Transaction \<Rightarrow> bool" where
  "ended m txn m' t \<longleftrightarrow> txID t = txID txn \<and> txStatus t \<noteq> TxnActive \<and> map_of (activeTxns m') = (map_of (activeTxns m))(txID txn := None)"

lemma sessions_ok_ended:
  assumes "sessions_ok s" and "map_of (txns s) i = Some txn" and "ended (tm (tree (eng s))) txn (tm (tree e)) t"
  shows "sessions_ok (putBack s e i t)" and "sessions_ok (forget (putBack s e i t) i)" and "sessions_ok (s\<lparr>eng := e, txns := AList.delete i (txns s)\<rparr>)"
  using assms by (auto simp: sessions_ok_def ended_def putBack_def forget_def update_conv' delete_conv' split: if_splits)

lemma EngAbort_ended: "whenever (EngAbort e txn) (\<lambda>y. ended (tm (tree e)) txn (tm (tree (snd (snd y)))) (fst (snd y)))"
  by (auto simp: EngAbort_def withWAL_def split_beta ended_def Abort_def Let_def delete_conv' intro!: whenever_any)

lemma EngCommit_ended: "whenever (EngCommit e txn) (\<lambda>y. ended (tm (tree e)) txn (tm (tree (snd (snd y)))) (fst (snd y)))"
  unfolding EngCommit_def
  by (auto simp: split_beta intro!: whenever_mono [OF EngAbort_ended] split: option.split)
    (auto simp: withWAL_def split_beta ended_def Commit_def Let_def delete_conv' intro!: whenever_any)

lemma EngBegin_active:
  "whenever (EngBegin e l) (\<lambda>(t, e'). txStatus t = TxnActive \<and> map_of (activeTxns (tm (tree e'))) = (map_of (activeTxns (tm (tree e))))(txID t \<mapsto> t))"
  by (auto simp: EngBegin_def withWAL_def split_beta Begin_def registerTxn_def allocTxnID_def Let_def update_conv' intro!: whenever_any)

section \<open>Handlers\<close>

lemma active_scanResults: "whenever (scanResults bt txn c) (\<lambda>y. tm (snd (snd y)) = tm bt)"
proof -
  have "tm (snd (snd y)) = tm bt" if "scanResults bt txn c = Some y" for y
  proof (rule scanResults.raw_induct [where P = "\<lambda>bt txn c y. tm (snd (snd y)) = tm bt", OF _ that], goal_cases)
    case (1 scan bt txn c y)
    have rec: "whenever (scan b t c) (\<lambda>y. tm (snd (snd y)) = tm b)" for b t c using 1(1) by (auto simp: whenever_def)
    have "whenever (Some y) (\<lambda>y. tm (snd (snd y)) = tm bt)" unfolding 1(2) [symmetric]
      by (auto simp: split_beta intro!: whenever_mono [OF keeps_CursorNext] whenever_mono [OF rec] split: sum.split)
    then show ?case by simp
  qed
  then show ?thesis by (simp add: whenever_def)
qed

lemma txn_handler:
  assumes T: "sessions_ok s" "map_of (txns s) i = Some txn" and h: "(op, h) \<in> set txnOps"
  shows "served_well (h i txn s r)"
proof -
  note dead = sessions_ok_ended [OF T] T(1) and live = sessions_ok_putBack [OF T] T(1)
  have "served_well (txnCommit i txn s r)" unfolding txnCommit_def
    by (auto simp: split_beta intro!: whenever_mono [OF EngCommit_ended] dead split: sum.split)
  moreover have "served_well (txnAbort i txn s r)" unfolding txnAbort_def
    by (auto simp: split_beta intro!: whenever_mono [OF EngAbort_ended] dead split: sum.split)
  moreover have "served_well (txnPut i txn s r)" unfolding txnPut_def
    by (auto simp: split_beta intro!: whenever_mono [OF esyncs_Put] live split: sum.split option.split)
  moreover have "served_well (txnGet i txn s r)" unfolding txnGet_def
    by (auto simp: split_beta intro!: whenever_mono [OF esyncs_Get] live split: sum.split)
  moreover have "served_well (txnDelete i txn s r)" unfolding txnDelete_def
    by (auto simp: split_beta intro!: whenever_mono [OF esyncs_Delete] live split: sum.split)
  moreover have "served_well (txnScan i txn s r)" unfolding txnScan_def
    by (auto simp: split_beta intro!: whenever_mono [OF esyncs_Scan] whenever_mono [OF active_scanResults] live split: sum.split)
  moreover have "served_well (txnSavepoint i txn s r)" unfolding txnSavepoint_def
    by (auto simp: split_beta intro!: live esyncs_Savepoint split: sum.split)
  moreover have "served_well (txnRollback i txn s r)" unfolding txnRollback_def
    by (auto simp: split_beta intro!: whenever_mono [OF esyncs_Rollback] live split: sum.split)
  ultimately show ?thesis using h by (auto simp: txnOps_def)
qed

lemma handleTxnRouter_ok: "sessions_ok s \<Longrightarrow> served_well (handleTxnRouter s r)"
  unfolding handleTxnRouter_def
  by (auto simp: Let_def intro!: txn_handler dest: map_of_SomeD split: list.split option.split)

lemma handleTxnBegin_ok: "sessions_ok s \<Longrightarrow> served_well (handleTxnBegin s r)"
  unfolding handleTxnBegin_def
  by (auto simp: split_beta sessions_ok_def update_conv' intro!: whenever_mono [OF EngBegin_active])

lemma sessions_ok_putBack_then:
  assumes "sessions_ok s" and "map_of (txns s) i = Some txn" and "synced (tm (tree (eng s))) txn (tm (tree e)) t" and "tm (tree e') = tm (tree e)"
  shows "sessions_ok ((putBack s e i t)\<lparr>txnLastUsed := u, eng := e'\<rparr>)"
  using sessions_ok_putBack [OF assms(1-3)] by (rule sessions_ok_same) (simp_all add: putBack_def assms(4))

lemma handleMVCCVisibility_ok:
  assumes "sessions_ok s"
  shows "served_well (handleMVCCVisibility s r)"
proof -
  have "eng (putBack s e i t) = e" for e i t by (simp add: putBack_def)
  with assms show ?thesis
    unfolding handleMVCCVisibility_def
    by (auto simp: split_beta Let_def intro!: whenever_mono [OF active_versions(2)] sessions_ok_putBack_then synced_refresh split: option.split)
qed

lemma inspection_ok:
  assumes "sessions_ok s"
  shows "served_well (handleTreeStructure s r)" "served_well (handleTreePage s r)" "served_well (handleMVCCVersions s r)"
    "served_well (handleWALTail s r)" "served_well (handleCheckpoint jc s r)"
  unfolding handleTreeStructure_def handleTreePage_def handleMVCCVersions_def handleWALTail_def handleCheckpoint_def TreeStructure_def
  using assms
  by (auto simp: split_beta Let_def intro!: whenever_mono [OF active_buildTreeNode] whenever_mono [OF active_PageContents]
      whenever_mono [OF active_versions(1)] whenever_mono [OF active_WALTail] whenever_mono [OF active_Checkpoint]
      elim!: sessions_ok_same split: option.split sum.split)

lemma plain_ok:
  assumes "sessions_ok s"
  shows "served_well (handleHealth s r)" "served_well (handleHealthLive s r)" "served_well (handleHealthReady s r)"
    "served_well (handleEngineStats s r)" "served_well (handleBufferStats s r)" "served_well (handleBufferFrames s r)"
    "served_well (handleListScenarios s r)"
  using assms
  by (auto simp: handleHealth_def handleHealthLive_def handleHealthReady_def handleEngineStats_def handleBufferStats_def
      handleBufferFrames_def handleListScenarios_def intro!: whenever_any)

lemma shareFiles_tm: "tm (tree (shareFiles e f fs)) = tm (tree e)"
  by (simp add: shareFiles_def Let_def)

lemma restart_ok:
  assumes "sessions_ok s"
  shows "served_well (handleCrash s r)" "served_well (handleRecover jc s r)"
proof -
  have none: "sessions_ok s'" if "txns s' = []" for s' using that by (simp add: sessions_ok_def)
  show "served_well (handleCrash s r)" using assms by (auto simp: handleCrash_def intro!: none whenever_any)
  have "sessions_ok (s\<lparr>eng := e\<rparr>)" if "tm (tree e) = tm (tree (eng s))" for e using that by (intro sessions_ok_same [OF assms]) simp_all
  with assms show "served_well (handleRecover jc s r)"
    by (auto simp: handleRecover_def split_beta Let_def shareFiles_tm none intro!: whenever_any split: sum.split)
qed

lemma pruneLoop_ok: "sessions_ok s \<Longrightarrow> whenever (pruneLoop s cutoff us) sessions_ok"
proof (induction us arbitrary: s)
  case (Cons u us)
  obtain i l where u: "u = (i, l)" by force
  show ?case
    by (auto simp: u split_beta intro!: Cons whenever_mono [OF EngAbort_ended] intro: sessions_ok_ended(3) [OF Cons.prems] split: option.split)
qed simp

section \<open>API keys\<close>

lemma set_NewAPIKeySet: "set (NewAPIKeySet ks) = TrimSpace ` set ks - {[]}"
  by (induction ks) (auto simp: Let_def)

lemma Valid_iff: "Valid s key \<longleftrightarrow> key \<noteq> [] \<and> key \<in> set s"
proof -
  have "foldl (\<lambda>ok k. if k = key then True else ok) b s \<longleftrightarrow> b \<or> key \<in> set s" for b
    by (induction s arbitrary: b) auto
  then show ?thesis by (simp add: Valid_def)
qed

section \<open>Runs of the server\<close>

text \<open>Requests to any route but the one that runs a demonstration scenario, prunings and background checkpoints.\<close>

inductive gateway_step :: "JSONCodec \<Rightarrow> Server handler \<Rightarrow> Server \<Rightarrow> Server \<Rightarrow> bool" for jc other where
  request: "map_of (registerRoutes jc other) p = Some h \<Longrightarrow> p \<noteq> ''/api/v1/scenarios/'' \<Longrightarrow> h s r = Some (resp, s') \<Longrightarrow> gateway_step jc other s s'"
| prune: "pruneIdleTxns s now = Some s' \<Longrightarrow> gateway_step jc other s s'"
| checkpoint: "maybeCheckpoint jc now (eng s) = Some e \<Longrightarrow> gateway_step jc other s (s\<lparr>eng := e\<rparr>)"
| signal: "gateway_step jc other s (beginShutdown s)"

lemma routes_ok:
  assumes "sessions_ok s" and "map_of (registerRoutes jc other) p = Some h" and "p \<notin> {''/api/v1/scenarios/'', ''/metrics'', ''/ws''}"
  shows "served_well (h s r)"
proof -
  have "list_all (\<lambda>(p, h). p \<notin> {''/api/v1/scenarios/'', ''/metrics'', ''/ws''} \<longrightarrow> served_well (h s r)) (registerRoutes jc other)"
    unfolding registerRoutes_def
    by (simp add: handleTxnRouter_ok [OF assms(1)] handleTxnBegin_ok [OF assms(1)] handleMVCCVisibility_ok [OF assms(1)]
      inspection_ok [OF assms(1)] plain_ok [OF assms(1)] restart_ok [OF assms(1)])
  with map_of_SomeD [OF assms(2)] assms(3) show ?thesis by (fastforce simp: list_all_iff)
qed

lemma gateway_step_ok:
  assumes "gateway_step jc other s s'" and "sessions_ok s" and other: "\<And>s r resp s'. other s r = Some (resp, s') \<Longrightarrow> s' = s"
  shows "sessions_ok s'"
  using assms(1)
proof cases
  case (request p h r resp)
  show ?thesis
  proof (cases "p \<in> {''/metrics'', ''/ws''}")
    case True
    with request(1) have "h = other" by (auto simp: registerRoutes_def)
    with request(3) other assms(2) show ?thesis by blast
  next
    case False
    with request(2) have "p \<notin> {''/api/v1/scenarios/'', ''/metrics'', ''/ws''}" by simp
    from wheneverD [OF routes_ok [OF assms(2) request(1) this] request(3)] show ?thesis by simp
  qed
next
  case (prune now)
  with wheneverD [OF pruneLoop_ok [OF assms(2)]] assms(2) show ?thesis by (auto simp: pruneIdleTxns_def split: if_splits)
next
  case (checkpoint now e)
  have "whenever (maybeCheckpoint jc now (eng s)) (\<lambda>e. tm (tree e) = tm (tree (eng s)))"
    by (auto simp: maybeCheckpoint_def split_beta intro!: whenever_mono [OF active_Checkpoint] split: sum.split)
  from wheneverD [OF this checkpoint(2)] show ?thesis by (auto simp: checkpoint(1) intro!: sessions_ok_same [OF assms(2)])
next
  case signal
  with assms(2) show ?thesis by (simp add: sessions_ok_def beginShutdown_def)
qed

section \<open>Properties\<close>


text \<open>A server with a fresh log, and a request.\<close>

definition example_request :: "string \<Rightarrow> string \<Rightarrow> Request" where
  "example_request m p = \<lparr>Method = m, Path = p, Query = (\<lambda>_. []), Header = (\<lambda>_. []), RemoteAddr = [], Host = [],
    Field = (\<lambda>_. []), DecodeErr = None, Now = 0\<rparr>"

definition example_engine :: "WALManager \<Rightarrow> TransactionManager \<Rightarrow> StorageEngine" where
  "example_engine w m = \<lparr>cfg = DefaultConfig [], tree = NewTree 1 (NewPool 2 small_disk (Some w)) m,
    crashed = False, checkpointTicker = False, checkpointDone = False, lastCheckpointLSN = 0, lastCheckpointAt = 0\<rparr>"

lemma example_log: obtains w where "wal_inv w" and "currentLSN w = 0" and "\<not> gcLeader w"
proof -
  obtain w where o: "WALOpen fresh_fs ''wal'' 64 True 0 [] = Some (Inr w)" and w: "wal_inv w" "currentLSN w = 0"
    using open_fresh [of fresh_fs "''wal''" 64 True 0 "[]"] by (auto simp: fresh_fs_def)
  from o have "\<not> gcLeader w"
    by (auto simp: WALOpen_def fresh_fs_def loadOrCreateCatalog_def currentSegment_def Let_def)
  with w show thesis by (rule that)
qed



text \<open>
  C25. A serialization failure is forgotten by the next request. When a serializable transaction is the pivot of
  a dangerous structure, the first commit request is answered 409 and the transaction is aborted; the
  transaction stays in the table of the gateway, its conflict flags are gone, and the same request sent again is
  answered 200 and marks the aborted transaction as committed, so its writes become visible.
\<close>

theorem commit_retry_commits_aborted:
  assumes "map_of (txns s) i = Some txn" and "txID txn = i" and "txIsoLevel txn = Serializable"
    and "CheckCommit (SIREADMgr (tm (tree (eng s)))) i = Some ErrSerializationFailure"
    and "wal (bufPool (tree (eng s))) = Some w" and "wal_inv w" and "unat (currentLSN w) + 74 < 2 ^ 63" and "\<not> gcLeader w"
    and "Method r = ''POST''" and "Path r = txn_path i ''commit''"
  shows "\<exists>s1 s2. handleTxnRouter s r = Some (writeJSON 409 (RErr ErrSerializationFailure), s1) \<and>
    GetStatus (tm (tree (eng s1))) i = TxnAborted \<and>
    handleTxnRouter s1 r = Some (writeJSON 200 (RStatus ''committed''), s2) \<and>
    GetStatus (tm (tree (eng s2))) i = TxnCommitted"
proof -
  have op: "map_of txnOps ''commit'' = Some txnCommit" by (simp add: txnOps_def)
  have lim: "unat (currentLSN w) + 37 < 2 ^ 63" using assms(7) by simp
  obtain w1 e1 where e1: "EngAbort (eng s) txn = Some (Inr (), fst (Abort (tm (tree (eng s))) txn), e1)"
    "tm (tree e1) = snd (Abort (tm (tree (eng s))) txn)" "wal (bufPool (tree e1)) = Some w1" "wal_inv w1"
    "unat (currentLSN w1) = unat (currentLSN w) + 37" "gcLeader w1 = gcLeader w"
    by (rule EngAbort_ok [OF assms(5,6) lim]) (rule that)
  let ?t1 = "txn\<lparr>txStatus := TxnAborted\<rparr>" and ?m1 = "tm (tree e1)"
  let ?s1 = "s\<lparr>txnLastUsed := AList.update i (Now r) (txnLastUsed s), eng := e1, txns := AList.update i ?t1 (txns s)\<rparr>"
  have t1: "fst (Abort (tm (tree (eng s))) txn) = ?t1" by (simp add: Abort_def Let_def)
  have c1: "CheckCommit (SIREADMgr ?m1) i = None"
    using assms(2,3) by (simp add: e1(2) Abort_def Let_def Release_def release_all_def CheckCommit_def)
  have "EngCommit (eng s) txn = Some (Inl ErrSerializationFailure, ?t1, e1)"
    using assms(2-4) e1(1) t1 by (simp add: EngCommit_def)
  then have h1: "handleTxnRouter s r = Some (writeJSON 409 (RErr ErrSerializationFailure), ?s1)"
    using assms(9) by (simp add: router_dispatch [OF assms(10,1) op] txnCommit_def putBack_def)
  have g1: "GetStatus ?m1 i = TxnAborted"
    using assms(2) by (simp add: e1(2) Abort_def Let_def GetStatus_def delete_conv')
  have lim1: "unat (currentLSN w1) + 37 < 2 ^ 63" "\<not> gcLeader w1" using assms(7,8) e1(5,6) by simp_all
  have "txIsoLevel ?t1 = Serializable \<longrightarrow> CheckCommit (SIREADMgr ?m1) (txID ?t1) = None" using c1 assms(2) by simp
  then obtain lsn e2 where e2: "EngCommit e1 ?t1 = Some (Inr (), fst (Commit ?m1 (?t1\<lparr>txLastLSN := lsn\<rparr>)), e2)"
    "tm (tree e2) = snd (Commit ?m1 (?t1\<lparr>txLastLSN := lsn\<rparr>))"
    by (rule EngCommit_ok [OF e1(3,4) lim1]) (rule that)
  have m1: "map_of (txns ?s1) i = Some ?t1" by (simp add: update_conv')
  obtain s2 where h2: "handleTxnRouter ?s1 r = Some (writeJSON 200 (RStatus ''committed''), s2)" and s2: "eng s2 = e2"
    using e2(1) assms(9) by (simp add: router_dispatch [OF assms(10) m1 op] txnCommit_def putBack_def forget_def)
  have "GetStatus (tm (tree e2)) i = TxnCommitted"
    using assms(2) by (simp add: e2(2) Commit_def Let_def GetStatus_def delete_conv')
  with h1 g1 h2 s2 show ?thesis by (intro exI [of _ ?s1] exI [of _ s2]) simp
qed

text \<open>Two transactions that each read what the other one writes.\<close>

definition pivot_locks :: SIREADLockManager where
  "pivot_locks =
     (let m = AcquireRead (AcquireRead NewSIREADLockManager 1 [1]) 2 [2];
          m = snd (CheckAndRecordWrite m 2 [1] [1])
      in snd (CheckAndRecordWrite m 1 [2] [2]))"

lemma pivot_locks_1: "CheckCommit pivot_locks 1 = Some ErrSerializationFailure"
  by code_simp

theorem commit_retry_commits_aborted_witness:
  "\<exists>s r s1 s2. handleTxnRouter s r = Some (writeJSON 409 (RErr ErrSerializationFailure), s1) \<and>
    handleTxnRouter s1 r = Some (writeJSON 200 (RStatus ''committed''), s2) \<and> GetStatus (tm (tree (eng s2))) 1 = TxnCommitted"
proof -
  obtain w where w: "wal_inv w" "currentLSN w = 0" "\<not> gcLeader w" by (rule example_log)
  define txn where "txn = example_txn\<lparr>txID := 1, txIsoLevel := Serializable\<rparr>"
  define s where "s = (NewServer (example_engine w (NewTransactionManager\<lparr>SIREADMgr := pivot_locks\<rparr>)) (DefaultConfig []))\<lparr>txns := [(1, txn)]\<rparr>"
  have "map_of (txns s) 1 = Some txn" "txID txn = 1" "txIsoLevel txn = Serializable"
    "CheckCommit (SIREADMgr (tm (tree (eng s)))) 1 = Some ErrSerializationFailure" "wal (bufPool (tree (eng s))) = Some w"
    by (simp_all add: s_def txn_def NewServer_def example_engine_def NewTree_def NewPool_def pivot_locks_1)
  from commit_retry_commits_aborted [OF this w(1), of "example_request ''POST'' (txn_path 1 ''commit'')"] w(2,3) show ?thesis
    by (auto simp: example_request_def)
qed

end
