(* ===== verification/Spec2Isabelle.thy ===== *)
theory Spec2Isabelle
  imports Prelude Page Slotted_Ops Disk Tuple Deadlock SIRead Transaction Leaf Bloom Internal Eviction WAL_Props Pool_Props Inspect_Props Vacuum_Props Delete_Props Recovery_Props Tree_Props Split_Props Structure_Props Insert_Props Gateway_Props
begin

text \<open>
  A verification development for the storage engine in \<^verbatim>\<open>src/internal\<close> and its gateway in \<^verbatim>\<open>src/gateway\<close>: an MVCC
  B+tree over slotted pages, with a buffer pool, a write-ahead log, restart recovery and vacuum, behind an HTTP
  server.

  \<^bold>\<open>The program.\<close> A page is an array of 4096 bytes with a header, a slot array and records. The disk
  manager reads and writes pages and keeps a free list. The log manager appends records to a buffer and to
  segment files. The buffer pool caches pages in frames, evicts with a clock or LRU-2 policy, and flushes
  the log before it writes a page. The transaction manager hands out ids and snapshots and knows the
  outcome of transactions, with a deadlock detector and SIREAD locks. The tree stores versions of tuples
  in leaves, splits and merges pages, and reaches disk and log through the pool. Recovery replays the log
  after a restart. Vacuum removes dead versions. The engine ties these together under one mutex, so each
  of its operations is one step of the model. The gateway keeps a table of open transactions, maps requests to
  engine calls behind API keys and a rate limiter, and forwards engine events to WebSocket clients.

  \<^bold>\<open>Representation.\<close> Structs are records, enumerations are datatypes or the words of the code, integers are
  words of their width. A slice is \<open>NilSlice\<close> or \<open>Slice bs\<close>. An error is \<open>Inl e\<close> with \<open>error\<close> from theory
  \<open>Prelude\<close>. A run-time panic, such as an index out of range, is the value \<^term>\<open>None\<close>. State is passed
  explicitly: the tree owns the pool, the pool owns disk and log, and a frame pointer is a frame index. A Go map is a
  partial function, or an association list where the code iterates over it.

  \<^bold>\<open>Theories.\<close>
  \<^item> \<open>Prelude\<close>: byte arrays, little-endian fields, CRC-32, errors, generic lemmas.
  \<^item> \<open>Page\<close>, \<open>Slotted\<close>, \<open>Slotted_Search\<close>, \<open>Slotted_Layout\<close>, \<open>Slotted_Ops\<close>: \<^verbatim>\<open>page/page.go\<close> and
    \<^verbatim>\<open>page/slotted.go\<close>. A well-formed page is a list of records; insertion, deletion, compaction and search are
    operations on that list (locale \<open>record_page\<close>, interpreted on the page).
  \<^item> \<open>Disk\<close>: \<^verbatim>\<open>disk/\<close>. Reads return what was written; the free list is a stack of distinct pages.
  \<^item> \<open>Tuple\<close>, \<open>Transaction\<close>, \<open>Deadlock\<close>, \<open>SIRead\<close>: \<^verbatim>\<open>mvcc/\<close>. Encoding, visibility, status table, waits-for
    graph, serialization conflicts.
  \<^item> \<open>Leaf\<close>, \<open>Internal\<close>, \<open>Bloom\<close>: the pages of the tree and their filters (\<^verbatim>\<open>btree/leaf.go\<close>,
    \<^verbatim>\<open>btree/internal.go\<close>, \<^verbatim>\<open>btree/bloom.go\<close>).
  \<^item> \<open>Eviction\<close>, \<open>Pool\<close>, \<open>Pool_Props\<close>: \<^verbatim>\<open>buffer/\<close>. Both policies satisfy the interface \<open>eviction_policy\<close>; the pool is
    a transparent cache (locale \<open>page_cache\<close>) that obeys the write-ahead rule.
  \<^item> \<open>LogRecord\<close>, \<open>Catalog\<close>, \<open>WAL\<close>, \<open>WAL_Log\<close>, \<open>WAL_Props\<close>: \<^verbatim>\<open>wal/\<close>. The segment files and the buffer are a list of records
    with increasing positions; durability, group commit, truncation, reopening after a crash.
  \<^item> \<open>Tree\<close>, \<open>Split\<close>, \<open>Merge\<close>: \<^verbatim>\<open>btree/tree.go\<close>, \<^verbatim>\<open>btree/cursor.go\<close>, \<^verbatim>\<open>btree/split.go\<close>, \<^verbatim>\<open>btree/merge.go\<close>.
    \<open>Tree_Pins\<close> tracks the pins an operation owns; \<open>Tree_Props\<close> defines search trees of pages and shows that
    descents end and that \<open>Get\<close> reads the abstract map of versions; \<open>Tree_Update\<close> and \<open>Insert_Props\<close> show that
    \<open>Insert\<close> into a leaf with room updates this map, and what happens to the Bloom filters; \<open>Split_Props\<close> shows what
    splits and merges do to the tuples of two leaves; \<open>Delete_Props\<close> the checksum of a page after a
    delete. \<open>Page_Frame\<close> and \<open>Tree_Example\<close> hold shared lemmas and a one-leaf tree.
  \<^item> \<open>Vacuum\<close>, \<open>Vacuum_Props\<close>: \<^verbatim>\<open>mvcc/vacuum.go\<close>. A pass removes exactly the tuples that satisfy the rule;
    the rule is too generous.
  \<^item> \<open>Recovery\<close>, \<open>Recovery_Props\<close>: \<^verbatim>\<open>wal/checkpoint.go\<close> and \<^verbatim>\<open>recovery/aries.go\<close>. Analysis, redo, undo; the
    outcome that each transaction has after a restart.
  \<^item> \<open>Engine\<close>, \<open>Inspect\<close>, \<open>Inspect_Props\<close>, \<open>Structure\<close>, \<open>Structure_Props\<close>: \<^verbatim>\<open>engine/engine.go\<close>. Opening, closing,
    transactions, savepoints, reads and writes; the inspection endpoints, whose answers agree with the read path; the
    printed tree, which is the tree of the pages.
  \<^item> \<open>Txn_Objects\<close>: every operation of the tree and the engine keeps a transaction and the entry of the
    table of active transactions the same object.
  \<^item> \<open>Events\<close>: \<^verbatim>\<open>events/bus.go\<close> and \<^verbatim>\<open>metrics/collector.go\<close>. Delivery to the subscriptions in force; what
    the transaction metrics count.
  \<^item> \<open>Simulation\<close>: \<^verbatim>\<open>simulation/scenarios.go\<close>.
  \<^item> \<open>Http\<close>, \<open>Http_Props\<close>: \<^verbatim>\<open>gateway/auth.go\<close>, \<^verbatim>\<open>gateway/ratelimit.go\<close>, \<^verbatim>\<open>gateway/websocket.go\<close>. The token bucket
    bound, the queues of the clients.
  \<^item> \<open>Gateway\<close>, \<open>Gateway_Props\<close>: \<^verbatim>\<open>gateway/server.go\<close> and \<^verbatim>\<open>gateway/rest.go\<close>. One definition per handler, the routes, the
    middleware chain, pruning and shutdown; the table of transactions agrees with the engine in every run.

  \<^bold>\<open>Loops.\<close> Loops over slots are structural recursions over index lists; binary searches and the mutual
  recursion of splits and merges along the parents have termination proofs. Loops that follow page
  links or log positions (descents, cursors, the leaf chain, the printed tree, undo) are partial functions in the option
  monad, because a cyclic chain of pages does not end; the descent is proved to return on every
  search tree, and the printing of the tree on every finite one. The scan of a log file consumes bytes. Group commit is
  modelled as one goroutine runs it when no other interferes, and is proved to return.

  \<^bold>\<open>Outside code.\<close> The JSON text of checkpoints is produced by \<open>encoding/json\<close>; its two functions are the record
  \<open>JSONCodec\<close>, an argument of the definitions that use them. A request holds the decoded fields of its body. Parsing of
  network addresses is the record \<open>NetLib\<close>. The metrics of the Prometheus library are known by the calls made on them. Files of the
  operating system are byte lists with an open flag; archive commands are recorded, not run.

  \<^bold>\<open>Not modelled.\<close> Logging, which no component depends on; the commands, which read flags and print; sockets, signals and the
  pump loops of a WebSocket connection; the ticker goroutines, whose bodies are operations of the model. Events
  are published by components of the engine at points that the model of these components leaves out.
  Interleavings of goroutines inside one engine operation are excluded by the mutex of the engine; a handler of the
  gateway is one step, while the code releases its lock between the lookup of a transaction and the
  engine call. An insert that splits is modelled; the theorems on it are about the pages of the split, not about the map of
  the whole tree.
\<close>

end
